(* ===== verification/A9_Prelude.thy ===== *)
theory A9_Prelude
  imports Main "HOL-Library.AList" "HOL-Library.Char_ord" "HOL-Library.List_Lexorder" "HOL-Library.Multiset"
begin

text \<open>
  Shared vocabulary of the development: Rust's fixed-width arithmetic (\<open>u64\<close>/\<open>usize\<close> as
  \<open>nat\<close> and \<open>i128\<close> as \<open>int\<close>, with saturation and overflow checks written out), Rust's
  \<open>Result\<close> as a sum type, \<open>HashMap\<close> as an association list with distinct keys, and the
  fallible folds that replay a log.  The two interfaces the components share are locales:
  \<open>keyed_map\<close> (what a map promises) and \<open>fallible_step\<close> (an invariant kept by every
  successful step is kept by every successful run).
\<close>

section \<open>Collections of rewrite rules\<close>

named_theorems rust_arith \<open>unfolding rules of the fixed-width operations\<close>
named_theorems hm_simps \<open>laws of the hash maps\<close>

section \<open>Fixed-width integers\<close>

type_synonym u32 = nat
type_synonym u64 = nat
type_synonym usize = nat
type_synonym i128 = int

definition u64_max :: nat where
  "u64_max = 18446744073709551615"

definition u32_max :: nat where
  "u32_max = 4294967295"

definition i128_max :: int where
  "i128_max = 170141183460469231731687303715884105727"

definition i128_min :: int where
  "i128_min = - 170141183460469231731687303715884105728"

lemma u64_max_pow: "u64_max = 2 ^ 64 - 1"
  by (simp add: u64_max_def)

lemma i128_max_pow: "i128_max = 2 ^ 127 - 1" and i128_min_pow: "i128_min = - (2 ^ 127)"
  by (simp_all add: i128_max_def i128_min_def)

text \<open>\<open>saturating_sub\<close> on unsigned integers is the truncated subtraction of \<open>nat\<close>.\<close>

definition saturating_add :: "nat \<Rightarrow> nat \<Rightarrow> nat" where
  "saturating_add a b = min (a + b) u64_max"

definition saturating_sub :: "nat \<Rightarrow> nat \<Rightarrow> nat" where
  "saturating_sub a b = a - b"

definition checked_add :: "nat \<Rightarrow> nat \<Rightarrow> nat option" where
  "checked_add a b = (if a + b \<le> u64_max then Some (a + b) else None)"

text \<open>\<open>fetch_add\<close> and \<open>fetch_sub\<close> on an \<open>AtomicUsize\<close> wrap around.\<close>

definition wrapping_add :: "nat \<Rightarrow> nat \<Rightarrow> nat" where
  "wrapping_add a b = (a + b) mod (u64_max + 1)"

definition wrapping_sub :: "nat \<Rightarrow> nat \<Rightarrow> nat" where
  "wrapping_sub a b = (a + (u64_max + 1) - b mod (u64_max + 1)) mod (u64_max + 1)"

definition in_i128 :: "int \<Rightarrow> bool" where
  "in_i128 x \<longleftrightarrow> i128_min \<le> x \<and> x \<le> i128_max"

definition i128_clamp :: "int \<Rightarrow> int" where
  "i128_clamp x = max i128_min (min i128_max x)"

definition i128_checked_add :: "int \<Rightarrow> int \<Rightarrow> int option" where
  "i128_checked_add a b = (if in_i128 (a + b) then Some (a + b) else None)"

definition i128_checked_sub :: "int \<Rightarrow> int \<Rightarrow> int option" where
  "i128_checked_sub a b = (if in_i128 (a - b) then Some (a - b) else None)"

definition i128_checked_mul :: "int \<Rightarrow> int \<Rightarrow> int option" where
  "i128_checked_mul a b = (if in_i128 (a * b) then Some (a * b) else None)"

definition i128_saturating_add :: "int \<Rightarrow> int \<Rightarrow> int" where
  "i128_saturating_add a b = i128_clamp (a + b)"

definition i128_saturating_sub :: "int \<Rightarrow> int \<Rightarrow> int" where
  "i128_saturating_sub a b = i128_clamp (a - b)"

definition i128_saturating_mul :: "int \<Rightarrow> int \<Rightarrow> int" where
  "i128_saturating_mul a b = i128_clamp (a * b)"

text \<open>Integer division truncates towards zero, as Rust's \<open>/\<close> does.\<close>

definition trunc_div :: "int \<Rightarrow> int \<Rightarrow> int" where
  "trunc_div a b = sgn a * sgn b * (\<bar>a\<bar> div \<bar>b\<bar>)"

lemmas [rust_arith] =
  saturating_add_def saturating_sub_def checked_add_def in_i128_def i128_clamp_def
  i128_checked_add_def i128_checked_sub_def i128_checked_mul_def
  i128_saturating_add_def i128_saturating_sub_def i128_saturating_mul_def

lemma saturating_add_le: "saturating_add a b \<le> u64_max"
  by (simp add: rust_arith)

lemma saturating_add_exact: "a + b \<le> u64_max \<Longrightarrow> saturating_add a b = a + b"
  by (simp add: rust_arith)

lemma saturating_add_le_sum: "saturating_add a b \<le> a + b"
  by (simp add: rust_arith)

lemma wrapping_add_exact: "a + b \<le> u64_max \<Longrightarrow> wrapping_add a b = a + b"
  by (simp add: wrapping_add_def)

lemma wrapping_sub_exact: "b \<le> a \<Longrightarrow> a \<le> u64_max \<Longrightarrow> wrapping_sub a b = a - b"
proof -
  assume "b \<le> a" "a \<le> u64_max"
  then have "a + (u64_max + 1) - b mod (u64_max + 1) = (a - b) + (u64_max + 1)" by simp
  with \<open>a \<le> u64_max\<close> show ?thesis by (simp only: wrapping_sub_def mod_add_self2) simp
qed

lemma i128_clamp_id: "in_i128 x \<Longrightarrow> i128_clamp x = x"
  by (simp add: rust_arith)

lemma in_i128_clamp: "in_i128 (i128_clamp x)"
  by (simp add: rust_arith i128_max_def i128_min_def)

lemma trunc_div_nonneg: "0 \<le> a \<Longrightarrow> 0 < b \<Longrightarrow> trunc_div a b = a div b"
  by (cases "a = 0") (simp_all add: trunc_div_def)

section \<open>Results\<close>

text \<open>A Rust \<open>Result<'a, 'e>\<close> is \<open>'e + 'a\<close>: \<open>Inl\<close> is \<open>Err\<close>, \<open>Inr\<close> is \<open>Ok\<close>.\<close>

fun and_then :: "'e + 'a \<Rightarrow> ('a \<Rightarrow> 'e + 'b) \<Rightarrow> 'e + 'b" where
  "and_then (Inl e) f = Inl e"
| "and_then (Inr x) f = f x"

definition ok_or :: "'e \<Rightarrow> 'a option \<Rightarrow> 'e + 'a" where
  "ok_or e x = (case x of None \<Rightarrow> Inl e | Some v \<Rightarrow> Inr v)"

fun is_ok :: "'e + 'a \<Rightarrow> bool" where
  "is_ok (Inl e) = False"
| "is_ok (Inr x) = True"

text \<open>An early return guarded by a condition: \<open>if c { return Err(e) }\<close>.\<close>

definition guard_err :: "bool \<Rightarrow> 'e \<Rightarrow> 'e + 'a \<Rightarrow> 'e + 'a" where
  "guard_err c e k = (if c then Inl e else k)"

lemma and_then_Inr: "and_then r f = Inr y \<longleftrightarrow> (\<exists>x. r = Inr x \<and> f x = Inr y)"
  by (cases r) auto

lemma and_then_Inl: "and_then r f = Inl e \<longleftrightarrow> r = Inl e \<or> (\<exists>x. r = Inr x \<and> f x = Inl e)"
  by (cases r) auto

lemma ok_or_Inr: "ok_or e x = Inr y \<longleftrightarrow> x = Some y"
  by (cases x) (auto simp: ok_or_def)

lemma guard_err_Inr: "guard_err c e k = Inr y \<longleftrightarrow> \<not> c \<and> k = Inr y"
  by (simp add: guard_err_def)

lemma is_ok_iff: "is_ok r \<longleftrightarrow> (\<exists>x. r = Inr x)"
  by (cases r) auto

lemmas result_simps = and_then_Inr and_then_Inl ok_or_Inr guard_err_Inr is_ok_iff

section \<open>Fallible folds\<close>

fun try_fold :: "('s \<Rightarrow> 'r \<Rightarrow> 'e + 's) \<Rightarrow> 's \<Rightarrow> 'r list \<Rightarrow> 'e + 's" where
  "try_fold f s [] = Inr s"
| "try_fold f s (r # rs) = (case f s r of Inl e \<Rightarrow> Inl e | Inr s' \<Rightarrow> try_fold f s' rs)"

lemma try_fold_append:
  "try_fold f s (xs @ ys) = and_then (try_fold f s xs) (\<lambda>s'. try_fold f s' ys)"
  by (induction xs arbitrary: s) (auto split: sum.splits)

lemma try_fold_snoc:
  "try_fold f s (xs @ [x]) = and_then (try_fold f s xs) (\<lambda>s'. f s' x)"
  by (cases "try_fold f s xs") (auto simp: try_fold_append split: sum.splits)

text \<open>
  The interface of everything that replays records one after the other and stops at the
  first error: a step and an invariant that every successful step keeps.
\<close>

locale fallible_step =
  fixes step :: "'s \<Rightarrow> 'r \<Rightarrow> 'e + 's"
    and good :: "'r \<Rightarrow> bool"
    and inv :: "'s \<Rightarrow> bool"
  assumes step_inv: "inv s \<Longrightarrow> good r \<Longrightarrow> step s r = Inr s' \<Longrightarrow> inv s'"
begin

lemma run_inv: "inv s \<Longrightarrow> list_all good rs \<Longrightarrow> try_fold step s rs = Inr s' \<Longrightarrow> inv s'"
proof (induction rs arbitrary: s)
  case Nil
  then show ?case by simp
next
  case (Cons r rs)
  then show ?case by (auto split: sum.splits intro: step_inv)
qed

lemma run_prefix_inv: "inv s \<Longrightarrow> list_all good xs \<Longrightarrow> try_fold step s (xs @ ys) = Inr s' \<Longrightarrow>
    \<exists>t. try_fold step s xs = Inr t \<and> inv t \<and> try_fold step t ys = Inr s'"
  by (auto simp: try_fold_append result_simps dest: run_inv)

end

text \<open>
  The interface of everything that is replayed forwards and reverted by subtracting: a
  fallible step that, when it succeeds, adds a fixed amount to every observation, and a
  revert that takes it away again.  Reverting a run gives the observations back, in
  whatever order the records are reverted.
\<close>

locale additive_undo =
  fixes step :: "'s \<Rightarrow> 'r \<Rightarrow> 'e + 's"
    and revert :: "'r \<Rightarrow> 'm \<Rightarrow> 'm"
    and store :: "'s \<Rightarrow> 'm"
    and read :: "'m \<Rightarrow> 'k \<Rightarrow> int"
    and delta :: "'r \<Rightarrow> 'k \<Rightarrow> int"
  assumes step_delta: "step s r = Inr s' \<Longrightarrow> read (store s') k = read (store s) k + delta r k"
    and revert_delta: "read (revert r m) k = read m k - delta r k"
begin

lemma run_delta: "try_fold step s rs = Inr s' \<Longrightarrow>
    read (store s') k = read (store s) k + sum_list (map (\<lambda>r. delta r k) rs)"
proof (induction rs arbitrary: s)
  case Nil
  then show ?case by simp
next
  case (Cons r rs)
  then show ?case by (auto split: sum.splits dest: step_delta)
qed

lemma revert_all_delta: "read (fold revert rs m) k = read m k - sum_list (map (\<lambda>r. delta r k) rs)"
  by (induction rs arbitrary: m) (auto simp: revert_delta)

lemma undo:
  assumes "try_fold step s rs = Inr s'" and "mset rs = mset rs'"
  shows "read (fold revert rs' (store s')) k = read (store s) k"
proof -
  have "mset (map (\<lambda>r. delta r k) rs) = mset (map (\<lambda>r. delta r k) rs')" using assms(2) by simp
  then have "sum_list (map (\<lambda>r. delta r k) rs) = sum_list (map (\<lambda>r. delta r k) rs')"
    by (metis sum_mset_sum_list)
  with run_delta[OF assms(1), of k] show ?thesis by (simp add: revert_all_delta)
qed

end

section \<open>Hash maps\<close>

text \<open>
  A \<open>HashMap\<close> (or \<open>DashMap\<close>) is an association list with distinct keys.  The list order
  stands for the map's iteration order, which Rust leaves unspecified; nothing proved of
  the components depends on it, since every statement quantifies over all states.
\<close>

type_synonym ('k, 'v) hmap = "('k \<times> 'v) list"

definition hm_get :: "('k, 'v) hmap \<Rightarrow> 'k \<Rightarrow> 'v option" where
  "hm_get m k = map_of m k"

definition hm_insert :: "'k \<Rightarrow> 'v \<Rightarrow> ('k, 'v) hmap \<Rightarrow> ('k, 'v) hmap" where
  "hm_insert k v m = AList.update k v m"

definition hm_remove :: "'k \<Rightarrow> ('k, 'v) hmap \<Rightarrow> ('k, 'v) hmap" where
  "hm_remove k m = AList.delete k m"

definition hm_contains :: "('k, 'v) hmap \<Rightarrow> 'k \<Rightarrow> bool" where
  "hm_contains m k \<longleftrightarrow> hm_get m k \<noteq> None"

definition hm_values :: "('k, 'v) hmap \<Rightarrow> 'v list" where
  "hm_values m = map snd m"

definition hm_keys :: "('k, 'v) hmap \<Rightarrow> 'k list" where
  "hm_keys m = map fst m"

definition hm_wf :: "('k, 'v) hmap \<Rightarrow> bool" where
  "hm_wf m \<longleftrightarrow> distinct (map fst m)"

definition hm_map_values :: "('v \<Rightarrow> 'w) \<Rightarrow> ('k, 'v) hmap \<Rightarrow> ('k, 'w) hmap" where
  "hm_map_values f m = map (\<lambda>(k, v). (k, f v)) m"

definition hm_retain :: "('k \<Rightarrow> 'v \<Rightarrow> bool) \<Rightarrow> ('k, 'v) hmap \<Rightarrow> ('k, 'v) hmap" where
  "hm_retain P m = filter (\<lambda>(k, v). P k v) m"

text \<open>What the components rely on, stated once over an abstract map.\<close>

locale keyed_map =
  fixes get :: "'m \<Rightarrow> 'k \<Rightarrow> 'v option"
    and put :: "'k \<Rightarrow> 'v \<Rightarrow> 'm \<Rightarrow> 'm"
    and del :: "'k \<Rightarrow> 'm \<Rightarrow> 'm"
    and wf :: "'m \<Rightarrow> bool"
    and size_of :: "'m \<Rightarrow> nat"
  assumes get_put: "get (put k v m) k' = (if k' = k then Some v else get m k')"
    and get_del: "get (del k m) k' = (if k' = k then None else get m k')"
    and wf_put: "wf m \<Longrightarrow> wf (put k v m)"
    and wf_del: "wf m \<Longrightarrow> wf (del k m)"
    and size_put: "size_of (put k v m) = (if get m k = None then Suc (size_of m) else size_of m)"
    and size_del: "wf m \<Longrightarrow> size_of (del k m) = (if get m k = None then size_of m else size_of m - 1)"
begin

lemma get_put_other: "k' \<noteq> k \<Longrightarrow> get (put k v m) k' = get m k'"
  by (simp add: get_put)

lemma get_fold_del:
  "get (fold del ks m) k = (if k \<in> set ks then None else get m k)"
  by (induction ks arbitrary: m) (auto simp: get_del)

lemma wf_fold_del: "wf m \<Longrightarrow> wf (fold del ks m)"
  by (induction ks arbitrary: m) (auto simp: wf_del)

lemma del_put_get: "get m k = None \<Longrightarrow> get (del k (put k v m)) k' = get m k'"
  by (simp add: get_del get_put)

end

lemma hm_get_insert: "hm_get (hm_insert k v m) k' = (if k' = k then Some v else hm_get m k')"
  by (simp add: hm_get_def hm_insert_def update_conv')

lemma hm_get_remove: "hm_get (hm_remove k m) k' = (if k' = k then None else hm_get m k')"
  by (simp add: hm_get_def hm_remove_def delete_conv')

lemma hm_wf_insert: "hm_wf m \<Longrightarrow> hm_wf (hm_insert k v m)"
  by (simp add: hm_wf_def hm_insert_def distinct_update)

lemma hm_wf_remove: "hm_wf m \<Longrightarrow> hm_wf (hm_remove k m)"
  by (simp add: hm_wf_def hm_remove_def distinct_delete)

lemma hm_length_insert:
  "length (hm_insert k v m) = (if hm_get m k = None then Suc (length m) else length m)"
  unfolding hm_insert_def hm_get_def by (induction m) auto

lemma delete_no_key: "map_of m k = None \<Longrightarrow> AList.delete k m = m"
  by (induction m) (auto split: if_splits)

lemma hm_remove_absent: "hm_get m k = None \<Longrightarrow> hm_remove k m = m"
  by (simp add: hm_get_def hm_remove_def delete_no_key)

lemma hm_length_remove:
  "hm_wf m \<Longrightarrow> length (hm_remove k m) = (if hm_get m k = None then length m else length m - 1)"
  unfolding hm_wf_def hm_remove_def hm_get_def
proof (induction m)
  case Nil
  then show ?case by simp
next
  case (Cons p m)
  show ?case
  proof (cases "fst p = k")
    case True
    with Cons.prems have "map_of m k = None"
      by (auto simp: map_of_eq_None_iff)
    with True show ?thesis
      by (cases p) (simp add: delete_no_key)
  next
    case False
    with Cons show ?thesis
      by (cases p, cases m) (auto split: if_splits)
  qed
qed

interpretation hm: keyed_map hm_get hm_insert hm_remove hm_wf length
  by unfold_locales
    (auto simp: hm_get_insert hm_get_remove hm_wf_insert hm_wf_remove hm_length_insert
      hm_length_remove)

lemma hm_get_map_values: "hm_get (hm_map_values f m) k = map_option f (hm_get m k)"
  by (induction m) (auto simp: hm_get_def hm_map_values_def)

lemma hm_wf_map_values: "hm_wf (hm_map_values f m) = hm_wf m"
  by (induction m) (auto simp: hm_wf_def hm_map_values_def rev_image_eqI)

lemma hm_length_map_values: "length (hm_map_values f m) = length m"
  by (simp add: hm_map_values_def)

lemma hm_get_retain:
  "hm_wf m \<Longrightarrow> hm_get (hm_retain P m) k =
    (case hm_get m k of None \<Rightarrow> None | Some v \<Rightarrow> if P k v then Some v else None)"
  by (induction m) (auto simp: hm_get_def hm_retain_def hm_wf_def map_of_eq_None_iff image_iff
      split: option.splits if_splits dest: map_of_SomeD)

lemma hm_wf_retain: "hm_wf m \<Longrightarrow> hm_wf (hm_retain P m)"
  by (auto simp: hm_wf_def hm_retain_def distinct_map_filter)

lemma hm_wf_Nil: "hm_wf []"
  by (simp add: hm_wf_def)

lemma hm_get_Nil: "hm_get [] k = None"
  by (simp add: hm_get_def)

lemma hm_get_SomeD: "hm_get m k = Some v \<Longrightarrow> (k, v) \<in> set m"
  by (simp add: hm_get_def map_of_SomeD)

lemma hm_get_SomeI: "hm_wf m \<Longrightarrow> (k, v) \<in> set m \<Longrightarrow> hm_get m k = Some v"
  by (simp add: hm_get_def hm_wf_def)

lemma hm_get_iff: "hm_wf m \<Longrightarrow> hm_get m k = Some v \<longleftrightarrow> (k, v) \<in> set m"
  by (auto intro: hm_get_SomeI dest: hm_get_SomeD)

lemma hm_ball:
  "hm_wf m \<Longrightarrow> (\<forall>(k, v) \<in> set m. P k v) \<longleftrightarrow> (\<forall>k v. hm_get m k = Some v \<longrightarrow> P k v)"
  by (auto simp: hm_get_iff)

lemma hm_keys_iff: "k \<in> set (hm_keys m) \<longleftrightarrow> hm_get m k \<noteq> None"
  by (simp add: hm_keys_def hm_get_def map_of_eq_None_iff)

lemma hm_values_set: "hm_wf m \<Longrightarrow> v \<in> set (hm_values m) \<longleftrightarrow> (\<exists>k. hm_get m k = Some v)"
  by (auto simp: hm_values_def hm_get_iff image_iff) force

lemma hm_contains_insert:
  "hm_contains (hm_insert k v m) k' \<longleftrightarrow> k' = k \<or> hm_contains m k'"
  by (simp add: hm_contains_def hm_get_insert)

lemma hm_contains_remove:
  "hm_contains (hm_remove k m) k' \<longleftrightarrow> k' \<noteq> k \<and> hm_contains m k'"
  by (simp add: hm_contains_def hm_get_remove)

lemmas [hm_simps] =
  hm_get_insert hm_get_remove hm_wf_insert hm_wf_remove hm_length_insert hm_length_remove
  hm_get_map_values hm_wf_map_values hm_length_map_values hm_wf_retain hm_wf_Nil hm_get_Nil
  hm_contains_insert hm_contains_remove

section \<open>Sums over the values of a map\<close>

lemma sum_list_update_new:
  "map_of m k = None \<Longrightarrow> AList.update k v m = m @ [(k, v)]"
  by (induction m) (auto split: if_splits)

lemma hm_values_insert_new:
  "hm_get m k = None \<Longrightarrow> hm_values (hm_insert k v m) = hm_values m @ [v]"
  by (simp add: hm_get_def hm_insert_def hm_values_def sum_list_update_new)

lemma sum_list_hm_remove:
  fixes f :: "'v \<Rightarrow> 'n::comm_monoid_add"
  assumes "hm_wf m" and "hm_get m k = Some v"
  shows "sum_list (map f (hm_values (hm_remove k m))) + f v = sum_list (map f (hm_values m))"
  using assms unfolding hm_wf_def hm_get_def hm_values_def hm_remove_def
proof (induction m)
  case Nil
  then show ?case by simp
next
  case (Cons p m)
  show ?case
  proof (cases "fst p = k")
    case True
    with Cons.prems have "map_of m k = None" and "snd p = v"
      by (auto simp: map_of_eq_None_iff)
    with True show ?thesis
      by (cases p) (simp add: delete_no_key add.commute)
  next
    case False
    with Cons show ?thesis by (cases p) (auto simp: add.assoc)
  qed
qed

lemma sum_list_hm_insert:
  fixes f :: "'v \<Rightarrow> nat"
  assumes "hm_get m k = Some v"
  shows "sum_list (map f (hm_values (hm_insert k v' m))) + f v = sum_list (map f (hm_values m)) + f v'"
  using assms unfolding hm_get_def hm_values_def hm_insert_def
  by (induction m) (auto split: if_splits)

lemma hm_remove_insert: "hm_remove k (hm_insert k v m) = hm_remove k m"
  by (simp add: hm_remove_def hm_insert_def delete_update_same)

lemma hm_insert_same: "hm_get m k = Some v \<Longrightarrow> hm_insert k v m = m"
  unfolding hm_get_def hm_insert_def by (induction m) (auto split: if_splits)

section \<open>Lists\<close>

lemma sum_list_filter_split:
  fixes f :: "'a \<Rightarrow> nat"
  shows "sum_list (map f (filter P xs)) + sum_list (map f (filter (\<lambda>x. \<not> P x) xs))
    = sum_list (map f xs)"
  by (induction xs) auto

lemma length_filter_split:
  "length (filter P xs) + length (filter (\<lambda>x. \<not> P x) xs) = length xs"
  by (induction xs) auto

end
