(* ===== verification/A9_Ledger.thy ===== *)
theory A9_Ledger
  imports A9_Prelude
begin

text \<open>
  The durable payment idempotency ledger (\<^verbatim>\<open>src/a9/ledger.rs\<close>): its data, the append-only
  log, replay, expiry, pruning, and the operations of \<open>WalletLedger\<close>.

  The log file is a byte string (\<open>string\<close>, one \<open>char\<close> per byte); a missing file is the
  empty string, which \<open>load\<close> treats alike.  \<open>serde_json\<close> is a parameter of the model:
  \<open>to_vec\<close> encodes a record and \<open>from_slice\<close> decodes a line (\<open>None\<close> is a parse error).
  Disk writes may fail: an environment says, for the n-th write, whether it succeeded, and
  if not how many bytes of the line reached the file before the error was reported.
\<close>

section \<open>Data\<close>

record payment_tuple =
  pt_sender :: string
  pt_recipient :: string
  pt_amount_units :: i128
  pt_fee_units :: i128

datatype entry_state =
    Reserved
  | Pending
  | Confirmed u32
  | Rejected string
  | Expired
  | AmbiguousExisting

fun is_terminal :: "entry_state \<Rightarrow> bool" where
  "is_terminal (Confirmed _) = True"
| "is_terminal (Rejected _) = True"
| "is_terminal Expired = True"
| "is_terminal _ = False"

record ledger_entry =
  e_key :: string
  e_idempotency_key :: "string option"
  e_tuple :: payment_tuple
  e_timestamp :: u64
  e_tx_id :: string
  e_signed_tx :: "string option"
  e_state :: entry_state
  e_created_at :: u64
  e_updated_at :: u64

datatype log_record =
    Upsert ledger_entry
  | State string entry_state u64
  | Delete string string

datatype allocate_error = ExhaustedTimestamps

datatype submission_check =
    New
  | Duplicate ledger_entry
  | Conflict ledger_entry
  | Collision ledger_entry

record ledger_config =
  tx_age_limit_secs :: u64
  future_allocation_margin_secs :: u64
  retention_secs :: u64
  max_entries :: usize
  max_live_bytes :: usize
  compaction_threshold_bytes :: u64

definition default_config :: ledger_config where
  "default_config = \<lparr>
     tx_age_limit_secs = 21600,
     future_allocation_margin_secs = 300,
     retention_secs = 7 * 24 * 60 * 60,
     max_entries = 100000,
     max_live_bytes = 256 * 1024 * 1024,
     compaction_threshold_bytes = 4 * 1024 * 1024\<rparr>"

record inner =
  log_file :: string
  config :: ledger_config
  entries :: "(string, ledger_entry) hmap"
  tx_index :: "(string, string) hmap"
  tuple_last_ts :: "(payment_tuple, u64) hmap"
  uncompacted_bytes :: u64
  live_bytes :: usize
  io_step :: nat

datatype io_error = AlreadyExists | InvalidData | StorageFull | WriteFailed | WouldBlock

text \<open>
  The outcomes of disk writes: \<open>AppendErr n\<close> reports an error after \<open>n\<close> bytes of the line
  (all of them when the \<open>fsync\<close> failed) reached the file; a failed compaction has renamed
  the new file into place or not.
\<close>

datatype append_outcome = AppendOk | AppendErr nat

datatype compact_outcome = CompactOk | CompactNotRenamed | CompactRenamedUnsynced

record io_env =
  append_outcomes :: "nat \<Rightarrow> append_outcome"
  compact_outcomes :: "nat \<Rightarrow> compact_outcome"

section \<open>Keys and lengths\<close>

definition primary_key :: "string option \<Rightarrow> string \<Rightarrow> string" where
  "primary_key idempotency_key tx_id =
     (case idempotency_key of
        Some key \<Rightarrow> ''idempotency:'' @ key
      | None \<Rightarrow> ''transaction:'' @ tx_id)"

definition newline :: char where
  "newline = CHR 0x0A"

definition starts_with :: "string \<Rightarrow> string \<Rightarrow> bool" where
  "starts_with s p \<longleftrightarrow> take (length p) s = p"

definition encoded_upsert_len :: "(log_record \<Rightarrow> string) \<Rightarrow> ledger_entry \<Rightarrow> usize" where
  "encoded_upsert_len to_vec entry = saturating_add (length (to_vec (Upsert entry))) 1"

definition recalculate_live_bytes :: "(log_record \<Rightarrow> string) \<Rightarrow> inner \<Rightarrow> inner" where
  "recalculate_live_bytes to_vec s =
     s\<lparr>live_bytes := fold (\<lambda>entry total. saturating_add total (encoded_upsert_len to_vec entry))
        (hm_values (entries s)) 0\<rparr>"

section \<open>The in-memory index\<close>

definition index_entry :: "(log_record \<Rightarrow> string) \<Rightarrow> ledger_entry \<Rightarrow> inner \<Rightarrow> inner" where
  "index_entry to_vec entry s =
     (let last_ts = max (case hm_get (tuple_last_ts s) (e_tuple entry) of None \<Rightarrow> 0 | Some t \<Rightarrow> t)
                   (e_timestamp entry);
          s1 = s\<lparr>tuple_last_ts := hm_insert (e_tuple entry) last_ts (tuple_last_ts s)\<rparr>;
          encoded_len = encoded_upsert_len to_vec entry;
          s2 = (case hm_get (entries s1) (e_key entry) of
                  Some previous \<Rightarrow>
                    s1\<lparr>live_bytes := saturating_sub (live_bytes s1)
                          (encoded_upsert_len to_vec previous)\<rparr>
                | None \<Rightarrow> s1);
          s3 = s2\<lparr>tx_index := hm_insert (e_tx_id entry) (e_key entry) (tx_index s2)\<rparr>;
          s4 = s3\<lparr>entries := hm_insert (e_key entry) entry (entries s3)\<rparr>
      in s4\<lparr>live_bytes := saturating_add (live_bytes s4) encoded_len\<rparr>)"

definition remove_entry :: "(log_record \<Rightarrow> string) \<Rightarrow> string \<Rightarrow> inner \<Rightarrow> inner" where
  "remove_entry to_vec key s =
     (case hm_get (entries s) key of
        None \<Rightarrow> s
      | Some entry \<Rightarrow>
          s\<lparr>entries := hm_remove key (entries s),
            live_bytes := saturating_sub (live_bytes s) (encoded_upsert_len to_vec entry),
            tx_index := hm_remove (e_tx_id entry) (tx_index s)\<rparr>)"

definition refresh_entry :: "u64 \<Rightarrow> u64 \<Rightarrow> ledger_entry \<Rightarrow> ledger_entry" where
  "refresh_entry horizon now entry =
     (if (e_state entry = Reserved \<or> e_state entry = Pending)
         \<and> saturating_add (e_timestamp entry) horizon < now
      then entry\<lparr>e_state := Expired, e_updated_at := now\<rparr>
      else entry)"

definition refresh_expiry :: "u64 \<Rightarrow> inner \<Rightarrow> inner" where
  "refresh_expiry now s =
     s\<lparr>entries := hm_map_values (refresh_entry (tx_age_limit_secs (config s)) now) (entries s)\<rparr>"

section \<open>The append-only log\<close>

definition append_log :: "(log_record \<Rightarrow> string) \<Rightarrow> io_env \<Rightarrow> log_record \<Rightarrow> inner
    \<Rightarrow> (io_error + unit) \<times> inner" where
  "append_log to_vec env rec s =
     (let line = to_vec rec @ [newline] in
      case append_outcomes env (io_step s) of
        AppendOk \<Rightarrow>
          (Inr (), s\<lparr>log_file := log_file s @ line,
                     uncompacted_bytes := saturating_add (uncompacted_bytes s) (length line),
                     io_step := Suc (io_step s)\<rparr>)
      | AppendErr n \<Rightarrow>
          (Inl WriteFailed, s\<lparr>log_file := log_file s @ take n line,
                              io_step := Suc (io_step s)\<rparr>))"

definition snapshot_bytes :: "(log_record \<Rightarrow> string) \<Rightarrow> inner \<Rightarrow> string" where
  "snapshot_bytes to_vec s =
     concat (map (\<lambda>entry. to_vec (Upsert entry) @ [newline]) (hm_values (entries s)))"

definition compact :: "(log_record \<Rightarrow> string) \<Rightarrow> io_env \<Rightarrow> inner \<Rightarrow> (io_error + unit) \<times> inner" where
  "compact to_vec env s =
     (case compact_outcomes env (io_step s) of
        CompactOk \<Rightarrow>
          (Inr (), s\<lparr>log_file := snapshot_bytes to_vec s, uncompacted_bytes := 0,
                     io_step := Suc (io_step s)\<rparr>)
      | CompactNotRenamed \<Rightarrow> (Inl WriteFailed, s\<lparr>io_step := Suc (io_step s)\<rparr>)
      | CompactRenamedUnsynced \<Rightarrow>
          (Inl WriteFailed, s\<lparr>log_file := snapshot_bytes to_vec s, io_step := Suc (io_step s)\<rparr>))"

definition maybe_compact_best_effort :: "(log_record \<Rightarrow> string) \<Rightarrow> io_env \<Rightarrow> inner \<Rightarrow> inner" where
  "maybe_compact_best_effort to_vec env s =
     (if uncompacted_bytes s > compaction_threshold_bytes (config s)
      then snd (compact to_vec env s)
      else s)"

section \<open>Replay\<close>

definition apply_record :: "(log_record \<Rightarrow> string) \<Rightarrow> inner \<Rightarrow> log_record \<Rightarrow> io_error + inner" where
  "apply_record to_vec s rec =
     (case rec of
        Upsert entry0 \<Rightarrow>
          (let entry = entry0\<lparr>e_key := primary_key (e_idempotency_key entry0) (e_tx_id entry0)\<rparr> in
           if (case hm_get (entries s) (e_key entry) of
                 Some existing \<Rightarrow> e_tx_id existing \<noteq> e_tx_id entry | None \<Rightarrow> False)
           then Inl InvalidData
           else if (case hm_get (tx_index s) (e_tx_id entry) of
                 Some owner \<Rightarrow> owner \<noteq> e_key entry | None \<Rightarrow> False)
           then Inl InvalidData
           else Inr (index_entry to_vec entry s))
      | State tx_id state updated_at \<Rightarrow>
          (case hm_get (tx_index s) tx_id of
             None \<Rightarrow> Inl InvalidData
           | Some key \<Rightarrow>
               (case hm_get (entries s) key of
                  None \<Rightarrow> Inl InvalidData
                | Some entry \<Rightarrow>
                    Inr (s\<lparr>entries := hm_insert key
                       (entry\<lparr>e_state := state, e_updated_at := updated_at\<rparr>) (entries s)\<rparr>)))
      | Delete key0 tx_id \<Rightarrow>
          (let key = (if starts_with key0 ''idempotency:'' \<or> starts_with key0 ''transaction:''
                      then key0
                      else if (case hm_get (entries s) key0 of
                                 Some entry \<Rightarrow> e_idempotency_key entry \<noteq> None | None \<Rightarrow> False)
                      then ''idempotency:'' @ key0
                      else ''transaction:'' @ key0) in
           if (case hm_get (entries s) key of
                 Some entry \<Rightarrow> e_tx_id entry = tx_id | None \<Rightarrow> False)
           then Inr (remove_entry to_vec key s)
           else Inr s))"

text \<open>
  The loop of \<open>load\<close> over the bytes that remain from \<open>offset\<close> on.  A line that ends in a
  newline must decode; a final line without one is accepted when it decodes (and the
  newline is written) and cut off when it does not.
\<close>

function load_loop :: "(log_record \<Rightarrow> string) \<Rightarrow> (string \<Rightarrow> log_record option) \<Rightarrow> nat \<Rightarrow> string
    \<Rightarrow> inner \<Rightarrow> io_error + (nat \<times> inner)" where
  "load_loop to_vec from_slice offset bytes s =
     (if bytes = [] then Inr (offset, s)
      else if newline \<in> set bytes then
        (let line = takeWhile (\<lambda>b. b \<noteq> newline) bytes;
             rest = drop (Suc (length line)) bytes;
             offset' = offset + length line + 1
         in if line = [] then load_loop to_vec from_slice offset' rest s
            else case from_slice line of
                   None \<Rightarrow> Inl InvalidData
                 | Some rec \<Rightarrow>
                     (case apply_record to_vec s rec of
                        Inl e \<Rightarrow> Inl e
                      | Inr s' \<Rightarrow> load_loop to_vec from_slice offset' rest s'))
      else
        (case from_slice bytes of
           Some rec \<Rightarrow>
             (case apply_record to_vec s rec of
                Inl e \<Rightarrow> Inl e
              | Inr s' \<Rightarrow> Inr (saturating_add (offset + length bytes) 1,
                               s'\<lparr>log_file := log_file s' @ [newline]\<rparr>))
         | None \<Rightarrow> Inr (offset, s\<lparr>log_file := take offset (log_file s)\<rparr>)))"
  by pat_completeness auto
termination
  by (relation "measure (\<lambda>(_, _, _, bytes, _). length bytes)") auto

declare load_loop.simps [simp del]

definition load :: "(log_record \<Rightarrow> string) \<Rightarrow> (string \<Rightarrow> log_record option) \<Rightarrow> inner
    \<Rightarrow> io_error + inner" where
  "load to_vec from_slice s =
     (case load_loop to_vec from_slice 0 (log_file s) s of
        Inl e \<Rightarrow> Inl e
      | Inr (offset, s') \<Rightarrow>
          Inr (recalculate_live_bytes to_vec (s'\<lparr>uncompacted_bytes := offset\<rparr>)))"

definition fresh_inner :: "string \<Rightarrow> ledger_config \<Rightarrow> inner" where
  "fresh_inner file cfg =
     \<lparr>log_file = file, config = cfg, entries = [], tx_index = [], tuple_last_ts = [],
      uncompacted_bytes = 0, live_bytes = 0, io_step = 0\<rparr>"

definition open_ledger :: "(log_record \<Rightarrow> string) \<Rightarrow> (string \<Rightarrow> log_record option) \<Rightarrow> bool
    \<Rightarrow> string \<Rightarrow> ledger_config \<Rightarrow> io_error + inner" where
  "open_ledger to_vec from_slice lock_held file cfg =
     (if lock_held then Inl WouldBlock
      else load to_vec from_slice (fresh_inner file cfg))"

section \<open>Pruning\<close>

text \<open>The loop that drops the oldest terminal entries until the byte target is met.\<close>

fun prune_bytes_loop :: "(log_record \<Rightarrow> string) \<Rightarrow> inner \<Rightarrow> usize \<Rightarrow> (u64 \<times> string) list \<Rightarrow> usize
    \<Rightarrow> string list \<Rightarrow> string list" where
  "prune_bytes_loop to_vec s target [] remaining removed = removed"
| "prune_bytes_loop to_vec s target ((_, key) # terminal) remaining removed =
     (if remaining \<le> target then removed
      else case hm_get (entries s) key of
             Some entry \<Rightarrow>
               prune_bytes_loop to_vec s target terminal
                 (saturating_sub remaining (encoded_upsert_len to_vec entry)) (removed @ [key])
           | None \<Rightarrow> prune_bytes_loop to_vec s target terminal remaining removed)"

definition terminal_by_age :: "inner \<Rightarrow> string list \<Rightarrow> (u64 \<times> string) list" where
  "terminal_by_age s removed =
     sort_key fst
       (map (\<lambda>e. (e_updated_at e, e_key e))
         (filter (\<lambda>e. is_terminal (e_state e) \<and> e_key e \<notin> set removed) (hm_values (entries s))))"

definition prune_keys :: "(log_record \<Rightarrow> string) \<Rightarrow> inner \<Rightarrow> u64 \<Rightarrow> usize \<Rightarrow> usize \<Rightarrow> string list" where
  "prune_keys to_vec s now target_max_entries target_max_bytes =
     (let retention = retention_secs (config s);
          removed0 = map e_key (filter (\<lambda>e. is_terminal (e_state e)
                        \<and> saturating_add (e_updated_at e) retention < now) (hm_values (entries s)));
          remaining = saturating_sub (length (entries s)) (length removed0);
          removed1 = (if remaining > target_max_entries
                      then removed0 @ map snd (take (remaining - target_max_entries)
                                                 (terminal_by_age s removed0))
                      else removed0);
          remaining_bytes = fold (\<lambda>key b. case hm_get (entries s) key of
                                     Some entry \<Rightarrow> saturating_sub b (encoded_upsert_len to_vec entry)
                                   | None \<Rightarrow> b) removed1 (live_bytes s)
      in if remaining_bytes > target_max_bytes
         then prune_bytes_loop to_vec s target_max_bytes (terminal_by_age s removed1)
                remaining_bytes removed1
         else removed1)"

text \<open>Each deletion is written to the log before it is applied in memory.\<close>

fun prune_delete_loop :: "(log_record \<Rightarrow> string) \<Rightarrow> io_env \<Rightarrow> string list \<Rightarrow> usize \<Rightarrow> inner
    \<Rightarrow> (io_error + usize) \<times> inner" where
  "prune_delete_loop to_vec env [] removed_count s = (Inr removed_count, s)"
| "prune_delete_loop to_vec env (key # keys) removed_count s =
     (case hm_get (entries s) key of
        None \<Rightarrow> prune_delete_loop to_vec env keys removed_count s
      | Some entry \<Rightarrow>
          (case append_log to_vec env (Delete key (e_tx_id entry)) s of
             (Inl e, s1) \<Rightarrow> (Inl e, s1)
           | (Inr _, s1) \<Rightarrow>
               prune_delete_loop to_vec env keys (saturating_add removed_count 1)
                 (remove_entry to_vec key s1)))"

definition prune_durable :: "(log_record \<Rightarrow> string) \<Rightarrow> io_env \<Rightarrow> u64 \<Rightarrow> usize \<Rightarrow> usize \<Rightarrow> inner
    \<Rightarrow> (io_error + usize) \<times> inner" where
  "prune_durable to_vec env now target_max_entries target_max_bytes s =
     (let removed = prune_keys to_vec s now target_max_entries target_max_bytes in
      if removed = [] then (Inr 0, s)
      else case prune_delete_loop to_vec env (sort removed) 0 s of
             (Inl e, s1) \<Rightarrow> (Inl e, s1)
           | (Inr removed_count, s1) \<Rightarrow>
               (Inr removed_count,
                maybe_compact_best_effort to_vec env
                  (s1\<lparr>tuple_last_ts := hm_retain (\<lambda>_ timestamp. timestamp \<ge> now)
                        (tuple_last_ts s1)\<rparr>)))"

section \<open>The operations of the ledger\<close>

definition allocate_timestamp :: "payment_tuple \<Rightarrow> u64 \<Rightarrow> inner
    \<Rightarrow> (allocate_error + u64) \<times> inner" where
  "allocate_timestamp tuple now s =
     (let candidate = (case hm_get (tuple_last_ts s) tuple of
                         Some last_ts \<Rightarrow> max now (saturating_add last_ts 1)
                       | None \<Rightarrow> now) in
      if candidate > saturating_add now (future_allocation_margin_secs (config s))
      then (Inl ExhaustedTimestamps, s)
      else (Inr candidate, s\<lparr>tuple_last_ts := hm_insert tuple candidate (tuple_last_ts s)\<rparr>))"

definition check_submission :: "string \<Rightarrow> string \<Rightarrow> u64 \<Rightarrow> inner \<Rightarrow> submission_check \<times> inner" where
  "check_submission idempotency_key tx_id now s0 =
     (let s = refresh_expiry now s0;
          key = primary_key (Some idempotency_key) tx_id in
      (case hm_get (entries s) key of
         Some entry \<Rightarrow> if e_tx_id entry = tx_id then Duplicate entry else Conflict entry
       | None \<Rightarrow>
           (case hm_get (tx_index s) tx_id of
              Some owner_key \<Rightarrow>
                if owner_key \<noteq> key
                then (case hm_get (entries s) owner_key of
                        Some owner \<Rightarrow> Collision owner
                      | None \<Rightarrow> New)
                else New
            | None \<Rightarrow> New), s))"

definition record_new_entry :: "string option \<Rightarrow> payment_tuple \<Rightarrow> u64 \<Rightarrow> string \<Rightarrow> string option
    \<Rightarrow> u64 \<Rightarrow> ledger_entry" where
  "record_new_entry idempotency_key tuple timestamp tx_id signed_tx now =
     \<lparr>e_key = primary_key idempotency_key tx_id, e_idempotency_key = idempotency_key,
      e_tuple = tuple, e_timestamp = timestamp, e_tx_id = tx_id, e_signed_tx = signed_tx,
      e_state = Reserved, e_created_at = now, e_updated_at = now\<rparr>"

text \<open>The part of \<open>record\<close> after the duplicate and collision checks.\<close>

definition record_admit :: "(log_record \<Rightarrow> string) \<Rightarrow> io_env \<Rightarrow> ledger_entry \<Rightarrow> u64 \<Rightarrow> inner
    \<Rightarrow> (io_error + ledger_entry) \<times> inner" where
  "record_admit to_vec env new_entry now s0 =
     (let s1 = recalculate_live_bytes to_vec (refresh_expiry now s0);
          new_entry_bytes = encoded_upsert_len to_vec new_entry in
      if new_entry_bytes > max_live_bytes (config s1) then (Inl StorageFull, s1)
      else
        let target_entries = saturating_sub (max_entries (config s1)) 1;
            target_bytes = saturating_sub (max_live_bytes (config s1)) new_entry_bytes in
        case prune_durable to_vec env now target_entries target_bytes s1 of
          (Inl e, s2) \<Rightarrow> (Inl e, s2)
        | (Inr _, s2) \<Rightarrow>
            if length (entries s2) \<ge> max_entries (config s2) then (Inl StorageFull, s2)
            else if live_bytes s2 > target_bytes then (Inl StorageFull, s2)
            else case append_log to_vec env (Upsert new_entry) s2 of
                   (Inl e, s3) \<Rightarrow> (Inl e, s3)
                 | (Inr _, s3) \<Rightarrow>
                     (Inr new_entry,
                      maybe_compact_best_effort to_vec env (index_entry to_vec new_entry s3)))"

definition record_payment :: "(log_record \<Rightarrow> string) \<Rightarrow> io_env \<Rightarrow> string option \<Rightarrow> payment_tuple
    \<Rightarrow> u64 \<Rightarrow> string \<Rightarrow> string option \<Rightarrow> u64 \<Rightarrow> inner \<Rightarrow> (io_error + ledger_entry) \<times> inner" where
  "record_payment to_vec env idempotency_key tuple timestamp tx_id signed_tx now s =
     (let key = primary_key idempotency_key tx_id in
      case hm_get (entries s) key of
        Some existing \<Rightarrow>
          if e_tx_id existing \<noteq> tx_id then (Inl AlreadyExists, s) else (Inr existing, s)
      | None \<Rightarrow>
          if (case hm_get (tx_index s) tx_id of Some owner_key \<Rightarrow> owner_key \<noteq> key | None \<Rightarrow> False)
          then (Inl AlreadyExists, s)
          else record_admit to_vec env
                 (record_new_entry idempotency_key tuple timestamp tx_id signed_tx now) now s)"

definition release_key :: "(log_record \<Rightarrow> string) \<Rightarrow> io_env \<Rightarrow> string \<Rightarrow> string \<Rightarrow> inner
    \<Rightarrow> (io_error + bool) \<times> inner" where
  "release_key to_vec env key tx_id s =
     (case hm_get (entries s) key of
        None \<Rightarrow> (Inr False, s)
      | Some entry \<Rightarrow>
          if e_tx_id entry \<noteq> tx_id \<or> e_state entry \<noteq> Reserved then (Inr False, s)
          else case append_log to_vec env (Delete key tx_id) s of
                 (Inl e, s1) \<Rightarrow> (Inl e, s1)
               | (Inr _, s1) \<Rightarrow>
                   (Inr True, maybe_compact_best_effort to_vec env (remove_entry to_vec key s1)))"

definition release_reservation :: "(log_record \<Rightarrow> string) \<Rightarrow> io_env \<Rightarrow> string \<Rightarrow> string \<Rightarrow> inner
    \<Rightarrow> (io_error + bool) \<times> inner" where
  "release_reservation to_vec env idempotency_key tx_id s =
     release_key to_vec env (primary_key (Some idempotency_key) tx_id) tx_id s"

definition release_local_reservation :: "(log_record \<Rightarrow> string) \<Rightarrow> io_env \<Rightarrow> string \<Rightarrow> inner
    \<Rightarrow> (io_error + bool) \<times> inner" where
  "release_local_reservation to_vec env tx_id s =
     release_key to_vec env (primary_key None tx_id) tx_id s"

definition update_state :: "(log_record \<Rightarrow> string) \<Rightarrow> io_env \<Rightarrow> string \<Rightarrow> entry_state \<Rightarrow> u64 \<Rightarrow> inner
    \<Rightarrow> (io_error + unit) \<times> inner" where
  "update_state to_vec env tx_id state now s =
     (case hm_get (tx_index s) tx_id of
        None \<Rightarrow> (Inr (), s)
      | Some key \<Rightarrow>
          (case append_log to_vec env (State tx_id state now) s of
             (Inl e, s1) \<Rightarrow> (Inl e, s1)
           | (Inr _, s1) \<Rightarrow>
               (Inr (), maybe_compact_best_effort to_vec env
                  (case hm_get (entries s1) key of
                     Some entry \<Rightarrow>
                       s1\<lparr>entries := hm_insert key
                         (entry\<lparr>e_state := state, e_updated_at := now\<rparr>) (entries s1)\<rparr>
                   | None \<Rightarrow> s1))))"

definition find_by_key :: "string \<Rightarrow> u64 \<Rightarrow> inner \<Rightarrow> ledger_entry option \<times> inner" where
  "find_by_key idempotency_key now s =
     (let s1 = refresh_expiry now s in
      (hm_get (entries s1) (primary_key (Some idempotency_key) []), s1))"

definition find_by_tx_id :: "string \<Rightarrow> u64 \<Rightarrow> inner \<Rightarrow> ledger_entry option \<times> inner" where
  "find_by_tx_id tx_id now s =
     (let s1 = refresh_expiry now s in
      (case hm_get (tx_index s1) tx_id of
         None \<Rightarrow> None
       | Some key \<Rightarrow> hm_get (entries s1) key, s1))"

definition prune :: "(log_record \<Rightarrow> string) \<Rightarrow> io_env \<Rightarrow> u64 \<Rightarrow> inner \<Rightarrow> (io_error + usize) \<times> inner" where
  "prune to_vec env now s =
     (let s1 = recalculate_live_bytes to_vec (refresh_expiry now s) in
      prune_durable to_vec env now (max_entries (config s1)) (max_live_bytes (config s1)) s1)"

end
