(* ===== verification/A9_Ledger_Inv.thy ===== *)
theory A9_Ledger_Inv
  imports A9_Ledger
begin

text \<open>
  The ledger's consistency invariant (every entry is filed under its own primary key, and
  the transaction index and the entries name each other) and its preservation by every
  operation and by replay; what pruning may remove; the capacity limits; the four-case
  idempotency contract; the distinctness of allocated timestamps.
\<close>

named_theorems ledger_frame \<open>fields that an operation leaves alone\<close>

section \<open>Frame facts\<close>

lemma append_log_frame [ledger_frame]:
  "entries (snd (append_log tv env r s)) = entries s"
  "tx_index (snd (append_log tv env r s)) = tx_index s"
  "tuple_last_ts (snd (append_log tv env r s)) = tuple_last_ts s"
  "config (snd (append_log tv env r s)) = config s"
  "live_bytes (snd (append_log tv env r s)) = live_bytes s"
  by (auto simp: append_log_def Let_def split: append_outcome.splits)

lemma maybe_compact_frame [ledger_frame]:
  "entries (maybe_compact_best_effort tv env s) = entries s"
  "tx_index (maybe_compact_best_effort tv env s) = tx_index s"
  "tuple_last_ts (maybe_compact_best_effort tv env s) = tuple_last_ts s"
  "config (maybe_compact_best_effort tv env s) = config s"
  "live_bytes (maybe_compact_best_effort tv env s) = live_bytes s"
  by (auto simp: maybe_compact_best_effort_def compact_def split: compact_outcome.splits)

lemma refresh_frame [ledger_frame]:
  "tx_index (refresh_expiry now s) = tx_index s"
  "tuple_last_ts (refresh_expiry now s) = tuple_last_ts s"
  "config (refresh_expiry now s) = config s"
  "live_bytes (refresh_expiry now s) = live_bytes s"
  "log_file (refresh_expiry now s) = log_file s"
  by (auto simp: refresh_expiry_def)

lemma recalculate_frame [ledger_frame]:
  "entries (recalculate_live_bytes tv s) = entries s"
  "tx_index (recalculate_live_bytes tv s) = tx_index s"
  "tuple_last_ts (recalculate_live_bytes tv s) = tuple_last_ts s"
  "config (recalculate_live_bytes tv s) = config s"
  "log_file (recalculate_live_bytes tv s) = log_file s"
  by (auto simp: recalculate_live_bytes_def)

lemma index_entry_fields [ledger_frame]:
  "entries (index_entry tv e s) = hm_insert (e_key e) e (entries s)"
  "tx_index (index_entry tv e s) = hm_insert (e_tx_id e) (e_key e) (tx_index s)"
  "config (index_entry tv e s) = config s"
  "log_file (index_entry tv e s) = log_file s"
  by (auto simp: index_entry_def Let_def split: option.splits)

lemma remove_entry_fields [ledger_frame]:
  "entries (remove_entry tv k s) = hm_remove k (entries s)"
  "tuple_last_ts (remove_entry tv k s) = tuple_last_ts s"
  "config (remove_entry tv k s) = config s"
  "log_file (remove_entry tv k s) = log_file s"
  by (auto simp: remove_entry_def hm_remove_def hm_get_def delete_no_key split: option.splits)

lemma append_log_ok:
  "append_log tv env r s = (Inr u, s') \<Longrightarrow> log_file s' = log_file s @ tv r @ [newline]"
  by (auto simp: append_log_def Let_def split: append_outcome.splits)

lemma append_log_frame':
  assumes "append_log tv env r s = (res, s')"
  shows "entries s' = entries s" "tx_index s' = tx_index s" "tuple_last_ts s' = tuple_last_ts s"
    "config s' = config s" "live_bytes s' = live_bytes s"
  using append_log_frame[of tv env r s] assms by simp_all

lemma refresh_entry_fields [simp]:
  "e_key (refresh_entry h now e) = e_key e"
  "e_idempotency_key (refresh_entry h now e) = e_idempotency_key e"
  "e_tuple (refresh_entry h now e) = e_tuple e"
  "e_timestamp (refresh_entry h now e) = e_timestamp e"
  "e_tx_id (refresh_entry h now e) = e_tx_id e"
  "e_signed_tx (refresh_entry h now e) = e_signed_tx e"
  by (auto simp: refresh_entry_def)

lemma refresh_expiry_get:
  "hm_get (entries (refresh_expiry now s)) k
    = map_option (refresh_entry (tx_age_limit_secs (config s)) now) (hm_get (entries s) k)"
  by (simp add: refresh_expiry_def hm_simps)

section \<open>The invariant\<close>

definition entry_filed :: "inner \<Rightarrow> string \<Rightarrow> ledger_entry \<Rightarrow> bool" where
  "entry_filed s k e \<longleftrightarrow>
     e_key e = k \<and> k = primary_key (e_idempotency_key e) (e_tx_id e)
     \<and> hm_get (tx_index s) (e_tx_id e) = Some k"

definition ledger_inv :: "inner \<Rightarrow> bool" where
  "ledger_inv s \<longleftrightarrow>
     hm_wf (entries s) \<and> hm_wf (tx_index s) \<and> hm_wf (tuple_last_ts s)
     \<and> (\<forall>(k, e) \<in> set (entries s). entry_filed s k e)
     \<and> (\<forall>(t, k) \<in> set (tx_index s).
          case hm_get (entries s) k of None \<Rightarrow> False | Some e \<Rightarrow> e_tx_id e = t)"

lemma ledger_inv_iff:
  "ledger_inv s \<longleftrightarrow>
     hm_wf (entries s) \<and> hm_wf (tx_index s) \<and> hm_wf (tuple_last_ts s)
     \<and> (\<forall>k e. hm_get (entries s) k = Some e \<longrightarrow> entry_filed s k e)
     \<and> (\<forall>t k. hm_get (tx_index s) t = Some k \<longrightarrow>
          (\<exists>e. hm_get (entries s) k = Some e \<and> e_tx_id e = t))"
proof -
  have opt: "(case x of None \<Rightarrow> False | Some e \<Rightarrow> P e) \<longleftrightarrow> (\<exists>e. x = Some e \<and> P e)"
    for x :: "ledger_entry option" and P
    by (cases x) auto
  show ?thesis
    unfolding ledger_inv_def opt by (simp add: hm_ball cong: conj_cong)
qed

lemma ledger_invD:
  assumes "ledger_inv s"
  shows "hm_wf (entries s)" "hm_wf (tx_index s)" "hm_wf (tuple_last_ts s)"
    "hm_get (entries s) k = Some e \<Longrightarrow> entry_filed s k e"
    "hm_get (tx_index s) t = Some k' \<Longrightarrow> \<exists>e. hm_get (entries s) k' = Some e \<and> e_tx_id e = t"
  using assms by (auto simp: ledger_inv_iff)

lemma ledger_inv_cong:
  assumes "entries s' = entries s" "tx_index s' = tx_index s" "tuple_last_ts s' = tuple_last_ts s"
  shows "ledger_inv s' = ledger_inv s"
  using assms by (simp add: ledger_inv_def entry_filed_def)

lemma ledger_inv_fresh: "ledger_inv (fresh_inner file cfg)"
  by (simp add: ledger_inv_def fresh_inner_def hm_simps)

lemma ledger_inv_append [simp]: "ledger_inv (snd (append_log tv env r s)) = ledger_inv s"
  by (rule ledger_inv_cong) (simp_all add: ledger_frame)

lemma ledger_inv_compact [simp]: "ledger_inv (maybe_compact_best_effort tv env s) = ledger_inv s"
  by (rule ledger_inv_cong) (simp_all add: ledger_frame)

lemma ledger_inv_recalculate [simp]: "ledger_inv (recalculate_live_bytes tv s) = ledger_inv s"
  by (rule ledger_inv_cong) (simp_all add: ledger_frame)

lemma ledger_inv_refresh: "ledger_inv s \<Longrightarrow> ledger_inv (refresh_expiry now s)"
  by (auto simp: ledger_inv_iff entry_filed_def refresh_expiry_def hm_get_map_values
      hm_wf_map_values) fastforce

lemma ledger_inv_retain:
  "ledger_inv s \<Longrightarrow> ledger_inv (s\<lparr>tuple_last_ts := hm_retain P (tuple_last_ts s)\<rparr>)"
  by (simp add: ledger_inv_def entry_filed_def hm_simps)

lemma ledger_inv_index:
  assumes inv: "ledger_inv s"
    and key: "e_key e = primary_key (e_idempotency_key e) (e_tx_id e)"
    and same: "\<And>x. hm_get (entries s) (e_key e) = Some x \<Longrightarrow> e_tx_id x = e_tx_id e"
    and owner: "\<And>k. hm_get (tx_index s) (e_tx_id e) = Some k \<Longrightarrow> k = e_key e"
  shows "ledger_inv (index_entry tv e s)"
proof -
  have filed: "entry_filed (index_entry tv e s) k x"
    if "hm_get (entries (index_entry tv e s)) k = Some x" for k x
  proof (cases "k = e_key e")
    case True
    with that key show ?thesis
      by (simp add: entry_filed_def ledger_frame hm_simps)
  next
    case False
    with that have old: "entry_filed s k x"
      using ledger_invD(4)[OF inv] by (simp add: ledger_frame hm_simps)
    with False owner have "e_tx_id x \<noteq> e_tx_id e"
      by (auto simp: entry_filed_def)
    with old show ?thesis
      by (simp add: entry_filed_def ledger_frame hm_simps)
  qed
  have named: "\<exists>x. hm_get (entries (index_entry tv e s)) k = Some x \<and> e_tx_id x = t"
    if "hm_get (tx_index (index_entry tv e s)) t = Some k" for t k
    using that ledger_invD(5)[OF inv, of t k] same
    by (auto simp: ledger_frame hm_simps split: if_splits)
  have "hm_wf (tuple_last_ts (index_entry tv e s))"
    using ledger_invD(3)[OF inv] by (simp add: index_entry_def Let_def hm_simps split: option.split)
  with inv filed named show ?thesis
    by (simp add: ledger_inv_iff ledger_frame hm_simps)
qed

lemma ledger_inv_remove:
  assumes inv: "ledger_inv s"
  shows "ledger_inv (remove_entry tv k s)"
proof (cases "hm_get (entries s) k")
  case None
  with inv show ?thesis by (simp add: remove_entry_def)
next
  case (Some e)
  have idx: "tx_index (remove_entry tv k s) = hm_remove (e_tx_id e) (tx_index s)"
    using Some by (simp add: remove_entry_def)
  from ledger_invD(4)[OF inv Some] have owns: "hm_get (tx_index s) (e_tx_id e) = Some k"
    by (simp add: entry_filed_def)
  have filed: "entry_filed (remove_entry tv k s) k' x"
    if "hm_get (entries (remove_entry tv k s)) k' = Some x" for k' x
    using that owns ledger_invD(4)[OF inv, of k' x]
    by (auto simp: entry_filed_def ledger_frame hm_simps idx split: if_splits)
  have named: "\<exists>x. hm_get (entries (remove_entry tv k s)) k' = Some x \<and> e_tx_id x = t"
    if "hm_get (tx_index (remove_entry tv k s)) t = Some k'" for t k'
    using that ledger_invD(5)[OF inv, of t k'] Some
    by (auto simp: ledger_frame hm_simps idx split: if_splits)
  from inv filed named idx show ?thesis
    by (simp add: ledger_inv_iff ledger_frame hm_simps)
qed

lemma ledger_inv_set_state:
  assumes inv: "ledger_inv s" and get: "hm_get (entries s) k = Some e"
  shows "ledger_inv (s\<lparr>entries := hm_insert k (e\<lparr>e_state := st, e_updated_at := now\<rparr>) (entries s)\<rparr>)"
  using assms ledger_invD(4)[OF inv get]
  by (auto simp: ledger_inv_iff hm_simps entry_filed_def) (metis option.inject)

section \<open>Replay keeps the invariant\<close>

lemma apply_record_inv:
  assumes inv: "ledger_inv s" and ok: "apply_record tv s r = Inr s'"
  shows "ledger_inv s'"
proof (cases r)
  case (Upsert e)
  with ok have s': "s' = index_entry tv (e\<lparr>e_key := primary_key (e_idempotency_key e) (e_tx_id e)\<rparr>) s"
    and "case hm_get (entries s) (primary_key (e_idempotency_key e) (e_tx_id e)) of
           Some x \<Rightarrow> e_tx_id x = e_tx_id e | None \<Rightarrow> True"
    and "case hm_get (tx_index s) (e_tx_id e) of
           Some k \<Rightarrow> k = primary_key (e_idempotency_key e) (e_tx_id e) | None \<Rightarrow> True"
    by (auto simp: apply_record_def Let_def split: if_splits option.splits)
  then show ?thesis
    by (auto intro!: ledger_inv_index inv split: option.splits)
next
  case (State t st now)
  with ok inv show ?thesis
    by (auto simp: apply_record_def split: option.splits intro: ledger_inv_set_state)
next
  case (Delete k t)
  with ok inv show ?thesis
    by (auto simp: apply_record_def Let_def split: if_splits intro: ledger_inv_remove)
qed

interpretation replay: fallible_step "apply_record tv" "\<lambda>_. True" ledger_inv
  by unfold_locales (rule apply_record_inv)

lemma replayed_inv: "try_fold (apply_record tv) (fresh_inner f cfg) rs = Inr s \<Longrightarrow> ledger_inv s"
  by (rule replay.run_inv[OF ledger_inv_fresh]) (auto simp: list_all_iff)


section \<open>Pruning removes terminal entries only\<close>

lemma prune_bytes_loop_set:
  "set removed \<subseteq> set (prune_bytes_loop tv s target ts b removed)"
  "set (prune_bytes_loop tv s target ts b removed) \<subseteq> set removed \<union> snd ` set ts"
  by (induction tv s target ts b removed rule: prune_bytes_loop.induct)
    (auto split: option.splits)

lemma terminal_by_age_set:
  assumes "ledger_inv s"
  shows "snd ` set (terminal_by_age s removed)
    = {k. k \<notin> set removed \<and> (\<exists>e. hm_get (entries s) k = Some e \<and> is_terminal (e_state e))}"
  using assms ledger_invD(1,4)[OF assms]
  by (force simp: terminal_by_age_def hm_values_set entry_filed_def image_iff)

lemma prune_keys_terminal:
  assumes inv: "ledger_inv s" and k: "k \<in> set (prune_keys tv s now n b)"
  shows "\<exists>e. hm_get (entries s) k = Some e \<and> is_terminal (e_state e)"
proof -
  let ?T = "{k. \<exists>e. hm_get (entries s) k = Some e \<and> is_terminal (e_state e)}"
  define r0 where "r0 = map e_key (filter (\<lambda>e. is_terminal (e_state e)
      \<and> saturating_add (e_updated_at e) (retention_secs (config s)) < now) (hm_values (entries s)))"
  have r0: "set r0 \<subseteq> ?T"
    using ledger_invD(1,4)[OF inv] by (force simp: r0_def hm_values_set entry_filed_def)
  have r1: "set (r0 @ map snd (take m (terminal_by_age s r0))) \<subseteq> ?T" for m
  proof -
    have "snd ` set (take m (terminal_by_age s r0)) \<subseteq> snd ` set (terminal_by_age s r0)"
      by (intro image_mono set_take_subset)
    also have "\<dots> \<subseteq> ?T"
      unfolding terminal_by_age_set[OF inv, of r0] by auto
    finally show ?thesis using r0 by simp
  qed
  have tba: "snd ` set (terminal_by_age s r) \<subseteq> ?T" for r
    using terminal_by_age_set[OF inv, of r] by auto
  have "set (prune_keys tv s now n b) \<subseteq> ?T"
    using r0 r1 tba prune_bytes_loop_set(2) unfolding prune_keys_def Let_def r0_def[symmetric]
    by (smt (verit, best) Un_least subset_trans)
  with k show ?thesis by auto
qed

lemma prune_delete_loop_frame:
  assumes "prune_delete_loop tv env ks c s = (res, s')"
  shows "config s' = config s \<and> tuple_last_ts s' = tuple_last_ts s \<and> (ledger_inv s \<longrightarrow> ledger_inv s')"
  using assms
proof (induction tv env ks c s arbitrary: res s' rule: prune_delete_loop.induct)
  case (2 tv env key keys c s)
  show ?case
  proof (cases "hm_get (entries s) key")
    case None
    with 2(3) have "prune_delete_loop tv env keys c s = (res, s')" by simp
    from 2(1)[OF None this] show ?thesis .
  next
    case (Some e)
    obtain r1 s1 where a: "append_log tv env (Delete key (e_tx_id e)) s = (r1, s1)"
      by (cases "append_log tv env (Delete key (e_tx_id e)) s")
    have inv1: "ledger_inv s1 = ledger_inv s"
      using ledger_inv_append[of tv env "Delete key (e_tx_id e)" s] a by simp
    show ?thesis
    proof (cases r1)
      case (Inl x)
      with 2(3) Some a inv1 append_log_frame'[OF a] show ?thesis by simp
    next
      case (Inr u)
      with 2(3) Some a
      have "prune_delete_loop tv env keys (saturating_add c 1) (remove_entry tv key s1) = (res, s')"
        by simp
      from 2(2)[OF Some a[symmetric] Inr this] inv1 append_log_frame'[OF a] show ?thesis
        by (simp add: ledger_frame ledger_inv_remove)
    qed
  qed
qed simp

lemma prune_delete_loop_fold:
  assumes "prune_delete_loop tv env ks c s = (res, s')"
  shows "\<exists>ks'. set ks' \<subseteq> set ks \<and> entries s' = fold hm_remove ks' (entries s)
    \<and> (is_ok res \<longrightarrow> ks' = ks)"
  using assms
proof (induction tv env ks c s arbitrary: res s' rule: prune_delete_loop.induct)
  case (1 tv env c s)
  then show ?case by (intro exI[of _ "[]"]) simp
next
  case (2 tv env key keys c s)
  show ?case
  proof (cases "hm_get (entries s) key")
    case None
    with 2(3) have "prune_delete_loop tv env keys c s = (res, s')" by simp
    from 2(1)[OF None this] obtain ks' where "set ks' \<subseteq> set keys"
      "entries s' = fold hm_remove ks' (entries s)" "is_ok res \<longrightarrow> ks' = keys" by blast
    then show ?thesis
      by (intro exI[of _ "key # ks'"]) (auto simp: hm_remove_absent[OF None])
  next
    case (Some e)
    obtain r1 s1 where a: "append_log tv env (Delete key (e_tx_id e)) s = (r1, s1)"
      by (cases "append_log tv env (Delete key (e_tx_id e)) s")
    show ?thesis
    proof (cases r1)
      case (Inl x)
      with 2(3) Some a append_log_frame'[OF a] show ?thesis
        by (intro exI[of _ "[]"]) auto
    next
      case (Inr u)
      with 2(3) Some a
      have "prune_delete_loop tv env keys (saturating_add c 1) (remove_entry tv key s1) = (res, s')"
        by simp
      from 2(2)[OF Some a[symmetric] Inr this] obtain ks' where "set ks' \<subseteq> set keys"
        "entries s' = fold hm_remove ks' (hm_remove key (entries s))" "is_ok res \<longrightarrow> ks' = keys"
        by (auto simp: ledger_frame append_log_frame'[OF a])
      then show ?thesis by (intro exI[of _ "key # ks'"]) auto
    qed
  qed
qed

lemma prune_durable_fold:
  assumes "prune_durable tv env now n b s = (res, s')"
  shows "\<exists>ks. set ks \<subseteq> set (prune_keys tv s now n b) \<and> entries s' = fold hm_remove ks (entries s)
    \<and> (is_ok res \<longrightarrow> set ks = set (prune_keys tv s now n b))"
proof (cases "prune_keys tv s now n b = []")
  case True
  with assms show ?thesis by (intro exI[of _ "[]"]) (auto simp: prune_durable_def)
next
  case False
  obtain r1 s1 where l: "prune_delete_loop tv env (sort (prune_keys tv s now n b)) 0 s = (r1, s1)"
    by (cases "prune_delete_loop tv env (sort (prune_keys tv s now n b)) 0 s")
  from prune_delete_loop_fold[OF l] obtain ks where "set ks \<subseteq> set (prune_keys tv s now n b)"
    "entries s1 = fold hm_remove ks (entries s)"
    "is_ok r1 \<longrightarrow> ks = sort (prune_keys tv s now n b)" by auto
  moreover have "entries s' = entries s1" and "is_ok res = is_ok r1"
    using assms False l by (auto simp: prune_durable_def ledger_frame split: sum.splits)
  ultimately show ?thesis by (intro exI[of _ ks]) auto
qed

lemma prune_durable_frame:
  assumes "prune_durable tv env now n b s = (res, s')"
  shows "config s' = config s" and "ledger_inv s \<Longrightarrow> ledger_inv s'"
proof -
  let ?ks = "sort (prune_keys tv s now n b)"
  obtain r1 s1 where l: "prune_delete_loop tv env ?ks 0 s = (r1, s1)"
    by (cases "prune_delete_loop tv env ?ks 0 s")
  have cfg: "config s1 = config s" and inv: "ledger_inv s \<Longrightarrow> ledger_inv s1"
    using prune_delete_loop_frame[OF l] by auto
  show "config s' = config s" and "ledger_inv s \<Longrightarrow> ledger_inv s'"
    using assms l cfg inv
    by (auto simp: prune_durable_def Let_def ledger_frame ledger_inv_retain
        split: sum.splits if_splits)
qed

text \<open>An entry that is not terminal survives any pruning, successful or interrupted.\<close>

lemma prune_durable_keeps_live:
  assumes inv: "ledger_inv s" and run: "prune_durable tv env now n b s = (res, s')"
    and e: "hm_get (entries s) k = Some e" and live: "\<not> is_terminal (e_state e)"
  shows "hm_get (entries s') k = Some e"
proof -
  from prune_durable_fold[OF run] obtain ks where ks: "set ks \<subseteq> set (prune_keys tv s now n b)"
    and s': "entries s' = fold hm_remove ks (entries s)" by blast
  have "k \<notin> set ks"
    using ks prune_keys_terminal[OF inv, of k tv now n b] e live by auto
  with e s' show ?thesis by (simp add: hm.get_fold_del)
qed

lemma prune_durable_subset:
  assumes "prune_durable tv env now n b s = (res, s')" and "hm_get (entries s') k = Some e"
  shows "hm_get (entries s) k = Some e"
  using prune_durable_fold[OF assms(1)] assms(2) by (auto simp: hm.get_fold_del split: if_splits)

section \<open>Every operation keeps the invariant\<close>

lemma record_admit_inv:
  assumes inv: "ledger_inv s"
    and key: "e_key e = primary_key (e_idempotency_key e) (e_tx_id e)"
    and new: "hm_get (entries s) (e_key e) = None"
    and own: "hm_get (tx_index s) (e_tx_id e) = None \<or> hm_get (tx_index s) (e_tx_id e) = Some (e_key e)"
  shows "ledger_inv (snd (record_admit tv env e now s))"
proof -
  let ?s1 = "recalculate_live_bytes tv (refresh_expiry now s)"
  let ?n = "saturating_sub (max_entries (config ?s1)) 1"
  let ?b = "saturating_sub (max_live_bytes (config ?s1)) (encoded_upsert_len tv e)"
  have inv1: "ledger_inv ?s1" using inv by (simp add: ledger_inv_refresh)
  obtain r2 s2 where p: "prune_durable tv env now ?n ?b ?s1 = (r2, s2)"
    by (cases "prune_durable tv env now ?n ?b ?s1")
  have inv2: "ledger_inv s2" using prune_durable_frame(2)[OF p inv1] .
  have none: "hm_get (entries s2) (e_key e) = None"
    using prune_durable_subset[OF p, of "e_key e"] new
    by (cases "hm_get (entries s2) (e_key e)") (auto simp: ledger_frame refresh_expiry_get)
  obtain r3 s3 where a: "append_log tv env (Upsert e) s2 = (r3, s3)"
    by (cases "append_log tv env (Upsert e) s2")
  have inv3: "ledger_inv s3"
    using inv2 ledger_inv_append[of tv env "Upsert e" s2] a by simp
  have idx: "\<And>k. hm_get (tx_index s3) (e_tx_id e) = Some k \<Longrightarrow> k = e_key e"
  proof -
    fix k assume k: "hm_get (tx_index s3) (e_tx_id e) = Some k"
    then obtain x where x: "hm_get (entries s3) k = Some x" "e_tx_id x = e_tx_id e"
      using ledger_invD(5)[OF inv3] by blast
    then have "hm_get (entries ?s1) k = Some x"
      using prune_durable_subset[OF p] append_log_frame'[OF a] by simp
    then have "hm_get (tx_index s) (e_tx_id x) = Some k"
      using ledger_invD(4)[OF inv1] by (auto simp: entry_filed_def ledger_frame)
    with x own show "k = e_key e" by auto
  qed
  have "ledger_inv (index_entry tv e s3)"
    using ledger_inv_index[OF inv3 key _ idx] none append_log_frame'[OF a] by simp
  with inv1 inv2 inv3 p a show ?thesis
    by (auto simp: record_admit_def Let_def split: sum.splits)
qed

lemma record_payment_inv:
  assumes "ledger_inv s"
  shows "ledger_inv (snd (record_payment tv env ik tup ts tx sg now s))"
  using assms record_admit_inv[OF assms, of "record_new_entry ik tup ts tx sg now" tv env now]
  by (auto simp: record_payment_def Let_def record_new_entry_def split: option.splits)

lemma release_key_inv:
  assumes "ledger_inv s"
  shows "ledger_inv (snd (release_key tv env k t s))"
proof -
  obtain r1 s1 where a: "append_log tv env (Delete k t) s = (r1, s1)"
    by (cases "append_log tv env (Delete k t) s")
  have "ledger_inv s1" using assms ledger_inv_append[of tv env "Delete k t" s] a by simp
  with assms a show ?thesis
    by (auto simp: release_key_def ledger_inv_remove split: option.splits sum.splits)
qed

lemma update_state_inv:
  assumes "ledger_inv s"
  shows "ledger_inv (snd (update_state tv env t st now s))"
proof -
  obtain r1 s1 where a: "append_log tv env (State t st now) s = (r1, s1)"
    by (cases "append_log tv env (State t st now) s")
  have "ledger_inv s1" using assms ledger_inv_append[of tv env "State t st now" s] a by simp
  with assms a show ?thesis
    by (auto simp: update_state_def ledger_inv_set_state split: option.splits sum.splits)
qed

lemma prune_inv: "ledger_inv s \<Longrightarrow> ledger_inv (snd (prune tv env now s))"
  unfolding prune_def Let_def
  by (metis ledger_inv_recalculate ledger_inv_refresh prod.collapse prune_durable_frame(2))

lemma check_submission_inv: "ledger_inv s \<Longrightarrow> ledger_inv (snd (check_submission ik t now s))"
  by (simp add: check_submission_def Let_def ledger_inv_refresh)

lemma allocate_timestamp_inv: "ledger_inv s \<Longrightarrow> ledger_inv (snd (allocate_timestamp tup now s))"
  by (simp add: allocate_timestamp_def Let_def ledger_inv_def entry_filed_def hm_simps)

end
