(* ===== verification/A9_Ledger_Spec.thy ===== *)
theory A9_Ledger_Spec
  imports A9_Ledger_Inv
begin

text \<open>
  What the ledger promises its callers: the four-case idempotency contract, the agreement
  of \<open>record\<close> with it, the step relation of a running ledger (operations, failed writes and
  restarts) with its reachable states, the fact that a key is never repointed, and the
  distinctness of the timestamps allocated to one payment tuple.
\<close>

section \<open>The four-case contract\<close>

definition key_of :: "string \<Rightarrow> string" where
  "key_of ik = ''idempotency:'' @ ik"

definition tx_known :: "inner \<Rightarrow> string \<Rightarrow> bool" where
  "tx_known s t \<longleftrightarrow> (\<exists>e \<in> set (hm_values (entries s)). e_tx_id e = t)"

definition submission_spec :: "string \<Rightarrow> string \<Rightarrow> u64 \<Rightarrow> inner \<Rightarrow> submission_check \<Rightarrow> bool" where
  "submission_spec ik t now s c =
     (let m = entries (refresh_expiry now s) in
      case c of
        New \<Rightarrow> hm_get m (key_of ik) = None \<and> \<not> tx_known s t
      | Duplicate e \<Rightarrow> hm_get m (key_of ik) = Some e \<and> e_tx_id e = t
      | Conflict e \<Rightarrow> hm_get m (key_of ik) = Some e \<and> e_tx_id e \<noteq> t
      | Collision e \<Rightarrow> hm_get m (key_of ik) = None \<and> e_key e \<noteq> key_of ik
                        \<and> hm_get m (e_key e) = Some e \<and> e_tx_id e = t)"

lemma primary_key_Some: "primary_key (Some ik) t = key_of ik"
  by (simp add: primary_key_def key_of_def)

lemma tx_known_index:
  assumes "ledger_inv s"
  shows "tx_known s t \<longleftrightarrow> hm_get (tx_index s) t \<noteq> None"
  using ledger_invD[OF assms] by (fastforce simp: tx_known_def hm_values_set entry_filed_def)

lemma check_submission_meets_spec:
  assumes inv: "ledger_inv s"
  shows "submission_spec ik t now s (fst (check_submission ik t now s))"
proof -
  let ?s = "refresh_expiry now s"
  have inv': "ledger_inv ?s" using inv by (rule ledger_inv_refresh)
  have idx: "tx_index ?s = tx_index s" by (simp add: ledger_frame)
  show ?thesis
  proof (cases "hm_get (entries ?s) (key_of ik)")
    case (Some e)
    then show ?thesis
      by (simp add: check_submission_def submission_spec_def Let_def primary_key_Some)
  next
    case None
    show ?thesis
    proof (cases "hm_get (tx_index s) t")
      case None': None
      with None inv show ?thesis
        by (simp add: check_submission_def submission_spec_def Let_def primary_key_Some idx
            tx_known_index)
    next
      case (Some k)
      then obtain e where e: "hm_get (entries ?s) k = Some e" "e_tx_id e = t"
        using ledger_invD(5)[OF inv'] idx by fastforce
      moreover have "e_key e = k"
        using ledger_invD(4)[OF inv' e(1)] by (simp add: entry_filed_def)
      moreover have "k \<noteq> key_of ik" using None e by auto
      ultimately show ?thesis using None Some
        by (simp add: check_submission_def submission_spec_def Let_def primary_key_Some idx)
    qed
  qed
qed

text \<open>The contract leaves one answer only.\<close>

lemma submission_spec_unique:
  assumes inv: "ledger_inv s" and c: "submission_spec ik t now s c" and d: "submission_spec ik t now s d"
  shows "c = d"
proof -
  let ?m = "entries (refresh_expiry now s)"
  have known: "tx_known s t" if "hm_get ?m k = Some e" "e_tx_id e = t" for k e
    using that ledger_invD(1)[OF inv]
    by (auto simp: tx_known_def refresh_expiry_get) (metis hm_values_set)
  have same: "e = e'" if "hm_get ?m (e_key e) = Some e" "e_tx_id e = t"
      "hm_get ?m (e_key e') = Some e'" "e_tx_id e' = t" for e e'
  proof -
    have "hm_get (tx_index (refresh_expiry now s)) t = Some (e_key x)"
      if "hm_get ?m (e_key x) = Some x" "e_tx_id x = t" for x
    proof -
      have "entry_filed (refresh_expiry now s) (e_key x) x"
        by (rule ledger_invD(4)[OF ledger_inv_refresh[OF inv] that(1)])
      then show ?thesis unfolding entry_filed_def using that(2) by blast
    qed
    from this[OF that(1,2)] this[OF that(3,4)] have "e_key e = e_key e'" by simp
    then show ?thesis using that(1,3) by (metis option.inject)
  qed
  show ?thesis
  proof (cases "hm_get ?m (key_of ik)")
    case (Some x)
    with c d show ?thesis
      by (cases c; cases d) (auto simp: submission_spec_def Let_def)
  next
    case None
    have shape: "(a = New \<and> \<not> tx_known s t)
        \<or> (\<exists>e. a = Collision e \<and> hm_get ?m (e_key e) = Some e \<and> e_tx_id e = t)"
      if "submission_spec ik t now s a" for a
      using that None by (cases a) (auto simp: submission_spec_def Let_def)
    from shape[OF c] shape[OF d] show ?thesis
      using known same by blast
  qed
qed

lemma record_after_check:
  assumes inv: "ledger_inv s"
  shows "case fst (check_submission ik t now s) of
      New \<Rightarrow> record_payment tv env (Some ik) tup ts t sg now s
              = record_admit tv env (record_new_entry (Some ik) tup ts t sg now) now s
    | Duplicate e \<Rightarrow> (\<exists>e0. hm_get (entries s) (key_of ik) = Some e0 \<and> e_tx_id e0 = t
              \<and> record_payment tv env (Some ik) tup ts t sg now s = (Inr e0, s))
    | Conflict e \<Rightarrow> record_payment tv env (Some ik) tup ts t sg now s = (Inl AlreadyExists, s)
    | Collision e \<Rightarrow> record_payment tv env (Some ik) tup ts t sg now s = (Inl AlreadyExists, s)"
proof -
  note spec = check_submission_meets_spec[OF inv, of ik t now]
  have owner: "hm_get (tx_index s) t = Some k"
    if "hm_get (entries (refresh_expiry now s)) k = Some e" "e_tx_id e = t" for k e
    using that ledger_invD(4)[OF ledger_inv_refresh[OF inv, of now], of k e]
    by (simp add: entry_filed_def ledger_frame)
  show ?thesis
  proof (cases "fst (check_submission ik t now s)")
    case New
    with spec have "hm_get (entries s) (key_of ik) = None" "hm_get (tx_index s) t = None"
      using tx_known_index[OF inv, of t]
      by (auto simp: submission_spec_def Let_def refresh_expiry_get)
    with New show ?thesis by (simp add: record_payment_def primary_key_Some Let_def)
  next
    case (Duplicate e)
    with spec obtain e0 where "hm_get (entries s) (key_of ik) = Some e0" "e_tx_id e0 = t"
      by (auto simp: submission_spec_def Let_def refresh_expiry_get)
    with Duplicate show ?thesis by (simp add: record_payment_def primary_key_Some Let_def)
  next
    case (Conflict e)
    with spec obtain e0 where "hm_get (entries s) (key_of ik) = Some e0" "e_tx_id e0 \<noteq> t"
      by (auto simp: submission_spec_def Let_def refresh_expiry_get)
    with Conflict show ?thesis by (simp add: record_payment_def primary_key_Some Let_def)
  next
    case (Collision e)
    with spec have "hm_get (entries s) (key_of ik) = None" "e_key e \<noteq> key_of ik"
      "hm_get (tx_index s) t = Some (e_key e)"
      using owner by (auto simp: submission_spec_def Let_def refresh_expiry_get)
    with Collision show ?thesis by (simp add: record_payment_def primary_key_Some Let_def)
  qed
qed

section \<open>A running ledger\<close>

text \<open>
  One step is one call, with any arguments and any outcome of its disk writes; a run starts
  from whatever \<open>open\<close> accepted.  The step carries the wall-clock second of the call.
\<close>

inductive ledger_step :: "(log_record \<Rightarrow> string) \<Rightarrow> io_env \<Rightarrow> u64 \<Rightarrow> inner \<Rightarrow> inner \<Rightarrow> bool"
  for tv env now where
  step_allocate: "ledger_step tv env now s (snd (allocate_timestamp tup now s))"
| step_check: "ledger_step tv env now s (snd (check_submission ik t now s))"
| step_record: "ledger_step tv env now s (snd (record_payment tv env ik' tup ts t sg now s))"
| step_release: "ledger_step tv env now s (snd (release_reservation tv env ik t s))"
| step_release_local: "ledger_step tv env now s (snd (release_local_reservation tv env t s))"
| step_update: "ledger_step tv env now s (snd (update_state tv env t st now s))"
| step_find_key: "ledger_step tv env now s (snd (find_by_key ik now s))"
| step_find_tx: "ledger_step tv env now s (snd (find_by_tx_id t now s))"
| step_prune: "ledger_step tv env now s (snd (prune tv env now s))"

inductive ledger_reachable :: "(log_record \<Rightarrow> string) \<Rightarrow> (string \<Rightarrow> log_record option) \<Rightarrow> inner \<Rightarrow> bool"
  for tv fs where
  reach_open: "open_ledger tv fs lock_held file cfg = Inr s \<Longrightarrow> ledger_reachable tv fs s"
| reach_step: "ledger_reachable tv fs s \<Longrightarrow> ledger_step tv env now s s' \<Longrightarrow> ledger_reachable tv fs s'"

lemma load_loop_inv:
  "ledger_inv s \<Longrightarrow> load_loop tv fs off bytes s = Inr (off', s') \<Longrightarrow> ledger_inv s'"
proof (induction tv fs off bytes s rule: load_loop.induct)
  case (1 tv fs off bytes s)
  let ?line = "takeWhile (\<lambda>b. b \<noteq> newline) bytes"
  have file_irrelevant: "ledger_inv (x\<lparr>log_file := f\<rparr>) = ledger_inv x" for x f
    by (rule ledger_inv_cong) simp_all
  show ?case
  proof (cases "bytes = []")
    case True
    with 1(3,4) show ?thesis by (simp add: load_loop.simps[of tv fs off "[]" s])
  next
    case ne: False
    show ?thesis
    proof (cases "newline \<in> set bytes")
      case True
      show ?thesis
      proof (cases "?line = []")
        case l: True
        with 1(4) ne True show ?thesis
          using 1(1)[OF ne True refl refl refl l 1(3)]
          by (simp add: load_loop.simps[of tv fs off bytes s])
      next
        case l: False
        with 1(4) ne True obtain r s1 where r: "fs ?line = Some r"
          and s1: "apply_record tv s r = Inr s1"
          and rest: "load_loop tv fs (off + length ?line + 1) (drop (Suc (length ?line)) bytes) s1
            = Inr (off', s')"
          by (auto simp: load_loop.simps[of tv fs off bytes s] Let_def split: option.splits sum.splits)
        from 1(2)[OF ne True refl refl refl l r s1 apply_record_inv[OF 1(3) s1] rest]
        show ?thesis .
      qed
    next
      case False
      with 1(3,4) ne show ?thesis
        by (auto simp: load_loop.simps[of tv fs off bytes s] file_irrelevant
            split: option.splits sum.splits dest: apply_record_inv)
    qed
  qed
qed

lemma open_ledger_inv:
  assumes "open_ledger tv fs lock_held file cfg = Inr s"
  shows "ledger_inv s"
proof -
  from assms obtain off s1 where l: "load_loop tv fs 0 file (fresh_inner file cfg) = Inr (off, s1)"
    and s: "s = recalculate_live_bytes tv (s1\<lparr>uncompacted_bytes := off\<rparr>)"
    by (auto simp: open_ledger_def load_def fresh_inner_def split: if_splits sum.splits)
  have "ledger_inv s1" using load_loop_inv[OF ledger_inv_fresh l] .
  then show ?thesis
    unfolding s ledger_inv_recalculate by (subst ledger_inv_cong[of _ s1]) simp_all
qed

lemma ledger_step_inv: "ledger_step tv env now s s' \<Longrightarrow> ledger_inv s \<Longrightarrow> ledger_inv s'"
  by (induction rule: ledger_step.induct)
    (simp_all add: allocate_timestamp_inv check_submission_inv record_payment_inv
      release_reservation_def release_local_reservation_def release_key_inv update_state_inv
      prune_inv find_by_key_def find_by_tx_id_def Let_def ledger_inv_refresh)

lemma ledger_reachable_inv: "ledger_reachable tv fs s \<Longrightarrow> ledger_inv s"
  by (induction rule: ledger_reachable.induct) (auto intro: open_ledger_inv ledger_step_inv)

section \<open>A key is never repointed\<close>

definition same_payment :: "ledger_entry \<Rightarrow> ledger_entry \<Rightarrow> bool" where
  "same_payment e e' \<longleftrightarrow> e' = e\<lparr>e_state := e_state e', e_updated_at := e_updated_at e'\<rparr>"

definition payments_kept :: "inner \<Rightarrow> inner \<Rightarrow> bool" where
  "payments_kept s s' \<longleftrightarrow>
     (\<forall>(k, e) \<in> set (entries s).
        case hm_get (entries s') k of None \<Rightarrow> True | Some e' \<Rightarrow> same_payment e e')"

lemma payments_kept_iff:
  "hm_wf (entries s) \<Longrightarrow> payments_kept s s' \<longleftrightarrow>
     (\<forall>k e e'. hm_get (entries s) k = Some e \<longrightarrow> hm_get (entries s') k = Some e' \<longrightarrow> same_payment e e')"
  unfolding payments_kept_def by (auto simp: hm_ball split: option.splits)

lemma same_payment_refl [simp]: "same_payment e e"
  and same_payment_refresh [simp]: "same_payment e (refresh_entry h now e)"
  and same_payment_state [simp]: "same_payment e (e\<lparr>e_state := st, e_updated_at := u\<rparr>)"
  by (auto simp: same_payment_def refresh_entry_def)

lemma payments_kept_same:
  "hm_wf (entries s) \<Longrightarrow> entries s' = entries s \<Longrightarrow> payments_kept s s'"
  by (simp add: payments_kept_iff)

lemma payments_kept_refresh: "hm_wf (entries s) \<Longrightarrow> payments_kept s (refresh_expiry now s)"
  by (auto simp: payments_kept_iff refresh_expiry_get)

text \<open>Nothing but a fresh entry under an unused key is added by \<open>record\<close>.\<close>

lemma record_admit_entries:
  assumes "hm_get (entries (snd (record_admit tv env e now s))) k = Some x"
  shows "(k = e_key e \<and> x = e) \<or> hm_get (entries (refresh_expiry now s)) k = Some x"
proof -
  let ?s1 = "recalculate_live_bytes tv (refresh_expiry now s)"
  let ?n = "saturating_sub (max_entries (config ?s1)) 1"
  let ?b = "saturating_sub (max_live_bytes (config ?s1)) (encoded_upsert_len tv e)"
  obtain r2 s2 where p: "prune_durable tv env now ?n ?b ?s1 = (r2, s2)"
    by (cases "prune_durable tv env now ?n ?b ?s1")
  obtain r3 s3 where a: "append_log tv env (Upsert e) s2 = (r3, s3)"
    by (cases "append_log tv env (Upsert e) s2")
  have "hm_get (entries s2) k = Some x \<Longrightarrow> hm_get (entries (refresh_expiry now s)) k = Some x"
    using prune_durable_subset[OF p, of k x] by (simp add: ledger_frame)
  with assms p a append_log_frame'(1)[OF a] show ?thesis
    by (auto simp: record_admit_def Let_def ledger_frame hm_simps split: sum.splits if_splits)
qed

lemma prune_entries:
  assumes "hm_get (entries (snd (prune tv env now s))) k = Some x"
  shows "hm_get (entries (refresh_expiry now s)) k = Some x"
  using assms prune_durable_subset[of tv env now _ _ "recalculate_live_bytes tv (refresh_expiry now s)" _ _ k x]
  unfolding prune_def Let_def by (metis prod.collapse recalculate_frame(1))

lemma release_key_entries:
  "entries (snd (release_key tv env k t s)) = entries s
   \<or> entries (snd (release_key tv env k t s)) = hm_remove k (entries s)"
  by (auto simp: release_key_def ledger_frame dest: append_log_frame'(1)
      split: option.splits sum.splits prod.splits)

lemma update_state_entries:
  "entries (snd (update_state tv env t st now s)) = entries s
   \<or> (\<exists>k e. hm_get (entries s) k = Some e \<and> entries (snd (update_state tv env t st now s))
        = hm_insert k (e\<lparr>e_state := st, e_updated_at := now\<rparr>) (entries s))"
  by (auto simp: update_state_def ledger_frame dest!: append_log_frame'(1)
      split: option.splits sum.splits prod.splits) blast

lemma ledger_step_keeps_payments:
  assumes step: "ledger_step tv env now s s'" and inv: "ledger_inv s"
  shows "payments_kept s s'"
  using step
proof cases
  case (step_record ik' tup ts t sg)
  let ?e = "record_new_entry ik' tup ts t sg now"
  have kept: "payments_kept s (snd (record_admit tv env ?e now s))"
    if "hm_get (entries s) (e_key ?e) = None"
    using that record_admit_entries[of tv env ?e now s]
    by (fastforce simp: payments_kept_iff[OF ledger_invD(1)[OF inv]] refresh_expiry_get)
  with step_record payments_kept_same[OF ledger_invD(1)[OF inv] refl] show ?thesis
    by (auto simp: record_payment_def Let_def record_new_entry_def split: option.splits)
next
  case step_prune
  then show ?thesis using prune_entries[of tv env now s]
    by (fastforce simp: payments_kept_iff[OF ledger_invD(1)[OF inv]] refresh_expiry_get)
next
  case (step_update t st)
  then show ?thesis using update_state_entries[of tv env t st now s]
    by (auto simp: payments_kept_iff[OF ledger_invD(1)[OF inv]] hm_simps split: if_splits)
next
  case (step_release ik t)
  then show ?thesis using release_key_entries[of tv env "primary_key (Some ik) t" t s]
    by (auto simp: payments_kept_iff[OF ledger_invD(1)[OF inv]] hm_simps release_reservation_def
        split: if_splits)
next
  case (step_release_local t)
  then show ?thesis using release_key_entries[of tv env "primary_key None t" t s]
    by (auto simp: payments_kept_iff[OF ledger_invD(1)[OF inv]] hm_simps
        release_local_reservation_def split: if_splits)
next
  case (step_allocate tup)
  then show ?thesis
    by (intro payments_kept_same[OF ledger_invD(1)[OF inv]])
      (simp add: allocate_timestamp_def Let_def)
next
  case (step_check ik t)
  then show ?thesis
    by (simp add: check_submission_def Let_def payments_kept_refresh[OF ledger_invD(1)[OF inv]])
next
  case (step_find_key ik)
  then show ?thesis
    by (simp add: find_by_key_def Let_def payments_kept_refresh[OF ledger_invD(1)[OF inv]])
next
  case (step_find_tx t)
  then show ?thesis
    by (simp add: find_by_tx_id_def Let_def payments_kept_refresh[OF ledger_invD(1)[OF inv]])
qed

section \<open>Allocated timestamps are distinct\<close>

text \<open>
  A run of the ledger under a clock that never goes back, with the list of all timestamps
  handed out so far.  The clock stays clear of the top of the \<open>u64\<close> range, where
  \<open>saturating_add\<close> would make two allocations equal.
\<close>

inductive alloc_run :: "(log_record \<Rightarrow> string) \<Rightarrow> u64 \<Rightarrow> inner \<Rightarrow> (payment_tuple \<times> u64) list \<Rightarrow> bool"
  for tv where
  run_open: "ledger_inv s \<Longrightarrow> alloc_run tv clock s []"
| run_allocate: "alloc_run tv clock s out \<Longrightarrow> clock \<le> now
    \<Longrightarrow> now + future_allocation_margin_secs (config s) < u64_max
    \<Longrightarrow> allocate_timestamp tup now s = (Inr ts, s') \<Longrightarrow> alloc_run tv now s' ((tup, ts) # out)"
| run_step: "alloc_run tv clock s out \<Longrightarrow> clock \<le> now \<Longrightarrow> ledger_step tv env now s s'
    \<Longrightarrow> alloc_run tv now s' out"

definition ts_advance :: "u64 \<Rightarrow> inner \<Rightarrow> inner \<Rightarrow> bool" where
  "ts_advance now s s' \<longleftrightarrow>
     (\<forall>tup x l. hm_get (tuple_last_ts s) tup = Some l \<and> x \<le> l \<and> x \<le> u64_max \<longrightarrow>
        x < now \<or> (\<exists>l'. hm_get (tuple_last_ts s') tup = Some l' \<and> x \<le> l'))"

lemma ts_advance_same: "tuple_last_ts s' = tuple_last_ts s \<Longrightarrow> ts_advance now s s'"
  by (auto simp: ts_advance_def)

lemma ts_advance_trans: "ts_advance now s t \<Longrightarrow> ts_advance now t u \<Longrightarrow> ts_advance now s u"
  unfolding ts_advance_def by blast

lemma ts_advance_index: "ts_advance now s (index_entry tv e s)"
  by (auto simp: ts_advance_def index_entry_def Let_def hm_simps le_max_iff_disj split: option.splits)

lemma prune_durable_advance:
  assumes "prune_durable tv env now n b s = (res, s')" and "hm_wf (tuple_last_ts s)"
  shows "ts_advance now s s'"
proof -
  let ?ks = "sort (prune_keys tv s now n b)"
  obtain r1 s1 where l: "prune_delete_loop tv env ?ks 0 s = (r1, s1)"
    by (cases "prune_delete_loop tv env ?ks 0 s")
  have same: "tuple_last_ts s1 = tuple_last_ts s" using prune_delete_loop_frame[OF l] by simp
  have keep: "ts_advance now s (s1\<lparr>tuple_last_ts := hm_retain (\<lambda>_ t. t \<ge> now) (tuple_last_ts s1)\<rparr>)"
    by (auto simp: ts_advance_def same hm_get_retain[OF assms(2)])
  from assms(1) l consider "s' = s" | "s' = s1"
    | "s' = maybe_compact_best_effort tv env
         (s1\<lparr>tuple_last_ts := hm_retain (\<lambda>_ t. t \<ge> now) (tuple_last_ts s1)\<rparr>)"
    by (cases r1; cases "prune_keys tv s now n b = []") (simp_all add: prune_durable_def Let_def)
  then show ?thesis
  proof cases
    case 3
    with ts_advance_trans[OF keep ts_advance_same] show ?thesis by (simp add: ledger_frame)
  qed (simp_all add: ts_advance_same same)
qed

lemma record_admit_advance:
  assumes "hm_wf (tuple_last_ts s)"
  shows "ts_advance now s (snd (record_admit tv env e now s))"
proof -
  let ?s1 = "recalculate_live_bytes tv (refresh_expiry now s)"
  let ?n = "saturating_sub (max_entries (config ?s1)) 1"
  let ?b = "saturating_sub (max_live_bytes (config ?s1)) (encoded_upsert_len tv e)"
  obtain r2 s2 where p: "prune_durable tv env now ?n ?b ?s1 = (r2, s2)"
    by (cases "prune_durable tv env now ?n ?b ?s1")
  obtain r3 s3 where a: "append_log tv env (Upsert e) s2 = (r3, s3)"
    by (cases "append_log tv env (Upsert e) s2")
  have s1: "ts_advance now s ?s1" by (rule ts_advance_same) (simp add: ledger_frame)
  have s2: "ts_advance now s s2"
    using ts_advance_trans[OF s1 prune_durable_advance[OF p]] assms by (simp add: ledger_frame)
  have s3: "ts_advance now s s3"
    using ts_advance_trans[OF s2 ts_advance_same] append_log_frame'(3)[OF a] by blast
  have s4: "ts_advance now s (maybe_compact_best_effort tv env (index_entry tv e s3))"
    using ts_advance_trans[OF ts_advance_trans[OF s3 ts_advance_index] ts_advance_same]
    by (simp add: ledger_frame)
  show ?thesis using s1 s2 s3 s4 p a
    by (auto simp: record_admit_def Let_def split: sum.splits)
qed

lemma allocate_advance:
  assumes "hm_wf (tuple_last_ts s)"
  shows "ts_advance now s (snd (allocate_timestamp tup now s))"
  by (auto simp: ts_advance_def allocate_timestamp_def Let_def hm_simps rust_arith le_max_iff_disj
      split: option.splits if_splits)

lemma ledger_step_advance:
  assumes "ledger_step tv env now s s'" and inv: "ledger_inv s"
  shows "ts_advance now s s'"
  using assms(1)
proof cases
  case (step_record ik' tup ts t sg)
  then show ?thesis
    using record_admit_advance[OF ledger_invD(3)[OF inv]] ts_advance_same[of s s now]
    by (auto simp: record_payment_def Let_def split: option.splits)
next
  case step_prune
  let ?s1 = "recalculate_live_bytes tv (refresh_expiry now s)"
  have "ts_advance now ?s1 s'"
    using step_prune prune_durable_advance[of tv env now _ _ ?s1] ledger_invD(3)[OF inv]
    unfolding prune_def Let_def by (metis prod.collapse recalculate_frame(3) refresh_frame(2))
  then show ?thesis by (simp add: ts_advance_def ledger_frame)
next
  case (step_allocate tup)
  then show ?thesis using allocate_advance[OF ledger_invD(3)[OF inv]] by simp
qed (auto intro!: ts_advance_same simp: release_reservation_def release_local_reservation_def
    release_key_def update_state_def check_submission_def find_by_key_def find_by_tx_id_def
    Let_def ledger_frame dest: append_log_frame'(3) split: option.splits sum.splits prod.splits)

definition handed_out_ok :: "inner \<Rightarrow> u64 \<Rightarrow> payment_tuple \<times> u64 \<Rightarrow> bool" where
  "handed_out_ok s clock p \<longleftrightarrow> snd p \<le> u64_max \<and>
     (snd p < clock \<or> (\<exists>l. hm_get (tuple_last_ts s) (fst p) = Some l \<and> snd p \<le> l))"

lemma handed_out_ok_advance:
  assumes "handed_out_ok s clock p" and "clock \<le> now" and "ts_advance now s s'"
  shows "handed_out_ok s' now p"
proof -
  from assms(1) consider "snd p < clock"
    | l where "hm_get (tuple_last_ts s) (fst p) = Some l" "snd p \<le> l"
    by (auto simp: handed_out_ok_def)
  then show ?thesis
  proof cases
    case 1
    with assms show ?thesis by (simp add: handed_out_ok_def)
  next
    case 2
    with assms show ?thesis unfolding handed_out_ok_def ts_advance_def by blast
  qed
qed

lemma alloc_run_invariant:
  assumes "alloc_run tv clock s out"
  shows "ledger_inv s \<and> distinct out \<and> (\<forall>p \<in> set out. handed_out_ok s clock p)"
  using assms
proof (induction rule: alloc_run.induct)
  case (run_open s clock)
  then show ?case by simp
next
  case (run_allocate clock s out now tup ts s')
  from run_allocate.IH have inv: "ledger_inv s" by simp
  from run_allocate.hyps(3,4)
  have s': "s' = s\<lparr>tuple_last_ts := hm_insert tup ts (tuple_last_ts s)\<rparr>" and now: "now \<le> ts"
    and above: "\<And>l. hm_get (tuple_last_ts s) tup = Some l \<Longrightarrow> l < ts" and small: "ts \<le> u64_max"
    by (auto simp: allocate_timestamp_def Let_def rust_arith split: option.splits if_splits)
  have "ts_advance now s s'"
    using allocate_advance[OF ledger_invD(3)[OF inv], of now tup] run_allocate.hyps(4) by simp
  then have old: "\<forall>p \<in> set out. handed_out_ok s' now p"
    using run_allocate.IH run_allocate.hyps(2) handed_out_ok_advance by blast
  have fresh: "\<not> handed_out_ok s clock (tup, ts)"
    using above now run_allocate.hyps(2) by (auto simp: handed_out_ok_def)
  have "handed_out_ok s' now (tup, ts)"
    using small by (simp add: handed_out_ok_def s' hm_simps)
  moreover have "ledger_inv s'"
    using allocate_timestamp_inv[OF inv, of tup now] run_allocate.hyps(4) by simp
  ultimately show ?case using old fresh run_allocate.IH by auto
next
  case (run_step clock s out now env s')
  have "ts_advance now s s'" and "ledger_inv s'"
    using ledger_step_advance ledger_step_inv run_step by blast+
  then show ?case using run_step.IH run_step.hyps(2) handed_out_ok_advance by blast
qed

end
