(* ===== verification/A9_Ledger_Durable.thy ===== *)
theory A9_Ledger_Durable
  imports A9_Ledger_Spec
begin

text \<open>
  Durability: the log on disk always replays to the entries in memory, up to expiry (which
  is applied in memory only and re-derived from the immutable timestamp).  The relation is
  kept by every operation whose failed writes leave no bytes behind, survives compaction,
  and yields crash recovery, with a torn final line cut off.
\<close>

section \<open>Logs as lists of records\<close>

definition log_line :: "(log_record \<Rightarrow> string) \<Rightarrow> log_record \<Rightarrow> string" where
  "log_line tv r = tv r @ [newline]"

definition log_of :: "(log_record \<Rightarrow> string) \<Rightarrow> log_record list \<Rightarrow> string" where
  "log_of tv rs = concat (map (log_line tv) rs)"

text \<open>What the ledger relies on in \<open>serde_json\<close>, for the records of one log: the encoding is
  one non-empty line, and decoding it gives the record back.\<close>

definition json_faithful :: "(log_record \<Rightarrow> string) \<Rightarrow> (string \<Rightarrow> log_record option) \<Rightarrow> log_record list
    \<Rightarrow> bool" where
  "json_faithful tv fs rs \<longleftrightarrow>
     (\<forall>r \<in> set rs. newline \<notin> set (tv r) \<and> tv r \<noteq> [] \<and> fs (tv r) = Some r)"

lemma log_of_simps [simp]:
  "log_of tv [] = []" "log_of tv (r # rs) = tv r @ newline # log_of tv rs"
  "log_of tv (rs @ rs') = log_of tv rs @ log_of tv rs'"
  by (simp_all add: log_of_def log_line_def)

lemma takeWhile_line: "newline \<notin> set l \<Longrightarrow> takeWhile (\<lambda>b. b \<noteq> newline) (l @ newline # rest) = l"
  by (induction l) auto

lemma load_loop_line:
  assumes "newline \<notin> set l" and "l \<noteq> []" and "fs l = Some r"
  shows "load_loop tv fs off (l @ newline # rest) s =
    (case apply_record tv s r of
       Inl e \<Rightarrow> Inl e
     | Inr s' \<Rightarrow> load_loop tv fs (Suc (off + length l)) rest s')"
  using assms by (subst load_loop.simps) (simp add: takeWhile_line)

lemma load_loop_log:
  assumes "json_faithful tv fs rs"
  shows "load_loop tv fs off (log_of tv rs @ tail) s =
    (case try_fold (apply_record tv) s rs of
       Inl e \<Rightarrow> Inl e
     | Inr s' \<Rightarrow> load_loop tv fs (off + length (log_of tv rs)) tail s')"
  using assms
proof (induction rs arbitrary: off s)
  case Nil
  then show ?case by simp
next
  case (Cons r rs)
  then show ?case
    by (auto simp: json_faithful_def load_loop_line add.assoc split: sum.splits)
qed

section \<open>Disk and memory\<close>

definition expired_of :: "ledger_entry \<Rightarrow> ledger_entry \<Rightarrow> bool" where
  "expired_of e0 e \<longleftrightarrow> e = e0
     \<or> (e_state e0 \<in> {Reserved, Pending} \<and> e = e0\<lparr>e_state := Expired, e_updated_at := e_updated_at e\<rparr>)"

definition mirrors :: "inner \<Rightarrow> inner \<Rightarrow> bool" where
  "mirrors s0 s \<longleftrightarrow> ledger_inv s0 \<and> ledger_inv s
     \<and> (\<forall>k. rel_option expired_of (hm_get (entries s0) k) (hm_get (entries s) k))"

lemma expired_of_refl [simp]: "expired_of e e"
  by (simp add: expired_of_def)

lemma expired_of_tx: "expired_of e0 e \<Longrightarrow> e_tx_id e = e_tx_id e0"
  unfolding expired_of_def by (cases e0; cases e) auto

lemma expired_of_refresh: "expired_of e0 e \<Longrightarrow> expired_of e0 (refresh_entry h now e)"
  unfolding expired_of_def refresh_entry_def by (cases e0; cases e) auto

lemma mirrors_refresh: "mirrors s0 s \<Longrightarrow> mirrors s0 (refresh_expiry now s)"
  unfolding mirrors_def
  by (auto simp: ledger_inv_refresh refresh_expiry_get option.rel_map
      intro: option.rel_mono_strong expired_of_refresh)

lemma mirrors_cong:
  assumes "entries s' = entries s" "tx_index s' = tx_index s" "ledger_inv s'"
  shows "mirrors s0 s \<Longrightarrow> mirrors s0 s'"
  using assms by (simp add: mirrors_def)

lemma mirrors_get:
  assumes "mirrors s0 s" and "hm_get (entries s) k = Some e"
  obtains e0 where "hm_get (entries s0) k = Some e0" "expired_of e0 e"
  using assms unfolding mirrors_def by (metis option_rel_Some2)

lemma mirrors_none: "mirrors s0 s \<Longrightarrow> hm_get (entries s0) k = None \<longleftrightarrow> hm_get (entries s) k = None"
  unfolding mirrors_def by (metis option.rel_distinct(1,2) option.exhaust)

lemma inv_index_entry:
  assumes "ledger_inv s" shows "hm_get (tx_index s) t = Some k \<longleftrightarrow>
    (\<exists>e. hm_get (entries s) k = Some e \<and> e_tx_id e = t)"
  using ledger_invD[OF assms] unfolding entry_filed_def by blast

lemma mirrors_index:
  assumes "mirrors s0 s"
  shows "hm_get (tx_index s0) t = hm_get (tx_index s) t"
proof -
  have inv: "ledger_inv s0" "ledger_inv s" using assms by (auto simp: mirrors_def)
  have "hm_get (tx_index s0) t = Some k \<longleftrightarrow> hm_get (tx_index s) t = Some k" for k
    unfolding inv_index_entry[OF inv(1)] inv_index_entry[OF inv(2)]
    using assms unfolding mirrors_def by (metis expired_of_tx option_rel_Some1 option_rel_Some2)
  then show ?thesis by (metis option.exhaust)
qed

text \<open>The three records an operation can append, replayed on the mirror.\<close>

lemma mirrors_upsert:
  assumes m: "mirrors s0 s" and key: "e_key e = primary_key (e_idempotency_key e) (e_tx_id e)"
    and none: "hm_get (entries s) (e_key e) = None" and own: "hm_get (tx_index s) (e_tx_id e) = None"
  shows "\<exists>s0'. apply_record tv s0 (Upsert e) = Inr s0' \<and> mirrors s0' (index_entry tv e s)"
proof -
  have e: "e\<lparr>e_key := primary_key (e_idempotency_key e) (e_tx_id e)\<rparr> = e"
    using key by (cases e) simp
  have n0: "hm_get (entries s0) (e_key e) = None" "hm_get (tx_index s0) (e_tx_id e) = None"
    using mirrors_none[OF m] mirrors_index[OF m] none own by auto
  have ap: "apply_record tv s0 (Upsert e) = Inr (index_entry tv e s0)"
    using n0 by (simp add: apply_record_def Let_def e)
  have "ledger_inv (index_entry tv e s0)" "ledger_inv (index_entry tv e s)"
    using m n0 none own key by (auto simp: mirrors_def intro!: ledger_inv_index)
  with m ap show ?thesis
    by (auto simp: mirrors_def ledger_frame hm_simps)
qed

lemma mirrors_state:
  assumes m: "mirrors s0 s" and k: "hm_get (tx_index s) t = Some k" and e: "hm_get (entries s) k = Some e"
  shows "\<exists>s0'. apply_record tv s0 (State t st now) = Inr s0'
    \<and> mirrors s0' (s\<lparr>entries := hm_insert k (e\<lparr>e_state := st, e_updated_at := now\<rparr>) (entries s)\<rparr>)"
proof -
  obtain e0 where e0: "hm_get (entries s0) k = Some e0" "expired_of e0 e"
    using mirrors_get[OF m e] .
  let ?s0 = "s0\<lparr>entries := hm_insert k (e0\<lparr>e_state := st, e_updated_at := now\<rparr>) (entries s0)\<rparr>"
  have ap: "apply_record tv s0 (State t st now) = Inr ?s0"
    using e0 k mirrors_index[OF m, of t] by (simp add: apply_record_def)
  have "e\<lparr>e_state := st, e_updated_at := now\<rparr> = e0\<lparr>e_state := st, e_updated_at := now\<rparr>"
    using e0(2) unfolding expired_of_def by (cases e0; cases e) auto
  moreover have "ledger_inv ?s0"
    "ledger_inv (s\<lparr>entries := hm_insert k (e\<lparr>e_state := st, e_updated_at := now\<rparr>) (entries s)\<rparr>)"
    using m e e0 by (auto simp: mirrors_def intro: ledger_inv_set_state)
  ultimately show ?thesis using m ap by (auto simp: mirrors_def hm_simps)
qed

lemma primary_key_prefix:
  "starts_with (primary_key ik t) ''idempotency:'' \<or> starts_with (primary_key ik t) ''transaction:''"
  by (cases ik) (simp_all add: primary_key_def starts_with_def)

lemma mirrors_delete:
  assumes m: "mirrors s0 s" and e: "hm_get (entries s) k = Some e"
  shows "\<exists>s0'. apply_record tv s0 (Delete k (e_tx_id e)) = Inr s0' \<and> mirrors s0' (remove_entry tv k s)"
proof -
  obtain e0 where e0: "hm_get (entries s0) k = Some e0" "expired_of e0 e"
    using mirrors_get[OF m e] .
  have "entry_filed s k e" using m e ledger_invD(4) by (auto simp: mirrors_def)
  then have "starts_with k ''idempotency:'' \<or> starts_with k ''transaction:''"
    unfolding entry_filed_def using primary_key_prefix by metis
  then have ap: "apply_record tv s0 (Delete k (e_tx_id e)) = Inr (remove_entry tv k s0)"
    using e0 expired_of_tx[OF e0(2)] by (simp add: apply_record_def Let_def)
  have "ledger_inv (remove_entry tv k s0)" "ledger_inv (remove_entry tv k s)"
    using m by (auto simp: mirrors_def intro: ledger_inv_remove)
  with m ap show ?thesis by (auto simp: mirrors_def ledger_frame hm_simps)
qed

section \<open>The durability invariant\<close>

definition durable :: "(log_record \<Rightarrow> string) \<Rightarrow> inner \<Rightarrow> bool" where
  "durable tv s \<longleftrightarrow> (\<exists>rs s0. log_file s = log_of tv rs
     \<and> try_fold (apply_record tv) (fresh_inner [] (config s)) rs = Inr s0 \<and> mirrors s0 s)"

text \<open>Writes that either succeed or leave nothing behind.\<close>

definition clean_io :: "io_env \<Rightarrow> bool" where
  "clean_io env \<longleftrightarrow> (\<forall>n. append_outcomes env n \<in> {AppendOk, AppendErr 0})"

lemma durable_cong:
  assumes "log_file s' = log_file s" "config s' = config s" "\<And>s0. mirrors s0 s \<Longrightarrow> mirrors s0 s'"
  shows "durable tv s \<Longrightarrow> durable tv s'"
  using assms unfolding durable_def by metis

lemma durable_inv: "durable tv s \<Longrightarrow> ledger_inv s"
  by (auto simp: durable_def mirrors_def)

lemma durable_refresh: "durable tv s \<Longrightarrow> durable tv (refresh_expiry now s)"
  by (rule durable_cong[of _ s]) (auto simp: ledger_frame mirrors_refresh)

lemma durable_recalculate: "durable tv s \<Longrightarrow> durable tv (recalculate_live_bytes tv' s)"
  by (rule durable_cong[of _ s])
    (auto simp: ledger_frame mirrors_def)

lemma durable_retain:
  "durable tv s \<Longrightarrow> durable tv (s\<lparr>tuple_last_ts := hm_retain P (tuple_last_ts s)\<rparr>)"
  by (rule durable_cong[of _ s]) (auto simp: mirrors_def ledger_inv_retain)

lemma append_log_err:
  assumes "append_log tv env r s = (Inl x, s')" and "clean_io env"
  shows "log_file s' = log_file s"
proof -
  have "append_outcomes env (io_step s) \<in> {AppendOk, AppendErr 0}"
    using assms(2) by (simp add: clean_io_def)
  with assms(1) show ?thesis
    by (auto simp: append_log_def Let_def)
qed

lemma durable_append_err:
  assumes a: "append_log tv env r s = (Inl x, s')" and "clean_io env" and d: "durable tv s"
  shows "durable tv s'"
proof (rule durable_cong[OF append_log_err[OF assms(1,2)] append_log_frame'(4)[OF a] _ d])
  fix s0 assume "mirrors s0 s"
  then show "mirrors s0 s'"
    using append_log_frame'[OF a] ledger_inv_cong[of s' s] by (simp add: mirrors_def)
qed

lemma durable_append_ok:
  assumes a: "append_log tv env r s = (Inr u, s1)" and d: "durable tv s"
    and mir: "\<And>s0. mirrors s0 s \<Longrightarrow> \<exists>s0'. apply_record tv s0 r = Inr s0' \<and> mirrors s0' s'"
    and lf: "log_file s' = log_file s1" and cfg: "config s' = config s"
  shows "durable tv s'"
proof -
  from d obtain rs s0 where rs: "log_file s = log_of tv rs"
    "try_fold (apply_record tv) (fresh_inner [] (config s)) rs = Inr s0" "mirrors s0 s"
    by (auto simp: durable_def)
  from mir[OF rs(3)] obtain s0' where r: "apply_record tv s0 r = Inr s0'" "mirrors s0' s'"
    by blast
  have "log_file s' = log_of tv (rs @ [r])"
    using append_log_ok[OF a] lf rs(1) by simp
  moreover have "try_fold (apply_record tv) (fresh_inner [] (config s')) (rs @ [r]) = Inr s0'"
    using rs(2) r(1) cfg by (simp add: try_fold_snoc)
  ultimately show ?thesis using r(2) unfolding durable_def by blast
qed

section \<open>Compaction\<close>

lemma replay_snapshot:
  assumes "\<And>e. e \<in> set es \<Longrightarrow> e_key e = primary_key (e_idempotency_key e) (e_tx_id e)"
    and "distinct (map e_key es)" and "distinct (map e_tx_id es)"
  shows "\<exists>s0. try_fold (apply_record tv) (fresh_inner [] cfg) (map Upsert es) = Inr s0
    \<and> ledger_inv s0 \<and> (\<forall>k. hm_get (entries s0) k = map_of (map (\<lambda>e. (e_key e, e)) es) k)"
  using assms
proof (induction es rule: rev_induct)
  case Nil
  then show ?case
    by (simp add: ledger_inv_fresh) (simp add: fresh_inner_def hm_simps)
next
  case (snoc e es)
  then obtain s0 where s0: "try_fold (apply_record tv) (fresh_inner [] cfg) (map Upsert es) = Inr s0"
    "ledger_inv s0" "\<And>k. hm_get (entries s0) k = map_of (map (\<lambda>e. (e_key e, e)) es) k"
    by auto
  have key: "e_key e = primary_key (e_idempotency_key e) (e_tx_id e)" using snoc.prems(1) by simp
  have none: "hm_get (entries s0) (e_key e) = None"
    using snoc.prems(2) by (simp add: s0(3) map_of_eq_None_iff image_image)
  have own: "hm_get (tx_index s0) (e_tx_id e) = None"
  proof (cases "hm_get (tx_index s0) (e_tx_id e)")
    case (Some k)
    then obtain x where "hm_get (entries s0) k = Some x" "e_tx_id x = e_tx_id e"
      using ledger_invD(5)[OF s0(2)] by blast
    then have "e_tx_id e \<in> e_tx_id ` set es"
      by (auto simp: s0(3) dest!: map_of_SomeD) (metis imageI)
    with snoc.prems(3) show ?thesis by simp
  qed simp
  obtain s0' where "apply_record tv s0 (Upsert e) = Inr s0'" "mirrors s0' (index_entry tv e s0)"
    using mirrors_upsert[OF _ key none own, of s0 tv] s0(2)
    by (auto simp: mirrors_def option.rel_refl)
  moreover have "s0' = index_entry tv e s0"
    using calculation(1) none own key
    by (cases e) (simp add: apply_record_def Let_def)
  ultimately show ?case
    using s0 snoc.prems(2) none[unfolded s0(3)]
    by (auto simp: try_fold_snoc mirrors_def ledger_frame hm_simps map_add_def split: option.splits)
qed

lemma entries_by_key:
  assumes "ledger_inv s"
  shows "map (\<lambda>e. (e_key e, e)) (hm_values (entries s)) = entries s"
  using assms unfolding ledger_inv_def hm_values_def entry_filed_def
  by (auto simp: comp_def intro!: map_idI)

lemma distinct_tx_ids:
  assumes inv: "ledger_inv s"
  shows "distinct (map e_tx_id (hm_values (entries s)))"
proof -
  have d: "distinct (map e_key (hm_values (entries s)))"
    using ledger_invD(1)[OF inv] arg_cong[OF entries_by_key[OF inv], of "map fst"]
    by (simp add: hm_wf_def comp_def)
  have "inj_on e_tx_id (set (hm_values (entries s)))"
  proof (rule inj_onI)
    fix x y assume x: "x \<in> set (hm_values (entries s))" "y \<in> set (hm_values (entries s))"
      and t: "e_tx_id x = e_tx_id y"
    then obtain k k' where "hm_get (entries s) k = Some x" "hm_get (entries s) k' = Some y"
      using hm_values_set[OF ledger_invD(1)[OF inv]] by blast
    with t show "x = y"
      using ledger_invD(4)[OF inv] unfolding entry_filed_def by (metis option.inject)
  qed
  moreover have "distinct (hm_values (entries s))" using d by (simp add: distinct_map)
  ultimately show ?thesis by (simp add: distinct_map)
qed

lemma durable_snapshot:
  assumes inv: "ledger_inv s" and s': "log_file s' = snapshot_bytes tv s" "entries s' = entries s"
    "config s' = config s" "ledger_inv s'"
  shows "durable tv s'"
proof -
  let ?es = "hm_values (entries s)"
  have "distinct (map e_key ?es)"
    using ledger_invD(1)[OF inv] arg_cong[OF entries_by_key[OF inv], of "map fst"]
    by (simp add: hm_wf_def comp_def)
  moreover have "e_key e = primary_key (e_idempotency_key e) (e_tx_id e)" if "e \<in> set ?es" for e
    using that hm_values_set[OF ledger_invD(1)[OF inv]] ledger_invD(4)[OF inv]
    unfolding entry_filed_def by metis
  ultimately obtain s0 where
    "try_fold (apply_record tv) (fresh_inner [] (config s)) (map Upsert ?es) = Inr s0"
    "ledger_inv s0" "\<And>k. hm_get (entries s0) k = map_of (map (\<lambda>e. (e_key e, e)) ?es) k"
    using replay_snapshot[of ?es tv "config s"] distinct_tx_ids[OF inv] by blast
  moreover have "log_file s' = log_of tv (map Upsert ?es)"
    by (simp add: s' snapshot_bytes_def log_of_def log_line_def comp_def)
  ultimately show ?thesis
    using s' unfolding durable_def mirrors_def
    by (intro exI[of _ "map Upsert ?es"] exI[of _ s0])
      (simp add: entries_by_key[OF inv] hm_get_def option.rel_refl)
qed

lemma durable_compact:
  assumes "durable tv s"
  shows "durable tv (maybe_compact_best_effort tv env s)"
proof (cases "log_file (maybe_compact_best_effort tv env s) = log_file s")
  case True
  show ?thesis
    by (rule durable_cong[OF True _ _ assms])
      (simp_all add: ledger_frame mirrors_def)
next
  case False
  then have "log_file (maybe_compact_best_effort tv env s) = snapshot_bytes tv s"
    by (auto simp: maybe_compact_best_effort_def compact_def split: compact_outcome.splits if_splits)
  then show ?thesis
    by (intro durable_snapshot[OF durable_inv[OF assms]]) (simp_all add: ledger_frame durable_inv[OF assms])
qed

section \<open>Every operation keeps the log replayable\<close>

lemma mirrors_append:
  assumes "append_log tv env r s = (res, s1)" and "mirrors s0 s"
  shows "mirrors s0 s1"
  using assms(2) append_log_frame'[OF assms(1)] ledger_inv_cong[of s1 s] by (simp add: mirrors_def)

lemma durable_remove:
  assumes a: "append_log tv env (Delete k (e_tx_id e)) s = (Inr u, s1)" and d: "durable tv s"
    and e: "hm_get (entries s) k = Some e"
  shows "durable tv (remove_entry tv k s1)"
  using durable_append_ok[OF a d, of "remove_entry tv k s1"] mirrors_delete[of _ s1 k e tv]
    mirrors_append[OF a] e append_log_frame'[OF a]
  by (simp add: ledger_frame)

lemma durable_prune_loop:
  assumes "clean_io env"
  shows "durable tv s \<Longrightarrow> prune_delete_loop tv env ks c s = (res, s') \<Longrightarrow> durable tv s'"
proof (induction ks arbitrary: c s)
  case (Cons k ks)
  show ?case
  proof (cases "hm_get (entries s) k")
    case None
    with Cons show ?thesis by simp
  next
    case (Some e)
    obtain r1 s1 where a: "append_log tv env (Delete k (e_tx_id e)) s = (r1, s1)" by fastforce
    show ?thesis
    proof (cases r1)
      case (Inl x)
      with Some a Cons.prems show ?thesis by (simp add: durable_append_err[OF _ assms, of tv _ s x s'])
    next
      case (Inr u)
      with Some a Cons show ?thesis
        by (auto dest!: durable_remove[OF a[unfolded Inr] Cons.prems(1)])
    qed
  qed
qed simp

lemma durable_prune:
  assumes "clean_io env" and "durable tv s" and run: "prune_durable tv env now n b s = (res, s')"
  shows "durable tv s'"
proof -
  obtain r1 s1 where l: "prune_delete_loop tv env (sort (prune_keys tv s now n b)) 0 s = (r1, s1)"
    by fastforce
  have "durable tv s1" by (rule durable_prune_loop[OF assms(1,2) l])
  then have "durable tv (maybe_compact_best_effort tv env
      (s1\<lparr>tuple_last_ts := hm_retain (\<lambda>_ ts. ts \<ge> now) (tuple_last_ts s1)\<rparr>))"
    by (intro durable_compact durable_retain)
  with \<open>durable tv s1\<close> run l assms(2) show ?thesis
    by (auto simp: prune_durable_def Let_def split: if_splits sum.splits)
qed

lemma durable_admit:
  assumes io: "clean_io env" and d: "durable tv s"
    and key: "e_key e = primary_key (e_idempotency_key e) (e_tx_id e)"
    and new: "hm_get (entries s) (e_key e) = None" and own: "hm_get (tx_index s) (e_tx_id e) = None"
  shows "durable tv (snd (record_admit tv env e now s))"
proof -
  let ?s1 = "recalculate_live_bytes tv (refresh_expiry now s)"
  let ?n = "saturating_sub (max_entries (config ?s1)) 1"
  let ?b = "saturating_sub (max_live_bytes (config ?s1)) (encoded_upsert_len tv e)"
  obtain r2 s2 where p: "prune_durable tv env now ?n ?b ?s1 = (r2, s2)" by fastforce
  obtain r3 s3 where a: "append_log tv env (Upsert e) s2 = (r3, s3)" by fastforce
  have d1: "durable tv ?s1" by (intro durable_recalculate durable_refresh d)
  have d2: "durable tv s2" by (rule durable_prune[OF io d1 p])
  have inv2: "ledger_inv s2" by (rule durable_inv[OF d2])
  have sub: "hm_get (entries s) k \<noteq> None" if "hm_get (entries s2) k = Some x" for k x
    using prune_durable_subset[OF p that] by (auto simp: ledger_frame refresh_expiry_get)
  have none: "hm_get (entries s2) (e_key e) = None"
    using sub new by (metis option.exhaust)
  have own2: "hm_get (tx_index s2) (e_tx_id e) = None"
  proof (cases "hm_get (tx_index s2) (e_tx_id e)")
    case (Some k)
    then obtain x where "hm_get (entries s2) k = Some x" "e_tx_id x = e_tx_id e"
      using ledger_invD(5)[OF inv2] by blast
    from prune_durable_subset[OF p this(1)] this(2) obtain y
      where "hm_get (entries s) k = Some y" "e_tx_id y = e_tx_id e"
      by (auto simp: ledger_frame refresh_expiry_get)
    with own ledger_invD(4)[OF durable_inv[OF d]] show ?thesis
      unfolding entry_filed_def by (metis option.distinct(1))
  qed simp
  show ?thesis
  proof (cases r3)
    case (Inl x)
    have "durable tv s3" by (rule durable_append_err[OF a[unfolded Inl] io d2])
    with d1 d2 Inl p a show ?thesis
      by (auto simp: record_admit_def Let_def split: sum.splits)
  next
    case (Inr u)
    have "durable tv (index_entry tv e s3)"
      using durable_append_ok[OF a[unfolded Inr] d2, of "index_entry tv e s3"]
        mirrors_upsert[OF mirrors_append[OF a] key, of _ tv] none own2 append_log_frame'[OF a]
      by (simp add: ledger_frame)
    with d1 d2 Inr p a show ?thesis
      by (auto simp: record_admit_def Let_def durable_compact split: sum.splits)
  qed
qed

lemma durable_record:
  assumes "clean_io env" and d: "durable tv s"
  shows "durable tv (snd (record_payment tv env ik tup ts t sg now s))"
proof -
  let ?e = "record_new_entry ik tup ts t sg now"
  have "hm_get (tx_index s) t \<noteq> Some (e_key ?e)" if "hm_get (entries s) (e_key ?e) = None"
    using that ledger_invD(5)[OF durable_inv[OF d], of t "e_key ?e"] by auto
  then have "hm_get (entries s) (e_key ?e) = None \<Longrightarrow>
      (case hm_get (tx_index s) t of Some k \<Rightarrow> k \<noteq> e_key ?e | None \<Rightarrow> False)
      \<or> hm_get (tx_index s) (e_tx_id ?e) = None"
    by (auto simp: record_new_entry_def split: option.splits)
  then show ?thesis
    using durable_admit[OF assms, of ?e now] d
    by (auto simp: record_payment_def Let_def record_new_entry_def split: option.splits)
qed

lemma durable_release:
  assumes io: "clean_io env" and d: "durable tv s"
  shows "durable tv (snd (release_key tv env k t s))"
proof -
  obtain r1 s1 where a: "append_log tv env (Delete k t) s = (r1, s1)" by fastforce
  have "durable tv s1" if "r1 = Inl x" for x
    by (rule durable_append_err[OF a[unfolded that] io d])
  moreover have "durable tv (remove_entry tv k s1)"
    if "r1 = Inr u" "hm_get (entries s) k = Some e" "e_tx_id e = t" for u e
    using durable_remove[of tv env k e s u s1] a that d by simp
  ultimately show ?thesis using d a
    by (auto simp: release_key_def durable_compact split: option.splits sum.splits)
qed

lemma durable_update:
  assumes io: "clean_io env" and d: "durable tv s"
  shows "durable tv (snd (update_state tv env t st now s))"
proof (cases "hm_get (tx_index s) t")
  case None
  with d show ?thesis by (simp add: update_state_def)
next
  case (Some k)
  then obtain e where e: "hm_get (entries s) k = Some e"
    using ledger_invD(5)[OF durable_inv[OF d]] by blast
  obtain r1 s1 where a: "append_log tv env (State t st now) s = (r1, s1)" by fastforce
  show ?thesis
  proof (cases r1)
    case (Inl x)
    with Some a durable_append_err[OF a[unfolded Inl] io d] show ?thesis
      by (simp add: update_state_def)
  next
    case (Inr u)
    let ?s' = "s1\<lparr>entries := hm_insert k (e\<lparr>e_state := st, e_updated_at := now\<rparr>) (entries s1)\<rparr>"
    have "durable tv ?s'"
      using durable_append_ok[OF a[unfolded Inr] d, of ?s'] mirrors_append[OF a]
        mirrors_state[of _ s1 t k e tv st now] Some e append_log_frame'[OF a] by simp
    with Some Inr a e append_log_frame'(1)[OF a] show ?thesis
      by (simp add: update_state_def durable_compact)
  qed
qed

lemma durable_step:
  assumes step: "ledger_step tv env now s s'" and io: "clean_io env" and d: "durable tv s"
  shows "durable tv s'"
  using step
proof cases
  case (step_allocate tup)
  show ?thesis
    by (rule durable_cong[OF _ _ _ d])
      (auto simp: step_allocate allocate_timestamp_def Let_def mirrors_def ledger_inv_def
        entry_filed_def hm_simps)
next
  case step_prune
  show ?thesis
    using durable_prune[OF io durable_recalculate[OF durable_refresh[OF d]]] step_prune
    by (metis prod.collapse prune_def)
qed (auto simp: durable_record[OF io d] durable_release[OF io d] durable_update[OF io d]
    release_reservation_def release_local_reservation_def check_submission_def find_by_key_def
    find_by_tx_id_def Let_def durable_refresh[OF d])

text \<open>Runs whose failed writes leave nothing behind, from a new ledger.\<close>

inductive clean_run :: "(log_record \<Rightarrow> string) \<Rightarrow> ledger_config \<Rightarrow> inner \<Rightarrow> bool" for tv cfg where
  clean_start: "clean_run tv cfg (fresh_inner [] cfg)"
| clean_step: "clean_run tv cfg s \<Longrightarrow> clean_io env \<Longrightarrow> ledger_step tv env now s s'
    \<Longrightarrow> clean_run tv cfg s'"

lemma durable_fresh: "durable tv (fresh_inner [] cfg)"
  unfolding durable_def
  by (rule exI[of _ "[]"], rule exI[of _ "fresh_inner [] cfg"])
    (simp add: mirrors_def ledger_inv_fresh, simp add: fresh_inner_def hm_simps)

lemma clean_run_durable: "clean_run tv cfg s \<Longrightarrow> durable tv s"
  by (induction rule: clean_run.induct) (auto intro: durable_fresh durable_step)

section \<open>Crash recovery\<close>

text \<open>Only the in-memory fields of a loaded ledger depend on the records.\<close>

lemma apply_record_file:
  "apply_record tv (s\<lparr>log_file := f\<rparr>) r = map_sum id (\<lambda>s'. s'\<lparr>log_file := f\<rparr>) (apply_record tv s r)"
  by (auto simp: apply_record_def index_entry_def remove_entry_def Let_def
      split: log_record.splits option.splits)

lemma replay_file:
  "try_fold (apply_record tv) (s\<lparr>log_file := f\<rparr>) rs
    = map_sum id (\<lambda>s'. s'\<lparr>log_file := f\<rparr>) (try_fold (apply_record tv) s rs)"
proof (induction rs arbitrary: s)
  case (Cons r rs)
  then show ?case by (cases "apply_record tv s r") (simp_all add: apply_record_file)
qed simp

definition torn_tail :: "(string \<Rightarrow> log_record option) \<Rightarrow> string \<Rightarrow> bool" where
  "torn_tail fs tail \<longleftrightarrow> newline \<notin> set tail \<and> fs tail = None"

lemma load_torn:
  assumes "torn_tail fs tail"
  shows "\<exists>off' f. load_loop tv fs off tail s = Inr (off', s\<lparr>log_file := f\<rparr>)
    \<and> (tail \<noteq> [] \<longrightarrow> off' = off \<and> f = take off (log_file s)) \<and> (tail = [] \<longrightarrow> f = log_file s)"
  using assms by (auto simp: torn_tail_def load_loop.simps[of tv fs off tail s])

lemma open_recovers:
  assumes d: "durable tv s" and tail: "tail = [] \<or> torn_tail fs tail"
  shows "\<exists>rs. log_file s = log_of tv rs \<and> (json_faithful tv fs rs \<longrightarrow>
    (\<exists>s1. open_ledger tv fs False (log_file s @ tail) (config s) = Inr s1
       \<and> mirrors s1 s \<and> log_file s1 = log_file s))"
proof -
  let ?f = "log_file s @ tail"
  from d obtain rs s0 where rs: "log_file s = log_of tv rs"
    "try_fold (apply_record tv) (fresh_inner [] (config s)) rs = Inr s0" "mirrors s0 s"
    by (auto simp: durable_def)
  have fr: "fresh_inner ?f (config s) = (fresh_inner [] (config s))\<lparr>log_file := ?f\<rparr>"
    by (simp add: fresh_inner_def)
  have lf: "log_file (fresh_inner ?f (config s)) = ?f" by (simp add: fresh_inner_def)
  have "try_fold (apply_record tv) (fresh_inner ?f (config s)) rs = Inr (s0\<lparr>log_file := ?f\<rparr>)"
    unfolding fr replay_file using rs(2) by simp
  then have l: "json_faithful tv fs rs \<Longrightarrow> load_loop tv fs 0 ?f (fresh_inner ?f (config s))
      = load_loop tv fs (length (log_file s)) tail (s0\<lparr>log_file := ?f\<rparr>)"
    using load_loop_log[of tv fs rs 0 tail "fresh_inner ?f (config s)"] rs(1) by simp
  have "\<exists>off. load_loop tv fs (length (log_file s)) tail (s0\<lparr>log_file := ?f\<rparr>)
      = Inr (off, s0\<lparr>log_file := log_file s\<rparr>)"
  proof (cases "tail = []")
    case True
    then show ?thesis by (simp add: load_loop.simps[of tv fs _ "[]"])
  next
    case False
    with tail load_torn[of fs tail tv "length (log_file s)" "s0\<lparr>log_file := ?f\<rparr>"]
    show ?thesis by auto
  qed
  then obtain off where "json_faithful tv fs rs \<Longrightarrow> open_ledger tv fs False ?f (config s)
      = Inr (recalculate_live_bytes tv (s0\<lparr>log_file := log_file s, uncompacted_bytes := off\<rparr>))"
    using l by (auto simp: open_ledger_def load_def lf)
  moreover have "mirrors (recalculate_live_bytes tv (s0\<lparr>log_file := log_file s, uncompacted_bytes := off\<rparr>)) s"
    using rs(3) by (simp add: mirrors_def ledger_frame)
      (subst ledger_inv_cong[of _ s0], simp_all)
  ultimately show ?thesis using rs(1)
    by (intro exI[of _ rs]) (simp add: ledger_frame)
qed

lemma record_admit_config: "config (snd (record_admit tv env e now s)) = config s"
  by (auto simp: record_admit_def Let_def ledger_frame dest!: prune_durable_frame(1)
      append_log_frame'(4) split: sum.splits prod.splits)

lemma ledger_step_config: "ledger_step tv env now s s' \<Longrightarrow> config s' = config s"
proof (induction rule: ledger_step.induct)
  case (step_prune s)
  let ?s1 = "recalculate_live_bytes tv (refresh_expiry now s)"
  obtain r s2 where "prune_durable tv env now (max_entries (config ?s1)) (max_live_bytes (config ?s1)) ?s1
      = (r, s2)" by fastforce
  then show ?case using prune_durable_frame(1) by (fastforce simp: prune_def Let_def ledger_frame)
qed (auto simp: allocate_timestamp_def check_submission_def record_payment_def record_admit_config
    release_reservation_def release_local_reservation_def release_key_def update_state_def
    find_by_key_def find_by_tx_id_def Let_def ledger_frame dest!: append_log_frame'(4)
    split: option.splits sum.splits prod.splits)

lemma clean_run_config: "clean_run tv cfg s \<Longrightarrow> config s = cfg"
  by (induction rule: clean_run.induct) (auto simp: ledger_step_config fresh_inner_def)

end
