(* ===== verification/A9_Ledger_Capacity.thy ===== *)
theory A9_Ledger_Capacity
  imports A9_Ledger_Durable
begin

text \<open>
  The configured limits: the running byte count is the exact sum of the encoded entries, a
  successful \<open>record\<close> leaves the ledger inside both limits, and pruning for a new
  reservation makes enough room whenever the live entries leave any.  The last section
  holds the two replay situations that the durable run excludes: an un-namespaced
  \<open>Delete\<close>, and a failed append that left bytes behind.
\<close>

section \<open>The byte count is exact\<close>

definition entry_bytes :: "(log_record \<Rightarrow> string) \<Rightarrow> inner \<Rightarrow> nat" where
  "entry_bytes tv s = sum_list (map (encoded_upsert_len tv) (hm_values (entries s)))"

definition live_exact :: "(log_record \<Rightarrow> string) \<Rightarrow> inner \<Rightarrow> bool" where
  "live_exact tv s \<longleftrightarrow> live_bytes s = entry_bytes tv s"

lemma fold_saturating:
  "t \<le> u64_max \<Longrightarrow> fold (\<lambda>x acc. saturating_add acc (f x)) xs t = min (t + sum_list (map f xs)) u64_max"
  by (induction xs arbitrary: t) (auto simp: rust_arith min_def)

lemma live_exact_recalculate:
  "entry_bytes tv s \<le> u64_max \<Longrightarrow> live_exact tv (recalculate_live_bytes tv s)"
  by (simp add: live_exact_def entry_bytes_def recalculate_live_bytes_def
      fold_saturating[of 0 "encoded_upsert_len tv" "hm_values (entries s)"])

lemma entry_bytes_cong: "entries s' = entries s \<Longrightarrow> entry_bytes tv s' = entry_bytes tv s"
  by (simp add: entry_bytes_def)

lemma entry_bytes_remove:
  assumes "hm_wf (entries s)" and "hm_get (entries s) k = Some e"
  shows "entry_bytes tv (remove_entry tv k s) + encoded_upsert_len tv e = entry_bytes tv s"
  using sum_list_hm_remove[OF assms] by (simp add: entry_bytes_def ledger_frame)

lemma live_exact_remove:
  assumes "hm_wf (entries s)" and "live_exact tv s"
  shows "live_exact tv (remove_entry tv k s)"
proof (cases "hm_get (entries s) k")
  case None
  with assms show ?thesis by (simp add: remove_entry_def)
next
  case (Some e)
  with entry_bytes_remove[OF assms(1) Some, of tv] assms(2) show ?thesis
    by (simp add: live_exact_def remove_entry_def rust_arith)
qed

lemma live_exact_append:
  "append_log tv env r s = (res, s') \<Longrightarrow> live_exact tv s' = live_exact tv s"
  by (simp add: live_exact_def entry_bytes_def append_log_frame')

lemma live_exact_compact: "live_exact tv (maybe_compact_best_effort tv env s) = live_exact tv s"
  by (simp add: live_exact_def entry_bytes_def ledger_frame)

lemma live_exact_prune_loop:
  "hm_wf (entries s) \<Longrightarrow> live_exact tv s \<Longrightarrow> prune_delete_loop tv env ks c s = (res, s')
    \<Longrightarrow> live_exact tv s'"
proof (induction ks arbitrary: c s)
  case (Cons k ks)
  show ?case
  proof (cases "hm_get (entries s) k")
    case None
    with Cons show ?thesis by simp
  next
    case (Some e)
    obtain r1 s1 where a: "append_log tv env (Delete k (e_tx_id e)) s = (r1, s1)" by fastforce
    have s1: "hm_wf (entries s1)" "live_exact tv s1"
      using Cons.prems live_exact_append[OF a] append_log_frame'(1)[OF a] by auto
    have s2: "hm_wf (entries (remove_entry tv k s1))" "live_exact tv (remove_entry tv k s1)"
      using s1 live_exact_remove[OF s1] by (simp_all add: ledger_frame hm_simps)
    show ?thesis
      using Some a Cons.prems(3) s1(2) Cons.IH[OF s2]
      by (cases r1) auto
  qed
qed simp

lemma live_exact_prune:
  assumes "hm_wf (entries s)" and "live_exact tv s"
    and run: "prune_durable tv env now n b s = (res, s')"
  shows "live_exact tv s'"
proof -
  obtain r1 s1 where l: "prune_delete_loop tv env (sort (prune_keys tv s now n b)) 0 s = (r1, s1)"
    by fastforce
  have "live_exact tv s1" by (rule live_exact_prune_loop[OF assms(1,2) l])
  moreover from this have "live_exact tv (s1\<lparr>tuple_last_ts := m\<rparr>)" for m
    by (simp add: live_exact_def entry_bytes_def)
  ultimately show ?thesis
    using run l assms(2)
    by (auto simp: prune_durable_def Let_def live_exact_compact split: if_splits sum.splits)
qed

lemma live_exact_index:
  assumes "live_exact tv s" and "hm_get (entries s) (e_key e) = None"
    and "live_bytes s + encoded_upsert_len tv e \<le> u64_max"
  shows "live_exact tv (index_entry tv e s)"
    and "live_bytes (index_entry tv e s) = live_bytes s + encoded_upsert_len tv e"
proof -
  show l: "live_bytes (index_entry tv e s) = live_bytes s + encoded_upsert_len tv e"
    using assms by (simp add: index_entry_def Let_def rust_arith)
  show "live_exact tv (index_entry tv e s)"
    using assms(1,2) l
    by (simp add: live_exact_def entry_bytes_def ledger_frame hm_values_insert_new)
qed

section \<open>A successful record stays inside the limits\<close>

lemma record_admit_capacity:
  assumes inv: "ledger_inv s" and new: "hm_get (entries s) (e_key e) = None"
    and small: "entry_bytes tv (refresh_expiry now s) \<le> u64_max"
    and lim: "max_live_bytes (config s) \<le> u64_max"
    and ok: "record_admit tv env e now s = (Inr x, s')"
  shows "x = e \<and> hm_get (entries s') (e_key e) = Some e
    \<and> length (entries s') \<le> max_entries (config s')
    \<and> entry_bytes tv s' \<le> max_live_bytes (config s') \<and> live_exact tv s'"
proof -
  let ?s1 = "recalculate_live_bytes tv (refresh_expiry now s)"
  let ?n = "saturating_sub (max_entries (config ?s1)) 1"
  let ?b = "saturating_sub (max_live_bytes (config ?s1)) (encoded_upsert_len tv e)"
  obtain r2 s2 where p: "prune_durable tv env now ?n ?b ?s1 = (r2, s2)" by fastforce
  obtain r3 s3 where a: "append_log tv env (Upsert e) s2 = (r3, s3)" by fastforce
  have fit: "\<not> encoded_upsert_len tv e > max_live_bytes (config s)"
    and len: "length (entries s2) < max_entries (config s2)" and room: "live_bytes s2 \<le> ?b"
    and x: "x = e" and s': "s' = maybe_compact_best_effort tv env (index_entry tv e s3)"
    using ok p a
    by (auto simp: record_admit_def Let_def ledger_frame split: sum.splits if_splits)
  have wf1: "hm_wf (entries ?s1)"
    using ledger_invD(1)[OF ledger_inv_refresh[OF inv, of now]] by (simp add: ledger_frame)
  have ex1: "live_exact tv ?s1" by (rule live_exact_recalculate[OF small])
  have cfg: "config s2 = config s" using prune_durable_frame(1)[OF p] by (simp add: ledger_frame)
  have ex3: "live_exact tv s3"
    using live_exact_prune[OF wf1 ex1 p] live_exact_append[OF a] by simp
  have none: "hm_get (entries s3) (e_key e) = None"
  proof (cases "hm_get (entries s3) (e_key e)")
    case (Some y)
    with prune_durable_subset[OF p, of "e_key e" y] append_log_frame'(1)[OF a] new show ?thesis
      by (simp add: ledger_frame refresh_expiry_get)
  qed simp
  have sum: "live_bytes s3 + encoded_upsert_len tv e \<le> max_live_bytes (config s)"
    using room fit append_log_frame'(5)[OF a] by (simp add: ledger_frame rust_arith)
  note idx = live_exact_index[OF ex3 none order_trans[OF sum lim]]
  have "entry_bytes tv (index_entry tv e s3) \<le> max_live_bytes (config s)"
    using idx sum by (simp add: live_exact_def)
  with x s' idx(1) len none cfg append_log_frame'[OF a] show ?thesis
    by (simp add: ledger_frame hm_simps live_exact_compact entry_bytes_def)
qed

section \<open>Two replay situations outside a clean run\<close>

text \<open>
  A \<open>Delete\<close> written without a namespace is meant to be normalised like an \<open>Upsert\<close>: to
  \<open>idempotency:\<close> when the entry it names has an idempotency key.  The lookup that decides
  this uses the raw key, which no entry of the (namespaced) map ever has, so the record is
  always read as a \<open>transaction:\<close> key and an idempotency entry survives its deletion.
\<close>

lemma legacy_delete_ignored:
  assumes inv: "ledger_inv s" and e: "hm_get (entries s) (primary_key (Some k) t) = Some e"
    and raw: "\<not> starts_with k ''idempotency:''" "\<not> starts_with k ''transaction:''"
    and ok: "apply_record tv s (Delete k t') = Inr s'"
  shows "hm_get (entries s') (primary_key (Some k) t) = Some e"
proof -
  have none: "hm_get (entries s) k = None"
  proof (cases "hm_get (entries s) k")
    case (Some x)
    then show ?thesis
      using ledger_invD(4)[OF inv Some] primary_key_prefix[of "e_idempotency_key x" "e_tx_id x"] raw
      by (simp add: entry_filed_def)
  qed simp
  have "primary_key (Some k) t \<noteq> ''transaction:'' @ k" by (simp add: primary_key_def)
  with ok e none raw show ?thesis
    by (auto simp: apply_record_def Let_def ledger_frame hm_simps split: if_splits option.splits)
qed

text \<open>
  A failed append is not rolled back: the bytes that reached the file stay there and the
  next successful append continues the same line.  If the joined line does not decode, the
  file is then refused by \<open>open\<close>, although every call that reported success was durable.
\<close>

lemma append_after_torn:
  assumes "append_outcomes env (io_step s) = AppendErr n"
    and "append_log tv env r s = (x, s1)"
    and "append_outcomes env (io_step s1) = AppendOk"
  shows "log_file (snd (append_log tv env r' s1))
    = log_file s @ take n (tv r @ [newline]) @ tv r' @ [newline]"
  using assms by (auto simp: append_log_def Let_def)

lemma open_rejects_joined_line:
  assumes nl: "newline \<notin> set torn" "newline \<notin> set l" and ne: "torn @ l \<noteq> []"
    and bad: "fs (torn @ l) = None" and json: "json_faithful tv fs rs"
    and fl: "f = log_of tv rs @ torn @ l @ newline # rest"
  shows "\<exists>err. open_ledger tv fs False f cfg = Inl err"
proof -
  have tw: "takeWhile (\<lambda>b. b \<noteq> newline) (torn @ l @ newline # rest) = torn @ l"
    using takeWhile_line[of "torn @ l" rest] nl by simp
  have stop: "load_loop tv fs off (torn @ l @ newline # rest) s = Inl InvalidData" for off s
    using ne bad by (subst load_loop.simps) (auto simp: tw Let_def)
  show ?thesis
    using load_loop_log[OF json, of 0 "torn @ l @ newline # rest" "fresh_inner f cfg"]
    by (auto simp: open_ledger_def load_def fl[symmetric] fresh_inner_def stop split: sum.splits)
qed

end
