(* ===== verification/A9_Ledger_Codec.thy ===== *)
theory A9_Ledger_Codec
  imports A9_Ledger_Capacity
begin

text \<open>
  A concrete line codec for the records of the ledger.  It stands in for \<open>serde_json\<close> in
  the witnesses: it shows that what the recovery theorem asks of the JSON library (one
  non-empty line per record, decoding gives the record back) can be met by a computable
  function on every record.
\<close>

section \<open>Numbers\<close>

fun put_nat :: "nat \<Rightarrow> string" where
  "put_nat n = (if n = 0 then '';'' else (if odd n then CHR ''1'' else CHR ''0'') # put_nat (n div 2))"

fun take_nat :: "string \<Rightarrow> (nat \<times> string) option" where
  "take_nat [] = None"
| "take_nat (c # cs) =
     (if c = CHR '';'' then Some (0, cs)
      else case take_nat cs of
             None \<Rightarrow> None
           | Some (n, rest) \<Rightarrow> Some ((if c = CHR ''1'' then 1 else 0) + 2 * n, rest))"

declare put_nat.simps [simp del]

lemma take_put_nat [simp]: "take_nat (put_nat n @ rest) = Some (n, rest)"
proof (induction n rule: less_induct)
  case (less n)
  show ?case
  proof (cases "n = 0")
    case True
    then show ?thesis by (simp add: put_nat.simps)
  next
    case False
    then have "take_nat (put_nat (n div 2) @ rest) = Some (n div 2, rest)"
      using less[of "n div 2"] by simp
    with False show ?thesis
      by (subst put_nat.simps) (auto simp: odd_two_times_div_two_succ)
  qed
qed

lemma newline_put_nat [simp]: "newline \<notin> set (put_nat n)"
  by (induction n rule: put_nat.induct) (subst put_nat.simps, auto simp: newline_def)

lemma put_nat_nonempty [simp]: "put_nat n \<noteq> []"
  by (subst put_nat.simps) simp

section \<open>Strings, options and signed numbers\<close>

definition put_string :: "string \<Rightarrow> string" where
  "put_string s = put_nat (length s) @ concat (map (\<lambda>c. put_nat (of_char c)) s)"

fun take_chars :: "nat \<Rightarrow> string \<Rightarrow> (string \<times> string) option" where
  "take_chars 0 cs = Some ([], cs)"
| "take_chars (Suc n) cs =
     (case take_nat cs of
        None \<Rightarrow> None
      | Some (c, rest) \<Rightarrow>
          (case take_chars n rest of None \<Rightarrow> None | Some (s, rest') \<Rightarrow> Some (char_of c # s, rest')))"

definition take_string :: "string \<Rightarrow> (string \<times> string) option" where
  "take_string cs = (case take_nat cs of None \<Rightarrow> None | Some (n, rest) \<Rightarrow> take_chars n rest)"

lemma take_put_chars:
  "take_chars (length s) (concat (map (\<lambda>c. put_nat (of_char c)) s) @ rest) = Some (s, rest)"
  by (induction s) simp_all

lemma take_put_string [simp]: "take_string (put_string s @ rest) = Some (s, rest)"
  by (simp add: take_string_def put_string_def take_put_chars)

lemma newline_put_string [simp]: "newline \<notin> set (put_string s)"
  by (auto simp: put_string_def)

definition put_opt :: "string option \<Rightarrow> string" where
  "put_opt x = (case x of None \<Rightarrow> put_nat 0 | Some s \<Rightarrow> put_nat 1 @ put_string s)"

definition take_opt :: "string \<Rightarrow> (string option \<times> string) option" where
  "take_opt cs =
     (case take_nat cs of
        None \<Rightarrow> None
      | Some (n, rest) \<Rightarrow>
          if n = 0 then Some (None, rest)
          else case take_string rest of None \<Rightarrow> None | Some (s, rest') \<Rightarrow> Some (Some s, rest'))"

lemma take_put_opt [simp]: "take_opt (put_opt x @ rest) = Some (x, rest)"
  by (cases x) (simp_all add: take_opt_def put_opt_def)

lemma newline_put_opt [simp]: "newline \<notin> set (put_opt x)"
  by (cases x) (simp_all add: put_opt_def)

definition put_int :: "int \<Rightarrow> string" where
  "put_int i = put_nat (if i < 0 then 1 else 0) @ put_nat (nat \<bar>i\<bar>)"

definition take_int :: "string \<Rightarrow> (int \<times> string) option" where
  "take_int cs =
     (case take_nat cs of
        None \<Rightarrow> None
      | Some (sg, rest) \<Rightarrow>
          (case take_nat rest of
             None \<Rightarrow> None
           | Some (m, rest') \<Rightarrow> Some (if sg = 1 then - int m else int m, rest')))"

lemma take_put_int [simp]: "take_int (put_int i @ rest) = Some (i, rest)"
  by (simp add: take_int_def put_int_def)

lemma newline_put_int [simp]: "newline \<notin> set (put_int i)"
  by (simp add: put_int_def)

section \<open>Entries and records\<close>

fun put_state :: "entry_state \<Rightarrow> string" where
  "put_state Reserved = put_nat 0"
| "put_state Pending = put_nat 1"
| "put_state (Confirmed h) = put_nat 2 @ put_nat h"
| "put_state (Rejected r) = put_nat 3 @ put_string r"
| "put_state Expired = put_nat 4"
| "put_state AmbiguousExisting = put_nat 5"

definition take_state :: "string \<Rightarrow> (entry_state \<times> string) option" where
  "take_state cs =
     (case take_nat cs of
        None \<Rightarrow> None
      | Some (n, rest) \<Rightarrow>
          if n = 0 then Some (Reserved, rest)
          else if n = 1 then Some (Pending, rest)
          else if n = 2 then map_option (\<lambda>(h, r). (Confirmed h, r)) (take_nat rest)
          else if n = 3 then map_option (\<lambda>(s, r). (Rejected s, r)) (take_string rest)
          else if n = 4 then Some (Expired, rest)
          else Some (AmbiguousExisting, rest))"

lemma take_put_state [simp]: "take_state (put_state st @ rest) = Some (st, rest)"
  by (cases st) (simp_all add: take_state_def)

lemma newline_put_state [simp]: "newline \<notin> set (put_state st)"
  by (cases st) simp_all

definition put_entry :: "ledger_entry \<Rightarrow> string" where
  "put_entry e = put_string (e_key e) @ put_opt (e_idempotency_key e)
     @ put_string (pt_sender (e_tuple e)) @ put_string (pt_recipient (e_tuple e))
     @ put_int (pt_amount_units (e_tuple e)) @ put_int (pt_fee_units (e_tuple e))
     @ put_nat (e_timestamp e) @ put_string (e_tx_id e) @ put_opt (e_signed_tx e)
     @ put_state (e_state e) @ put_nat (e_created_at e) @ put_nat (e_updated_at e)"

definition take_entry :: "string \<Rightarrow> (ledger_entry \<times> string) option" where
  "take_entry c0 =
     Option.bind (take_string c0) (\<lambda>(key, c1).
     Option.bind (take_opt c1) (\<lambda>(ik, c2).
     Option.bind (take_string c2) (\<lambda>(sender, c3).
     Option.bind (take_string c3) (\<lambda>(recipient, c4).
     Option.bind (take_int c4) (\<lambda>(amount, c5).
     Option.bind (take_int c5) (\<lambda>(fee, c6).
     Option.bind (take_nat c6) (\<lambda>(ts, c7).
     Option.bind (take_string c7) (\<lambda>(tx, c8).
     Option.bind (take_opt c8) (\<lambda>(signed, c9).
     Option.bind (take_state c9) (\<lambda>(st, c10).
     Option.bind (take_nat c10) (\<lambda>(created, c11).
     map_option (\<lambda>(updated, c12).
       (\<lparr>e_key = key, e_idempotency_key = ik,
         e_tuple = \<lparr>pt_sender = sender, pt_recipient = recipient, pt_amount_units = amount,
                    pt_fee_units = fee\<rparr>,
         e_timestamp = ts, e_tx_id = tx, e_signed_tx = signed, e_state = st,
         e_created_at = created, e_updated_at = updated\<rparr>, c12)) (take_nat c11))))))))))))"

lemma take_put_entry [simp]: "take_entry (put_entry e @ rest) = Some (e, rest)"
  by (simp add: take_entry_def put_entry_def)

lemma newline_put_entry [simp]: "newline \<notin> set (put_entry e)"
  by (simp add: put_entry_def)

fun put_record :: "log_record \<Rightarrow> string" where
  "put_record (Upsert e) = put_nat 0 @ put_entry e"
| "put_record (State t st u) = put_nat 1 @ put_string t @ put_state st @ put_nat u"
| "put_record (Delete k t) = put_nat 2 @ put_string k @ put_string t"

definition take_record :: "string \<Rightarrow> log_record option" where
  "take_record cs =
     Option.bind (take_nat cs) (\<lambda>(n, c1).
       if n = 0 then map_option (\<lambda>(e, _). Upsert e) (take_entry c1)
       else if n = 1 then
         Option.bind (take_string c1) (\<lambda>(t, c2).
         Option.bind (take_state c2) (\<lambda>(st, c3).
         map_option (\<lambda>(u, _). State t st u) (take_nat c3)))
       else
         Option.bind (take_string c1) (\<lambda>(k, c2).
         map_option (\<lambda>(t, _). Delete k t) (take_string c2)))"

lemma take_put_record: "take_record (put_record r) = Some r"
proof (cases r)
  case (Upsert e)
  then show ?thesis using take_put_entry[of e "[]"] by (simp add: take_record_def del: take_put_entry)
next
  case (State t st u)
  then show ?thesis using take_put_nat[of u "[]"] by (simp add: take_record_def)
next
  case (Delete k t)
  then show ?thesis using take_put_string[of t "[]"] by (simp add: take_record_def)
qed

lemma put_record_faithful: "json_faithful put_record take_record rs"
  unfolding json_faithful_def
proof
  fix r
  show "newline \<notin> set (put_record r) \<and> put_record r \<noteq> [] \<and> take_record (put_record r) = Some r"
    using take_put_record[of r] by (cases r) simp_all
qed

end
