(* ===== verification/A9_Ledger_Props.thy ===== *)
theory A9_Ledger_Props
  imports A9_Ledger_Codec
begin

text \<open>
  The properties of the payment ledger, each with a run of the ledger it applies to.
\<close>

section \<open>A sample run\<close>

definition sample_tuple :: payment_tuple where
  "sample_tuple = \<lparr>pt_sender = ''ab'', pt_recipient = ''cd'', pt_amount_units = 5, pt_fee_units = 1\<rparr>"

definition sample_env :: io_env where
  "sample_env = \<lparr>append_outcomes = (\<lambda>_. AppendOk), compact_outcomes = (\<lambda>_. CompactOk)\<rparr>"

definition sample_open :: inner where
  "sample_open = fresh_inner [] default_config"

definition sample_recorded :: inner where
  "sample_recorded =
     snd (record_payment put_record sample_env (Some ''k'') sample_tuple 10 ''t'' None 10 sample_open)"

lemma sample_open_reachable: "ledger_reachable put_record take_record sample_open"
  by (rule reach_open[of put_record take_record False "[]" default_config])
    (simp add: open_ledger_def load_def sample_open_def fresh_inner_def recalculate_live_bytes_def
      load_loop.simps[of _ _ _ "[]"] hm_values_def)

lemma sample_step:
  "ledger_step put_record sample_env 10 sample_open sample_recorded"
  unfolding sample_recorded_def by (rule step_record)

lemma sample_reachable: "ledger_reachable put_record take_record sample_recorded"
  by (rule reach_step[OF sample_open_reachable sample_step])

lemma sample_clean: "clean_io sample_env"
  by (simp add: clean_io_def sample_env_def)

lemma sample_run: "clean_run put_record default_config sample_recorded"
  using clean_step[OF clean_start sample_clean] sample_step by (simp add: sample_open_def)

definition sample_entry :: ledger_entry where
  "sample_entry = record_new_entry (Some ''k'') sample_tuple 10 ''t'' None 10"

lemma sample_entry_bytes: "encoded_upsert_len put_record sample_entry < 1000"
  by (simp add: encoded_upsert_len_def sample_entry_def record_new_entry_def sample_tuple_def
      primary_key_def put_entry_def put_string_def put_opt_def put_int_def put_nat.simps
      saturating_add_def)

text \<open>Admission to an empty ledger: nothing to prune, one line appended.\<close>

lemma record_admit_empty:
  assumes "entries s = []" and "append_outcomes env (io_step s) = AppendOk"
    and "encoded_upsert_len tv e \<le> max_live_bytes (config s)" and "0 < max_entries (config s)"
  shows "\<exists>s'. record_admit tv env e now s = (Inr e, s') \<and> entries s' = [(e_key e, e)]"
  using assms
  by (auto simp: record_admit_def Let_def refresh_expiry_def recalculate_live_bytes_def
      hm_map_values_def hm_values_def prune_durable_def prune_keys_def rust_arith append_log_def
      ledger_frame hm_insert_def)

lemma sample_record:
  "record_payment put_record sample_env (Some ''k'') sample_tuple 10 ''t'' None 10 sample_open
      = (Inr sample_entry, sample_recorded)"
  and sample_entries: "entries sample_recorded = [(''idempotency:k'', sample_entry)]"
proof -
  have "\<exists>s'. record_admit put_record sample_env sample_entry 10 sample_open = (Inr sample_entry, s')
      \<and> entries s' = [(e_key sample_entry, sample_entry)]"
    using sample_entry_bytes
    by (intro record_admit_empty)
      (simp_all add: sample_open_def fresh_inner_def sample_env_def default_config_def)
  moreover have "record_payment put_record sample_env (Some ''k'') sample_tuple 10 ''t'' None 10 sample_open
      = record_admit put_record sample_env sample_entry 10 sample_open"
    by (simp add: record_payment_def sample_open_def fresh_inner_def hm_simps sample_entry_def)
  ultimately show
    "record_payment put_record sample_env (Some ''k'') sample_tuple 10 ''t'' None 10 sample_open
      = (Inr sample_entry, sample_recorded)"
    "entries sample_recorded = [(''idempotency:k'', sample_entry)]"
    by (auto simp: sample_recorded_def sample_entry_def record_new_entry_def primary_key_def)
qed

lemma sample_recorded_entry: "hm_get (entries sample_recorded) ''idempotency:k'' = Some sample_entry"
  by (simp add: sample_entries hm_get_def)

lemma sample_refreshed:
  "now < 20000 \<Longrightarrow>
    hm_get (entries (refresh_expiry now sample_recorded)) ''idempotency:k'' = Some sample_entry"
  by (simp add: refresh_expiry_get sample_recorded_entry clean_run_config[OF sample_run]
      refresh_entry_def sample_entry_def record_new_entry_def default_config_def saturating_add_def
      u64_max_def)

lemma sample_entry_fields [simp]:
  "e_tx_id sample_entry = ''t''" "\<not> is_terminal (e_state sample_entry)"
  by (simp_all add: sample_entry_def record_new_entry_def)

section \<open>Properties\<close>

text \<open>C1. In every state a running ledger can reach, through any operations, failed writes
  and whatever log it was opened on, each entry is filed under its own namespaced key, the
  transaction index points exactly at the entries, and no transaction id has two entries.\<close>

theorem ledger_reachable_wf:
  assumes "ledger_reachable tv fs s"
  shows "ledger_inv s \<and> distinct (map e_tx_id (hm_values (entries s)))"
  using ledger_reachable_inv[OF assms] distinct_tx_ids by blast

theorem ledger_reachable_wf_witness:
  "ledger_inv sample_recorded \<and> distinct (map e_tx_id (hm_values (entries sample_recorded)))"
  by (rule ledger_reachable_wf[OF sample_reachable])

text \<open>C2. \<open>check_submission\<close> implements the four-case contract: on a reachable ledger its
  answer satisfies the specification (replay of a known pair, reuse of the key, reuse of the
  transaction, or neither), and the specification admits no other answer.\<close>

theorem check_submission_contract:
  assumes "ledger_reachable tv fs s"
  shows "submission_spec ik t now s c \<longleftrightarrow> c = fst (check_submission ik t now s)"
  using check_submission_meets_spec submission_spec_unique ledger_reachable_inv[OF assms] by blast

theorem check_submission_contract_witness:
  "submission_spec ''k'' ''t'' 11 sample_recorded
     (Duplicate sample_entry)
   \<and> submission_spec ''k'' ''u'' 11 sample_recorded (Conflict sample_entry)"
  unfolding check_submission_contract[OF sample_reachable]
  by (simp add: check_submission_def Let_def primary_key_def sample_refreshed)

text \<open>\<open>record\<close> agrees with the check made just before it: it admits a new entry exactly when
  the check says \<open>New\<close>, returns the stored entry unchanged on \<open>Duplicate\<close>, and refuses with
  \<open>AlreadyExists\<close>, leaving the ledger untouched, on \<open>Conflict\<close> and \<open>Collision\<close>.\<close>

theorem record_agrees_with_check:
  assumes "ledger_reachable tv fs s"
  shows "case fst (check_submission ik t now s) of
      New \<Rightarrow> record_payment tv env (Some ik) tup ts t sg now s
              = record_admit tv env (record_new_entry (Some ik) tup ts t sg now) now s
    | Duplicate e \<Rightarrow> (\<exists>e0. hm_get (entries s) (key_of ik) = Some e0 \<and> e_tx_id e0 = t
              \<and> record_payment tv env (Some ik) tup ts t sg now s = (Inr e0, s))
    | Conflict e \<Rightarrow> record_payment tv env (Some ik) tup ts t sg now s = (Inl AlreadyExists, s)
    | Collision e \<Rightarrow> record_payment tv env (Some ik) tup ts t sg now s = (Inl AlreadyExists, s)"
  by (rule record_after_check[OF ledger_reachable_inv[OF assms]])

theorem record_agrees_with_check_witness:
  "record_payment put_record sample_env (Some ''k'') sample_tuple 10 ''u'' None 10 sample_recorded
    = (Inl AlreadyExists, sample_recorded)"
proof -
  have "fst (check_submission ''k'' ''u'' 10 sample_recorded)
      = Conflict sample_entry"
    by (simp add: check_submission_def Let_def primary_key_def sample_refreshed)
  then show ?thesis
    using record_agrees_with_check[OF sample_reachable, where ik = "''k''" and t = "''u''"
        and now = 10 and env = sample_env and tup = sample_tuple and ts = 10 and sg = None]
    by simp
qed

text \<open>No operation ever repoints a key: an entry that is still there after a step is the same
  payment (tuple, timestamp, transaction, signature, keys), with at most its state and its
  update time changed.\<close>

theorem key_never_repointed:
  assumes "ledger_reachable tv fs s" and "ledger_step tv env now s s'"
  shows "payments_kept s s'"
  by (rule ledger_step_keeps_payments[OF assms(2) ledger_reachable_inv[OF assms(1)]])

theorem key_never_repointed_witness:
  "payments_kept sample_recorded (snd (update_state put_record sample_env ''t'' Pending 12 sample_recorded))"
  by (rule key_never_repointed[OF sample_reachable step_update])

text \<open>C5. The timestamps allocated to one payment tuple are pairwise distinct over any run of
  operations, prunes and failed writes, as long as the clock does not go back (so two
  payments of the same tuple never have the same transaction id).\<close>

theorem allocated_timestamps_distinct:
  assumes "alloc_run tv clock s out"
  shows "distinct out"
  using alloc_run_invariant[OF assms] by blast

theorem allocated_timestamps_distinct_witness:
  "distinct [(sample_tuple, 11::nat), (sample_tuple, 10)]"
proof -
  let ?s1 = "snd (allocate_timestamp sample_tuple 10 sample_open)"
  have 0: "alloc_run put_record 10 sample_open []"
    by (rule run_open) (simp add: sample_open_def ledger_inv_fresh)
  have 1: "alloc_run put_record 10 ?s1 [(sample_tuple, 10)]"
    by (rule run_allocate[OF 0])
      (simp_all add: sample_open_def fresh_inner_def default_config_def u64_max_def
        allocate_timestamp_def hm_simps saturating_add_def)
  have "alloc_run put_record 10 (snd (allocate_timestamp sample_tuple 10 ?s1))
      [(sample_tuple, 11), (sample_tuple, 10)]"
    by (rule run_allocate[OF 1])
      (simp_all add: sample_open_def fresh_inner_def default_config_def u64_max_def
        allocate_timestamp_def hm_simps saturating_add_def)
  then show ?thesis by (rule allocated_timestamps_distinct)
qed

text \<open>C6. Pruning never forgets a payment that may still settle: an entry that is not terminal
  once expiry has been applied is still in the ledger after \<open>prune\<close>, whatever the limits and
  whether or not the writes succeeded.\<close>

theorem prune_keeps_unsettled:
  assumes "ledger_reachable tv fs s" and "hm_get (entries (refresh_expiry now s)) k = Some e"
    and "\<not> is_terminal (e_state e)"
  shows "hm_get (entries (snd (prune tv env now s))) k = Some e"
proof -
  let ?s1 = "recalculate_live_bytes tv (refresh_expiry now s)"
  obtain r s2 where p: "prune_durable tv env now (max_entries (config ?s1)) (max_live_bytes (config ?s1)) ?s1
      = (r, s2)" by fastforce
  have "ledger_inv ?s1" using ledger_inv_refresh[OF ledger_reachable_inv[OF assms(1)]] by simp
  from prune_durable_keeps_live[OF this p] assms(2,3) p show ?thesis
    by (simp add: prune_def Let_def ledger_frame)
qed

theorem prune_keeps_unsettled_witness:
  "hm_get (entries (snd (prune put_record sample_env 11 sample_recorded))) ''idempotency:k''
    = Some sample_entry"
  by (rule prune_keeps_unsettled[OF sample_reachable]) (simp_all add: sample_refreshed)

text \<open>C7. Crash recovery: after any run whose failed writes left nothing behind, the file is a list
  of records, and if the JSON library reads those records back, then opening the file (also
  with the torn bytes of a crashed append after it) succeeds, cuts the torn bytes off and
  restores every entry, up to expiry transitions that are derived again from the timestamp.\<close>

theorem ledger_crash_recovery:
  assumes "clean_run tv cfg s" and "tail = [] \<or> torn_tail fs tail"
  shows "\<exists>rs. log_file s = log_of tv rs \<and> (json_faithful tv fs rs \<longrightarrow>
    (\<exists>s1. open_ledger tv fs False (log_file s @ tail) cfg = Inr s1
       \<and> mirrors s1 s \<and> log_file s1 = log_file s))"
  using open_recovers[OF clean_run_durable[OF assms(1)] assms(2)] clean_run_config[OF assms(1)]
  by simp

theorem ledger_crash_recovery_witness:
  "\<exists>s1. open_ledger put_record take_record False (log_file sample_recorded @ ''01'') default_config
      = Inr s1 \<and> mirrors s1 sample_recorded"
proof -
  have "torn_tail take_record ''01''" by (simp add: torn_tail_def newline_def take_record_def)
  then show ?thesis
    using ledger_crash_recovery[OF sample_run, of "''01''" take_record] put_record_faithful by blast
qed

text \<open>C8. The configured limits hold after every successful reservation: when \<open>record\<close> admits a
  new key, the entry is stored, at most \<open>max_entries\<close> entries remain, their encoded bytes fit
  in \<open>max_live_bytes\<close>, and the running byte count is their exact sum.\<close>

theorem record_within_limits:
  assumes "ledger_reachable tv fs s" and "hm_get (entries s) (primary_key ik t) = None"
    and "entry_bytes tv (refresh_expiry now s) \<le> u64_max"
    and "max_live_bytes (config s) \<le> u64_max"
    and "record_payment tv env ik tup ts t sg now s = (Inr x, s')"
  shows "hm_get (entries s') (primary_key ik t) = Some x
    \<and> x = record_new_entry ik tup ts t sg now
    \<and> length (entries s') \<le> max_entries (config s')
    \<and> entry_bytes tv s' \<le> max_live_bytes (config s')
    \<and> live_bytes s' = entry_bytes tv s'"
proof -
  let ?e = "record_new_entry ik tup ts t sg now"
  have key: "e_key ?e = primary_key ik t" by (simp add: record_new_entry_def)
  have "record_admit tv env ?e now s = (Inr x, s')"
    using assms(2,5) by (auto simp: record_payment_def Let_def split: if_splits)
  from record_admit_capacity[OF ledger_reachable_inv[OF assms(1)] _ assms(3,4) this] assms(2)
  show ?thesis by (simp add: key live_exact_def)
qed

theorem record_within_limits_witness:
  "length (entries sample_recorded) \<le> 100000
   \<and> live_bytes sample_recorded = entry_bytes put_record sample_recorded"
proof -
  have c: "max_entries (config sample_recorded) = 100000"
    using clean_run_config[OF sample_run] by (simp add: default_config_def)
  have "hm_get (entries sample_open) (primary_key (Some ''k'') ''t'') = None"
    "entry_bytes put_record (refresh_expiry 10 sample_open) \<le> u64_max"
    "max_live_bytes (config sample_open) \<le> u64_max"
    by (simp_all add: sample_open_def fresh_inner_def hm_simps entry_bytes_def refresh_expiry_def
        hm_map_values_def hm_values_def default_config_def u64_max_def)
  from record_within_limits[OF sample_open_reachable this sample_record] c show ?thesis by simp
qed

end
