(* ===== verification/A9_Money.thy ===== *)
theory A9_Money
  imports A9_Prelude Complex_Main
begin

text \<open>
  Amounts.  Balances are integers of atomic units, but the node carries amounts on the wire
  and inside its signed text as \<open>f64\<close> coins.  This theory models IEEE binary64 with
  round-to-nearest-even over the rationals (subnormals and overflow included), the node's
  conversions (\<^verbatim>\<open>src/a9/blockchain.rs\<close>, \<open>Transaction::round_amount\<close>, \<open>to_units\<close>,
  \<open>from_units\<close>), the decimal text \<open>{:.8}\<close>, and the desktop wallet's integer-only text
  (\<^verbatim>\<open>gui/src/tx.rs\<close>, \<open>units_to_amount_string\<close>).  The two zeros of \<open>f64\<close> are one value here;
  no conversion below prints a zero that came from a negative number.
\<close>

section \<open>Binary64\<close>

datatype f64 = Fin rat | PosInf | NegInf | NaN

fun bit_length :: "nat \<Rightarrow> nat" where
  "bit_length n = (if n = 0 then 0 else Suc (bit_length (n div 2)))"

declare bit_length.simps [simp del]

text \<open>The exponent of a positive rational: \<open>2\<^sup>e \<le> q < 2\<^sup>e\<^sup>+\<^sup>1\<close>.\<close>

definition ilog2 :: "rat \<Rightarrow> int" where
  "ilog2 q = (if 1 \<le> q then int (bit_length (nat \<lfloor>q\<rfloor>)) - 1
              else - int (bit_length (nat (\<lceil>1 / q\<rceil> - 1))))"

definition round_half_even :: "rat \<Rightarrow> int" where
  "round_half_even q =
     (let f = \<lfloor>q\<rfloor>; d = q - of_int f in
      if d < 1/2 then f else if d > 1/2 then f + 1 else if even f then f else f + 1)"

text \<open>\<open>f64::round\<close>: to the nearest integer, ties away from zero.\<close>

definition round_half_away :: "rat \<Rightarrow> int" where
  "round_half_away q = (if 0 \<le> q then \<lfloor>q + 1/2\<rfloor> else - \<lfloor>- q + 1/2\<rfloor>)"

definition f64_of_rat :: "rat \<Rightarrow> f64" where
  "f64_of_rat q =
     (if q = 0 then Fin 0
      else let e = max (ilog2 \<bar>q\<bar>) (- 1022);
               ulp = 2 powi (e - 52);
               v = of_int (round_half_even (q / ulp)) * ulp
           in if \<bar>v\<bar> \<ge> 2 ^ 1024 then (if 0 < q then PosInf else NegInf) else Fin v)"

fun f64_mul_fin :: "f64 \<Rightarrow> rat \<Rightarrow> f64" where
  "f64_mul_fin (Fin a) c = f64_of_rat (a * c)"
| "f64_mul_fin PosInf c = (if c = 0 then NaN else if 0 < c then PosInf else NegInf)"
| "f64_mul_fin NegInf c = (if c = 0 then NaN else if 0 < c then NegInf else PosInf)"
| "f64_mul_fin NaN c = NaN"

text \<open>Division by a non-zero finite constant.\<close>

fun f64_div_fin :: "f64 \<Rightarrow> rat \<Rightarrow> f64" where
  "f64_div_fin (Fin a) c = f64_of_rat (a / c)"
| "f64_div_fin PosInf c = (if 0 < c then PosInf else NegInf)"
| "f64_div_fin NegInf c = (if 0 < c then NegInf else PosInf)"
| "f64_div_fin NaN c = NaN"

fun f64_round :: "f64 \<Rightarrow> f64" where
  "f64_round (Fin a) = Fin (of_int (round_half_away a))"
| "f64_round x = x"

fun is_finite :: "f64 \<Rightarrow> bool" where
  "is_finite (Fin _) = True"
| "is_finite _ = False"

text \<open>\<open>as i128\<close> truncates and saturates; NaN becomes 0.\<close>

fun f64_as_i128 :: "f64 \<Rightarrow> i128" where
  "f64_as_i128 (Fin a) = i128_clamp (if 0 \<le> a then \<lfloor>a\<rfloor> else - \<lfloor>- a\<rfloor>)"
| "f64_as_i128 PosInf = i128_max"
| "f64_as_i128 NegInf = i128_min"
| "f64_as_i128 NaN = 0"

definition i128_as_f64 :: "i128 \<Rightarrow> f64" where
  "i128_as_f64 u = f64_of_rat (of_int u)"

section \<open>The node's conversions\<close>

definition money_scale :: int where
  "money_scale = 100000000"

definition money_scale_f64 :: rat where
  "money_scale_f64 = 100000000"

definition round_amount :: "f64 \<Rightarrow> f64" where
  "round_amount amount = f64_div_fin (f64_round (f64_mul_fin amount money_scale_f64)) money_scale_f64"

definition to_units :: "f64 \<Rightarrow> i128" where
  "to_units amount =
     (if \<not> is_finite amount then 0
      else f64_as_i128 (f64_round (f64_mul_fin (round_amount amount) money_scale_f64)))"

definition from_units :: "i128 \<Rightarrow> f64" where
  "from_units units = round_amount (f64_div_fin (i128_as_f64 units) money_scale_f64)"

section \<open>Decimal text\<close>

fun show_nat :: "nat \<Rightarrow> string" where
  "show_nat n = (if n < 10 then [char_of (48 + n)] else show_nat (n div 10) @ [char_of (48 + n mod 10)])"

declare show_nat.simps [simp del]

text \<open>\<open>{:0w}\<close>: left-padded with zeros to the width.\<close>

definition pad_zeros :: "nat \<Rightarrow> string \<Rightarrow> string" where
  "pad_zeros w s = replicate (w - length s) (CHR ''0'') @ s"

definition units_to_amount_string :: "i128 \<Rightarrow> string" where
  "units_to_amount_string units =
     (let magnitude = nat \<bar>units\<bar>;
          whole = magnitude div 100000000;
          fraction = magnitude mod 100000000
      in (if units < 0 then ''-'' else []) @ show_nat whole @ ''.'' @ pad_zeros 8 (show_nat fraction))"

text \<open>\<open>{:.8}\<close> of an \<open>f64\<close> prints the exact value correctly rounded to eight decimals.\<close>

fun format_8 :: "f64 \<Rightarrow> string" where
  "format_8 (Fin q) =
     (let scaled = nat (round_half_even (\<bar>q\<bar> * 100000000))
      in (if q < 0 then ''-'' else []) @ show_nat (scaled div 100000000) @ ''.''
         @ pad_zeros 8 (show_nat (scaled mod 100000000)))"
| "format_8 PosInf = ''inf''"
| "format_8 NegInf = ''-inf''"
| "format_8 NaN = ''NaN''"

section \<open>Rounding errors\<close>

lemma round_half_even_error: "\<bar>of_int (round_half_even q) - q\<bar> \<le> 1/2"
proof -
  have "0 \<le> q - of_int \<lfloor>q\<rfloor>" "q - of_int \<lfloor>q\<rfloor> < 1" by linarith+
  then show ?thesis unfolding round_half_even_def Let_def by (simp add: abs_le_iff)
qed

lemma round_half_even_int [simp]: "round_half_even (of_int n) = n"
  by (simp add: round_half_even_def)

lemma round_half_even_near: "\<bar>q - of_int n\<bar> < 1/2 \<Longrightarrow> round_half_even q = n"
  using round_half_even_error[of q] by linarith

lemma round_half_away_near: "\<bar>q - of_int n\<bar> < 1/2 \<Longrightarrow> round_half_away q = n"
proof (cases "0 \<le> q")
  case True
  assume "\<bar>q - of_int n\<bar> < 1/2"
  then have "\<lfloor>q + 1/2\<rfloor> = n" by (intro floor_unique) linarith+
  with True show ?thesis by (simp add: round_half_away_def)
next
  case False
  assume "\<bar>q - of_int n\<bar> < 1/2"
  then have "q - of_int n < 1/2" "of_int n - q < 1/2" by linarith+
  then have "\<lfloor>- q + 1/2\<rfloor> = - n" by (intro floor_unique; unfold of_int_minus; linarith)
  with False show ?thesis by (simp add: round_half_away_def)
qed

lemma bit_length_bounds: "0 < n \<Longrightarrow> 2 ^ (bit_length n - 1) \<le> n \<and> n < 2 ^ bit_length n \<and> 0 < bit_length n"
proof (induction n rule: bit_length.induct)
  case (1 n)
  show ?case
  proof (cases "n = 1")
    case True
    then show ?thesis by (simp add: bit_length.simps)
  next
    case False
    with 1 have d: "2 ^ (bit_length (n div 2) - 1) \<le> n div 2" "n div 2 < 2 ^ bit_length (n div 2)"
      "0 < bit_length (n div 2)" by auto
    then have "(2::nat) ^ bit_length (n div 2) = 2 * 2 ^ (bit_length (n div 2) - 1)"
      by (metis Suc_diff_1 power_Suc)
    then have "(2::nat) ^ bit_length (n div 2) \<le> n" "n < 2 * 2 ^ bit_length (n div 2)"
      using d(1,2) by linarith+
    then show ?thesis
      using 1(2) by (simp add: bit_length.simps[of n])
  qed
qed

lemma ilog2_bounds:
  assumes "0 < q"
  shows "2 powi ilog2 q \<le> q" "q < 2 powi (ilog2 q + 1)"
proof -
  have "2 powi ilog2 q \<le> q \<and> q < 2 powi (ilog2 q + 1)"
  proof (cases "1 \<le> q")
    case True
    let ?n = "nat \<lfloor>q\<rfloor>"
    have n: "of_nat ?n = (of_int \<lfloor>q\<rfloor> :: rat)" "0 < ?n" using True by auto
    note b = bit_length_bounds[OF n(2)]
    have "(2::rat) ^ (bit_length ?n - 1) \<le> of_nat ?n"
      using b by (metis of_nat_le_iff of_nat_numeral of_nat_power)
    then have lo: "(2::rat) ^ (bit_length ?n - 1) \<le> q" using n(1) by linarith
    have "of_nat (Suc ?n) \<le> (2::rat) ^ bit_length ?n"
      using b by (metis Suc_leI of_nat_le_iff of_nat_numeral of_nat_power)
    then have hi: "q < (2::rat) ^ bit_length ?n" using n(1) by simp linarith
    have e: "ilog2 q = int (bit_length ?n - 1)" and e1: "ilog2 q + 1 = int (bit_length ?n)"
      using True b by (auto simp: ilog2_def)
    show ?thesis unfolding e1 unfolding e power_int_of_nat using lo hi by simp
  next
    case False
    let ?m = "nat (\<lceil>1 / q\<rceil> - 1)"
    have r: "1 < 1 / q" using False assms by (simp add: field_simps)
    then have "1 < \<lceil>1 / q\<rceil>" by (simp add: less_ceiling_iff)
    then have m: "0 < ?m" "of_nat ?m = of_int \<lceil>1 / q\<rceil> - (1::rat)"
      by (simp, subst of_nat_nat, linarith, simp)
    note b = bit_length_bounds[OF m(1)]
    have "(2::rat) ^ (bit_length ?m - 1) \<le> of_nat ?m"
      using b by (metis of_nat_le_iff of_nat_numeral of_nat_power)
    then have lo: "(2::rat) ^ (bit_length ?m - 1) < 1 / q" using m(2) by linarith
    have "of_nat (Suc ?m) \<le> (2::rat) ^ bit_length ?m"
      using b by (metis Suc_leI of_nat_le_iff of_nat_numeral of_nat_power)
    then have hi: "1 / q \<le> (2::rat) ^ bit_length ?m" using m(2) unfolding of_nat_Suc by linarith
    have e: "ilog2 q = - int (bit_length ?m)" using False by (simp add: ilog2_def)
    have e1: "ilog2 q + 1 = - int (bit_length ?m - 1)" using e b by linarith
    have "2 powi ilog2 q = 1 / (2::rat) ^ bit_length ?m"
      "2 powi (ilog2 q + 1) = 1 / (2::rat) ^ (bit_length ?m - 1)"
      unfolding e1 unfolding e by (simp_all only: power_int_minus power_int_of_nat inverse_eq_divide)
    moreover have "1 / (2::rat) ^ bit_length ?m \<le> q" "q < 1 / (2::rat) ^ (bit_length ?m - 1)"
      using lo hi assms by (simp_all add: field_simps)
    ultimately show ?thesis by (simp only: simp_thms)
  qed
  then show "2 powi ilog2 q \<le> q" "q < 2 powi (ilog2 q + 1)" by auto
qed

text \<open>The relative error of one rounding in the normal range.\<close>

definition eps :: rat where
  "eps = 1 / 2 ^ 53"

lemma f64_of_rat_error:
  assumes "1 / 2 ^ 30 \<le> \<bar>q\<bar>" and "\<bar>q\<bar> \<le> 2 ^ 200"
  shows "\<exists>v. f64_of_rat q = Fin v \<and> \<bar>v - q\<bar> \<le> \<bar>q\<bar> * eps"
proof -
  let ?e = "ilog2 \<bar>q\<bar>"
  let ?u = "(2::rat) powi (?e - 52)"
  let ?v = "of_int (round_half_even (q / ?u)) * ?u"
  have "(0::rat) < 1 / 2 ^ 30" by simp
  then have pos: "0 < \<bar>q\<bar>" using assms(1) by linarith
  note b = ilog2_bounds[OF pos]
  have e: "- 1022 \<le> ?e"
  proof (rule ccontr)
    assume "\<not> - 1022 \<le> ?e"
    then have "(2::rat) powi (?e + 1) \<le> 2 powi (- 30)" by (intro power_int_increasing) auto
    also have "\<dots> = 1 / 2 ^ 30" by (simp add: power_int_minus)
    finally show False using b(2) assms(1) by linarith
  qed
  have u: "0 < ?u" by simp
  have "?v - q = (of_int (round_half_even (q / ?u)) - q / ?u) * ?u"
    using u by (simp add: left_diff_distrib)
  then have "\<bar>?v - q\<bar> = \<bar>of_int (round_half_even (q / ?u)) - q / ?u\<bar> * ?u"
    using u by (simp add: abs_mult)
  also have "\<dots> \<le> 1/2 * ?u"
    using round_half_even_error[of "q / ?u"] u by (intro mult_right_mono) auto
  also have "1/2 * ?u = 2 powi ?e * eps"
    by (simp add: eps_def power_int_diff)
  also have "\<dots> \<le> \<bar>q\<bar> * eps"
    using b(1) by (intro mult_right_mono) (auto simp: eps_def)
  finally have err: "\<bar>?v - q\<bar> \<le> \<bar>q\<bar> * eps" .
  have "\<bar>q\<bar> * eps \<le> \<bar>q\<bar>" using pos by (simp add: eps_def)
  moreover have "\<bar>?v\<bar> \<le> \<bar>?v - q\<bar> + \<bar>q\<bar>" by linarith
  ultimately have "\<bar>?v\<bar> \<le> 2 * 2 ^ 200" using err assms(2) by linarith
  also have "2 * 2 ^ 200 = (2::rat) ^ 201" by simp
  also have "(2::rat) ^ 201 < 2 ^ 1024" by (rule power_strict_increasing) auto
  finally have "\<bar>?v\<bar> < 2 ^ 1024" .
  moreover have "f64_of_rat q = (if \<bar>?v\<bar> \<ge> 2 ^ 1024 then (if 0 < q then PosInf else NegInf) else Fin ?v)"
    using pos e by (simp add: f64_of_rat_def Let_def max_def)
  ultimately show ?thesis using err by auto
qed

text \<open>Integers of at most 53 bits are exact.\<close>

lemma f64_of_int_exact:
  assumes "\<bar>n\<bar> < 2 ^ 53"
  shows "f64_of_rat (of_int n) = Fin (of_int n)"
proof (cases "n = 0")
  case True
  then show ?thesis by (simp add: f64_of_rat_def)
next
  case False
  let ?e = "ilog2 \<bar>of_int n\<bar>"
  have pos: "0 < \<bar>of_int n :: rat\<bar>" using False by simp
  note b = ilog2_bounds[OF pos]
  have n: "\<bar>of_int n :: rat\<bar> < 2 ^ 53"
    using assms by (metis of_int_abs of_int_less_iff of_int_numeral of_int_power)
  have "1 \<le> \<bar>n\<bar>" using False by linarith
  then have one: "1 \<le> \<bar>of_int n :: rat\<bar>" by (simp only: of_int_abs[symmetric] of_int_1_le_iff)
  have e0: "0 \<le> ?e"
  proof (rule ccontr)
    assume "\<not> 0 \<le> ?e"
    then have "(2::rat) powi (?e + 1) \<le> 2 powi 0" by (intro power_int_increasing) auto
    with b(2) one show False by simp
  qed
  have e52: "?e \<le> 52"
  proof (rule ccontr)
    assume "\<not> ?e \<le> 52"
    then have "(2::rat) powi 53 \<le> 2 powi ?e" by (intro power_int_increasing) auto
    with b(1) n show False by simp
  qed
  define k where "k = nat (52 - ?e)"
  have u: "(2::rat) powi (?e - 52) = 1 / 2 ^ k"
    using e52 by (simp add: k_def power_int_def field_simps)
  have "round_half_even (of_int n / (2 powi (?e - 52))) = n * 2 ^ k"
    unfolding u using round_half_even_int[of "n * 2 ^ k"] by simp
  then have "of_int (round_half_even (of_int n / (2 powi (?e - 52)))) * 2 powi (?e - 52) = (of_int n :: rat)"
    unfolding u by simp
  moreover have "(2::rat) ^ 53 \<le> 2 ^ 1024" by (rule power_increasing) auto
  ultimately show ?thesis
    using n e0 False by (simp add: f64_of_rat_def Let_def max_def)
qed

section \<open>Round trips\<close>

text \<open>Amounts of at most \<open>2\<^sup>5\<^sup>0\<close> units (about eleven million coins).\<close>

definition exact_units :: "i128 \<Rightarrow> bool" where
  "exact_units u \<longleftrightarrow> \<bar>u\<bar> \<le> 2 ^ 50"

lemma exact_units_rat: "exact_units u \<Longrightarrow> \<bar>of_int u :: rat\<bar> \<le> 2 ^ 50"
  unfolding exact_units_def by (metis of_int_abs of_int_le_iff of_int_numeral of_int_power)

lemma nonzero_int_rat: "u \<noteq> 0 \<Longrightarrow> 1 \<le> \<bar>of_int u :: rat\<bar>"
proof -
  assume "u \<noteq> 0"
  then have "1 \<le> \<bar>u\<bar>" by linarith
  then show ?thesis by (simp only: of_int_abs[symmetric] of_int_1_le_iff)
qed

lemma coins_of_units:
  assumes "exact_units u" and "u \<noteq> 0"
  shows "\<exists>f. f64_of_rat (of_int u / money_scale_f64) = Fin f
    \<and> \<bar>f * money_scale_f64 - of_int u\<bar> \<le> \<bar>of_int u\<bar> * eps"
proof -
  let ?q = "of_int u / money_scale_f64"
  have q: "\<bar>?q\<bar> = \<bar>of_int u\<bar> / money_scale_f64" by (simp add: money_scale_f64_def)
  have "1 / 2 ^ 30 \<le> \<bar>?q\<bar>" "\<bar>?q\<bar> \<le> 2 ^ 200"
    unfolding q using nonzero_int_rat[OF assms(2)] exact_units_rat[OF assms(1)]
    by (simp_all add: money_scale_f64_def)
  from f64_of_rat_error[OF this] obtain f where f: "f64_of_rat ?q = Fin f"
    "\<bar>f - ?q\<bar> \<le> \<bar>?q\<bar> * eps" by blast
  have "\<bar>f - ?q\<bar> * money_scale_f64 \<le> \<bar>?q\<bar> * eps * money_scale_f64"
    using f(2) by (intro mult_right_mono) (auto simp: money_scale_f64_def)
  moreover have "\<bar>f - ?q\<bar> * money_scale_f64 = \<bar>f * money_scale_f64 - of_int u\<bar>"
    by (simp add: money_scale_f64_def abs_if field_simps)
  moreover have "\<bar>?q\<bar> * eps * money_scale_f64 = \<bar>of_int u\<bar> * eps"
    by (simp add: q money_scale_f64_def)
  ultimately show ?thesis using f(1) by simp
qed

lemma units_of_coins:
  assumes "exact_units u" and "u \<noteq> 0" and f: "\<bar>f * money_scale_f64 - of_int u\<bar> \<le> \<bar>of_int u\<bar> * eps"
  shows "f64_round (f64_mul_fin (Fin f) money_scale_f64) = Fin (of_int u)"
proof -
  let ?q = "f * money_scale_f64"
  have eps8: "\<bar>of_int u\<bar> * eps \<le> 1 / 8"
    using exact_units_rat[OF assms(1)] by (simp add: eps_def)
  have "1 / 2 ^ 30 \<le> \<bar>?q\<bar>" "\<bar>?q\<bar> \<le> 2 ^ 200"
    using f eps8 nonzero_int_rat[OF assms(2)] exact_units_rat[OF assms(1)] by simp_all
  from f64_of_rat_error[OF this] obtain g where g: "f64_of_rat ?q = Fin g"
    "\<bar>g - ?q\<bar> \<le> \<bar>?q\<bar> * eps" by blast
  have "\<bar>?q\<bar> \<le> 2 ^ 51" using f eps8 exact_units_rat[OF assms(1)] by simp
  then have "\<bar>?q\<bar> * eps \<le> 1 / 4" by (simp add: eps_def)
  then have "\<bar>g - of_int u\<bar> < 1 / 2" using g(2) f eps8 by linarith
  then show ?thesis using g(1) by (simp add: round_half_away_near)
qed

lemma from_units_value:
  assumes "exact_units u" and "u \<noteq> 0"
  obtains f where "from_units u = Fin f" and "round_amount (Fin f) = Fin f"
    and "\<bar>f * money_scale_f64 - of_int u\<bar> \<le> \<bar>of_int u\<bar> * eps"
proof -
  obtain f where f: "f64_of_rat (of_int u / money_scale_f64) = Fin f"
    "\<bar>f * money_scale_f64 - of_int u\<bar> \<le> \<bar>of_int u\<bar> * eps"
    using coins_of_units[OF assms] by blast
  have "\<bar>u\<bar> < 2 ^ 53" using assms(1) by (simp add: exact_units_def)
  then have "i128_as_f64 u = Fin (of_int u)" by (simp only: i128_as_f64_def f64_of_int_exact)
  moreover have "round_amount (Fin f) = Fin f"
    unfolding round_amount_def units_of_coins[OF assms f(2)] using f(1) by simp
  ultimately show ?thesis using that f by (simp add: from_units_def)
qed

lemma rounding_zero [simp]: "round_half_away 0 = 0" "f64_of_rat 0 = Fin 0"
  using round_half_away_near[of 0 0] by (simp_all add: f64_of_rat_def)

lemma from_units_zero: "from_units 0 = Fin 0" "to_units (Fin 0) = 0"
  by (simp_all add: from_units_def to_units_def round_amount_def i128_as_f64_def
      i128_clamp_def i128_max_def i128_min_def)

lemma to_units_from_units:
  assumes "exact_units u"
  shows "to_units (from_units u) = u"
proof (cases "u = 0")
  case True
  then show ?thesis by (simp add: from_units_zero)
next
  case False
  obtain f where f: "from_units u = Fin f" "round_amount (Fin f) = Fin f"
    "\<bar>f * money_scale_f64 - of_int u\<bar> \<le> \<bar>of_int u\<bar> * eps"
    using from_units_value[OF assms False] .
  have "i128_clamp u = u"
    using assms by (intro i128_clamp_id) (auto simp: exact_units_def in_i128_def i128_max_def i128_min_def)
  moreover have "(if 0 \<le> u then u else - (- u)) = u" by simp
  ultimately show ?thesis
    using f units_of_coins[OF assms False f(3)] by (simp add: to_units_def)
qed

text \<open>The node's \<open>f64\<close> text of an amount is the wallet's integer text.\<close>

lemma format_from_units:
  assumes "exact_units u"
  shows "format_8 (from_units u) = units_to_amount_string u"
proof (cases "u = 0")
  case True
  then show ?thesis by (simp add: from_units_zero units_to_amount_string_def round_half_even_def)
next
  case False
  obtain f where f: "from_units u = Fin f"
    "\<bar>f * money_scale_f64 - of_int u\<bar> \<le> \<bar>of_int u\<bar> * eps"
    using from_units_value[OF assms False] .
  have small: "\<bar>of_int u\<bar> * eps \<le> 1 / 8"
    using exact_units_rat[OF assms] by (simp add: eps_def)
  define r :: rat where "r = of_int u"
  have r: "u < 0 \<longleftrightarrow> r < 0" "1 \<le> \<bar>r\<bar>" "of_int \<bar>u\<bar> = \<bar>r\<bar>"
    using nonzero_int_rat[OF False] by (simp_all add: r_def)
  have near: "\<bar>f * 100000000 - r\<bar> \<le> 1 / 8"
    using f(2) small unfolding r_def money_scale_f64_def by linarith
  have sign: "f < 0 \<longleftrightarrow> u < 0" unfolding r(1) using near r(2) by (cases "r < 0") linarith+
  have "\<bar>\<bar>f\<bar> * 100000000 - \<bar>r\<bar>\<bar> < 1 / 2"
    using near sign[unfolded r(1)] by (cases "r < 0") (simp_all add: abs_if split: if_splits)
  then have "\<bar>\<bar>f\<bar> * 100000000 - of_int \<bar>u\<bar>\<bar> < 1 / 2" unfolding r(3) .
  then have "round_half_even (\<bar>f\<bar> * 100000000) = \<bar>u\<bar>" by (rule round_half_even_near)
  then show ?thesis
    using f(1) sign by (simp add: units_to_amount_string_def Let_def)
qed

end
