(* ===== verification/A9_Transaction.thy ===== *)
theory A9_Transaction
  imports A9_Money
begin

text \<open>
  Transactions (\<^verbatim>\<open>src/a9/blockchain.rs\<close>, \<open>Transaction\<close> and its methods) and the desktop
  wallet's construction of them (\<^verbatim>\<open>gui/src/tx.rs\<close>).  Byte strings are \<open>string\<close>s, one \<open>char\<close>
  per byte.  The hash functions, the hex crate and ML-DSA verification are parameters,
  bundled in a record.
\<close>

section \<open>Parameters: hashing, hex, signatures\<close>

record crypto =
  sha256 :: "string \<Rightarrow> string"
  blake3 :: "string \<Rightarrow> string"
  hex_encode :: "string \<Rightarrow> string"
  hex_decode :: "string \<Rightarrow> string option"
  mldsa_verify :: "string \<Rightarrow> string \<Rightarrow> string \<Rightarrow> bool"

section \<open>Errors\<close>

text \<open>The constructors of \<open>BlockchainError\<close> the modelled paths return.  \<open>ClampPanic\<close> is not one of them:
  it stands for the panic of \<open>f64::clamp\<close> on an empty range, which unwinds through every caller as an
  error does.\<close>

datatype blockchain_error =
    RateLimitExceeded string
  | SelfTransferNotAllowed
  | InvalidHash
  | InsufficientFunds
  | InvalidTransaction
  | InvalidBlockHeader
  | InvalidBlockTimestamp
  | InvalidTransactionAmount
  | InvalidTransactionSignature
  | InvalidSystemTransaction
  | DuplicateTransaction
  | BlockTransactionCountExceeded
  | BlockWeightExceeded
  | NonCanonicalTransaction
  | FeeAccountingLimitExceeded
  | FeeBelowRelayFloor
  | SerializationError
  | CanonicalCorruption u32
  | IoError
  | ClampPanic

section \<open>Transactions\<close>

record transaction =
  sender :: string
  recipient :: string
  fee_units :: i128
  amount_units :: i128
  timestamp :: u64
  signature :: "string option"
  pub_key :: "string option"
  sig_hash :: "string option"

definition MIN_TRANSACTION_AMOUNT_UNITS :: i128 where
  "MIN_TRANSACTION_AMOUNT_UNITS = 564"

definition MIN_RELAY_FEE_UNITS :: i128 where
  "MIN_RELAY_FEE_UNITS = 10000"

definition SYSTEM_ADDRESSES :: "string list" where
  "SYSTEM_ADDRESSES = [''MINING_REWARDS'']"

definition total_debit_units :: "transaction \<Rightarrow> i128" where
  "total_debit_units tx = i128_saturating_add (amount_units tx) (fee_units tx)"

definition has_valid_regular_amounts :: "transaction \<Rightarrow> bool" where
  "has_valid_regular_amounts tx \<longleftrightarrow>
     amount_units tx \<ge> MIN_TRANSACTION_AMOUNT_UNITS \<and> fee_units tx \<ge> 0
     \<and> i128_checked_add (amount_units tx) (fee_units tx) \<noteq> None"

definition amount :: "transaction \<Rightarrow> f64" where
  "amount tx = from_units (amount_units tx)"

definition fee :: "transaction \<Rightarrow> f64" where
  "fee tx = from_units (fee_units tx)"

definition new_transaction :: "string \<Rightarrow> string \<Rightarrow> f64 \<Rightarrow> f64 \<Rightarrow> u64 \<Rightarrow> string option \<Rightarrow> transaction" where
  "new_transaction s r amt f ts sg =
     \<lparr>sender = s, recipient = r, fee_units = to_units f, amount_units = to_units amt,
      timestamp = ts, signature = sg, pub_key = None, sig_hash = None\<rparr>"

definition get_tx_id :: "transaction \<Rightarrow> string" where
  "get_tx_id tx = sender tx @ '':'' @ recipient tx @ '':'' @ format_8 (amount tx) @ '':''
     @ format_8 (fee tx) @ '':'' @ show_nat (timestamp tx)"

definition get_message :: "transaction \<Rightarrow> string" where
  "get_message tx = sender tx @ '':'' @ recipient tx @ '':'' @ format_8 (amount tx) @ '':''
     @ format_8 (fee tx) @ '':'' @ show_nat (timestamp tx)"

definition create_hash :: "crypto \<Rightarrow> transaction \<Rightarrow> string" where
  "create_hash c tx = hex_encode c (sha256 c
     (sender tx @ '':'' @ recipient tx @ '':'' @ format_8 (amount tx) @ '':''
      @ format_8 (fee tx) @ '':'' @ show_nat (timestamp tx)))"

definition is_valid :: "crypto \<Rightarrow> transaction \<Rightarrow> string \<Rightarrow> bool" where
  "is_valid c tx sender_pubkey =
     (if sender tx \<in> set SYSTEM_ADDRESSES then False
      else case signature tx of
             Some sig \<Rightarrow>
               (case hex_decode c sig of
                  Some full_sig \<Rightarrow>
                    (case hex_decode c sender_pubkey of
                       Some pub_key_bytes \<Rightarrow> mldsa_verify c (get_message tx) full_sig pub_key_bytes
                     | None \<Rightarrow> False)
                | None \<Rightarrow> False)
           | None \<Rightarrow> sender tx = ''MINING_REWARDS'')"

definition signature_hash_hex :: "crypto \<Rightarrow> string \<Rightarrow> string" where
  "signature_hash_hex c signature_bytes = hex_encode c (sha256 c signature_bytes)"

definition with_truncated_signature :: "crypto \<Rightarrow> transaction \<Rightarrow> string \<Rightarrow> transaction" where
  "with_truncated_signature c tx h =
     tx\<lparr>signature := Option.bind (signature tx) (\<lambda>sig.
            map_option (\<lambda>full_sig. hex_encode c (take 64 full_sig)) (hex_decode c sig)),
        sig_hash := Some h\<rparr>"

definition verify_balance :: "i128 \<Rightarrow> transaction \<Rightarrow> blockchain_error + unit" where
  "verify_balance sender_units tx =
     guard_err (\<not> has_valid_regular_amounts tx) InvalidTransactionAmount
       (guard_err (sender_units < total_debit_units tx) InsufficientFunds (Inr ()))"

definition verify_signature :: "crypto \<Rightarrow> transaction \<Rightarrow> blockchain_error + unit" where
  "verify_signature c tx =
     guard_err (pub_key tx = None \<or> sig_hash tx = None) InvalidTransactionSignature
       (case signature tx of
          None \<Rightarrow> Inr ()
        | Some sig \<Rightarrow>
            (case hex_decode c sig of
               None \<Rightarrow> Inl InvalidTransactionSignature
             | Some decoded \<Rightarrow>
                 guard_err (decoded = []) InvalidTransactionSignature (Inr ())))"

definition is_canonical_user_address :: "string \<Rightarrow> bool" where
  "is_canonical_user_address address \<longleftrightarrow>
     length address = 40
     \<and> list_all (\<lambda>b. (CHR ''0'' \<le> b \<and> b \<le> CHR ''9'') \<or> (CHR ''a'' \<le> b \<and> b \<le> CHR ''f'')) address"

section \<open>The desktop wallet\<close>

definition signing_message :: "string \<Rightarrow> string \<Rightarrow> i128 \<Rightarrow> i128 \<Rightarrow> u64 \<Rightarrow> string" where
  "signing_message s r amt f ts =
     s @ '':'' @ r @ '':'' @ units_to_amount_string amt @ '':'' @ units_to_amount_string f
     @ '':'' @ show_nat ts"

definition RELAY_FLOOR_UNITS :: i128 where
  "RELAY_FLOOR_UNITS = 10000"

definition WHISPER_MIN_UNITS :: i128 where
  "WHISPER_MIN_UNITS = 10000"

definition FEE_SAFETY_LIMIT_UNITS :: i128 where
  "FEE_SAFETY_LIMIT_UNITS = 1000000"

text \<open>The value of the \<open>f64\<close> literal \<open>0.000563063063\<close>.\<close>

definition FEE_PERCENTAGE :: rat where
  "FEE_PERCENTAGE = (case f64_of_rat (563063063 / 1000000000000) of Fin q \<Rightarrow> q | _ \<Rightarrow> 0)"

definition max_non_whisper_fee_units :: "i128 \<Rightarrow> i128" where
  "max_non_whisper_fee_units amt =
     (let coins = f64_div_fin (i128_as_f64 amt) money_scale_f64;
          band_start = f64_as_i128 (f64_round
             (f64_mul_fin (f64_mul_fin coins FEE_PERCENTAGE) money_scale_f64))
      in i128_saturating_sub (i128_saturating_add band_start WHISPER_MIN_UNITS) 1)"

definition clamp_fee_units :: "i128 \<Rightarrow> i128 \<Rightarrow> i128 option \<Rightarrow> i128 option" where
  "clamp_fee_units amt requested floor_units =
     (let flr = (case floor_units of None \<Rightarrow> RELAY_FLOOR_UNITS | Some f \<Rightarrow> f);
          ceil = min (max_non_whisper_fee_units amt) FEE_SAFETY_LIMIT_UNITS
      in if ceil < flr then None else Some (min (max requested flr) ceil))"

text \<open>\<open>parse_units\<close>: white space is trimmed, a sign is refused, then \<open>i128::from_str\<close>.\<close>

definition is_space :: "char \<Rightarrow> bool" where
  "is_space c \<longleftrightarrow> c \<in> {CHR 0x09, CHR 0x0A, CHR 0x0B, CHR 0x0C, CHR 0x0D, CHR 0x20}"

definition trim :: "string \<Rightarrow> string" where
  "trim s = rev (dropWhile is_space (rev (dropWhile is_space s)))"

definition digit_value :: "char \<Rightarrow> nat" where
  "digit_value c = of_char c - 48"

definition is_digit :: "char \<Rightarrow> bool" where
  "is_digit c \<longleftrightarrow> CHR ''0'' \<le> c \<and> c \<le> CHR ''9''"

definition parse_digits :: "string \<Rightarrow> i128 option" where
  "parse_digits s =
     (if s = [] \<or> \<not> list_all is_digit s then None
      else let v = int (foldl (\<lambda>acc c. acc * 10 + digit_value c) 0 s)
           in if in_i128 v then Some v else None)"

definition parse_units :: "string \<Rightarrow> i128 option" where
  "parse_units text =
     (let trimmed = trim text
      in if trimmed \<noteq> [] \<and> (hd trimmed = CHR ''-'' \<or> hd trimmed = CHR ''+'') then None
         else parse_digits trimmed)"

definition format_coins :: "i128 \<Rightarrow> string" where
  "format_coins units =
     (let fixed = units_to_amount_string units;
          trimmed = rev (dropWhile (\<lambda>c. c = CHR ''.'')
                      (rev (rev (dropWhile (\<lambda>c. c = CHR ''0'') (rev fixed)))))
      in if trimmed = [] \<or> trimmed = ''-'' then ''0'' else trimmed)"

section \<open>Decimal text is read back\<close>

lemma digit_char: "n < 10 \<Longrightarrow> digit_value (char_of (48 + n)) = n \<and> is_digit (char_of (48 + n))"
  by (auto simp: digit_value_def is_digit_def less_eq_char_def)

lemma foldl_digits_append:
  "foldl (\<lambda>acc c. acc * 10 + digit_value c) 0 (s @ [c])
    = foldl (\<lambda>acc c. acc * 10 + digit_value c) 0 s * 10 + digit_value c"
  by simp

lemma show_nat_read: "foldl (\<lambda>acc c. acc * 10 + digit_value c) 0 (show_nat n) = n"
proof (induction n rule: show_nat.induct)
  case (1 n)
  show ?case
  proof (cases "n < 10")
    case True
    then show ?thesis by (simp add: show_nat.simps digit_char)
  next
    case False
    with 1 show ?thesis
      by (subst show_nat.simps) (simp add: digit_char)
  qed
qed

lemma show_nat_inj: "show_nat m = show_nat n \<Longrightarrow> m = n"
  by (metis show_nat_read)

lemma show_nat_digits: "list_all is_digit (show_nat n)"
proof (induction n rule: show_nat.induct)
  case (1 n)
  then show ?case
    by (subst show_nat.simps) (auto simp: digit_char)
qed

lemma show_nat_nonempty: "show_nat n \<noteq> []"
  by (subst show_nat.simps) simp

lemma parse_units_show:
  assumes "int n \<le> i128_max"
  shows "parse_units (show_nat n) = Some (int n)"
proof -
  have d: "is_digit c" if "c \<in> set (show_nat n)" for c
    using that show_nat_digits by (auto simp: list_all_iff)
  have sp: "\<not> is_space c" "c \<noteq> CHR ''-''" "c \<noteq> CHR ''+''" if "is_digit c" for c
    using that by (auto simp: is_digit_def is_space_def less_eq_char_def)
  have h: "hd (show_nat n) \<in> set (show_nat n)" "hd (rev (show_nat n)) \<in> set (show_nat n)"
    using show_nat_nonempty by (simp_all add: hd_rev)
  have dw: "dropWhile is_space (show_nat n) = show_nat n"
    "dropWhile is_space (rev (show_nat n)) = rev (show_nat n)"
    using sp(1)[OF d[OF h(1)]] sp(1)[OF d[OF h(2)]] show_nat_nonempty
    by (auto simp: dropWhile_eq_self_iff)
  have "trim (show_nat n) = show_nat n" by (simp add: trim_def dw)
  then show ?thesis
    using sp(2,3)[OF d[OF h(1)]] show_nat_nonempty[of n] show_nat_digits[of n] assms
    by (simp add: parse_units_def parse_digits_def show_nat_read in_i128_def i128_min_def)
qed

section \<open>The signed text determines the payment\<close>

lemma split_at:
  assumes "a @ c # x = b @ c # y" and "c \<notin> set a" and "c \<notin> set b"
  shows "a = b \<and> x = y"
  using assms
proof (induction a arbitrary: b)
  case Nil
  then show ?case by (cases b) auto
next
  case (Cons h t)
  then show ?case by (cases b) auto
qed

lemma read_zeros: "foldl (\<lambda>acc c. acc * 10 + digit_value c) 0 (replicate k (CHR ''0'') @ s)
    = foldl (\<lambda>acc c. acc * 10 + digit_value c) 0 s"
  by (induction k) (simp_all add: digit_value_def)

lemma pad_zeros_inj: "pad_zeros w (show_nat m) = pad_zeros w (show_nat n) \<Longrightarrow> m = n"
  unfolding pad_zeros_def by (metis read_zeros show_nat_read)

lemma show_nat_no: "\<not> is_digit c \<Longrightarrow> c \<notin> set (show_nat n)"
  using show_nat_digits[of n] by (auto simp: list_all_iff)

lemma punctuation: "\<not> is_digit (CHR '':'')" "\<not> is_digit (CHR ''.'')" "\<not> is_digit (CHR ''-'')"
  by (simp_all add: is_digit_def less_eq_char_def)

lemmas show_nat_punct [simp] = show_nat_no[OF punctuation(1)] show_nat_no[OF punctuation(2)]
  show_nat_no[OF punctuation(3)]

lemma amount_string_no_colon [simp]: "CHR '':'' \<notin> set (units_to_amount_string u)"
  by (auto simp: units_to_amount_string_def Let_def pad_zeros_def)

lemma unsigned_amount_inj:
  assumes "show_nat a @ CHR ''.'' # pad_zeros 8 (show_nat b)
    = show_nat c @ CHR ''.'' # pad_zeros 8 (show_nat d)"
  shows "a = c \<and> b = d"
  using split_at[OF assms] by (auto dest: show_nat_inj pad_zeros_inj)

lemma units_to_amount_string_inj:
  assumes "units_to_amount_string u = units_to_amount_string v"
  shows "u = v"
proof -
  let ?m = "\<lambda>u. nat \<bar>u\<bar>"
  let ?body = "\<lambda>u. show_nat (?m u div 100000000) @ CHR ''.'' # pad_zeros 8 (show_nat (?m u mod 100000000))"
  have shape: "units_to_amount_string u = (if u < 0 then ''-'' else []) @ ?body u" for u
    by (simp add: units_to_amount_string_def Let_def)
  have h: "hd (?body u) \<noteq> CHR ''-''" for u
    using show_nat_nonempty show_nat_punct(3) by (metis hd_append2 list.set_sel(1))
  have sign: "u < 0 \<longleftrightarrow> v < 0"
    using arg_cong[OF assms, of hd] h[of u] h[of v] unfolding shape by (auto split: if_splits)
  then have "?body u = ?body v" using assms unfolding shape by (auto split: if_splits)
  from unsigned_amount_inj[OF this] have "?m u = ?m v"
    by (metis div_mult_mod_eq)
  with sign show ?thesis by linarith
qed

lemma signing_message_inj:
  assumes eq: "signing_message s r a f t = signing_message s' r' a' f' t'"
    and c: "CHR '':'' \<notin> set s" "CHR '':'' \<notin> set r" "CHR '':'' \<notin> set s'" "CHR '':'' \<notin> set r'"
  shows "s = s' \<and> r = r' \<and> a = a' \<and> f = f' \<and> t = t'"
proof -
  have 1: "s = s'" "r @ CHR '':'' # units_to_amount_string a @ CHR '':'' # units_to_amount_string f
      @ CHR '':'' # show_nat t = r' @ CHR '':'' # units_to_amount_string a' @ CHR '':''
      # units_to_amount_string f' @ CHR '':'' # show_nat t'"
    using split_at[OF eq[unfolded signing_message_def append_Cons append_Nil] c(1,3)] by simp_all
  note 2 = split_at[OF 1(2) c(2,4)]
  note 3 = split_at[OF conjunct2[OF 2] amount_string_no_colon amount_string_no_colon]
  note 4 = split_at[OF conjunct2[OF 3] amount_string_no_colon amount_string_no_colon]
  from 1 2 3 4 show ?thesis using units_to_amount_string_inj show_nat_inj by blast
qed

lemma canonical_no_colon: "is_canonical_user_address s \<Longrightarrow> CHR '':'' \<notin> set s"
  by (auto simp: is_canonical_user_address_def list_all_iff less_eq_char_def)

lemma get_message_signing:
  assumes "exact_units (amount_units tx)" and "exact_units (fee_units tx)"
  shows "get_message tx = signing_message (sender tx) (recipient tx) (amount_units tx) (fee_units tx)
      (timestamp tx)"
    and "get_tx_id tx = get_message tx"
  using assms
  by (simp_all add: get_message_def get_tx_id_def signing_message_def amount_def fee_def format_from_units)

section \<open>Properties\<close>

text \<open>C9. Amounts survive the \<open>f64\<close> detour: converting units to coins and back is the identity for
  every amount of at most \<open>2\<^sup>5\<^sup>0\<close> units (more than eleven million coins), through all four
  roundings of the two conversions.\<close>

theorem units_roundtrip:
  assumes "exact_units u"
  shows "to_units (from_units u) = u"
  by (rule to_units_from_units[OF assms])

theorem units_roundtrip_witness: "to_units (from_units 123456789) = 123456789"
  by (rule units_roundtrip) (simp add: exact_units_def)

text \<open>C10. The desktop wallet signs exactly the bytes the node verifies: the text the wallet builds
  from integers is the text the node formats from \<open>f64\<close> coins, for amounts and fees of at
  most \<open>2\<^sup>5\<^sup>0\<close> units; it is also the transaction id.\<close>

theorem wallet_signs_what_node_verifies:
  assumes "exact_units (amount_units tx)" and "exact_units (fee_units tx)"
  shows "signing_message (sender tx) (recipient tx) (amount_units tx) (fee_units tx) (timestamp tx)
      = get_message tx \<and> get_tx_id tx = get_message tx"
  using get_message_signing[OF assms] by simp

theorem wallet_signs_what_node_verifies_witness:
  "get_tx_id \<lparr>sender = ''a'', recipient = ''b'', fee_units = 10000, amount_units = 150000000,
      timestamp = 7, signature = None, pub_key = None, sig_hash = None\<rparr>
    = ''a:b:1.50000000:0.00010000:7''"
proof -
  let ?tx = "\<lparr>sender = ''a'', recipient = ''b'', fee_units = 10000, amount_units = 150000000,
      timestamp = 7, signature = None, pub_key = None, sig_hash = None\<rparr>"
  have "exact_units (amount_units ?tx)" "exact_units (fee_units ?tx)"
    by (simp_all add: exact_units_def)
  note eq = wallet_signs_what_node_verifies[OF this]
  have digits: "char_of (48::nat) = CHR ''0''" "char_of (49::nat) = CHR ''1''"
    "char_of (53::nat) = CHR ''5''" "char_of (55::nat) = CHR ''7''"
    by code_simp+
  have nums: "show_nat 0 = ''0''" "show_nat 1 = ''1''" "show_nat 7 = ''7''"
    "show_nat 10000 = ''10000''" "show_nat 50000000 = ''50000000''"
    by (simp_all add: show_nat.simps digits)
  have pads: "pad_zeros 8 ''10000'' = ''00010000''" "pad_zeros 8 ''50000000'' = ''50000000''"
    by code_simp+
  have "units_to_amount_string 150000000 = ''1.50000000''"
    "units_to_amount_string 10000 = ''0.00010000''"
    using nums pads by (simp_all add: units_to_amount_string_def)
  with eq nums show ?thesis by (simp add: signing_message_def)
qed



text \<open>The wallet's fee is always one the network relays and the wallet may spend: when
  \<open>clamp_fee_units\<close> answers, the fee is at least the node's floor, at most the absolute
  safety limit, below the whisper band, and unchanged if the request already was; it refuses
  exactly when no such fee exists.\<close>

theorem clamp_fee_units_correct:
  "case clamp_fee_units amt req flr of
     None \<Rightarrow> min (max_non_whisper_fee_units amt) FEE_SAFETY_LIMIT_UNITS
               < (case flr of None \<Rightarrow> RELAY_FLOOR_UNITS | Some f \<Rightarrow> f)
   | Some f \<Rightarrow> (case flr of None \<Rightarrow> RELAY_FLOOR_UNITS | Some f \<Rightarrow> f) \<le> f
       \<and> f \<le> max_non_whisper_fee_units amt \<and> f \<le> FEE_SAFETY_LIMIT_UNITS
       \<and> clamp_fee_units amt f flr = Some f"
proof (cases "clamp_fee_units amt req flr")
  case None
  then show ?thesis by (simp add: clamp_fee_units_def Let_def split: if_splits)
next
  case (Some f)
  define lo where "lo = (case flr of None \<Rightarrow> RELAY_FLOOR_UNITS | Some f \<Rightarrow> f)"
  define hi where "hi = min (max_non_whisper_fee_units amt) FEE_SAFETY_LIMIT_UNITS"
  have c: "clamp_fee_units amt x flr = (if hi < lo then None else Some (min (max x lo) hi))" for x
    by (simp only: clamp_fee_units_def Let_def lo_def hi_def)
  from Some have f: "lo \<le> hi" "f = min (max req lo) hi" unfolding c by (auto split: if_splits)
  then have "lo \<le> f" "f \<le> hi" "min (max f lo) hi = f" by auto
  with f(1) Some show ?thesis by (simp add: c lo_def[symmetric]) (simp add: hi_def)
qed

end
