(* ===== verification/A9_Mempool.thy ===== *)
theory A9_Mempool
  imports A9_Transaction
begin

text \<open>
  The mempool (\<^verbatim>\<open>src/a9/mempool.rs\<close>): pending transactions by sender, a locator from
  transaction ids to senders, per-address counts and two running totals, which every
  operation has to keep in lockstep.  The wall clock is an argument, once for every time
  the code reads it; the codec is a parameter (\<open>None\<close> is a serialisation error).  A
  \<open>DashMap\<close> is a hash map: the pool is only changed through \<open>&mut self\<close>.
\<close>

section \<open>Limits\<close>

definition MEMPOOL_MAX_BYTES :: usize where
  "MEMPOOL_MAX_BYTES = 50000000"

definition MEMPOOL_MAX_TRANSACTIONS :: usize where
  "MEMPOOL_MAX_TRANSACTIONS = 50000"

definition MEMPOOL_MAX_PER_ADDRESS :: usize where
  "MEMPOOL_MAX_PER_ADDRESS = 250"

definition MAX_BLOCK_SIZE :: usize where
  "MAX_BLOCK_SIZE = 2000000"

definition MAX_MEMPOOL_TX_BYTES :: usize where
  "MAX_MEMPOOL_TX_BYTES = 1000000"

definition MAX_TRANSACTIONS_PER_BLOCK :: usize where
  "MAX_TRANSACTIONS_PER_BLOCK = 2000"

definition PRUNE_INTERVAL_SECS :: usize where
  "PRUNE_INTERVAL_SECS = 30"

section \<open>Fee rates\<close>

datatype ordering = Less | Equal | Greater

definition cmp_of :: "'a::linorder \<Rightarrow> 'a \<Rightarrow> ordering" where
  "cmp_of a b = (if a < b then Less else if a = b then Equal else Greater)"

fun then_with :: "ordering \<Rightarrow> ordering \<Rightarrow> ordering" where
  "then_with Equal o2 = o2"
| "then_with o1 _ = o1"

fun reverse_ord :: "ordering \<Rightarrow> ordering" where
  "reverse_ord Less = Greater"
| "reverse_ord Equal = Equal"
| "reverse_ord Greater = Less"

record fee_per_byte =
  rate_fee_units :: i128
  rate_size_bytes :: u64

definition rate_cmp :: "fee_per_byte \<Rightarrow> fee_per_byte \<Rightarrow> ordering" where
  "rate_cmp a b = cmp_of
     (i128_saturating_mul (rate_fee_units a) (int (rate_size_bytes b)))
     (i128_saturating_mul (rate_fee_units b) (int (rate_size_bytes a)))"

section \<open>State\<close>

record mempool_entry =
  me_transaction :: transaction
  me_tx_id :: string
  me_timestamp :: u64
  me_fee_per_byte :: fee_per_byte
  me_size :: usize

record mempool =
  pool_transactions :: "(string, mempool_entry list) hmap"
  tx_locator :: "(string, string) hmap"
  total_size :: usize
  total_count :: usize
  address_counts :: "(string, usize) hmap"
  last_prune :: usize

definition new_mempool :: mempool where
  "new_mempool = \<lparr>pool_transactions = [], tx_locator = [], total_size = 0, total_count = 0,
     address_counts = [], last_prune = 0\<rparr>"

text \<open>\<open>mempool_ttl_secs\<close>, from the value of the environment variable (\<open>None\<close>: unset or not a
  number).\<close>

definition mempool_ttl_secs :: "u64 option \<Rightarrow> u64 option" where
  "mempool_ttl_secs env_value =
     (let ttl = (case env_value of Some v \<Rightarrow> v | None \<Rightarrow> 600)
      in if ttl = 0 then None else Some ttl)"

section \<open>Removal\<close>

definition decrement_address_count :: "string \<Rightarrow> usize \<Rightarrow> mempool \<Rightarrow> mempool" where
  "decrement_address_count addr n m =
     (case hm_get (address_counts m) addr of
        Some held \<Rightarrow>
          (let held' = saturating_sub held n;
               m1 = m\<lparr>address_counts := hm_insert addr held' (address_counts m)\<rparr>
           in if held' = 0 then m1\<lparr>address_counts := hm_remove addr (address_counts m1)\<rparr> else m1)
      | None \<Rightarrow> m)"

definition clear_transaction :: "transaction \<Rightarrow> mempool \<Rightarrow> mempool" where
  "clear_transaction tx m0 =
     (let tx_id = get_tx_id tx;
          m = m0\<lparr>tx_locator := hm_remove tx_id (tx_locator m0)\<rparr>
      in case hm_get (pool_transactions m) (sender tx) of
           None \<Rightarrow> m
         | Some addr_txs \<Rightarrow>
             (let gone = filter (\<lambda>entry. me_tx_id entry = tx_id) addr_txs;
                  kept = filter (\<lambda>entry. me_tx_id entry \<noteq> tx_id) addr_txs;
                  removed = length gone;
                  removed_size = sum_list (map me_size gone);
                  m1 = m\<lparr>pool_transactions := hm_insert (sender tx) kept (pool_transactions m)\<rparr>
              in if removed = 0 then m1
                 else
                   let m2 = (if kept = []
                             then m1\<lparr>pool_transactions := hm_remove (sender tx) (pool_transactions m1)\<rparr>
                             else m1);
                       m3 = m2\<lparr>total_count := wrapping_sub (total_count m2) removed,
                               total_size := wrapping_sub (total_size m2) removed_size\<rparr>
                   in decrement_address_count (sender tx) removed m3))"

text \<open>One iteration of the removal loops of \<open>prune_expired\<close> and \<open>try_evict_below\<close>: drop the listed
  ids from one sender's bucket, then the counts, then the locator.  The number is what
  \<open>removed_here\<close> holds.\<close>

definition remove_listed :: "string \<times> string list \<Rightarrow> mempool \<Rightarrow> usize \<times> mempool" where
  "remove_listed planned m =
     (let (addr, ids) = planned;
          (removed_here, m3) =
            (case hm_get (pool_transactions m) addr of
               None \<Rightarrow> (0, m)
             | Some txs \<Rightarrow>
                 (let gone = filter (\<lambda>entry. me_tx_id entry \<in> set ids) txs;
                      kept = filter (\<lambda>entry. me_tx_id entry \<notin> set ids) txs;
                      removed_here = length gone;
                      removed_size = sum_list (map me_size gone);
                      m1 = m\<lparr>pool_transactions := hm_insert addr kept (pool_transactions m)\<rparr>;
                      m2 = (if removed_here > 0
                            then m1\<lparr>total_count := wrapping_sub (total_count m1) removed_here,
                                    total_size := wrapping_sub (total_size m1) removed_size\<rparr>
                            else m1)
                  in (removed_here,
                      if kept = []
                      then m2\<lparr>pool_transactions := hm_remove addr (pool_transactions m2)\<rparr>
                      else m2)));
          m4 = (if removed_here > 0 then decrement_address_count addr removed_here m3 else m3)
      in (removed_here, m4\<lparr>tx_locator := fold hm_remove ids (tx_locator m4)\<rparr>))"

fun remove_all_listed :: "(string \<times> string list) list \<Rightarrow> mempool \<Rightarrow> usize \<times> mempool" where
  "remove_all_listed [] m = (0, m)"
| "remove_all_listed (p # ps) m =
     (let (n, m1) = remove_listed p m; (k, m2) = remove_all_listed ps m1 in (n + k, m2))"

text \<open>\<open>to_remove.entry(sender).or_default().insert(tx_id)\<close>\<close>

definition plan_insert :: "string \<times> string \<Rightarrow> (string, string list) hmap \<Rightarrow> (string, string list) hmap" where
  "plan_insert p plan =
     (let ids = (case hm_get plan (fst p) of Some ids \<Rightarrow> ids | None \<Rightarrow> [])
      in hm_insert (fst p) (List.insert (snd p) ids) plan)"

definition prune_expired :: "u64 option \<Rightarrow> u64 \<Rightarrow> mempool \<Rightarrow> usize \<times> mempool" where
  "prune_expired ttl now m =
     (case ttl of
        None \<Rightarrow> (0, m)
      | Some ttl_secs \<Rightarrow>
          (let expired = concat (map (\<lambda>(s, txs). map (\<lambda>e. (s, me_tx_id e))
                           (filter (\<lambda>e. saturating_sub now (me_timestamp e) > ttl_secs) txs))
                         (pool_transactions m));
               to_remove = fold plan_insert expired []
           in if to_remove = [] then (0, m) else remove_all_listed to_remove m))"

section \<open>Eviction\<close>

record candidate =
  cand_rate :: fee_per_byte
  cand_timestamp :: u64
  cand_sender :: string
  cand_tx_id :: string
  cand_size :: usize

text \<open>The tuple order \<open>(rate, Reverse(timestamp), sender, tx_id, size)\<close>.\<close>

definition candidate_cmp :: "candidate \<Rightarrow> candidate \<Rightarrow> ordering" where
  "candidate_cmp a b =
     then_with (rate_cmp (cand_rate a) (cand_rate b))
    (then_with (cmp_of (cand_timestamp b) (cand_timestamp a))
    (then_with (cmp_of (cand_sender a) (cand_sender b))
    (then_with (cmp_of (cand_tx_id a) (cand_tx_id b))
               (cmp_of (cand_size a) (cand_size b)))))"

text \<open>A binary heap is the list of its elements; \<open>pop\<close> takes one that no other precedes.\<close>

fun extract_first :: "('a \<Rightarrow> 'a \<Rightarrow> bool) \<Rightarrow> 'a \<Rightarrow> 'a list \<Rightarrow> 'a \<times> 'a list" where
  "extract_first before x [] = (x, [])"
| "extract_first before x (y # ys) =
     (if before y x then (let (z, zs) = extract_first before y ys in (z, x # zs))
      else (let (z, zs) = extract_first before x ys in (z, y # zs)))"

lemma extract_first_length: "extract_first before x ys = (z, zs) \<Longrightarrow> length zs = length ys"
  by (induction ys arbitrary: x z zs) (auto split: if_splits prod.splits)

definition cheaper_first :: "candidate \<Rightarrow> candidate \<Rightarrow> bool" where
  "cheaper_first a b \<longleftrightarrow> candidate_cmp a b = Less"

definition eviction_candidates :: "fee_per_byte \<Rightarrow> mempool \<Rightarrow> candidate list" where
  "eviction_candidates incoming_fee m =
     concat (map (\<lambda>(s, txs).
       map (\<lambda>tx. \<lparr>cand_rate = me_fee_per_byte tx, cand_timestamp = me_timestamp tx, cand_sender = s,
                   cand_tx_id = me_tx_id tx, cand_size = me_size tx\<rparr>)
         (filter (\<lambda>tx. rate_cmp (me_fee_per_byte tx) incoming_fee = Less) txs))
       (pool_transactions m))"

text \<open>The planning loop: \<open>None\<close> when the candidates run out.\<close>

function plan_evictions :: "usize \<Rightarrow> usize \<Rightarrow> usize \<Rightarrow> usize \<Rightarrow> candidate list
    \<Rightarrow> (string, string list) hmap \<Rightarrow> (string, string list) hmap option" where
  "plan_evictions required_space required_count space_freed count_freed candidates to_remove =
     (if space_freed < required_space \<or> count_freed < required_count
      then case candidates of
             [] \<Rightarrow> None
           | x # xs \<Rightarrow>
               (let (c, rest) = extract_first cheaper_first x xs
                in plan_evictions required_space required_count (space_freed + cand_size c)
                     (count_freed + 1) rest (plan_insert (cand_sender c, cand_tx_id c) to_remove))
      else Some to_remove)"
  by pat_completeness auto
termination
  by (relation "measure (\<lambda>(_, _, _, _, candidates, _). length candidates)")
    (auto dest: extract_first_length[OF sym])

declare plan_evictions.simps [simp del]

definition try_evict_below :: "usize \<Rightarrow> usize \<Rightarrow> fee_per_byte \<Rightarrow> mempool \<Rightarrow> bool \<times> mempool" where
  "try_evict_below required_space required_count incoming_fee m =
     (case plan_evictions required_space required_count 0 0 (eviction_candidates incoming_fee m) [] of
        None \<Rightarrow> (False, m)
      | Some to_remove \<Rightarrow> (True, snd (remove_all_listed to_remove m)))"

section \<open>Admission\<close>

text \<open>The three clock readings are those of the rate limit of pruning, of pruning, and of the entry.\<close>

definition admit_sized :: "transaction \<Rightarrow> usize \<Rightarrow> u64 \<Rightarrow> mempool \<Rightarrow> (blockchain_error + unit) \<times> mempool" where
  "admit_sized tx tx_size now m =
     (let rate = \<lparr>rate_fee_units = fee_units tx, rate_size_bytes = tx_size\<rparr>;
          required_bytes = saturating_sub (saturating_add (total_size m) tx_size) MEMPOOL_MAX_BYTES;
          required_count = saturating_sub (saturating_add (total_count m) 1) MEMPOOL_MAX_TRANSACTIONS;
          (room, m1) = (if required_bytes > 0 \<or> required_count > 0
                        then try_evict_below required_bytes required_count rate m else (True, m))
      in if \<not> room then (Inl (RateLimitExceeded ''Mempool is full''), m1)
         else if total_size m1 + tx_size > MEMPOOL_MAX_BYTES
                 \<or> total_count m1 + 1 > MEMPOOL_MAX_TRANSACTIONS
         then (Inl (RateLimitExceeded ''Mempool is full''), m1)
         else
           let entry = \<lparr>me_transaction = tx, me_tx_id = get_tx_id tx, me_timestamp = now,
                        me_fee_per_byte = rate, me_size = tx_size\<rparr>;
               s = sender tx
           in (Inr (),
               m1\<lparr>pool_transactions := hm_insert s
                     ((case hm_get (pool_transactions m1) s of Some es \<Rightarrow> es | None \<Rightarrow> []) @ [entry])
                     (pool_transactions m1),
                  tx_locator := hm_insert (get_tx_id tx) s (tx_locator m1),
                  address_counts := hm_insert s
                     (case hm_get (address_counts m1) s of Some n \<Rightarrow> n + 1 | None \<Rightarrow> 1)
                     (address_counts m1),
                  total_size := wrapping_add (total_size m1) tx_size,
                  total_count := wrapping_add (total_count m1) 1\<rparr>))"

definition admit :: "(transaction \<Rightarrow> string option) \<Rightarrow> u64 option \<Rightarrow> u64 \<times> u64 \<times> u64 \<Rightarrow> bool
    \<Rightarrow> transaction \<Rightarrow> mempool \<Rightarrow> (blockchain_error + unit) \<times> mempool" where
  "admit serialize ttl clock enforce_floor tx m0 =
     (let (now_secs, now_prune, now_entry) = clock;
          m = (if saturating_sub now_secs (last_prune m0) \<ge> PRUNE_INTERVAL_SECS
               then snd (prune_expired ttl now_prune (m0\<lparr>last_prune := now_secs\<rparr>))
               else m0)
      in if hm_contains (tx_locator m) (get_tx_id tx) then (Inr (), m)
         else if enforce_floor \<and> fee_units tx < MIN_RELAY_FEE_UNITS then (Inl FeeBelowRelayFloor, m)
         else case serialize tx of
                None \<Rightarrow> (Inl SerializationError, m)
              | Some bytes \<Rightarrow>
                  if length bytes > MAX_MEMPOOL_TX_BYTES then (Inl InvalidTransaction, m)
                  else if (case hm_get (address_counts m) (sender tx) of
                             Some c \<Rightarrow> c \<ge> MEMPOOL_MAX_PER_ADDRESS | None \<Rightarrow> False)
                  then (Inl (RateLimitExceeded ''Too many transactions from this address''), m)
                  else admit_sized tx (length bytes) now_entry m)"

definition add_transaction :: "(transaction \<Rightarrow> string option) \<Rightarrow> u64 option \<Rightarrow> u64 \<times> u64 \<times> u64
    \<Rightarrow> transaction \<Rightarrow> mempool \<Rightarrow> (blockchain_error + unit) \<times> mempool" where
  "add_transaction serialize ttl clock tx m = admit serialize ttl clock True tx m"

definition readmit_reverted :: "(transaction \<Rightarrow> string option) \<Rightarrow> u64 option \<Rightarrow> u64 \<times> u64 \<times> u64
    \<Rightarrow> transaction \<Rightarrow> mempool \<Rightarrow> (blockchain_error + unit) \<times> mempool" where
  "readmit_reverted serialize ttl clock tx m = admit serialize ttl clock False tx m"

section \<open>Queries\<close>

definition find_transaction_by_id :: "string \<Rightarrow> mempool \<Rightarrow> transaction option" where
  "find_transaction_by_id tx_id m =
     (case hm_get (tx_locator m) tx_id of
        None \<Rightarrow> None
      | Some s \<Rightarrow>
          (case hm_get (pool_transactions m) s of
             None \<Rightarrow> None
           | Some es \<Rightarrow> map_option me_transaction (List.find (\<lambda>entry. me_tx_id entry = tx_id) es)))"

definition is_empty_pool :: "mempool \<Rightarrow> bool" where
  "is_empty_pool m \<longleftrightarrow> total_count m = 0"

definition get_all_transactions :: "mempool \<Rightarrow> transaction list" where
  "get_all_transactions m = concat (map (\<lambda>(_, es). map me_transaction es) (pool_transactions m))"

end
