(* ===== verification/A9_Mempool_Inv.thy ===== *)
theory A9_Mempool_Inv
  imports A9_Mempool "HOL-Library.Multiset"
begin

text \<open>
  The lockstep invariant of the mempool and its preservation by every operation: the
  locator and the per-address counts describe the buckets exactly, the running totals are
  the real totals, and the three caps hold.  Removals are proved once, for the abstract
  operation \<open>drop_bucket\<close> that both removal loops and \<open>clear_transaction\<close> implement.
\<close>

named_theorems pool_frame \<open>what the mempool operations leave unchanged\<close>

section \<open>The invariant\<close>

definition entries_size :: "mempool_entry list \<Rightarrow> nat" where
  "entries_size es = sum_list (map me_size es)"

definition pool_sum :: "(mempool_entry list \<Rightarrow> nat) \<Rightarrow> (string, mempool_entry list) hmap \<Rightarrow> nat" where
  "pool_sum f p = sum_list (map f (hm_values p))"

definition bucket_ok :: "mempool \<Rightarrow> string \<Rightarrow> mempool_entry list \<Rightarrow> bool" where
  "bucket_ok m s es \<longleftrightarrow> es \<noteq> [] \<and> distinct (map me_tx_id es)
     \<and> (\<forall>e \<in> set es. sender (me_transaction e) = s \<and> me_tx_id e = get_tx_id (me_transaction e)
          \<and> hm_get (tx_locator m) (me_tx_id e) = Some s)
     \<and> hm_get (address_counts m) s = Some (length es) \<and> length es \<le> MEMPOOL_MAX_PER_ADDRESS"

definition mempool_inv :: "mempool \<Rightarrow> bool" where
  "mempool_inv m \<longleftrightarrow>
     hm_wf (pool_transactions m) \<and> hm_wf (tx_locator m) \<and> hm_wf (address_counts m)
     \<and> (\<forall>(s, es) \<in> set (pool_transactions m). bucket_ok m s es)
     \<and> (\<forall>(t, s) \<in> set (tx_locator m).
          case hm_get (pool_transactions m) s of None \<Rightarrow> False | Some es \<Rightarrow> t \<in> me_tx_id ` set es)
     \<and> (\<forall>(s, n) \<in> set (address_counts m). hm_contains (pool_transactions m) s)
     \<and> total_count m = pool_sum length (pool_transactions m)
     \<and> total_size m = pool_sum entries_size (pool_transactions m)
     \<and> total_count m \<le> MEMPOOL_MAX_TRANSACTIONS \<and> total_size m \<le> MEMPOOL_MAX_BYTES"

lemma mempool_inv_iff:
  "mempool_inv m \<longleftrightarrow>
     hm_wf (pool_transactions m) \<and> hm_wf (tx_locator m) \<and> hm_wf (address_counts m)
     \<and> (\<forall>s es. hm_get (pool_transactions m) s = Some es \<longrightarrow> bucket_ok m s es)
     \<and> (\<forall>t s. hm_get (tx_locator m) t = Some s \<longrightarrow>
          (\<exists>es. hm_get (pool_transactions m) s = Some es \<and> t \<in> me_tx_id ` set es))
     \<and> (\<forall>s n. hm_get (address_counts m) s = Some n \<longrightarrow> (\<exists>es. hm_get (pool_transactions m) s = Some es))
     \<and> total_count m = pool_sum length (pool_transactions m)
     \<and> total_size m = pool_sum entries_size (pool_transactions m)
     \<and> total_count m \<le> MEMPOOL_MAX_TRANSACTIONS \<and> total_size m \<le> MEMPOOL_MAX_BYTES"
proof -
  have opt: "(case x of None \<Rightarrow> False | Some es \<Rightarrow> P es) \<longleftrightarrow> (\<exists>es. x = Some es \<and> P es)"
    for x :: "mempool_entry list option" and P by (cases x) auto
  have "(\<forall>(t, s) \<in> set (tx_locator m). \<exists>es. hm_get (pool_transactions m) s = Some es \<and> t \<in> me_tx_id ` set es)
      \<longleftrightarrow> (\<forall>t s. hm_get (tx_locator m) t = Some s \<longrightarrow>
          (\<exists>es. hm_get (pool_transactions m) s = Some es \<and> t \<in> me_tx_id ` set es))"
    if "hm_wf (tx_locator m)" using hm_ball[OF that] by simp
  moreover have "(\<forall>(s, n) \<in> set (address_counts m). hm_contains (pool_transactions m) s)
      \<longleftrightarrow> (\<forall>s n. hm_get (address_counts m) s = Some n \<longrightarrow> (\<exists>es. hm_get (pool_transactions m) s = Some es))"
    if "hm_wf (address_counts m)" using hm_ball[OF that] by (simp add: hm_contains_def)
  moreover have "(\<forall>(s, es) \<in> set (pool_transactions m). bucket_ok m s es)
      \<longleftrightarrow> (\<forall>s es. hm_get (pool_transactions m) s = Some es \<longrightarrow> bucket_ok m s es)"
    if "hm_wf (pool_transactions m)" using hm_ball[OF that] .
  ultimately show ?thesis
    unfolding mempool_inv_def opt by (auto cong: conj_cong)
qed

lemma mempool_invD:
  assumes "mempool_inv m"
  shows "hm_wf (pool_transactions m)" "hm_wf (tx_locator m)" "hm_wf (address_counts m)"
    "hm_get (pool_transactions m) s = Some es \<Longrightarrow> bucket_ok m s es"
    "hm_get (tx_locator m) t = Some s \<Longrightarrow>
      \<exists>es. hm_get (pool_transactions m) s = Some es \<and> t \<in> me_tx_id ` set es"
    "hm_get (address_counts m) s = Some n \<Longrightarrow> \<exists>es. hm_get (pool_transactions m) s = Some es"
    "total_count m = pool_sum length (pool_transactions m)"
    "total_size m = pool_sum entries_size (pool_transactions m)"
    "total_count m \<le> MEMPOOL_MAX_TRANSACTIONS" "total_size m \<le> MEMPOOL_MAX_BYTES"
  using assms by (auto simp: mempool_inv_iff)

lemma mempool_inv_new: "mempool_inv new_mempool"
  by (simp add: mempool_inv_def new_mempool_def hm_wf_Nil pool_sum_def hm_values_def)

lemma mempool_inv_last_prune [simp]: "mempool_inv (m\<lparr>last_prune := t\<rparr>) = mempool_inv m"
  by (simp add: mempool_inv_def bucket_ok_def)

section \<open>Dropping ids from one bucket\<close>

definition kept_of :: "string list \<Rightarrow> mempool_entry list \<Rightarrow> mempool_entry list" where
  "kept_of ids es = filter (\<lambda>e. me_tx_id e \<notin> set ids) es"

definition gone_of :: "string list \<Rightarrow> mempool_entry list \<Rightarrow> mempool_entry list" where
  "gone_of ids es = filter (\<lambda>e. me_tx_id e \<in> set ids) es"

definition put_bucket :: "string \<Rightarrow> mempool_entry list \<Rightarrow> (string, mempool_entry list) hmap
    \<Rightarrow> (string, mempool_entry list) hmap" where
  "put_bucket s es p = (if es = [] then hm_remove s p else hm_insert s es p)"

definition drop_bucket :: "string \<Rightarrow> string list \<Rightarrow> mempool \<Rightarrow> mempool" where
  "drop_bucket s ids m =
     (case hm_get (pool_transactions m) s of
        None \<Rightarrow> m
      | Some es \<Rightarrow>
          m\<lparr>pool_transactions := put_bucket s (kept_of ids es) (pool_transactions m),
            tx_locator := fold hm_remove ids (tx_locator m),
            total_count := total_count m - length (gone_of ids es),
            total_size := total_size m - entries_size (gone_of ids es),
            address_counts := (if kept_of ids es = [] then hm_remove s (address_counts m)
                               else hm_insert s (length (kept_of ids es)) (address_counts m))\<rparr>)"

lemma kept_gone_length: "length (kept_of ids es) + length (gone_of ids es) = length es"
  using length_filter_split[of "\<lambda>e. me_tx_id e \<in> set ids" es] by (simp add: kept_of_def gone_of_def)

lemma kept_gone_size: "entries_size (kept_of ids es) + entries_size (gone_of ids es) = entries_size es"
  using sum_list_filter_split[of me_size "\<lambda>e. me_tx_id e \<in> set ids" es]
  by (simp add: kept_of_def gone_of_def entries_size_def)

lemma pool_sum_put:
  assumes "hm_wf p" and "hm_get p s = Some es" and "f [] = 0"
  shows "pool_sum f (put_bucket s es' p) + f es = pool_sum f p + f es'"
  using sum_list_hm_remove[OF assms(1,2), of f] sum_list_hm_insert[OF assms(2), of f es'] assms(3)
  by (simp add: pool_sum_def put_bucket_def)

lemma pool_sum_ge: "hm_wf p \<Longrightarrow> hm_get p s = Some es \<Longrightarrow> f es \<le> pool_sum f p"
  using sum_list_hm_remove[of p s es f] by (simp add: pool_sum_def)

lemma get_put_bucket:
  "hm_get (put_bucket s es p) s' = (if s' = s then (if es = [] then None else Some es) else hm_get p s')"
  by (simp add: put_bucket_def hm_simps)

lemma kept_of_set: "e \<in> set (kept_of ids es) \<longleftrightarrow> e \<in> set es \<and> me_tx_id e \<notin> set ids"
  by (simp add: kept_of_def)

lemma drop_bucket_inv:
  assumes inv: "mempool_inv m" and ids: "\<And>es. hm_get (pool_transactions m) s = Some es \<Longrightarrow>
      set ids \<subseteq> me_tx_id ` set es"
  shows "mempool_inv (drop_bucket s ids m)"
proof (cases "hm_get (pool_transactions m) s")
  case None
  with inv show ?thesis by (simp add: drop_bucket_def)
next
  case (Some es)
  let ?k = "kept_of ids es" and ?g = "gone_of ids es" and ?m = "drop_bucket s ids m"
  note D = mempool_invD[OF inv]
  have ok: "bucket_ok m s es" by (rule D(4)[OF Some])
  have pool: "pool_transactions ?m = put_bucket s ?k (pool_transactions m)"
    and loc: "tx_locator ?m = fold hm_remove ids (tx_locator m)"
    and cnt: "address_counts ?m = (if ?k = [] then hm_remove s (address_counts m)
        else hm_insert s (length ?k) (address_counts m))"
    and tc: "total_count ?m = total_count m - length ?g"
    and ts: "total_size ?m = total_size m - entries_size ?g"
    by (simp_all add: drop_bucket_def Some)
  have locg: "hm_get (tx_locator ?m) t = (if t \<in> set ids then None else hm_get (tx_locator m) t)" for t
    by (simp add: loc hm.get_fold_del)
  have owner: "t \<in> set ids \<Longrightarrow> hm_get (tx_locator m) t = Some s" for t
    using ids[OF Some] ok by (force simp: bucket_ok_def)
  have buckets: "bucket_ok ?m s' es'" if g: "hm_get (pool_transactions ?m) s' = Some es'" for s' es'
  proof (cases "s' = s")
    case True
    with g have e: "es' = ?k" "?k \<noteq> []" by (auto simp: pool get_put_bucket split: if_splits)
    have "length ?k \<le> MEMPOOL_MAX_PER_ADDRESS"
      using ok le_trans[OF length_filter_le] by (auto simp: bucket_ok_def kept_of_def)
    then show ?thesis
      using ok True e
      by (auto simp: bucket_ok_def locg cnt hm_simps kept_of_set distinct_map_filter kept_of_def)
  next
    case False
    with g have "hm_get (pool_transactions m) s' = Some es'" by (simp add: pool get_put_bucket)
    from D(4)[OF this] False owner show ?thesis
      by (fastforce simp: bucket_ok_def locg cnt hm_simps)
  qed
  have locs: "\<exists>es'. hm_get (pool_transactions ?m) s' = Some es' \<and> t \<in> me_tx_id ` set es'"
    if g: "hm_get (tx_locator ?m) t = Some s'" for t s'
  proof -
    from g have t: "t \<notin> set ids" "hm_get (tx_locator m) t = Some s'" by (auto simp: locg split: if_splits)
    with D(5) obtain es' where es': "hm_get (pool_transactions m) s' = Some es'" "t \<in> me_tx_id ` set es'"
      by blast
    then obtain e where e: "e \<in> set es'" "me_tx_id e = t" by auto
    show ?thesis
    proof (cases "s' = s")
      case True
      with es' Some e t have "e \<in> set ?k" by (simp add: kept_of_set)
      then have "?k \<noteq> []" "t \<in> me_tx_id ` set ?k" using e by auto
      with True show ?thesis by (simp add: pool get_put_bucket)
    qed (use es' in \<open>simp add: pool get_put_bucket\<close>)
  qed
  have cnts: "\<exists>es'. hm_get (pool_transactions ?m) s' = Some es'"
    if "hm_get (address_counts ?m) s' = Some n" for s' n
    using that D(6) by (auto simp: cnt pool get_put_bucket hm_simps split: if_splits)
  have c: "pool_sum length (pool_transactions ?m) = total_count m - length ?g"
    using pool_sum_put[OF D(1) Some, of length ?k] kept_gone_length[of ids es] D(7)
    by (simp add: pool)
  have z: "pool_sum entries_size (pool_transactions ?m) = total_size m - entries_size ?g"
    using pool_sum_put[OF D(1) Some, of entries_size ?k] kept_gone_size[of ids es] D(8)
    by (simp add: pool entries_size_def)
  show ?thesis
    unfolding mempool_inv_iff
    using buckets locs cnts c z tc ts D(1,2,3,9,10)
    by (auto simp: loc cnt pool put_bucket_def hm_simps hm.wf_fold_del)
qed

section \<open>The removal loops implement it\<close>

lemma max_caps: "MEMPOOL_MAX_TRANSACTIONS \<le> u64_max" "MEMPOOL_MAX_BYTES \<le> u64_max"
  by (simp_all add: MEMPOOL_MAX_TRANSACTIONS_def MEMPOOL_MAX_BYTES_def u64_max_def)

lemma gone_bounds:
  assumes inv: "mempool_inv m" and es: "hm_get (pool_transactions m) s = Some es"
  shows "length (gone_of ids es) \<le> total_count m" "entries_size (gone_of ids es) \<le> total_size m"
    "total_count m \<le> u64_max" "total_size m \<le> u64_max"
proof -
  note D = mempool_invD[OF inv]
  show "length (gone_of ids es) \<le> total_count m"
    using pool_sum_ge[OF D(1) es, of length] kept_gone_length[of ids es] D(7) by simp
  show "entries_size (gone_of ids es) \<le> total_size m"
    using pool_sum_ge[OF D(1) es, of entries_size] kept_gone_size[of ids es] D(8) by simp
  show "total_count m \<le> u64_max" "total_size m \<le> u64_max" using D(9,10) max_caps by simp_all
qed

lemma decrement_exact:
  assumes "hm_get (address_counts m) s = Some (length es)"
  shows "decrement_address_count s (length (gone_of ids es)) m =
    m\<lparr>address_counts := (if kept_of ids es = [] then hm_remove s (address_counts m)
        else hm_insert s (length (kept_of ids es)) (address_counts m))\<rparr>"
proof -
  have "saturating_sub (length es) (length (gone_of ids es)) = length (kept_of ids es)"
    using kept_gone_length[of ids es] by (simp add: saturating_sub_def)
  with assms show ?thesis
    by (simp add: decrement_address_count_def Let_def hm_remove_insert)
qed

lemma gone_nonempty:
  "ids \<noteq> [] \<Longrightarrow> set ids \<subseteq> me_tx_id ` set es \<Longrightarrow> gone_of ids es \<noteq> []"
  by (cases ids) (auto simp: gone_of_def filter_empty_conv)

lemma remove_listed_drop:
  assumes inv: "mempool_inv m" and es: "hm_get (pool_transactions m) s = Some es"
    and ids: "ids \<noteq> []" "set ids \<subseteq> me_tx_id ` set es"
  shows "remove_listed (s, ids) m = (length (gone_of ids es), drop_bucket s ids m)"
proof -
  have cnt: "hm_get (address_counts m) s = Some (length es)"
    using mempool_invD(4)[OF inv es] by (simp add: bucket_ok_def)
  note b = gone_bounds(1,2)[OF inv es, of ids] gone_bounds(3,4)[OF inv es]
  have w: "wrapping_sub (total_count m) (length (gone_of ids es)) = total_count m - length (gone_of ids es)"
    "wrapping_sub (total_size m) (entries_size (gone_of ids es)) = total_size m - entries_size (gone_of ids es)"
    using b by (simp_all add: wrapping_sub_exact)
  have g: "0 < length (gone_of ids es)" using gone_nonempty[OF ids] by simp
  show ?thesis
    using es w g cnt
    by (auto simp: remove_listed_def drop_bucket_def Let_def kept_of_def[symmetric]
        gone_of_def[symmetric] entries_size_def[symmetric] decrement_exact put_bucket_def
        hm_remove_insert)
qed

lemma clear_transaction_drop:
  assumes inv: "mempool_inv m" and es: "hm_get (pool_transactions m) (sender tx) = Some es"
    and mem: "get_tx_id tx \<in> me_tx_id ` set es"
  shows "clear_transaction tx m = drop_bucket (sender tx) [get_tx_id tx] m"
proof -
  let ?ids = "[get_tx_id tx]"
  have cnt: "hm_get (address_counts m) (sender tx) = Some (length es)"
    using mempool_invD(4)[OF inv es] by (simp add: bucket_ok_def)
  note b = gone_bounds(1,2)[OF inv es, of ?ids] gone_bounds(3,4)[OF inv es]
  have w: "wrapping_sub (total_count m) (length (gone_of ?ids es)) = total_count m - length (gone_of ?ids es)"
    "wrapping_sub (total_size m) (entries_size (gone_of ?ids es)) = total_size m - entries_size (gone_of ?ids es)"
    using b by (simp_all add: wrapping_sub_exact)
  have g: "0 < length (gone_of ?ids es)" using gone_nonempty[of ?ids es] mem by simp
  have f: "filter (\<lambda>e. me_tx_id e = get_tx_id tx) es = gone_of ?ids es"
    "filter (\<lambda>e. me_tx_id e \<noteq> get_tx_id tx) es = kept_of ?ids es"
    by (simp_all add: gone_of_def kept_of_def)
  show ?thesis
    using es w g cnt
    by (auto simp: clear_transaction_def drop_bucket_def Let_def f entries_size_def[symmetric]
        decrement_exact put_bucket_def hm_remove_insert)
qed

section \<open>Plans\<close>

definition bucket_of :: "(string, mempool_entry list) hmap \<Rightarrow> string \<Rightarrow> mempool_entry list" where
  "bucket_of p s = (case hm_get p s of Some es \<Rightarrow> es | None \<Rightarrow> [])"

definition ids_of :: "(string, string list) hmap \<Rightarrow> string \<Rightarrow> string list" where
  "ids_of plan s = (case hm_get plan s of Some ids \<Rightarrow> ids | None \<Rightarrow> [])"

definition plan_ok :: "(string, mempool_entry list) hmap \<Rightarrow> (string, string list) hmap \<Rightarrow> bool" where
  "plan_ok p plan \<longleftrightarrow> hm_wf plan \<and> (\<forall>(s, ids) \<in> set plan. ids \<noteq> [] \<and> set ids \<subseteq> me_tx_id ` set (bucket_of p s))"

lemma plan_ok_iff: "plan_ok p plan \<longleftrightarrow> hm_wf plan \<and> (\<forall>s ids. hm_get plan s = Some ids \<longrightarrow>
    ids \<noteq> [] \<and> set ids \<subseteq> me_tx_id ` set (bucket_of p s))"
  unfolding plan_ok_def by (simp add: hm_ball cong: conj_cong)

lemma ids_of_insert:
  "set (ids_of (plan_insert p plan) s) = (if s = fst p then insert (snd p) (set (ids_of plan s)) else set (ids_of plan s))"
  by (cases "hm_get plan (fst p)") (auto simp: ids_of_def plan_insert_def Let_def hm_simps)

lemma ids_of_fold: "set (ids_of (fold plan_insert ps plan) s) = {t. (s, t) \<in> set ps} \<union> set (ids_of plan s)"
  by (induction ps arbitrary: plan) (auto simp: ids_of_insert)

lemma insert_nonempty: "List.insert a xs \<noteq> []"
  by (metis List.set_insert empty_set insert_not_empty)

lemma plan_ok_insert:
  assumes "plan_ok p plan" and "snd x \<in> me_tx_id ` set (bucket_of p (fst x))"
  shows "plan_ok p (plan_insert x plan)"
  using assms unfolding plan_ok_iff plan_insert_def Let_def
  by (cases "hm_get plan (fst x)") (fastforce simp: hm_simps insert_nonempty split: if_splits)+

lemma plan_ok_fold:
  "plan_ok p plan \<Longrightarrow> (\<And>x. x \<in> set xs \<Longrightarrow> snd x \<in> me_tx_id ` set (bucket_of p (fst x)))
    \<Longrightarrow> plan_ok p (fold plan_insert xs plan)"
  by (induction xs arbitrary: plan) (auto simp: plan_ok_insert)

lemma plan_ok_Nil: "plan_ok p []"
  by (simp add: plan_ok_def hm_wf_Nil)

lemma bucket_of_drop:
  "bucket_of (pool_transactions (drop_bucket s ids m)) s'
    = (if s' = s then kept_of ids (bucket_of (pool_transactions m) s') else bucket_of (pool_transactions m) s')"
  by (simp add: bucket_of_def drop_bucket_def get_put_bucket kept_of_def split: option.splits)

definition drop_all :: "(string \<times> string list) list \<Rightarrow> mempool \<Rightarrow> mempool" where
  "drop_all plan m = fold (\<lambda>(s, ids). drop_bucket s ids) plan m"

lemma plan_ok_tail:
  assumes "plan_ok p ((s, ids) # plan)"
    and "\<And>s'. s' \<noteq> s \<Longrightarrow> bucket_of p' s' = bucket_of p s'"
  shows "plan_ok p' plan"
  using assms unfolding plan_ok_def hm_wf_def by (auto simp: image_iff) fastforce+

lemma remove_all_listed_drop:
  "mempool_inv m \<Longrightarrow> plan_ok (pool_transactions m) plan \<Longrightarrow>
    snd (remove_all_listed plan m) = drop_all plan m \<and> mempool_inv (drop_all plan m)
    \<and> (\<forall>s. bucket_of (pool_transactions (drop_all plan m)) s
          = kept_of (ids_of plan s) (bucket_of (pool_transactions m) s))"
proof (induction plan arbitrary: m)
  case Nil
  then show ?case by (simp add: drop_all_def ids_of_def hm_get_def kept_of_def)
next
  case (Cons x plan)
  obtain s ids where x: "x = (s, ids)" by fastforce
  let ?p = "pool_transactions m"
  have ids: "ids \<noteq> []" "set ids \<subseteq> me_tx_id ` set (bucket_of ?p s)"
    using Cons.prems(2) by (auto simp: x plan_ok_def)
  then obtain es where es: "hm_get ?p s = Some es" "bucket_of ?p s = es"
    by (cases "hm_get ?p s") (auto simp: bucket_of_def)
  have r: "remove_listed x m = (length (gone_of ids es), drop_bucket s ids m)"
    unfolding x using ids es by (intro remove_listed_drop[OF Cons.prems(1)]) auto
  have inv: "mempool_inv (drop_bucket s ids m)"
    using ids es by (intro drop_bucket_inv[OF Cons.prems(1)]) auto
  have tail: "plan_ok (pool_transactions (drop_bucket s ids m)) plan"
    by (rule plan_ok_tail[OF Cons.prems(2)[unfolded x]]) (simp add: bucket_of_drop)
  note IH = Cons.IH[OF inv tail]
  have sn: "hm_get plan s = None"
    using Cons.prems(2) by (auto simp: x plan_ok_def hm_wf_def hm_get_def map_of_eq_None_iff)
  have "drop_all (x # plan) m = drop_all plan (drop_bucket s ids m)" by (simp add: drop_all_def x)
  moreover have "kept_of (ids_of (x # plan) s') (bucket_of ?p s') =
      kept_of (ids_of plan s') (bucket_of (pool_transactions (drop_bucket s ids m)) s')" for s'
    using sn by (auto simp: x ids_of_def hm_get_def bucket_of_drop kept_of_def)
  ultimately show ?case using IH r by (simp add: Let_def case_prod_beta)
qed

section \<open>Expiry\<close>

lemma pool_member:
  assumes "hm_wf p" and "(s, es) \<in> set p"
  shows "bucket_of p s = es"
  using hm_get_SomeI[OF assms] by (simp add: bucket_of_def)

lemma bucket_member: "e \<in> set (bucket_of p s) \<Longrightarrow> \<exists>es. (s, es) \<in> set p \<and> e \<in> set es"
  by (cases "hm_get p s") (auto simp: bucket_of_def dest: hm_get_SomeD)

lemma bucket_of_ok: "mempool_inv m \<Longrightarrow> e \<in> set (bucket_of (pool_transactions m) s)
    \<Longrightarrow> bucket_ok m s (bucket_of (pool_transactions m) s)"
  using mempool_invD(4)[of m s] by (cases "hm_get (pool_transactions m) s") (auto simp: bucket_of_def)

lemma bucket_unique:
  assumes "mempool_inv m" and "e \<in> set (bucket_of (pool_transactions m) s)"
    "e' \<in> set (bucket_of (pool_transactions m) s)" and "me_tx_id e = me_tx_id e'"
  shows "e = e'"
  using bucket_of_ok[OF assms(1,2)] assms(2-4) by (auto simp: bucket_ok_def distinct_map inj_on_def)

lemma prune_expired_inv:
  assumes inv: "mempool_inv m"
  shows "mempool_inv (snd (prune_expired ttl now m))
    \<and> (\<forall>s e. e \<in> set (bucket_of (pool_transactions (snd (prune_expired ttl now m))) s) \<longleftrightarrow>
          e \<in> set (bucket_of (pool_transactions m) s)
          \<and> (case ttl of None \<Rightarrow> True | Some t \<Rightarrow> saturating_sub now (me_timestamp e) \<le> t))"
proof (cases ttl)
  case None
  with inv show ?thesis by (simp add: prune_expired_def)
next
  case (Some t)
  let ?p = "pool_transactions m"
  let ?old = "\<lambda>e. saturating_sub now (me_timestamp e) > t"
  define ex where "ex = concat (map (\<lambda>(s, txs). map (\<lambda>e. (s, me_tx_id e)) (filter ?old txs)) ?p)"
  note wf = mempool_invD(1)[OF inv]
  have ex: "(s, i) \<in> set ex \<longleftrightarrow> (\<exists>e \<in> set (bucket_of ?p s). ?old e \<and> me_tx_id e = i)" for s i
  proof
    assume "(s, i) \<in> set ex"
    then show "\<exists>e \<in> set (bucket_of ?p s). ?old e \<and> me_tx_id e = i"
      using pool_member[OF wf] by (fastforce simp: ex_def)
  next
    assume "\<exists>e \<in> set (bucket_of ?p s). ?old e \<and> me_tx_id e = i"
    then obtain e where e: "e \<in> set (bucket_of ?p s)" "?old e" "me_tx_id e = i" by auto
    then obtain es where "(s, es) \<in> set ?p" "e \<in> set es" using bucket_member by blast
    with e show "(s, i) \<in> set ex" by (auto simp: ex_def intro!: bexI[of _ "(s, es)"])
  qed
  define plan where "plan = fold plan_insert ex []"
  have ok: "plan_ok ?p plan"
    unfolding plan_def using ex by (intro plan_ok_fold plan_ok_Nil) force
  have run: "snd (prune_expired (Some t) now m) = drop_all plan m"
    using remove_all_listed_drop[OF inv ok]
    by (simp add: prune_expired_def plan_def ex_def Let_def drop_all_def)
  have ids: "set (ids_of plan s) = {i. (s, i) \<in> set ex}" for s
    by (simp add: plan_def ids_of_fold) (simp add: ids_of_def hm_get_def)
  show ?thesis
    using remove_all_listed_drop[OF inv ok] bucket_unique[OF inv]
    by (auto simp: run Some kept_of_set ids ex not_less)
qed

section \<open>Eviction\<close>

lemma extract_first_mset: "extract_first before x ys = (z, zs) \<Longrightarrow> add_mset z (mset zs) = add_mset x (mset ys)"
  by (induction ys arbitrary: x z zs) (auto split: if_splits prod.splits)

lemma plan_evictions_Some:
  "plan_evictions rs rc sf cf cands plan = Some plan' \<Longrightarrow>
    \<exists>cs rest. mset cands = mset cs + mset rest
      \<and> plan' = fold plan_insert (map (\<lambda>c. (cand_sender c, cand_tx_id c)) cs) plan
      \<and> rs \<le> sf + sum_list (map cand_size cs) \<and> rc \<le> cf + length cs"
proof (induction rs rc sf cf cands plan rule: plan_evictions.induct)
  case (1 rs rc sf cf cands plan)
  show ?case
  proof (cases "sf < rs \<or> cf < rc")
    case False
    with 1(2) show ?thesis
      by (intro exI[of _ "[]"] exI[of _ cands]) (simp add: plan_evictions.simps)
  next
    case True
    with 1(2) obtain x xs where c: "cands = x # xs"
      by (cases cands) (simp_all add: plan_evictions.simps)
    obtain z zs where e: "extract_first cheaper_first x xs = (z, zs)" by fastforce
    have "plan_evictions rs rc (sf + cand_size z) (cf + 1) zs
        (plan_insert (cand_sender z, cand_tx_id z) plan) = Some plan'"
      using 1(2) True by (simp add: plan_evictions.simps[of rs rc sf cf] c e)
    from 1(1)[OF True c e[symmetric] refl this] obtain cs rest where
      "mset zs = mset cs + mset rest"
      "plan' = fold plan_insert (map (\<lambda>c. (cand_sender c, cand_tx_id c)) cs)
         (plan_insert (cand_sender z, cand_tx_id z) plan)"
      "rs \<le> sf + cand_size z + sum_list (map cand_size cs)" "rc \<le> cf + 1 + length cs"
      by blast
    then show ?thesis
      using extract_first_mset[OF e] by (intro exI[of _ "z # cs"] exI[of _ rest]) (simp add: c)
  qed
qed

lemma sum_list_concat_map: "sum_list (concat xss) = sum_list (map sum_list xss)" for xss :: "nat list list"
  by (induction xss) auto

lemma pairs_sum:
  fixes F :: "string \<Rightarrow> mempool_entry list \<Rightarrow> nat"
  assumes wf: "hm_wf p" and zero: "\<And>s. F s [] = 0" and K: "finite K" "fst ` set p \<subseteq> K"
  shows "sum_list (map (\<lambda>(s, es). F s es) p) = (\<Sum>s \<in> K. F s (bucket_of p s))"
proof -
  have d: "distinct p" "inj_on fst (set p)" using wf by (simp_all add: hm_wf_def distinct_map)
  have "sum_list (map (\<lambda>(s, es). F s es) p) = (\<Sum>(s, es) \<in> set p. F s es)"
    by (rule sum_list_distinct_conv_sum_set[OF d(1)])
  also have "\<dots> = (\<Sum>s \<in> fst ` set p. F s (bucket_of p s))"
    by (subst sum.reindex[OF d(2)]) (auto intro!: sum.cong simp: pool_member[OF wf])
  also have "\<dots> = (\<Sum>s \<in> K. F s (bucket_of p s))"
  proof (rule sum.mono_neutral_left[OF K], rule ballI)
    fix s assume "s \<in> K - fst ` set p"
    then have "hm_get p s = None" by (auto simp: hm_get_def map_of_eq_None_iff)
    then show "F s (bucket_of p s) = 0" by (simp add: bucket_of_def zero)
  qed
  finally show ?thesis .
qed

lemma pool_sum_keys:
  assumes "hm_wf p" and "f [] = 0" and "finite K" "fst ` set p \<subseteq> K"
  shows "pool_sum f p = (\<Sum>s \<in> K. f (bucket_of p s))"
  using pairs_sum[OF assms(1), of "\<lambda>_. f" K] assms(2-4) unfolding split_def
  by (simp add: pool_sum_def hm_values_def comp_def)

text \<open>What an eviction plan frees, for any weight of the entries (their size, or one).\<close>

lemma evicted_weight:
  fixes wt :: "mempool_entry \<Rightarrow> nat" and cw :: "candidate \<Rightarrow> nat"
  defines "F \<equiv> \<lambda>es. sum_list (map wt es)"
  assumes inv: "mempool_inv m" and inv': "mempool_inv m'"
    and kept: "\<And>s. bucket_of (pool_transactions m') s
        = kept_of (ids_of plan s) (bucket_of (pool_transactions m) s)"
    and cw: "\<And>e s. cw \<lparr>cand_rate = me_fee_per_byte e, cand_timestamp = me_timestamp e, cand_sender = s,
                   cand_tx_id = me_tx_id e, cand_size = me_size e\<rparr> = wt e"
    and cs: "mset (eviction_candidates inc m) = mset cs + mset rest"
    and R: "\<And>c. c \<in> set cs \<Longrightarrow> cand_tx_id c \<in> set (ids_of plan (cand_sender c))"
  shows "pool_sum F (pool_transactions m') + sum_list (map cw cs) \<le> pool_sum F (pool_transactions m)"
proof -
  let ?p = "pool_transactions m" and ?p' = "pool_transactions m'"
  let ?K = "fst ` set ?p" and ?g = "\<lambda>c. if cand_tx_id c \<in> set (ids_of plan (cand_sender c)) then cw c else 0"
  let ?cheap = "\<lambda>e. rate_cmp (me_fee_per_byte e) inc = Less"
  have ne: "bucket_of ?p' s \<noteq> []" if "(s, es) \<in> set ?p'" for s es
    using that mempool_invD(4)[OF inv'] hm_get_SomeI[OF mempool_invD(1)[OF inv'] that]
    by (auto simp: bucket_of_def bucket_ok_def)
  have K': "fst ` set ?p' \<subseteq> ?K"
  proof
    fix s assume "s \<in> fst ` set ?p'"
    then obtain es where "(s, es) \<in> set ?p'" by auto
    from ne[OF this] have "bucket_of ?p s \<noteq> []" by (auto simp: kept kept_of_def)
    then have "hm_get ?p s \<noteq> None" by (cases "hm_get ?p s") (auto simp: bucket_of_def)
    then show "s \<in> ?K" by (auto dest: hm_get_SomeD intro!: rev_image_eqI)
  qed
  have "sum_list (map cw cs) = sum_list (map ?g cs)"
    using R by (intro arg_cong[where f = sum_list] map_cong) auto
  also have "\<dots> \<le> sum_mset (image_mset ?g (mset (eviction_candidates inc m)))"
    unfolding cs by (simp add: sum_mset_sum_list flip: mset_map)
  also have "\<dots> = sum_list (map ?g (eviction_candidates inc m))"
    by (simp add: sum_mset_sum_list flip: mset_map)
  also have "\<dots> = sum_list (map (\<lambda>(s, es). sum_list (map (\<lambda>e. if me_tx_id e \<in> set (ids_of plan s) then wt e else 0)
        (filter ?cheap es))) ?p)"
    by (simp add: eviction_candidates_def map_concat sum_list_concat_map comp_def split_def cw cong: if_cong)
  also have "\<dots> = (\<Sum>s \<in> ?K. sum_list (map (\<lambda>e. if me_tx_id e \<in> set (ids_of plan s) then wt e else 0)
        (filter ?cheap (bucket_of ?p s))))"
    by (rule pairs_sum[OF mempool_invD(1)[OF inv]]) auto
  also have "\<dots> \<le> (\<Sum>s \<in> ?K. F (gone_of (ids_of plan s) (bucket_of ?p s)))"
  proof (rule sum_mono)
    fix s
    have "sum_list (map (\<lambda>e. if me_tx_id e \<in> I then wt e else 0) (filter ?cheap es))
        \<le> sum_list (map wt (filter (\<lambda>e. me_tx_id e \<in> I) es))" for I es
      by (induction es) auto
    then show "sum_list (map (\<lambda>e. if me_tx_id e \<in> set (ids_of plan s) then wt e else 0)
        (filter ?cheap (bucket_of ?p s))) \<le> F (gone_of (ids_of plan s) (bucket_of ?p s))"
      by (simp add: F_def gone_of_def)
  qed
  finally have gone: "sum_list (map cw cs) \<le> (\<Sum>s \<in> ?K. F (gone_of (ids_of plan s) (bucket_of ?p s)))" .
  have split: "F (kept_of I es) + F (gone_of I es) = F es" for I es
    using sum_list_filter_split[of wt "\<lambda>e. me_tx_id e \<in> set I" es]
    by (simp add: F_def kept_of_def gone_of_def)
  have "pool_sum F ?p' = (\<Sum>s \<in> ?K. F (kept_of (ids_of plan s) (bucket_of ?p s)))"
    using pool_sum_keys[OF mempool_invD(1)[OF inv'], of F ?K] K' by (simp add: kept F_def)
  moreover have "pool_sum F ?p = (\<Sum>s \<in> ?K. F (bucket_of ?p s))"
    by (rule pool_sum_keys[OF mempool_invD(1)[OF inv]]) (auto simp: F_def)
  moreover have "(\<Sum>s \<in> ?K. F (kept_of (ids_of plan s) (bucket_of ?p s)))
      + (\<Sum>s \<in> ?K. F (gone_of (ids_of plan s) (bucket_of ?p s))) = (\<Sum>s \<in> ?K. F (bucket_of ?p s))"
    by (simp add: sum.distrib[symmetric] split)
  ultimately show ?thesis using gone by linarith
qed

lemma eviction_candidate_iff:
  assumes "hm_wf (pool_transactions m)"
  shows "c \<in> set (eviction_candidates inc m) \<longleftrightarrow>
    (\<exists>e \<in> set (bucket_of (pool_transactions m) (cand_sender c)).
       rate_cmp (me_fee_per_byte e) inc = Less
       \<and> c = \<lparr>cand_rate = me_fee_per_byte e, cand_timestamp = me_timestamp e, cand_sender = cand_sender c,
              cand_tx_id = me_tx_id e, cand_size = me_size e\<rparr>)" (is "?l \<longleftrightarrow> ?r")
proof
  assume ?l
  then show ?r using pool_member[OF assms] by (fastforce simp: eviction_candidates_def)
next
  assume ?r
  then obtain e where e: "e \<in> set (bucket_of (pool_transactions m) (cand_sender c))"
    "rate_cmp (me_fee_per_byte e) inc = Less"
    "c = \<lparr>cand_rate = me_fee_per_byte e, cand_timestamp = me_timestamp e, cand_sender = cand_sender c,
          cand_tx_id = me_tx_id e, cand_size = me_size e\<rparr>" by blast
  then obtain es where "(cand_sender c, es) \<in> set (pool_transactions m)" "e \<in> set es"
    using bucket_member by blast
  with e(2) show ?l
    by (subst e(3)) (auto simp: eviction_candidates_def intro!: bexI[of _ "(cand_sender c, es)"])
qed

lemma try_evict_success:
  assumes inv: "mempool_inv m" and run: "try_evict_below rs rc inc m = (True, m')"
  shows "mempool_inv m'" and "total_size m' + rs \<le> total_size m" and "total_count m' + rc \<le> total_count m"
    and "set (bucket_of (pool_transactions m') s) \<subseteq> set (bucket_of (pool_transactions m) s)"
    and "length (bucket_of (pool_transactions m') s) \<le> length (bucket_of (pool_transactions m) s)"
    and "e \<in> set (bucket_of (pool_transactions m) s) \<Longrightarrow> e \<notin> set (bucket_of (pool_transactions m') s)
      \<Longrightarrow> rate_cmp (me_fee_per_byte e) inc = Less"
proof -
  let ?p = "pool_transactions m"
  let ?key = "\<lambda>c. (cand_sender c, cand_tx_id c)"
  note wf = mempool_invD(1)[OF inv]
  from run obtain plan where
    plan: "plan_evictions rs rc 0 0 (eviction_candidates inc m) [] = Some plan"
    and m': "m' = snd (remove_all_listed plan m)"
    by (auto simp: try_evict_below_def split: option.splits)
  from plan_evictions_Some[OF plan] obtain cs rest where
    cs: "mset (eviction_candidates inc m) = mset cs + mset rest"
    and pl: "plan = fold plan_insert (map ?key cs) []"
    and enough: "rs \<le> sum_list (map cand_size cs)" "rc \<le> length cs" by auto
  have sub: "c \<in> set (eviction_candidates inc m)" if "c \<in> set cs" for c
    using cs that by (metis set_mset_mset union_iff set_mset_union)
  have mem: "cand_tx_id c \<in> me_tx_id ` set (bucket_of ?p (cand_sender c))" if "c \<in> set cs" for c
    using sub[OF that] unfolding eviction_candidate_iff[OF wf] by (metis candidate.select_convs(4) imageI)
  have ok: "plan_ok ?p plan"
    unfolding pl using mem by (intro plan_ok_fold plan_ok_Nil) auto
  note all = remove_all_listed_drop[OF inv ok]
  have inv': "mempool_inv m'" and kept: "\<And>s. bucket_of (pool_transactions m') s = kept_of (ids_of plan s) (bucket_of ?p s)"
    using all m' by auto
  show "mempool_inv m'" by (rule inv')
  have ids: "set (ids_of plan s) = {t. (s, t) \<in> ?key ` set cs}" for s
    unfolding pl ids_of_fold by (auto simp: ids_of_def hm_get_def)
  have R: "cand_tx_id c \<in> set (ids_of plan (cand_sender c))" if "c \<in> set cs" for c
    using that by (auto simp: ids)
  show "total_size m' + rs \<le> total_size m"
    using evicted_weight[OF inv inv' kept _ cs R, of cand_size me_size] enough(1)
      mempool_invD(8)[OF inv] mempool_invD(8)[OF inv']
    by (simp add: entries_size_def[abs_def])
  show "total_count m' + rc \<le> total_count m"
    using evicted_weight[OF inv inv' kept _ cs R, of "\<lambda>_. 1" "\<lambda>_. 1"] enough(2)
      mempool_invD(7)[OF inv] mempool_invD(7)[OF inv']
    by (simp add: sum_list_triv)
  show "set (bucket_of (pool_transactions m') s) \<subseteq> set (bucket_of ?p s)"
    by (auto simp: kept kept_of_set)
  show "length (bucket_of (pool_transactions m') s) \<le> length (bucket_of ?p s)"
    by (simp add: kept kept_of_def)
  assume e: "e \<in> set (bucket_of ?p s)" "e \<notin> set (bucket_of (pool_transactions m') s)"
  then obtain c where c: "c \<in> set cs" "cand_sender c = s" "cand_tx_id c = me_tx_id e"
    by (auto simp: kept kept_of_set ids)
  then obtain e' where e': "e' \<in> set (bucket_of ?p s)" "rate_cmp (me_fee_per_byte e') inc = Less"
    "cand_tx_id c = me_tx_id e'"
    using sub[OF c(1)] unfolding eviction_candidate_iff[OF wf] by (metis candidate.select_convs(4))
  have "e = e'" using bucket_unique[OF inv e(1) e'(1)] e'(3) c(3) by simp
  with e'(2) show "rate_cmp (me_fee_per_byte e) inc = Less" by simp
qed

section \<open>Admission\<close>

lemma mempool_inv_insert:
  assumes inv: "mempool_inv m" and s: "s = sender (me_transaction e)"
    and id: "me_tx_id e = get_tx_id (me_transaction e)" and new: "hm_get (tx_locator m) (me_tx_id e) = None"
    and room: "length (bucket_of (pool_transactions m) s) < MEMPOOL_MAX_PER_ADDRESS"
      "total_size m + me_size e \<le> MEMPOOL_MAX_BYTES" "total_count m + 1 \<le> MEMPOOL_MAX_TRANSACTIONS"
  shows "mempool_inv (m\<lparr>pool_transactions := hm_insert s (bucket_of (pool_transactions m) s @ [e]) (pool_transactions m),
      tx_locator := hm_insert (me_tx_id e) s (tx_locator m),
      address_counts := hm_insert s (Suc (length (bucket_of (pool_transactions m) s))) (address_counts m),
      total_size := total_size m + me_size e, total_count := total_count m + 1\<rparr>)" (is "mempool_inv ?m")
proof -
  note D = mempool_invD[OF inv]
  let ?p = "pool_transactions m" and ?b = "bucket_of (pool_transactions m) s"
  have notin: "me_tx_id e \<noteq> me_tx_id x" if "hm_get ?p s' = Some es" "x \<in> set es" for s' es x
    using D(4)[OF that(1)] that(2) new by (auto simp: bucket_ok_def)
  have psum: "pool_sum f (hm_insert s (?b @ [e]) ?p) = pool_sum f ?p + w"
    if "\<And>es. f (es @ [e]) = f es + w" "f [] = 0" for f and w :: nat
  proof (cases "hm_get ?p s")
    case None
    then show ?thesis using that(1)[of "[]"] that(2)
      by (simp add: pool_sum_def bucket_of_def hm_values_insert_new)
  next
    case (Some es)
    then show ?thesis using sum_list_hm_insert[OF Some, of f "es @ [e]"] that(1)[of es]
      by (simp add: pool_sum_def bucket_of_def)
  qed
  have buckets: "bucket_ok ?m s' es'" if g: "hm_get (pool_transactions ?m) s' = Some es'" for s' es'
  proof (cases "s' = s")
    case True
    with g have es': "es' = ?b @ [e]" by (simp add: hm_simps)
    show ?thesis
    proof (cases "hm_get ?p s")
      case None
      with True es' s id room show ?thesis by (simp add: bucket_ok_def bucket_of_def hm_simps)
    next
      case (Some es)
      with D(4)[OF Some] True es' s id room notin[OF Some] show ?thesis
        by (auto simp: bucket_ok_def bucket_of_def hm_simps image_iff)
    qed
  next
    case False
    with g have g': "hm_get ?p s' = Some es'" by (simp add: hm_simps)
    with D(4)[OF g'] notin[OF g', THEN not_sym] False show ?thesis
      by (auto simp: bucket_ok_def hm_simps)
  qed
  have locs: "\<exists>es'. hm_get (pool_transactions ?m) s' = Some es' \<and> t \<in> me_tx_id ` set es'"
    if g: "hm_get (tx_locator ?m) t = Some s'" for t s'
  proof (cases "t = me_tx_id e")
    case True
    with g show ?thesis by (simp add: hm_simps)
  next
    case False
    with g have "hm_get (tx_locator m) t = Some s'" by (simp add: hm_simps)
    from D(5)[OF this] obtain es where es: "hm_get ?p s' = Some es" "t \<in> me_tx_id ` set es" by blast
    then show ?thesis by (auto simp: hm_simps bucket_of_def)
  qed
  have cnts: "\<exists>es'. hm_get (pool_transactions ?m) s' = Some es'"
    if "hm_get (address_counts ?m) s' = Some n" for s' n
    using that D(6)[of s'] by (auto simp: hm_simps split: if_splits)
  have c: "total_count ?m = pool_sum length (pool_transactions ?m)"
    using psum[of length 1] D(7) by simp
  have z: "total_size ?m = pool_sum entries_size (pool_transactions ?m)"
    using psum[of entries_size "me_size e"] D(8) by (simp add: entries_size_def)
  show ?thesis
    unfolding mempool_inv_iff
    using buckets locs cnts c z D(1,2,3) room by (simp add: hm_wf_insert)
qed

lemma bucket_count:
  assumes "mempool_inv m"
  shows "(case hm_get (address_counts m) s of Some n \<Rightarrow> n | None \<Rightarrow> 0) = length (bucket_of (pool_transactions m) s)"
proof (cases "hm_get (pool_transactions m) s")
  case None
  then have "hm_get (address_counts m) s = None"
    using mempool_invD(6)[OF assms, of s] by (cases "hm_get (address_counts m) s") auto
  with None show ?thesis by (simp add: bucket_of_def)
next
  case (Some es)
  with mempool_invD(4)[OF assms Some] show ?thesis by (simp add: bucket_ok_def bucket_of_def)
qed

lemma locator_bucket:
  assumes inv: "mempool_inv m"
  shows "hm_get (tx_locator m) t = Some s \<longleftrightarrow> (\<exists>e \<in> set (bucket_of (pool_transactions m) s). me_tx_id e = t)"
proof
  assume "hm_get (tx_locator m) t = Some s"
  from mempool_invD(5)[OF inv this] show "\<exists>e \<in> set (bucket_of (pool_transactions m) s). me_tx_id e = t"
    unfolding bucket_of_def by fastforce
next
  assume "\<exists>e \<in> set (bucket_of (pool_transactions m) s). me_tx_id e = t"
  then obtain e where e: "e \<in> set (bucket_of (pool_transactions m) s)" "me_tx_id e = t" by blast
  from bucket_of_ok[OF inv e(1)] have "\<forall>e \<in> set (bucket_of (pool_transactions m) s).
      hm_get (tx_locator m) (me_tx_id e) = Some s" unfolding bucket_ok_def by blast
  with e show "hm_get (tx_locator m) t = Some s" by blast
qed

definition entry_of :: "transaction \<Rightarrow> nat \<Rightarrow> u64 \<Rightarrow> mempool_entry" where
  "entry_of tx sz now = \<lparr>me_transaction = tx, me_tx_id = get_tx_id tx, me_timestamp = now,
     me_fee_per_byte = \<lparr>rate_fee_units = fee_units tx, rate_size_bytes = sz\<rparr>, me_size = sz\<rparr>"

lemma admit_sized_cases:
  assumes inv: "mempool_inv m" and new: "hm_get (tx_locator m) (get_tx_id tx) = None"
    and cap: "length (bucket_of (pool_transactions m) (sender tx)) < MEMPOOL_MAX_PER_ADDRESS"
    and size: "sz \<le> MAX_MEMPOOL_TX_BYTES"
    and run: "admit_sized tx sz now m = (res, m')"
  shows "mempool_inv m' \<and>
    (case res of
       Inl err \<Rightarrow> m' = m \<and> err = RateLimitExceeded ''Mempool is full''
     | Inr _ \<Rightarrow> (\<forall>s e. e \<in> set (bucket_of (pool_transactions m') s) \<longrightarrow>
                   e \<in> set (bucket_of (pool_transactions m) s) \<or> (s = sender tx \<and> e = entry_of tx sz now))
         \<and> entry_of tx sz now \<in> set (bucket_of (pool_transactions m') (sender tx))
         \<and> (\<forall>s e. e \<in> set (bucket_of (pool_transactions m) s) \<and> e \<notin> set (bucket_of (pool_transactions m') s)
              \<longrightarrow> rate_cmp (me_fee_per_byte e) (me_fee_per_byte (entry_of tx sz now)) = Less))"
proof -
  let ?rate = "\<lparr>rate_fee_units = fee_units tx, rate_size_bytes = sz\<rparr>"
  let ?rs = "saturating_sub (saturating_add (total_size m) sz) MEMPOOL_MAX_BYTES"
  let ?rc = "saturating_sub (saturating_add (total_count m) 1) MEMPOOL_MAX_TRANSACTIONS"
  obtain room m1 where r: "(if ?rs > 0 \<or> ?rc > 0 then try_evict_below ?rs ?rc ?rate m else (True, m)) = (room, m1)"
    by fastforce
  note run' = run[unfolded admit_sized_def Let_def r prod.case]
  have exact: "?rs = total_size m + sz - MEMPOOL_MAX_BYTES" "?rc = total_count m + 1 - MEMPOOL_MAX_TRANSACTIONS"
    using mempool_invD(9,10)[OF inv] size
    by (simp_all add: rust_arith MEMPOOL_MAX_BYTES_def MEMPOOL_MAX_TRANSACTIONS_def
        MAX_MEMPOOL_TX_BYTES_def u64_max_def)
  show ?thesis
  proof (cases room)
    case False
    with r have "m1 = m" by (auto simp: try_evict_below_def split: if_splits option.splits)
    with run' False inv show ?thesis by auto
  next
    case True
    have "mempool_inv m1 \<and> total_size m1 + ?rs \<le> total_size m \<and> total_count m1 + ?rc \<le> total_count m
      \<and> (\<forall>s. set (bucket_of (pool_transactions m1) s) \<subseteq> set (bucket_of (pool_transactions m) s))
      \<and> (\<forall>s. length (bucket_of (pool_transactions m1) s) \<le> length (bucket_of (pool_transactions m) s))
      \<and> (\<forall>s e. e \<in> set (bucket_of (pool_transactions m) s) \<and> e \<notin> set (bucket_of (pool_transactions m1) s)
            \<longrightarrow> rate_cmp (me_fee_per_byte e) ?rate = Less)"
    proof (cases "?rs > 0 \<or> ?rc > 0")
      case False
      with r inv show ?thesis by auto
    next
      case go: True
      with r True have "try_evict_below ?rs ?rc ?rate m = (True, m1)" by simp
      from try_evict_success[OF inv this] show ?thesis by blast
    qed
    then have m1: "mempool_inv m1" "total_size m1 + sz \<le> MEMPOOL_MAX_BYTES"
      "total_count m1 + 1 \<le> MEMPOOL_MAX_TRANSACTIONS"
      "\<And>s. set (bucket_of (pool_transactions m1) s) \<subseteq> set (bucket_of (pool_transactions m) s)"
      "length (bucket_of (pool_transactions m1) (sender tx)) < MEMPOOL_MAX_PER_ADDRESS"
      "\<And>s e. e \<in> set (bucket_of (pool_transactions m) s) \<Longrightarrow> e \<notin> set (bucket_of (pool_transactions m1) s)
            \<Longrightarrow> rate_cmp (me_fee_per_byte e) ?rate = Less"
      using exact cap by (auto intro: le_less_trans)
    have new1: "hm_get (tx_locator m1) (get_tx_id tx) = None"
      using new locator_bucket[OF inv] locator_bucket[OF m1(1)] m1(4)
      by (metis not_Some_eq subset_iff)
    let ?e = "entry_of tx sz now" and ?b = "bucket_of (pool_transactions m1) (sender tx)"
    let ?m2 = "m1\<lparr>pool_transactions := hm_insert (sender tx) (?b @ [?e]) (pool_transactions m1),
        tx_locator := hm_insert (get_tx_id tx) (sender tx) (tx_locator m1),
        address_counts := hm_insert (sender tx) (Suc (length ?b)) (address_counts m1),
        total_size := total_size m1 + sz, total_count := total_count m1 + 1\<rparr>"
    have n: "(case hm_get (address_counts m1) (sender tx) of Some n \<Rightarrow> n + 1 | None \<Rightarrow> 1) = Suc (length ?b)"
      using bucket_count[OF m1(1), of "sender tx"] by (auto split: option.splits)
    have "total_size m1 + sz \<le> u64_max" "total_count m1 + 1 \<le> u64_max"
      using m1(2,3) max_caps by simp_all
    then have w: "wrapping_add (total_size m1) sz = total_size m1 + sz"
      "wrapping_add (total_count m1) (Suc 0) = Suc (total_count m1)"
      by (simp_all add: wrapping_add_exact)
    have "(res, m') = (Inr (), ?m2)"
      using run' True m1(2,3) n w by (auto simp: entry_of_def bucket_of_def)
    moreover have "mempool_inv ?m2"
      using mempool_inv_insert[OF m1(1), of "sender tx" ?e] new1 m1(2,3,5) by (simp add: entry_of_def)
    moreover have "bucket_of (pool_transactions ?m2) s = (if s = sender tx then ?b @ [?e] else bucket_of (pool_transactions m1) s)" for s
      by (simp add: bucket_of_def hm_simps)
    ultimately show ?thesis using m1(4,6) by (auto simp: entry_of_def)
  qed
qed

lemma admit_cases:
  assumes inv: "mempool_inv m" and run: "admit ser ttl clock fl tx m = (res, m')"
  obtains mp where "mempool_inv mp" and "mp = m \<or> (\<exists>t. mp = snd (prune_expired ttl (fst (snd clock)) (m\<lparr>last_prune := t\<rparr>)))"
    and "m' = mp \<or> (\<exists>bytes. res = Inr () \<and> ser tx = Some bytes \<and> length bytes \<le> MAX_MEMPOOL_TX_BYTES
        \<and> hm_get (tx_locator mp) (get_tx_id tx) = None
        \<and> length (bucket_of (pool_transactions mp) (sender tx)) < MEMPOOL_MAX_PER_ADDRESS
        \<and> (fl \<longrightarrow> MIN_RELAY_FEE_UNITS \<le> fee_units tx)
        \<and> admit_sized tx (length bytes) (snd (snd clock)) mp = (res, m'))"
    and "res = Inr () \<and> m' = mp \<Longrightarrow> hm_get (tx_locator mp) (get_tx_id tx) \<noteq> None"
proof -
  obtain n0 n1 n2 where c: "clock = (n0, n1, n2)" by (cases clock)
  define mp where "mp = (if saturating_sub n0 (last_prune m) \<ge> PRUNE_INTERVAL_SECS
      then snd (prune_expired ttl n1 (m\<lparr>last_prune := n0\<rparr>)) else m)"
  have invp: "mempool_inv mp"
    using inv prune_expired_inv[of "m\<lparr>last_prune := n0\<rparr>" ttl n1] by (simp add: mp_def)
  have shape: "mp = m \<or> (\<exists>t. mp = snd (prune_expired ttl (fst (snd clock)) (m\<lparr>last_prune := t\<rparr>)))"
    by (auto simp: mp_def c)
  note r = run[unfolded admit_def c Let_def prod.case, folded mp_def]
  show thesis
  proof (cases "hm_get (tx_locator mp) (get_tx_id tx)")
    case (Some s)
    with r have "m' = mp" by (simp add: hm_contains_def)
    with Some show thesis using that[OF invp shape] by simp
  next
    case None
    note r1 = r[unfolded hm_contains_def None, simplified]
    show thesis
    proof (cases "\<exists>bytes. ser tx = Some bytes \<and> length bytes \<le> MAX_MEMPOOL_TX_BYTES
        \<and> \<not> (fl \<and> fee_units tx < MIN_RELAY_FEE_UNITS)
        \<and> length (bucket_of (pool_transactions mp) (sender tx)) < MEMPOOL_MAX_PER_ADDRESS")
      case True
      then obtain bytes where b: "ser tx = Some bytes" "length bytes \<le> MAX_MEMPOOL_TX_BYTES"
        "\<not> (fl \<and> fee_units tx < MIN_RELAY_FEE_UNITS)"
        "length (bucket_of (pool_transactions mp) (sender tx)) < MEMPOOL_MAX_PER_ADDRESS" by blast
      have cap: "\<not> (case hm_get (address_counts mp) (sender tx) of Some c \<Rightarrow> c \<ge> MEMPOOL_MAX_PER_ADDRESS | None \<Rightarrow> False)"
        using bucket_count[OF invp, of "sender tx"] b(4) by (auto split: option.splits)
      have ad: "admit_sized tx (length bytes) n2 mp = (res, m')"
        using r1 b cap by (simp add: not_less split: if_splits)
      have "res = Inr () \<or> m' = mp"
        using admit_sized_cases[OF invp None b(4,2) ad] by (cases res) auto
      moreover have "m' \<noteq> mp" if "res = Inr ()"
      proof
        assume "m' = mp"
        with that admit_sized_cases[OF invp None b(4,2) ad] locator_bucket[OF invp, of "get_tx_id tx" "sender tx"] None
        show False by (auto simp: entry_of_def)
      qed
      ultimately show thesis
        using that[OF invp shape] b None ad c by (auto simp: not_less)
    next
      case False
      have "(case hm_get (address_counts mp) (sender tx) of Some c \<Rightarrow> c \<ge> MEMPOOL_MAX_PER_ADDRESS | None \<Rightarrow> False)"
        if "\<not> length (bucket_of (pool_transactions mp) (sender tx)) < MEMPOOL_MAX_PER_ADDRESS"
        using bucket_count[OF invp, of "sender tx"] that
        by (auto simp: MEMPOOL_MAX_PER_ADDRESS_def split: option.splits)
      with False r1 have "m' = mp" "res \<noteq> Inr ()"
        by (auto simp: not_less split: if_splits option.splits)
      then show thesis using that[OF invp shape] by blast
    qed
  qed
qed

lemma admit_inv:
  assumes "mempool_inv m"
  shows "mempool_inv (snd (admit ser ttl clock fl tx m))"
proof -
  obtain res m' where r: "admit ser ttl clock fl tx m = (res, m')" by fastforce
  from admit_cases[OF assms r] show ?thesis
    using admit_sized_cases r by (metis snd_conv)
qed

section \<open>Clearing\<close>

lemma clear_transaction_inv:
  assumes inv: "mempool_inv m"
    and own: "\<And>s. hm_get (tx_locator m) (get_tx_id tx) = Some s \<Longrightarrow> s = sender tx"
  shows "mempool_inv (clear_transaction tx m)
    \<and> (\<forall>s. bucket_of (pool_transactions (clear_transaction tx m)) s
          = (if s = sender tx then kept_of [get_tx_id tx] (bucket_of (pool_transactions m) s)
             else bucket_of (pool_transactions m) s))"
proof (cases "\<exists>es. hm_get (pool_transactions m) (sender tx) = Some es \<and> get_tx_id tx \<in> me_tx_id ` set es")
  case True
  then obtain es where es: "hm_get (pool_transactions m) (sender tx) = Some es" "get_tx_id tx \<in> me_tx_id ` set es"
    by blast
  show ?thesis
    unfolding clear_transaction_drop[OF inv es] bucket_of_drop
    using drop_bucket_inv[OF inv, of "sender tx" "[get_tx_id tx]"] es by auto
next
  case False
  have "hm_get (tx_locator m) (get_tx_id tx) = None"
  proof (cases "hm_get (tx_locator m) (get_tx_id tx)")
    case (Some s)
    with own mempool_invD(5)[OF inv Some] False show ?thesis by blast
  qed simp
  then have l: "hm_remove (get_tx_id tx) (tx_locator m) = tx_locator m"
    by (simp add: hm_remove_def hm_get_def delete_no_key)
  have k: "filter (\<lambda>e. me_tx_id e \<noteq> get_tx_id tx) es = es" "filter (\<lambda>e. me_tx_id e = get_tx_id tx) es = []"
    if "hm_get (pool_transactions m) (sender tx) = Some es" for es
    using False that by (auto simp: filter_id_conv filter_empty_conv image_iff)
  have "clear_transaction tx m = m"
    by (auto simp: clear_transaction_def Let_def l k hm_insert_same split: option.splits)
  moreover have "kept_of [get_tx_id tx] (bucket_of (pool_transactions m) (sender tx)) = bucket_of (pool_transactions m) (sender tx)"
    by (auto simp: kept_of_def bucket_of_def k split: option.splits)
  ultimately show ?thesis using inv by simp
qed

end
