(* ===== verification/A9_Selection.thy ===== *)
theory A9_Selection
  imports A9_Mempool_Inv
begin

text \<open>
  \<open>get_transactions_for_block\<close> (\<^verbatim>\<open>src/a9/mempool.rs\<close>): a fee-ordered merge of the senders'
  queues.  Each sender offers its best remaining entry on a heap; the best offer is taken if
  it fits, and the sender's next entry is offered.  The loop ends because every turn uses up
  one offer.
\<close>

section \<open>The merge\<close>

record offer =
  of_rate :: fee_per_byte
  of_timestamp :: u64
  of_sender :: string
  of_size :: usize
  of_entry :: usize
  of_cursor :: usize

text \<open>The tuple order \<open>(rate, Reverse(timestamp), sender, size, entry_idx, cursor)\<close>; the heap pops
  a greatest element.\<close>

definition offer_cmp :: "offer \<Rightarrow> offer \<Rightarrow> ordering" where
  "offer_cmp a b =
     then_with (rate_cmp (of_rate a) (of_rate b))
    (then_with (cmp_of (of_timestamp b) (of_timestamp a))
    (then_with (cmp_of (of_sender a) (of_sender b))
    (then_with (cmp_of (of_size a) (of_size b))
    (then_with (cmp_of (of_entry a) (of_entry b))
               (cmp_of (of_cursor a) (of_cursor b))))))"

definition better_first :: "offer \<Rightarrow> offer \<Rightarrow> bool" where
  "better_first a b \<longleftrightarrow> offer_cmp a b = Greater"

text \<open>\<open>order.sort_by\<close> is a stable sort: insertion keeps the place of equal elements.\<close>

fun insert_by :: "('a \<Rightarrow> 'a \<Rightarrow> ordering) \<Rightarrow> 'a \<Rightarrow> 'a list \<Rightarrow> 'a list" where
  "insert_by cmp x [] = [x]"
| "insert_by cmp x (y # ys) = (if cmp x y = Greater then y # insert_by cmp x ys else x # y # ys)"

definition sort_by_cmp :: "('a \<Rightarrow> 'a \<Rightarrow> ordering) \<Rightarrow> 'a list \<Rightarrow> 'a list" where
  "sort_by_cmp cmp xs = foldr (insert_by cmp) xs []"

definition queue_cmp :: "mempool_entry list \<Rightarrow> nat \<Rightarrow> nat \<Rightarrow> ordering" where
  "queue_cmp txs a b =
     then_with (rate_cmp (me_fee_per_byte (txs ! b)) (me_fee_per_byte (txs ! a)))
               (cmp_of (me_timestamp (txs ! a)) (me_timestamp (txs ! b)))"

definition queue_order :: "mempool_entry list \<Rightarrow> nat list" where
  "queue_order txs = sort_by_cmp (queue_cmp txs) [0..<length txs]"

definition make_offer :: "string \<Rightarrow> mempool_entry list \<Rightarrow> nat \<Rightarrow> nat \<Rightarrow> offer" where
  "make_offer s txs idx cursor =
     \<lparr>of_rate = me_fee_per_byte (txs ! idx), of_timestamp = me_timestamp (txs ! idx), of_sender = s,
      of_size = me_size (txs ! idx), of_entry = idx, of_cursor = cursor\<rparr>"

definition sender_order :: "mempool \<Rightarrow> (string, nat list) hmap" where
  "sender_order m = map (\<lambda>(s, txs). (s, queue_order txs)) (filter (\<lambda>(_, txs). txs \<noteq> []) (pool_transactions m))"

definition first_offers :: "mempool \<Rightarrow> offer list" where
  "first_offers m = map (\<lambda>(s, txs). make_offer s txs (hd (queue_order txs)) 0)
     (filter (\<lambda>(_, txs). txs \<noteq> []) (pool_transactions m))"

text \<open>The offer after \<open>x\<close> from the same sender, if any.\<close>

definition next_offer :: "mempool \<Rightarrow> (string, nat list) hmap \<Rightarrow> offer \<Rightarrow> offer option" where
  "next_offer m order x =
     (case hm_get order (of_sender x) of
        None \<Rightarrow> None
      | Some ord \<Rightarrow>
          if of_cursor x + 1 < length ord
          then (case hm_get (pool_transactions m) (of_sender x) of
                  None \<Rightarrow> None
                | Some txs \<Rightarrow>
                    if ord ! (of_cursor x + 1) < length txs
                    then Some (make_offer (of_sender x) txs (ord ! (of_cursor x + 1)) (of_cursor x + 1))
                    else None)
          else None)"

definition offered_entry :: "mempool \<Rightarrow> offer \<Rightarrow> mempool_entry option" where
  "offered_entry m x =
     (case hm_get (pool_transactions m) (of_sender x) of
        None \<Rightarrow> None
      | Some txs \<Rightarrow> if of_entry x < length txs then Some (txs ! of_entry x) else None)"

definition remaining_offers :: "(string, nat list) hmap \<Rightarrow> offer \<Rightarrow> nat" where
  "remaining_offers order x =
     (case hm_get order (of_sender x) of
        None \<Rightarrow> 1
      | Some ord \<Rightarrow> Suc (length ord - of_cursor x))"

lemma next_offer_fields:
  "next_offer m order x = Some y \<Longrightarrow> of_sender y = of_sender x \<and> of_cursor y = of_cursor x + 1
    \<and> (\<exists>ord. hm_get order (of_sender x) = Some ord \<and> of_cursor x + 1 < length ord
         \<and> of_entry y = ord ! (of_cursor x + 1))"
  by (auto simp: next_offer_def make_offer_def split: option.splits if_splits)

lemma next_offer_remaining:
  "next_offer m order x = Some y \<Longrightarrow> remaining_offers order y < remaining_offers order x"
  using next_offer_fields[of m order x y] by (auto simp: remaining_offers_def)

lemma remaining_positive: "0 < remaining_offers order x"
  by (simp add: remaining_offers_def split: option.splits)

lemma heap_shrinks:
  assumes "extract_first better_first x xs = (best, rest)"
  shows "sum_list (map (remaining_offers order)
      (case next_offer m order best of Some y \<Rightarrow> y # rest | None \<Rightarrow> rest))
    < sum_list (map (remaining_offers order) (x # xs))"
proof -
  have "mset (best # rest) = mset (x # xs)" using extract_first_mset[OF assms] by simp
  then have "mset (map (remaining_offers order) (best # rest)) = mset (map (remaining_offers order) (x # xs))"
    by (simp only: mset_map)
  then have "sum_list (map (remaining_offers order) (x # xs))
      = remaining_offers order best + sum_list (map (remaining_offers order) rest)"
    by (metis sum_mset_sum_list list.simps(9) sum_list.Cons)
  then show ?thesis
    using remaining_positive[of order best] next_offer_remaining[of m order best]
    by (auto split: option.splits)
qed

function select_loop :: "mempool \<Rightarrow> (string, nat list) hmap \<Rightarrow> offer list \<Rightarrow> mempool_entry list \<Rightarrow> usize
    \<Rightarrow> mempool_entry list" where
  "select_loop m order heap selected tsize =
     (case heap of
        [] \<Rightarrow> selected
      | x # xs \<Rightarrow>
          (let (best, rest) = extract_first better_first x xs in
           if length selected \<ge> MAX_TRANSACTIONS_PER_BLOCK \<or> tsize \<ge> MAX_BLOCK_SIZE then selected
           else
             let (selected', tsize') =
                   (if tsize + of_size best \<le> MAX_BLOCK_SIZE
                    then (case offered_entry m best of
                            Some e \<Rightarrow> (selected @ [e], tsize + of_size best)
                          | None \<Rightarrow> (selected, tsize))
                    else (selected, tsize))
             in select_loop m order
                  (case next_offer m order best of Some y \<Rightarrow> y # rest | None \<Rightarrow> rest)
                  selected' tsize'))"
  by pat_completeness auto
termination
  by (relation "measure (\<lambda>(m, order, heap, _, _). sum_list (map (remaining_offers order) heap))")
    (use heap_shrinks in \<open>fastforce split: option.splits\<close>)+

declare select_loop.simps [simp del]

definition get_entries_for_block :: "mempool \<Rightarrow> mempool_entry list" where
  "get_entries_for_block m = select_loop m (sender_order m) (first_offers m) [] 0"

definition get_transactions_for_block :: "mempool \<Rightarrow> transaction list" where
  "get_transactions_for_block m = map me_transaction (get_entries_for_block m)"

section \<open>The order of a queue is a permutation\<close>

lemma mset_insert_by: "mset (insert_by cmp x xs) = add_mset x (mset xs)"
  by (induction xs) auto

lemma mset_sort_by: "mset (sort_by_cmp cmp xs) = mset xs"
  by (induction xs) (simp_all add: sort_by_cmp_def mset_insert_by)

lemma queue_order_set: "set (queue_order txs) = {0..<length txs}"
  using mset_eq_setD[OF mset_sort_by[of "queue_cmp txs" "[0..<length txs]"]]
  by (simp add: queue_order_def)

lemma queue_order_distinct: "distinct (queue_order txs)"
  by (metis distinct_upt mset_eq_imp_distinct_iff mset_sort_by queue_order_def)

lemma queue_order_length: "length (queue_order txs) = length txs"
  by (metis diff_zero length_upt mset_eq_length mset_sort_by queue_order_def)

section \<open>What the merge selects\<close>

lemma order_get:
  assumes "mempool_inv m"
  shows "hm_get (sender_order m) s = map_option queue_order (hm_get (pool_transactions m) s)"
proof -
  have ne: "txs \<noteq> []" if "(s, txs) \<in> set (pool_transactions m)" for s txs
    using mempool_invD(4)[OF assms hm_get_SomeI[OF mempool_invD(1)[OF assms] that]]
    by (simp add: bucket_ok_def)
  then have "filter (\<lambda>(_, txs). txs \<noteq> []) (pool_transactions m) = pool_transactions m"
    by (intro filter_True) auto
  then show ?thesis
    by (simp add: sender_order_def hm_get_def map_of_map)
qed

text \<open>An offer on the heap describes the entry at its cursor.\<close>

definition offer_ok :: "mempool \<Rightarrow> offer \<Rightarrow> bool" where
  "offer_ok m x \<longleftrightarrow> (case hm_get (pool_transactions m) (of_sender x) of
     None \<Rightarrow> False
   | Some txs \<Rightarrow> of_cursor x < length txs
       \<and> x = make_offer (of_sender x) txs (queue_order txs ! of_cursor x) (of_cursor x))"

text \<open>The ids a sender may still have selected.\<close>

definition pending_ids :: "mempool \<Rightarrow> offer \<Rightarrow> string set" where
  "pending_ids m x =
     (let txs = bucket_of (pool_transactions m) (of_sender x)
      in (\<lambda>i. me_tx_id (txs ! i)) ` set (drop (of_cursor x) (queue_order txs)))"

lemma offer_okD:
  assumes "offer_ok m x"
  obtains txs where "hm_get (pool_transactions m) (of_sender x) = Some txs" "of_cursor x < length txs"
    "of_entry x = queue_order txs ! of_cursor x" "of_entry x < length txs"
    "offered_entry m x = Some (txs ! of_entry x)" "of_size x = me_size (txs ! of_entry x)"
proof -
  from assms obtain txs where t: "hm_get (pool_transactions m) (of_sender x) = Some txs"
    "of_cursor x < length txs" "x = make_offer (of_sender x) txs (queue_order txs ! of_cursor x) (of_cursor x)"
    by (auto simp: offer_ok_def split: option.splits)
  have e: "of_entry x = queue_order txs ! of_cursor x" by (subst t(3)) (simp add: make_offer_def)
  moreover have "queue_order txs ! of_cursor x \<in> set (queue_order txs)"
    using t(2) by (simp add: queue_order_length)
  then have "of_entry x < length txs" by (simp add: e queue_order_set)
  moreover have "of_size x = me_size (txs ! of_entry x)" unfolding e by (subst t(3)) (simp add: make_offer_def)
  ultimately show ?thesis using that t by (simp add: offered_entry_def)
qed

lemma next_offer_ok:
  assumes inv: "mempool_inv m" and ok: "offer_ok m x" and n: "next_offer m (sender_order m) x = Some y"
  shows "offer_ok m y" "of_sender y = of_sender x" "of_cursor y = Suc (of_cursor x)"
proof -
  show "of_sender y = of_sender x" "of_cursor y = Suc (of_cursor x)" using next_offer_fields[OF n] by auto
  then show "offer_ok m y"
    using n by (auto simp: next_offer_def offer_ok_def order_get[OF inv] queue_order_length make_offer_def
        split: option.splits if_splits)
qed

lemma pending_ids_step:
  assumes inv: "mempool_inv m" and ok: "offer_ok m x" and e: "offered_entry m x = Some e"
  shows "me_tx_id e \<in> pending_ids m x"
    and "next_offer m (sender_order m) x = Some y \<Longrightarrow> pending_ids m y \<subseteq> pending_ids m x - {me_tx_id e}"
proof -
  obtain txs where t: "hm_get (pool_transactions m) (of_sender x) = Some txs" "of_cursor x < length txs"
    "of_entry x = queue_order txs ! of_cursor x" "of_entry x < length txs" "e = txs ! of_entry x"
    using offer_okD[OF ok] e by (metis option.inject)
  let ?q = "queue_order txs" and ?c = "of_cursor x"
  have q: "drop ?c ?q = ?q ! ?c # drop (Suc ?c) ?q"
    using t(2) by (simp add: Cons_nth_drop_Suc queue_order_length)
  have p: "pending_ids m x = insert (me_tx_id e) ((\<lambda>i. me_tx_id (txs ! i)) ` set (drop (Suc ?c) ?q))"
    using t by (simp add: pending_ids_def bucket_of_def q)
  then show "me_tx_id e \<in> pending_ids m x" by simp
  assume n: "next_offer m (sender_order m) x = Some y"
  have ids: "distinct (map me_tx_id txs)" using mempool_invD(4)[OF inv t(1)] by (simp add: bucket_ok_def)
  have "me_tx_id (txs ! i) \<noteq> me_tx_id e" if "i \<in> set (drop (Suc ?c) ?q)" for i
  proof -
    have "distinct (drop ?c ?q)" by (simp add: queue_order_distinct)
    then have "i \<noteq> of_entry x" using that by (auto simp: q t(3))
    moreover have "i < length txs" using in_set_dropD[OF that] by (simp add: queue_order_set)
    ultimately show ?thesis
      using ids t(4,5) by (metis distinct_conv_nth length_map nth_map)
  qed
  moreover have "pending_ids m y = (\<lambda>i. me_tx_id (txs ! i)) ` set (drop (Suc ?c) ?q)"
    using next_offer_ok[OF inv ok n] t(1) by (simp add: pending_ids_def bucket_of_def)
  ultimately show "pending_ids m y \<subseteq> pending_ids m x - {me_tx_id e}" unfolding p by auto
qed

lemma pending_ids_locator:
  assumes inv: "mempool_inv m" and "offer_ok m x" and "t \<in> pending_ids m x"
  shows "hm_get (tx_locator m) t = Some (of_sender x)"
proof -
  obtain i where i: "i \<in> set (queue_order (bucket_of (pool_transactions m) (of_sender x)))"
    "t = me_tx_id (bucket_of (pool_transactions m) (of_sender x) ! i)"
    using assms(3) by (auto simp: pending_ids_def Let_def dest: in_set_dropD)
  then have "bucket_of (pool_transactions m) (of_sender x) ! i \<in> set (bucket_of (pool_transactions m) (of_sender x))"
    by (simp add: queue_order_set)
  then show ?thesis using locator_bucket[OF inv] i(2) by blast
qed

definition select_inv :: "mempool \<Rightarrow> offer list \<Rightarrow> mempool_entry list \<Rightarrow> nat \<Rightarrow> bool" where
  "select_inv m heap selected tsize \<longleftrightarrow>
     (\<forall>x \<in> set heap. offer_ok m x) \<and> distinct (map of_sender heap)
     \<and> (\<forall>x \<in> set heap. \<forall>e \<in> set selected. me_tx_id e \<notin> pending_ids m x)
     \<and> distinct (map me_tx_id selected)
     \<and> (\<forall>e \<in> set selected. e \<in> set (bucket_of (pool_transactions m) (sender (me_transaction e))))
     \<and> tsize = entries_size selected \<and> tsize \<le> MAX_BLOCK_SIZE
     \<and> length selected \<le> MAX_TRANSACTIONS_PER_BLOCK"

lemma select_inv_rest:
  assumes inv: "mempool_inv m" and si: "select_inv m heap selected tsize"
    and mh: "mset heap = add_mset best (mset rest)"
    and e: "offered_entry m best = Some e"
  defines "heap' \<equiv> (case next_offer m (sender_order m) best of Some y \<Rightarrow> y # rest | None \<Rightarrow> rest)"
  shows "select_inv m heap' selected tsize"
    and "tsize + of_size best \<le> MAX_BLOCK_SIZE \<Longrightarrow> length selected < MAX_TRANSACTIONS_PER_BLOCK
      \<Longrightarrow> select_inv m heap' (selected @ [e]) (tsize + of_size best)"
proof -
  have mem: "set heap = insert best (set rest)" using mh by (metis set_mset_add_mset_insert set_mset_mset)
  have okb: "offer_ok m best" and okr: "\<And>x. x \<in> set rest \<Longrightarrow> offer_ok m x"
    using si mem by (auto simp: select_inv_def)
  have "mset (map of_sender heap) = mset (map of_sender (best # rest))" using mh by (simp add: image_mset_add_mset)
  moreover have "distinct (map of_sender heap)" using si by (simp add: select_inv_def)
  ultimately have "distinct (map of_sender (best # rest))" by (metis mset_eq_imp_distinct_iff)
  then have d: "of_sender best \<notin> of_sender ` set rest" "distinct (map of_sender rest)" by simp_all
  note step = pending_ids_step[OF inv okb e]
  have src: "x \<in> set rest \<or> (offer_ok m x \<and> of_sender x = of_sender best
      \<and> pending_ids m x \<subseteq> pending_ids m best - {me_tx_id e})" if "x \<in> set heap'" for x
    using that step(2) next_offer_ok[OF inv okb] by (auto simp: heap'_def split: option.splits)
  have dh: "distinct (map of_sender heap')"
    using d next_offer_ok(2)[OF inv okb] by (auto simp: heap'_def split: option.splits)
  have oks: "offer_ok m x" if "x \<in> set heap'" for x using src[OF that] okr by blast
  have pend: "me_tx_id a \<notin> pending_ids m x" if "x \<in> set heap'" "a \<in> set selected" for x a
    using src[OF that(1)] si that(2) mem by (auto simp: select_inv_def)
  show "select_inv m heap' selected tsize"
    using si dh oks pend by (auto simp: select_inv_def)
  obtain txs where t: "hm_get (pool_transactions m) (of_sender best) = Some txs" "of_entry best < length txs"
    "e = txs ! of_entry best" "of_size best = me_size e"
    using offer_okD[OF okb] e by (metis option.inject)
  have ein: "e \<in> set txs" using t by simp
  then have es: "sender (me_transaction e) = of_sender best"
    using mempool_invD(4)[OF inv t(1)] by (simp add: bucket_ok_def)
  have new: "me_tx_id e \<notin> me_tx_id ` set selected"
    using si mem step(1) by (auto simp: select_inv_def)
  have pe: "me_tx_id e \<notin> pending_ids m x" if "x \<in> set heap'" for x
  proof (cases "x \<in> set rest")
    case True
    then have "of_sender x \<noteq> of_sender best" using d(1) by (metis imageI)
    then show ?thesis
      using pending_ids_locator[OF inv okr[OF True]] pending_ids_locator[OF inv okb step(1)] by force
  next
    case False
    with src[OF that] show ?thesis by blast
  qed
  assume "tsize + of_size best \<le> MAX_BLOCK_SIZE" "length selected < MAX_TRANSACTIONS_PER_BLOCK"
  then show "select_inv m heap' (selected @ [e]) (tsize + of_size best)"
    using si dh oks pend pe new es ein t(1,4)
    by (auto simp: select_inv_def entries_size_def bucket_of_def)
qed

lemma select_loop_inv:
  assumes inv: "mempool_inv m"
  shows "select_inv m heap selected tsize \<Longrightarrow>
    \<exists>tsize'. select_inv m [] (select_loop m (sender_order m) heap selected tsize) tsize'"
proof (induction "sum_list (map (remaining_offers (sender_order m)) heap)" arbitrary: heap selected tsize
    rule: less_induct)
  case less
  let ?o = "sender_order m"
  have stop: "\<exists>tsize'. select_inv m [] selected tsize'"
    using less.prems by (auto simp: select_inv_def)
  show ?case
  proof (cases heap)
    case Nil
    with stop show ?thesis by (simp add: select_loop.simps)
  next
    case (Cons x xs)
    obtain best rest where ex: "extract_first better_first x xs = (best, rest)" by fastforce
    let ?h = "case next_offer m ?o best of Some y \<Rightarrow> y # rest | None \<Rightarrow> rest"
    have mh: "mset heap = add_mset best (mset rest)" using extract_first_mset[OF ex] Cons by simp
    then have "best \<in> set heap" by (metis set_mset_mset union_single_eq_member)
    then have okb: "offer_ok m best" using less.prems by (simp add: select_inv_def)
    obtain e where e: "offered_entry m best = Some e" using offer_okD[OF okb] by blast
    note rest = select_inv_rest[OF inv less.prems mh e]
    note IH = less.hyps[OF heap_shrinks[OF ex, of ?o m, folded Cons]]
    show ?thesis
    proof (cases "length selected \<ge> MAX_TRANSACTIONS_PER_BLOCK \<or> tsize \<ge> MAX_BLOCK_SIZE")
      case True
      with stop show ?thesis by (simp add: select_loop.simps[of m ?o "x # xs"] Cons ex)
    next
      case False
      then show ?thesis
        using IH[OF rest(1)] IH[OF rest(2)] e
        by (simp add: select_loop.simps[of m ?o "x # xs"] Cons ex not_le)
    qed
  qed
qed

lemma first_offers_inv:
  assumes inv: "mempool_inv m"
  shows "select_inv m (first_offers m) [] 0"
proof -
  let ?p = "filter (\<lambda>(_, txs). txs \<noteq> []) (pool_transactions m)"
  have "offer_ok m x" if "x \<in> set (first_offers m)" for x
  proof -
    from that obtain s txs where t: "(s, txs) \<in> set (pool_transactions m)" "txs \<noteq> []"
      "x = make_offer s txs (hd (queue_order txs)) 0" by (auto simp: first_offers_def)
    have "hm_get (pool_transactions m) s = Some txs"
      by (rule hm_get_SomeI[OF mempool_invD(1)[OF inv] t(1)])
    moreover have "hd (queue_order txs) = queue_order txs ! 0"
      using t(2) queue_order_length[of txs] by (intro hd_conv_nth) auto
    ultimately show ?thesis using t(2,3) by (simp add: offer_ok_def make_offer_def)
  qed
  moreover have "map of_sender (first_offers m) = map fst ?p"
    by (auto simp: first_offers_def make_offer_def)
  then have "distinct (map of_sender (first_offers m))"
    using mempool_invD(1)[OF inv] by (simp add: hm_wf_def distinct_map_filter)
  ultimately show ?thesis by (simp add: select_inv_def entries_size_def)
qed

end
