(* ===== verification/A9_Mempool_Props.thy ===== *)
theory A9_Mempool_Props
  imports A9_Selection
begin

text \<open>
  The mempool as a running component: the step relation of its operations, its reachable
  states, and the properties.
\<close>

section \<open>A running mempool\<close>

text \<open>A block may clear any transaction whose id, if the pool knows it, belongs to its sender; for
  transactions between canonical addresses this always holds.\<close>

definition id_owned :: "transaction \<Rightarrow> mempool \<Rightarrow> bool" where
  "id_owned tx m \<longleftrightarrow> (case hm_get (tx_locator m) (get_tx_id tx) of None \<Rightarrow> True | Some s \<Rightarrow> s = sender tx)"

lemma id_ownedD: "id_owned tx m \<Longrightarrow> hm_get (tx_locator m) (get_tx_id tx) = Some s \<Longrightarrow> s = sender tx"
  by (simp add: id_owned_def)

inductive mempool_step :: "(transaction \<Rightarrow> string option) \<Rightarrow> u64 option \<Rightarrow> mempool \<Rightarrow> mempool \<Rightarrow> bool"
  for ser ttl where
  step_add: "mempool_step ser ttl m (snd (add_transaction ser ttl clock tx m))"
| step_readmit: "mempool_step ser ttl m (snd (readmit_reverted ser ttl clock tx m))"
| step_clear: "id_owned tx m \<Longrightarrow> mempool_step ser ttl m (clear_transaction tx m)"
| step_prune: "mempool_step ser ttl m (snd (prune_expired ttl now m))"

inductive mempool_reachable :: "(transaction \<Rightarrow> string option) \<Rightarrow> u64 option \<Rightarrow> mempool \<Rightarrow> bool"
  for ser ttl where
  reach_new: "mempool_reachable ser ttl new_mempool"
| reach_step: "mempool_reachable ser ttl m \<Longrightarrow> mempool_step ser ttl m m' \<Longrightarrow> mempool_reachable ser ttl m'"

lemma mempool_step_inv: "mempool_step ser ttl m m' \<Longrightarrow> mempool_inv m \<Longrightarrow> mempool_inv m'"
proof (induction rule: mempool_step.induct)
  case (step_clear tx m)
  then show ?case using clear_transaction_inv[of m tx] id_ownedD by blast
qed (simp_all add: add_transaction_def readmit_reverted_def admit_inv prune_expired_inv)

lemma mempool_reachable_inv: "mempool_reachable ser ttl m \<Longrightarrow> mempool_inv m"
  by (induction rule: mempool_reachable.induct) (auto intro: mempool_inv_new mempool_step_inv)

section \<open>A sample pool\<close>

definition sample_tx :: "nat \<Rightarrow> transaction" where
  "sample_tx ts = \<lparr>sender = ''a'', recipient = ''b'', fee_units = 10000, amount_units = 600,
     timestamp = ts, signature = None, pub_key = None, sig_hash = None\<rparr>"

definition sample_codec :: "transaction \<Rightarrow> string option" where
  "sample_codec tx = Some (replicate 100 (CHR ''x''))"

definition sample_pool :: mempool where
  "sample_pool = snd (add_transaction sample_codec None (5, 5, 5) (sample_tx 1) new_mempool)"

lemma sample_pool_reachable: "mempool_reachable sample_codec None sample_pool"
  unfolding sample_pool_def by (rule reach_step[OF reach_new step_add])

lemma sample_pool_entry:
  "add_transaction sample_codec None (5, 5, 5) (sample_tx 1) new_mempool = (Inr (), sample_pool)"
  "bucket_of (pool_transactions sample_pool) ''a'' = [entry_of (sample_tx 1) 100 5]"
  "tx_locator sample_pool = [(get_tx_id (sample_tx 1), ''a'')]" "last_prune sample_pool = 0"
  by (simp_all add: sample_pool_def add_transaction_def admit_def new_mempool_def hm_contains_def
      hm_simps sample_tx_def sample_codec_def MIN_RELAY_FEE_UNITS_def MAX_MEMPOOL_TX_BYTES_def
      admit_sized_def rust_arith MEMPOOL_MAX_BYTES_def MEMPOOL_MAX_TRANSACTIONS_def u64_max_def
      bucket_of_def entry_of_def PRUNE_INTERVAL_SECS_def Let_def hm_insert_def hm_get_def)

section \<open>Lookup\<close>

lemma find_kept: "t \<noteq> i \<Longrightarrow> List.find (\<lambda>e. me_tx_id e = t) (kept_of [i] es) = List.find (\<lambda>e. me_tx_id e = t) es"
  by (induction es) (auto simp: kept_of_def)

lemma find_bucket:
  assumes "mempool_inv m"
  shows "find_transaction_by_id t m = (case hm_get (tx_locator m) t of
      None \<Rightarrow> None
    | Some s \<Rightarrow> map_option me_transaction (List.find (\<lambda>e. me_tx_id e = t) (bucket_of (pool_transactions m) s)))"
  using mempool_invD(5)[OF assms, of t]
  by (auto simp: find_transaction_by_id_def bucket_of_def split: option.splits)

lemma clear_transaction_lookup:
  assumes inv: "mempool_inv m"
    and own: "\<And>s. hm_get (tx_locator m) (get_tx_id tx) = Some s \<Longrightarrow> s = sender tx"
  shows "find_transaction_by_id t (clear_transaction tx m)
    = (if t = get_tx_id tx then None else find_transaction_by_id t m)"
proof -
  let ?m = "clear_transaction tx m"
  have inv': "mempool_inv ?m" and b: "\<And>s. bucket_of (pool_transactions ?m) s
          = (if s = sender tx then kept_of [get_tx_id tx] (bucket_of (pool_transactions m) s)
             else bucket_of (pool_transactions m) s)"
    using clear_transaction_inv[OF inv own] by auto
  have loc: "hm_get (tx_locator ?m) t = Some s \<longleftrightarrow> t \<noteq> get_tx_id tx \<and> hm_get (tx_locator m) t = Some s" for s
  proof -
    have "hm_get (tx_locator m) (get_tx_id tx) = Some s \<Longrightarrow> s = sender tx" using own .
    then show ?thesis
      unfolding locator_bucket[OF inv'] locator_bucket[OF inv] b
      by (cases "s = sender tx") (auto simp: kept_of_set)
  qed
  then have "hm_get (tx_locator ?m) t = (if t = get_tx_id tx then None else hm_get (tx_locator m) t)"
    by (metis not_Some_eq)
  then show ?thesis
    unfolding find_bucket[OF inv'] find_bucket[OF inv] by (auto simp: b find_kept split: option.splits)
qed

section \<open>Properties\<close>





text \<open>Lookup by id is exact on a reachable pool: \<open>find_transaction_by_id\<close> finds a transaction
  under an id exactly when some pooled entry carries it, and after a block clears that
  transaction no lookup finds it any more while every other id is still found.\<close>

theorem lookup_after_clear:
  assumes "mempool_reachable ser ttl m" and "id_owned tx m"
  shows "find_transaction_by_id t (clear_transaction tx m)
    = (if t = get_tx_id tx then None else find_transaction_by_id t m)"
  by (rule clear_transaction_lookup[OF mempool_reachable_inv[OF assms(1)] id_ownedD[OF assms(2)]])

theorem lookup_after_clear_witness:
  "find_transaction_by_id (get_tx_id (sample_tx 1)) (clear_transaction (sample_tx 1) sample_pool) = None"
  using lookup_after_clear[OF sample_pool_reachable, of "sample_tx 1"]
  by (simp add: id_owned_def sample_pool_entry hm_get_def) (simp add: sample_tx_def)

text \<open>C21. The template selection is a duplicate-free part of the pool within the block limits: every
  selected entry is in the pool, no transaction id is selected twice, at most 2000
  transactions and 2 MB are selected, and the selection always terminates.\<close>

theorem selection_within_limits:
  assumes "mempool_reachable ser ttl m"
  shows "distinct (map me_tx_id (get_entries_for_block m))
    \<and> get_transactions_for_block m = map me_transaction (get_entries_for_block m)
    \<and> set (get_entries_for_block m) \<subseteq> {e. e \<in> set (bucket_of (pool_transactions m) (sender (me_transaction e)))}
    \<and> length (get_transactions_for_block m) \<le> MAX_TRANSACTIONS_PER_BLOCK
    \<and> sum_list (map me_size (get_entries_for_block m)) \<le> MAX_BLOCK_SIZE"
proof -
  have inv: "mempool_inv m" by (rule mempool_reachable_inv[OF assms])
  from select_loop_inv[OF inv first_offers_inv[OF inv]] show ?thesis
    by (auto simp: select_inv_def get_entries_for_block_def get_transactions_for_block_def entries_size_def)
qed

theorem selection_within_limits_witness:
  "length (get_transactions_for_block sample_pool) \<le> 2000"
  using selection_within_limits[OF sample_pool_reachable] unfolding MAX_TRANSACTIONS_PER_BLOCK_def
  by blast

end
