(* ===== verification/A9_Block.thy ===== *)
theory A9_Block
  imports A9_Transaction
begin

text \<open>
  Blocks (\<^verbatim>\<open>src/a9/blockchain.rs\<close>): the header and its hash, proof of work, the difficulty
  retarget, the Merkle commitment, system transactions and the request rate limiter.
\<close>

section \<open>Bytes\<close>

definition byte :: "nat \<Rightarrow> char" where
  "byte n = char_of (n mod 256)"

definition byte_val :: "char \<Rightarrow> nat" where
  "byte_val c = of_char c"

fun le_bytes :: "nat \<Rightarrow> nat \<Rightarrow> string" where
  "le_bytes 0 n = []"
| "le_bytes (Suc w) n = byte n # le_bytes w (n div 256)"

text \<open>\<open>BigUint::from_bytes_be\<close> and \<open>BigUint::to_bytes_be\<close> (no leading zero; zero is one byte).\<close>

definition from_bytes_be :: "string \<Rightarrow> nat" where
  "from_bytes_be bs = foldl (\<lambda>acc b. acc * 256 + byte_val b) 0 bs"

fun to_bytes_be :: "nat \<Rightarrow> string" where
  "to_bytes_be n = (if n < 256 then [byte n] else to_bytes_be (n div 256) @ [byte n])"

declare to_bytes_be.simps [simp del]

section \<open>Blocks\<close>

record block =
  index :: u32
  previous_hash :: string
  block_timestamp :: u64
  transactions :: "transaction list"
  nonce :: u64
  difficulty :: u64
  hash :: string
  merkle_root :: string

definition zero_hash :: string where
  "zero_hash = replicate 32 (CHR 0x00)"

definition header_data :: "block \<Rightarrow> string" where
  "header_data b = le_bytes 4 (index b) @ previous_hash b @ le_bytes 8 (block_timestamp b)
     @ le_bytes 8 (nonce b) @ le_bytes 8 (difficulty b) @ merkle_root b"

definition calculate_hash_for_block :: "crypto \<Rightarrow> block \<Rightarrow> string" where
  "calculate_hash_for_block c b = blake3 c (header_data b)"

section \<open>Proof of work\<close>

definition MAX_TARGET :: nat where
  "MAX_TARGET = 2 ^ 256 - 1"

definition pow_target_from_difficulty :: "u64 \<Rightarrow> nat" where
  "pow_target_from_difficulty d =
     (if d = 0 then MAX_TARGET
      else let exponent = d div 16 in
           if exponent \<ge> 256 then 0 else MAX_TARGET div 2 ^ exponent)"

definition pow_target_bytes :: "nat \<Rightarrow> string" where
  "pow_target_bytes target =
     (let raw = to_bytes_be target;
          len = min (length raw) 32
      in replicate (32 - len) (CHR 0x00) @ drop (length raw - len) raw)"

definition verify_pow :: "crypto \<Rightarrow> block \<Rightarrow> bool" where
  "verify_pow c b \<longleftrightarrow>
     from_bytes_be (calculate_hash_for_block c b) \<le> pow_target_from_difficulty (difficulty b)"

definition verify_difficulty_proof :: "crypto \<Rightarrow> block \<Rightarrow> bool" where
  "verify_difficulty_proof c b = verify_pow c b"

definition NETWORK_MIN_DIFFICULTY :: u64 where
  "NETWORK_MIN_DIFFICULTY = 464"

definition MAX_NETWORK_DIFFICULTY :: u64 where
  "MAX_NETWORK_DIFFICULTY = 4080"

definition verify_pow_meets_floor :: "crypto \<Rightarrow> block \<Rightarrow> bool" where
  "verify_pow_meets_floor c b =
     (if index b > 0 \<and> difficulty b < NETWORK_MIN_DIFFICULTY then False else verify_pow c b)"

definition MAX_BLOCK_FUTURE_TIME :: u64 where
  "MAX_BLOCK_FUTURE_TIME = 300"

definition validate_header :: "crypto \<Rightarrow> u64 \<Rightarrow> block \<Rightarrow> blockchain_error + unit" where
  "validate_header c now b =
     guard_err (index b = 0 \<and> previous_hash b \<noteq> zero_hash) InvalidBlockHeader
      (guard_err (block_timestamp b > now + MAX_BLOCK_FUTURE_TIME) InvalidBlockHeader
        (guard_err (calculate_hash_for_block c b \<noteq> hash b) InvalidHash
          (guard_err (\<not> verify_difficulty_proof c b) InvalidBlockHeader (Inr ()))))"

section \<open>Difficulty\<close>

definition TARGET_BLOCK_TIME :: u64 where
  "TARGET_BLOCK_TIME = 5"

definition DIFFICULTY_POINTS_PER_HALVING :: i128 where
  "DIFFICULTY_POINTS_PER_HALVING = 16"

definition DIFFICULTY_RETARGET_HALF_LIFE_SECS :: i128 where
  "DIFFICULTY_RETARGET_HALF_LIFE_SECS = 60"

definition GENESIS_LAUNCH_DIFFICULTY :: u64 where
  "GENESIS_LAUNCH_DIFFICULTY = 0"

definition div_round_away_from_zero :: "i128 \<Rightarrow> i128 \<Rightarrow> i128" where
  "div_round_away_from_zero numerator denominator =
     (if numerator = 0 then 0
      else trunc_div (i128_saturating_add \<bar>numerator\<bar> (i128_saturating_sub denominator 1)) denominator
           * sgn numerator)"

definition consensus_next_difficulty :: "u64 \<Rightarrow> u64 \<Rightarrow> u32 \<Rightarrow> u64" where
  "consensus_next_difficulty parent_difficulty timestamp_diff block_index =
     (if block_index = 0 then GENESIS_LAUNCH_DIFFICULTY
      else
        let current = min (max parent_difficulty NETWORK_MIN_DIFFICULTY) MAX_NETWORK_DIFFICULTY;
            timing_error = int TARGET_BLOCK_TIME - int timestamp_diff;
            numerator = i128_saturating_mul timing_error DIFFICULTY_POINTS_PER_HALVING;
            delta0 = div_round_away_from_zero numerator DIFFICULTY_RETARGET_HALF_LIFE_SECS;
            delta = (if delta0 = 0 \<and> timing_error \<noteq> 0 then sgn timing_error else delta0)
        in if delta \<ge> 0
           then min (saturating_add current (nat delta)) MAX_NETWORK_DIFFICULTY
           else let decrease = (if \<bar>delta\<bar> \<le> int u64_max then nat \<bar>delta\<bar> else u64_max)
                in max (saturating_sub current decrease) NETWORK_MIN_DIFFICULTY)"

section \<open>The Merkle commitment\<close>

definition calculate_merkle_leaf_hash :: "crypto \<Rightarrow> (transaction \<Rightarrow> string) \<Rightarrow> transaction \<Rightarrow> string" where
  "calculate_merkle_leaf_hash c serialize tx =
     (let tx_for_merkle =
        (if sender tx = ''MINING_REWARDS'' then tx
         else
           let h = (case sig_hash tx of
                      Some h \<Rightarrow> Some h
                    | None \<Rightarrow> Option.bind (signature tx) (\<lambda>sig_hex.
                        Option.bind (hex_decode c sig_hex) (\<lambda>sig_bytes.
                          if sig_bytes = [] then None else Some (signature_hash_hex c sig_bytes))))
           in case h of Some h \<Rightarrow> with_truncated_signature c tx h | None \<Rightarrow> tx)
      in sha256 c (serialize tx_for_merkle))"

fun merkle_level :: "(string \<Rightarrow> string) \<Rightarrow> string list \<Rightarrow> string list" where
  "merkle_level sha (x # y # rest) = sha (x @ y) # merkle_level sha rest"
| "merkle_level sha [x] = [sha x]"
| "merkle_level sha [] = []"

lemma merkle_level_length: "length (merkle_level sha xs) = (length xs + 1) div 2"
  by (induction sha xs rule: merkle_level.induct) auto

function merkle_climb :: "(string \<Rightarrow> string) \<Rightarrow> string list \<Rightarrow> string" where
  "merkle_climb sha current_level =
     (if length current_level > 1 then merkle_climb sha (merkle_level sha current_level)
      else hd current_level)"
  by pat_completeness auto
termination
  by (relation "measure (\<lambda>(_, xs). length xs)") (auto simp: merkle_level_length)

declare merkle_climb.simps [simp del]

definition empty_root :: "crypto \<Rightarrow> string" where
  "empty_root c = sha256 c ''empty_transactions_hash''"

definition calculate_merkle_root_from_leaf_hashes :: "crypto \<Rightarrow> string list \<Rightarrow> string" where
  "calculate_merkle_root_from_leaf_hashes c leaves =
     (if leaves = [] then empty_root c
      else if length leaves = 1 then sha256 c (hd leaves @ hd leaves)
      else merkle_climb (sha256 c) leaves)"

definition calculate_merkle_root :: "crypto \<Rightarrow> (transaction \<Rightarrow> string) \<Rightarrow> transaction list \<Rightarrow> string" where
  "calculate_merkle_root c serialize txs =
     (if txs = [] then empty_root c
      else calculate_merkle_root_from_leaf_hashes c (map (calculate_merkle_leaf_hash c serialize) txs))"

section \<open>System transactions\<close>

datatype system_transaction_type = MiningReward | GovernanceDistribution

definition same_transfer :: "transaction \<Rightarrow> transaction \<Rightarrow> bool" where
  "same_transfer a b \<longleftrightarrow> sender a = sender b \<and> recipient a = recipient b
     \<and> amount_units a = amount_units b \<and> fee_units a = fee_units b \<and> timestamp a = timestamp b"

definition verify_system_transaction :: "crypto \<Rightarrow> transaction \<Rightarrow> block \<Rightarrow> system_transaction_type
    \<Rightarrow> blockchain_error + unit" where
  "verify_system_transaction c tx b tx_type =
     guard_err (sender tx \<noteq> ''MINING_REWARDS'' \<or> tx_type \<noteq> MiningReward) InvalidSystemTransaction
      (guard_err (\<not> verify_pow c b) InvalidHash
        (guard_err (\<not> list_ex (\<lambda>block_tx. same_transfer block_tx tx) (transactions b))
           InvalidSystemTransaction
          (guard_err (signature tx \<noteq> None \<or> sig_hash tx \<noteq> None) InvalidTransactionSignature
            (Inr ()))))"

definition validate_transaction :: "crypto \<Rightarrow> i128 \<Rightarrow> block option \<Rightarrow> transaction
    \<Rightarrow> blockchain_error + unit" where
  "validate_transaction c sender_units blk tx =
     (if sender tx \<in> set SYSTEM_ADDRESSES then
        (case blk of
           None \<Rightarrow> Inl InvalidSystemTransaction
         | Some b \<Rightarrow>
             guard_err (\<not> verify_pow c b) InvalidHash
               (verify_system_transaction c tx b
                  (if sender tx = ''MINING_REWARDS'' then MiningReward else GovernanceDistribution)))
      else and_then (verify_balance sender_units tx) (\<lambda>_. verify_signature c tx))"

text \<open>The balances are those of the chain when the batch is checked, so each transaction of a
  sender is compared with the same balance.\<close>

definition validate_transactions_batch :: "crypto \<Rightarrow> (string \<Rightarrow> i128) \<Rightarrow> block \<Rightarrow> blockchain_error + unit" where
  "validate_transactions_batch c balance_of b =
     try_fold (\<lambda>_ tx. validate_transaction c (balance_of (sender tx)) (Some b) tx) () (transactions b)"

section \<open>The rate limiter\<close>

text \<open>Instants are numbers of a monotonic clock; \<open>checked_sub\<close> falls back to \<open>now\<close>.\<close>

record rate_limiter =
  windows :: "(string, nat list) hmap"
  window_size :: nat
  max_requests :: usize
  calls_since_sweep :: u64

definition admit_in_window :: "nat list \<Rightarrow> nat \<Rightarrow> nat \<Rightarrow> usize \<Rightarrow> bool \<times> nat list" where
  "admit_in_window stamps now cutoff max_req =
     (let stamps' = (if stamps \<noteq> [] \<and> hd stamps < cutoff
                    then dropWhile (\<lambda>t. t < cutoff) stamps else stamps)
      in if length stamps' \<ge> max_req then (False, stamps') else (True, stamps' @ [now]))"

definition check_limit :: "string \<Rightarrow> nat \<Rightarrow> rate_limiter \<Rightarrow> bool \<times> rate_limiter" where
  "check_limit address now rl =
     (let cutoff = (if window_size rl \<le> now then now - window_size rl else now);
          sweep = calls_since_sweep rl \<ge> 1024;
          rl1 = (if sweep
                 then rl\<lparr>calls_since_sweep := 0,
                         windows := hm_retain (\<lambda>_ v. v \<noteq> [] \<and> last v \<ge> cutoff) (windows rl)\<rparr>
                 else rl\<lparr>calls_since_sweep := calls_since_sweep rl + 1\<rparr>);
          stamps = (case hm_get (windows rl1) address of Some v \<Rightarrow> v | None \<Rightarrow> []);
          (ok, stamps') = admit_in_window stamps now cutoff (max_requests rl1)
      in (ok, rl1\<lparr>windows := hm_insert address stamps' (windows rl1)\<rparr>))"

section \<open>Byte strings and numbers\<close>

lemma byte_val_less: "byte_val b < 256"
  by (simp add: byte_val_def)

lemma byte_val_byte [simp]: "byte_val (byte n) = n mod 256"
  by (simp add: byte_val_def byte_def)

lemma byte_val_inj: "byte_val a = byte_val b \<longleftrightarrow> a = b"
  by (simp add: byte_val_def)

lemma length_le_bytes [simp]: "length (le_bytes w n) = w"
  by (induction w arbitrary: n) auto

lemma le_bytes_inj: "m < 256 ^ w \<Longrightarrow> n < 256 ^ w \<Longrightarrow> le_bytes w m = le_bytes w n \<Longrightarrow> m = n"
proof (induction w arbitrary: m n)
  case (Suc w)
  then have "m mod 256 = n mod 256" by (metis byte_val_byte le_bytes.simps(2) list.inject)
  moreover have "m div 256 = n div 256"
    using Suc by (auto simp: less_mult_imp_div_less mult.commute)
  ultimately show ?case by (metis div_mult_mod_eq)
qed simp

lemma from_bytes_be_append:
  "from_bytes_be (xs @ [b]) = from_bytes_be xs * 256 + byte_val b"
  by (simp add: from_bytes_be_def)

lemma from_to_bytes_be [simp]: "from_bytes_be (to_bytes_be n) = n"
proof (induction n rule: to_bytes_be.induct)
  case (1 n)
  then show ?case
    by (subst to_bytes_be.simps) (simp add: from_bytes_be_append, simp add: from_bytes_be_def)
qed

lemma to_bytes_be_length: "n < 256 ^ Suc w \<Longrightarrow> length (to_bytes_be n) \<le> Suc w"
proof (induction w arbitrary: n)
  case 0
  then show ?case by (simp add: to_bytes_be.simps)
next
  case (Suc w)
  then have "n div 256 < 256 ^ Suc w" by (simp add: less_mult_imp_div_less mult.commute)
  with Suc.IH[OF this] show ?case by (subst to_bytes_be.simps) simp
qed

lemma from_bytes_be_Cons: "from_bytes_be (b # bs) = byte_val b * 256 ^ length bs + from_bytes_be bs"
proof (induction bs rule: rev_induct)
  case Nil
  then show ?case by (simp add: from_bytes_be_def)
next
  case (snoc c bs)
  have "from_bytes_be (b # bs @ [c]) = from_bytes_be (b # bs) * 256 + byte_val c"
    using from_bytes_be_append[of "b # bs" c] by simp
  with snoc show ?case by (simp add: from_bytes_be_append algebra_simps)
qed

lemma from_bytes_be_zeros: "from_bytes_be (replicate k (CHR 0x00) @ bs) = from_bytes_be bs"
  by (induction k) (simp_all add: from_bytes_be_Cons byte_val_def)

lemma from_bytes_be_less: "from_bytes_be bs < 256 ^ length bs"
proof (induction bs)
  case (Cons b bs)
  have "byte_val b * 256 ^ length bs + from_bytes_be bs < (byte_val b + 1) * 256 ^ length bs"
    using Cons by simp
  also have "\<dots> \<le> 256 * 256 ^ length bs"
    using byte_val_less[of b] by (intro mult_right_mono) auto
  finally show ?case by (simp add: from_bytes_be_Cons)
qed (simp add: from_bytes_be_def)

text \<open>For strings of one length, the lexicographic order is the numeric one.\<close>

lemma lex_numeric:
  "length xs = length ys \<Longrightarrow> xs \<le> ys \<longleftrightarrow> from_bytes_be xs \<le> from_bytes_be ys"
proof (induction xs arbitrary: ys)
  case Nil
  then show ?case by (simp add: from_bytes_be_def)
next
  case (Cons x xs)
  then obtain y ys' where ys: "ys = y # ys'" "length xs = length ys'" by (cases ys) auto
  have lt: "byte_val a * 256 ^ length zs + from_bytes_be zs < byte_val b * 256 ^ length zs'+ from_bytes_be zs'"
    if "byte_val a < byte_val b" "length zs = length zs'" for a b zs zs'
  proof -
    have "byte_val a * 256 ^ length zs + from_bytes_be zs < (byte_val a + 1) * 256 ^ length zs"
      using from_bytes_be_less[of zs] by simp
    also have "\<dots> \<le> byte_val b * 256 ^ length zs" using that(1) by (intro mult_right_mono) auto
    finally show ?thesis using that(2) by simp
  qed
  have ord: "x < y \<longleftrightarrow> byte_val x < byte_val y" by (simp add: less_char_def byte_val_def)
  show ?case
  proof (cases "x = y")
    case True
    with Cons ys show ?thesis by (simp add: from_bytes_be_Cons)
  next
    case False
    then have "byte_val x \<noteq> byte_val y" by (simp add: byte_val_inj)
    with False lt[of x y xs ys'] lt[of y x ys' xs] ys ord show ?thesis
      by (cases "byte_val x < byte_val y") (auto simp: from_bytes_be_Cons)
  qed
qed

lemma pow_target_bytes_exact:
  assumes "t < 2 ^ 256"
  shows "length (pow_target_bytes t) = 32" "from_bytes_be (pow_target_bytes t) = t"
proof -
  have "t < 256 ^ Suc 31" using assms by simp
  from to_bytes_be_length[OF this] have "length (to_bytes_be t) \<le> 32" by simp
  then show "length (pow_target_bytes t) = 32" "from_bytes_be (pow_target_bytes t) = t"
    by (simp_all add: pow_target_bytes_def Let_def min_def from_bytes_be_zeros)
qed

section \<open>The header commitment\<close>

definition header_fits :: "block \<Rightarrow> bool" where
  "header_fits b \<longleftrightarrow> index b < 256 ^ 4 \<and> length (previous_hash b) = 32 \<and> block_timestamp b < 256 ^ 8
     \<and> nonce b < 256 ^ 8 \<and> difficulty b < 256 ^ 8 \<and> length (merkle_root b) = 32"

definition same_header :: "block \<Rightarrow> block \<Rightarrow> bool" where
  "same_header a b \<longleftrightarrow> index a = index b \<and> previous_hash a = previous_hash b
     \<and> block_timestamp a = block_timestamp b \<and> nonce a = nonce b \<and> difficulty a = difficulty b
     \<and> merkle_root a = merkle_root b"

lemma header_data_inj:
  assumes "header_fits a" and "header_fits b" and "header_data a = header_data b"
  shows "same_header a b"
proof -
  have "le_bytes 4 (index a) = le_bytes 4 (index b)" "previous_hash a = previous_hash b"
    "le_bytes 8 (block_timestamp a) = le_bytes 8 (block_timestamp b)"
    "le_bytes 8 (nonce a) = le_bytes 8 (nonce b)" "le_bytes 8 (difficulty a) = le_bytes 8 (difficulty b)"
    "merkle_root a = merkle_root b"
    using assms unfolding header_data_def header_fits_def by simp_all
  then show ?thesis
    using assms le_bytes_inj[of _ 4] le_bytes_inj[of _ 8] unfolding header_fits_def same_header_def by blast
qed

section \<open>Difficulty arithmetic\<close>

lemma max_target_less: "pow_target_from_difficulty d < 2 ^ 256"
proof -
  have "pow_target_from_difficulty d \<le> MAX_TARGET"
    by (simp add: pow_target_from_difficulty_def Let_def)
  also have "MAX_TARGET < 2 ^ 256" by (simp add: MAX_TARGET_def)
  finally show ?thesis .
qed

lemma pow_target_antimono: "d \<le> d' \<Longrightarrow> pow_target_from_difficulty d' \<le> pow_target_from_difficulty d"
proof -
  assume "d \<le> d'"
  then have "(2::nat) ^ (d div 16) \<le> 2 ^ (d' div 16)" by (intro power_increasing div_le_mono) auto
  then have "MAX_TARGET div 2 ^ (d' div 16) \<le> MAX_TARGET div 2 ^ (d div 16)"
    by (rule div_le_mono2[rotated]) simp
  moreover have "MAX_TARGET div 2 ^ (d' div 16) \<le> MAX_TARGET" by simp
  moreover have "d div 16 \<le> d' div 16" using \<open>d \<le> d'\<close> by (rule div_le_mono)
  ultimately show ?thesis
    using \<open>d \<le> d'\<close> unfolding pow_target_from_difficulty_def Let_def by auto
qed

text \<open>The retarget, without the machine arithmetic: one point for every started 3.75 seconds of
  error, in the direction of the error, inside the network range.\<close>

definition retarget_step :: "u64 \<Rightarrow> nat" where
  "retarget_step gap = (gap * 16 + 59) div 60"

lemma div_round_away_values:
  assumes "\<bar>e\<bar> \<le> 2 ^ 64"
  shows "div_round_away_from_zero (i128_saturating_mul e 16) 60 = sgn e * int ((nat \<bar>e\<bar> * 16 + 59) div 60)"
proof (cases "e = 0")
  case True
  then show ?thesis
    by (simp add: div_round_away_from_zero_def i128_saturating_mul_def i128_clamp_def i128_max_def i128_min_def)
next
  case False
  have m: "i128_saturating_mul e 16 = e * 16"
    using assms by (auto simp: i128_saturating_mul_def i128_clamp_def i128_max_def i128_min_def)
  have "i128_saturating_add \<bar>e * 16\<bar> (i128_saturating_sub 60 1) = \<bar>e\<bar> * 16 + 59"
    using assms by (auto simp: i128_saturating_add_def i128_saturating_sub_def i128_clamp_def
        i128_max_def i128_min_def abs_mult)
  moreover have "int ((nat \<bar>e\<bar> * 16 + 59) div 60) = (\<bar>e\<bar> * 16 + 59) div 60"
    by (simp add: zdiv_int)
  ultimately show ?thesis
    using False by (simp add: m div_round_away_from_zero_def trunc_div_nonneg sgn_mult mult.commute)
qed

lemma next_difficulty_spec:
  assumes "block_index \<noteq> 0" and "timestamp_diff \<le> u64_max"
  shows "consensus_next_difficulty parent timestamp_diff block_index =
    (let current = min (max parent 464) 4080 in
     if timestamp_diff \<le> 5 then min (current + retarget_step (5 - timestamp_diff)) 4080
     else max (current - retarget_step (timestamp_diff - 5)) 464)"
proof -
  let ?e = "5 - int timestamp_diff"
  have "\<bar>?e\<bar> \<le> 2 ^ 64" using assms(2) by (auto simp: u64_max_def)
  note d = div_round_away_values[OF this]
  let ?k = "(nat \<bar>?e\<bar> * 16 + 59) div 60"
  have k: "?k = (if timestamp_diff \<le> 5 then retarget_step (5 - timestamp_diff)
      else retarget_step (timestamp_diff - 5))"
    by (auto simp: retarget_step_def nat_diff_distrib' of_nat_diff)
  have k0: "0 < ?k" if "?e \<noteq> 0"
    using that by (auto simp: div_greater_zero_iff)
  have kb: "?k \<le> u64_max" using assms(2) by (auto simp: u64_max_def)
  have small: "retarget_step (5 - timestamp_diff) \<le> 2" by (auto simp: retarget_step_def)
  consider "timestamp_diff < 5" | "timestamp_diff = 5" | "timestamp_diff > 5" by linarith
  then show ?thesis
  proof cases
    case 1
    then have "sgn ?e = 1" "?e \<noteq> 0" by auto
    moreover have "saturating_add (min (max parent 464) 4080) (retarget_step (5 - timestamp_diff))
        = min (max parent 464) 4080 + retarget_step (5 - timestamp_diff)"
      using small by (intro saturating_add_exact) (simp add: u64_max_def)
    ultimately show ?thesis using d k0 k 1 assms(1)
      by (simp add: consensus_next_difficulty_def Let_def TARGET_BLOCK_TIME_def
          DIFFICULTY_POINTS_PER_HALVING_def DIFFICULTY_RETARGET_HALF_LIFE_SECS_def
          NETWORK_MIN_DIFFICULTY_def MAX_NETWORK_DIFFICULTY_def)
  next
    case 2
    with d assms(1) show ?thesis
      by (simp add: consensus_next_difficulty_def Let_def TARGET_BLOCK_TIME_def
          DIFFICULTY_POINTS_PER_HALVING_def DIFFICULTY_RETARGET_HALF_LIFE_SECS_def
          NETWORK_MIN_DIFFICULTY_def MAX_NETWORK_DIFFICULTY_def rust_arith u64_max_def retarget_step_def)
  next
    case 3
    then have "sgn ?e = - 1" "?e \<noteq> 0" by auto
    with d k0 k kb 3 assms(1) show ?thesis
      by (simp add: consensus_next_difficulty_def Let_def TARGET_BLOCK_TIME_def
          DIFFICULTY_POINTS_PER_HALVING_def DIFFICULTY_RETARGET_HALF_LIFE_SECS_def
          NETWORK_MIN_DIFFICULTY_def MAX_NETWORK_DIFFICULTY_def rust_arith)
  qed
qed

section \<open>The Merkle tree commits to its leaves\<close>

text \<open>The byte strings hashed while the root is computed; two roots can only agree by accident if
  two of these collide.\<close>

fun level_inputs :: "string list \<Rightarrow> string list" where
  "level_inputs (x # y # rest) = (x @ y) # level_inputs rest"
| "level_inputs [x] = [x]"
| "level_inputs [] = []"

function climb_inputs :: "(string \<Rightarrow> string) \<Rightarrow> string list \<Rightarrow> string list" where
  "climb_inputs sha xs =
     (if length xs > 1 then level_inputs xs @ climb_inputs sha (merkle_level sha xs) else [])"
  by pat_completeness auto
termination
  by (relation "measure (\<lambda>(_, xs). length xs)") (auto simp: merkle_level_length)

declare climb_inputs.simps [simp del]

definition merkle_inputs :: "crypto \<Rightarrow> string list \<Rightarrow> string list" where
  "merkle_inputs c leaves =
     (if length leaves = 1 then [hd leaves @ hd leaves] else climb_inputs (sha256 c) leaves)"

definition collision_in :: "(string \<Rightarrow> string) \<Rightarrow> string list \<Rightarrow> string list \<Rightarrow> bool" where
  "collision_in h xs ys \<longleftrightarrow> list_ex (\<lambda>x. list_ex (\<lambda>y. x \<noteq> y \<and> h x = h y) ys) xs"

lemma collision_in_append:
  "collision_in h xs ys \<Longrightarrow> collision_in h (xs @ xs') (ys @ ys')"
  "collision_in h xs' ys' \<Longrightarrow> collision_in h (xs @ xs') (ys @ ys')"
  by (auto simp: collision_in_def list_ex_iff)

lemma merkle_level_binds:
  assumes "length xs = length ys" and "\<forall>x \<in> set xs. length x = 32" and "\<forall>y \<in> set ys. length y = 32"
    and "merkle_level sha xs = merkle_level sha ys"
  shows "xs = ys \<or> collision_in sha (level_inputs xs) (level_inputs ys)"
  using assms
proof (induction sha xs arbitrary: ys rule: merkle_level.induct)
  case (1 sha x y rest)
  then obtain a b more where ys: "ys = a # b # more" by (cases ys rule: level_inputs.cases) auto
  with 1 have "rest = more \<or> collision_in sha (level_inputs rest) (level_inputs more)" by auto
  with 1(2-5) ys show ?case by (auto simp: collision_in_def list_ex_iff)
next
  case (2 sha x)
  then show ?case by (cases ys rule: level_inputs.cases) (auto simp: collision_in_def)
qed simp

lemma merkle_level_sizes:
  "\<forall>x. length (sha x) = 32 \<Longrightarrow> \<forall>x \<in> set (merkle_level sha xs). length x = 32"
  by (induction sha xs rule: merkle_level.induct) auto

lemma merkle_climb_binds:
  assumes "\<forall>x. length (sha x) = 32"
    and "length xs = length ys" "xs \<noteq> []" "\<forall>x \<in> set xs. length x = 32" "\<forall>y \<in> set ys. length y = 32"
    and "merkle_climb sha xs = merkle_climb sha ys"
  shows "xs = ys \<or> collision_in sha (climb_inputs sha xs) (climb_inputs sha ys)"
  using assms
proof (induction sha xs arbitrary: ys rule: merkle_climb.induct)
  case (1 sha xs)
  show ?case
  proof (cases "length xs > 1")
    case False
    with 1(3,4,7) show ?thesis
      by (cases xs; cases ys) (auto simp: merkle_climb.simps)
  next
    case True
    let ?l = "merkle_level sha"
    have "?l xs = ?l ys \<or> collision_in sha (climb_inputs sha (?l xs)) (climb_inputs sha (?l ys))"
    proof (rule 1(1)[OF True 1(2)])
      show "length (?l xs) = length (?l ys)" using 1(3) by (simp add: merkle_level_length)
      show "?l xs \<noteq> []" using 1(4) by (cases xs rule: level_inputs.cases) auto
      show "merkle_climb sha (?l xs) = merkle_climb sha (?l ys)"
        using 1(3,7) True by (simp add: merkle_climb.simps[of sha xs] merkle_climb.simps[of sha ys])
    qed (use merkle_level_sizes[OF 1(2)] in auto)
    with merkle_level_binds[OF 1(3,5,6)] show ?thesis
      using True 1(3)
      by (auto simp: climb_inputs.simps[of sha xs] climb_inputs.simps[of sha ys]
          intro: collision_in_append)
  qed
qed

lemma merkle_root_binds:
  assumes "\<forall>x. length (sha256 c x) = 32" and "length xs = length ys"
    and "\<forall>x \<in> set xs. length x = 32" "\<forall>y \<in> set ys. length y = 32"
    and "calculate_merkle_root_from_leaf_hashes c xs = calculate_merkle_root_from_leaf_hashes c ys"
  shows "xs = ys \<or> collision_in (sha256 c) (merkle_inputs c xs) (merkle_inputs c ys)"
proof (cases "length xs \<le> 1")
  case False
  then have "xs \<noteq> []" "ys \<noteq> []" using assms(2) by auto
  with False merkle_climb_binds[OF assms(1,2) _ assms(3,4)] assms(2,5) show ?thesis
    by (auto simp: calculate_merkle_root_from_leaf_hashes_def merkle_inputs_def split: if_splits)
next
  case True
  then show ?thesis
    using assms
    by (cases xs; cases ys)
      (auto simp: calculate_merkle_root_from_leaf_hashes_def merkle_inputs_def collision_in_def)
qed

text \<open>The commitment does not bind the number of leaves: a lone leaf is duplicated, so it has the
  root of the same leaf written twice.\<close>

lemma merkle_lone_leaf:
  "calculate_merkle_root_from_leaf_hashes c [x] = calculate_merkle_root_from_leaf_hashes c [x, x]"
  by (simp add: calculate_merkle_root_from_leaf_hashes_def merkle_climb.simps)

text \<open>Truncating the stored signature does not change the leaf of a transaction that carries its
  signature hash.\<close>

lemma leaf_hash_truncation_stable:
  assumes hex: "\<And>x. hex_decode c (hex_encode c x) = Some x"
    and s: "sender tx \<noteq> ''MINING_REWARDS''" and h: "sig_hash tx = Some h"
    and d: "signature tx = Some sg" "hex_decode c sg = Some bytes"
  shows "calculate_merkle_leaf_hash c ser (with_truncated_signature c tx h)
    = calculate_merkle_leaf_hash c ser tx"
  using s h d by (simp add: calculate_merkle_leaf_hash_def with_truncated_signature_def hex)

section \<open>Properties\<close>

text \<open>The block hash binds the whole header: if two well-sized headers have the same hash, they
  agree on index, parent, timestamp, nonce, difficulty and Merkle root, or the two 92-byte
  header strings are a collision of BLAKE3.\<close>

theorem block_hash_binds_header:
  assumes "header_fits a" and "header_fits b"
    and "calculate_hash_for_block c a = calculate_hash_for_block c b"
  shows "same_header a b \<or> collision_in (blake3 c) [header_data a] [header_data b]"
  using assms header_data_inj by (auto simp: calculate_hash_for_block_def collision_in_def)

definition sample_crypto :: crypto where
  "sample_crypto = \<lparr>sha256 = (\<lambda>x. take 32 (x @ replicate 32 (CHR 0x00))),
     blake3 = (\<lambda>x. take 32 (x @ replicate 32 (CHR 0x00))), hex_encode = id, hex_decode = Some,
     mldsa_verify = (\<lambda>_ _ _. True)\<rparr>"

definition sample_block :: "nat \<Rightarrow> block" where
  "sample_block i = \<lparr>index = i, previous_hash = zero_hash, block_timestamp = 10, transactions = [],
     nonce = 0, difficulty = 464, hash = zero_hash, merkle_root = zero_hash\<rparr>"

theorem block_hash_binds_header_witness:
  "same_header (sample_block 1) (sample_block 1)
    \<or> collision_in (blake3 sample_crypto) [header_data (sample_block 1)] [header_data (sample_block 1)]"
  by (rule block_hash_binds_header) (simp_all add: header_fits_def sample_block_def zero_hash_def)

text \<open>C14. The retarget is exactly one point per started 3.75 seconds away from the five-second
  target, up when the block was early and down when it was late, always inside the network
  range 464 to 4080 and at most two points up; none of the saturating or truncating
  operations of the code changes that result.\<close>

theorem next_difficulty_exact:
  assumes "block_index \<noteq> 0" and "timestamp_diff \<le> u64_max"
  shows "consensus_next_difficulty parent timestamp_diff block_index =
    (let current = min (max parent 464) 4080 in
     if timestamp_diff \<le> 5 then min (current + retarget_step (5 - timestamp_diff)) 4080
     else max (current - retarget_step (timestamp_diff - 5)) 464)
    \<and> consensus_next_difficulty parent timestamp_diff block_index \<in> {464..4080}
    \<and> consensus_next_difficulty parent timestamp_diff block_index \<le> min (max parent 464) 4080 + 2"
proof -
  have "retarget_step (5 - timestamp_diff) \<le> 2" by (auto simp: retarget_step_def)
  moreover define cur where "cur = min (max parent 464) 4080"
  moreover have "464 \<le> cur" "cur \<le> 4080" by (simp_all add: cur_def)
  ultimately show ?thesis unfolding next_difficulty_spec[OF assms] Let_def by auto
qed

theorem next_difficulty_exact_witness: "consensus_next_difficulty 1000 20 1 = 996"
  using next_difficulty_exact[of 1 20 1000] by (simp add: u64_max_def retarget_step_def)

text \<open>Proof of work is a byte comparison with a floor: on a 32-byte hash the numeric test of
  \<open>verify_pow\<close> is the lexicographic comparison with \<open>pow_target_bytes\<close> that the mining loop
  uses, and a non-genesis block that passes the ingress check has a hash below \<open>2\<^sup>2\<^sup>2\<^sup>7\<close>
  whatever difficulty it declares.\<close>

theorem pow_byte_comparison:
  assumes "length (calculate_hash_for_block c b) = 32"
  shows "(verify_pow c b \<longleftrightarrow>
      calculate_hash_for_block c b \<le> pow_target_bytes (pow_target_from_difficulty (difficulty b)))
    \<and> (verify_pow_meets_floor c b \<and> index b > 0 \<longrightarrow>
      from_bytes_be (calculate_hash_for_block c b) < 2 ^ 227)"
proof (intro conjI impI)
  note t = pow_target_bytes_exact[OF max_target_less[of "difficulty b"]]
  show "verify_pow c b \<longleftrightarrow>
      calculate_hash_for_block c b \<le> pow_target_bytes (pow_target_from_difficulty (difficulty b))"
    unfolding verify_pow_def using lex_numeric[of "calculate_hash_for_block c b"] assms t by simp
next
  assume "verify_pow_meets_floor c b \<and> index b > 0"
  then have "464 \<le> difficulty b" "verify_pow c b"
    by (auto simp: verify_pow_meets_floor_def NETWORK_MIN_DIFFICULTY_def split: if_splits)
  then have "from_bytes_be (calculate_hash_for_block c b) \<le> pow_target_from_difficulty 464"
    unfolding verify_pow_def using pow_target_antimono le_trans by blast
  also have "\<dots> < 2 ^ 227" by (simp add: pow_target_from_difficulty_def MAX_TARGET_def)
  finally show "from_bytes_be (calculate_hash_for_block c b) < 2 ^ 227" .
qed

theorem pow_byte_comparison_witness:
  "verify_pow sample_crypto (sample_block 1) \<longleftrightarrow>
     calculate_hash_for_block sample_crypto (sample_block 1) \<le> pow_target_bytes (pow_target_from_difficulty 464)"
proof -
  have "length (calculate_hash_for_block sample_crypto (sample_block 1)) = 32"
    by (simp add: calculate_hash_for_block_def sample_crypto_def)
  from pow_byte_comparison[OF this] show ?thesis by (simp add: sample_block_def)
qed

text \<open>C16. The Merkle root commits to the leaves: two lists of the same number of 32-byte leaf
  hashes with the same root are the same list, or two of the strings hashed on the way up
  are a collision of SHA-256.\<close>

theorem merkle_root_commits:
  assumes "\<forall>x. length (sha256 c x) = 32" and "length xs = length ys"
    and "\<forall>x \<in> set xs. length x = 32" and "\<forall>y \<in> set ys. length y = 32"
    and "calculate_merkle_root_from_leaf_hashes c xs = calculate_merkle_root_from_leaf_hashes c ys"
  shows "xs = ys \<or> collision_in (sha256 c) (merkle_inputs c xs) (merkle_inputs c ys)"
  using assms by (rule merkle_root_binds)

theorem merkle_root_commits_witness:
  "collision_in (sha256 sample_crypto)
     (merkle_inputs sample_crypto [zero_hash, zero_hash, replicate 32 (CHR ''a'')])
     (merkle_inputs sample_crypto [zero_hash, replicate 32 (CHR ''b''), replicate 32 (CHR ''a'')])"
proof -
  let ?xs = "[zero_hash, zero_hash, replicate 32 (CHR ''a'')]"
  let ?ys = "[zero_hash, replicate 32 (CHR ''b''), replicate 32 (CHR ''a'')]"
  have "calculate_merkle_root_from_leaf_hashes sample_crypto ?xs
      = calculate_merkle_root_from_leaf_hashes sample_crypto ?ys"
    by (simp add: calculate_merkle_root_from_leaf_hashes_def merkle_climb.simps sample_crypto_def
        zero_hash_def)
  moreover have "\<forall>x. length (sha256 sample_crypto x) = 32" by (auto simp: sample_crypto_def min_def)
  moreover have "?xs \<noteq> ?ys" "\<forall>x \<in> set ?xs. length x = 32" "\<forall>x \<in> set ?ys. length x = 32"
    by (simp_all add: zero_hash_def)
  ultimately show ?thesis using merkle_root_commits[of sample_crypto ?xs ?ys] by simp
qed

text \<open>Storing a block with truncated signatures does not change its commitment: the leaf hash of
  a signed transaction equals that of its truncated form, because both are normalised to the
  64-byte prefix and the signature hash before hashing.\<close>

theorem merkle_leaf_truncation:
  assumes "\<forall>x. hex_decode c (hex_encode c x) = Some x"
    and "sender tx \<noteq> ''MINING_REWARDS''" and "sig_hash tx = Some h"
    and "signature tx = Some sg" and "hex_decode c sg = Some bytes"
  shows "calculate_merkle_leaf_hash c ser (with_truncated_signature c tx h)
    = calculate_merkle_leaf_hash c ser tx"
  using assms by (intro leaf_hash_truncation_stable) auto

theorem merkle_leaf_truncation_witness:
  "let tx = \<lparr>sender = ''a'', recipient = ''b'', fee_units = 1, amount_units = 600, timestamp = 7,
      signature = Some (replicate 100 (CHR ''x'')), pub_key = None, sig_hash = Some ''h''\<rparr>
   in calculate_merkle_leaf_hash sample_crypto (\<lambda>t. concat (case signature t of None \<Rightarrow> [] | Some s \<Rightarrow> [s]))
        (with_truncated_signature sample_crypto tx ''h'')
      = calculate_merkle_leaf_hash sample_crypto (\<lambda>t. concat (case signature t of None \<Rightarrow> [] | Some s \<Rightarrow> [s])) tx"
  unfolding Let_def by (rule merkle_leaf_truncation) (simp_all add: sample_crypto_def)

end
