(* ===== verification/A9_Balances.thy ===== *)
theory A9_Balances
  imports A9_Block
begin

text \<open>
  Confirmed balances (\<^verbatim>\<open>src/a9/blockchain.rs\<close>): the replay of blocks with the coinbase-maturity
  overlay, its arithmetic inverse, the state at a fork boundary, and the overlay computed by
  scanning stored blocks.  A block store is a function from heights to blocks (\<open>None\<close>: the
  block does not load).  Balances are \<open>int\<close>: they are sums of amounts of at most
  \<open>2\<^sup>6\<^sup>3\<close> units, far inside \<open>i128\<close>.
\<close>

section \<open>Balance maps\<close>

text \<open>\<open>h as u32\<close>\<close>

definition as_u32 :: "u64 \<Rightarrow> u32" where
  "as_u32 n = n mod (u32_max + 1)"

type_synonym balances = "(string, i128) hmap"

type_synonym recent_rewards = "(u32 \<times> string \<times> i128) list"

definition bal :: "balances \<Rightarrow> string \<Rightarrow> i128" where
  "bal m a = (case hm_get m a of Some v \<Rightarrow> v | None \<Rightarrow> 0)"

text \<open>\<open>*balances.entry(a).or_insert(0) += x\<close>\<close>

definition credit :: "string \<Rightarrow> i128 \<Rightarrow> balances \<Rightarrow> balances" where
  "credit a x m = hm_insert a (bal m a + x) m"

lemma bal_credit: "bal (credit a x m) b = (if b = a then bal m b + x else bal m b)"
  by (simp add: bal_def credit_def hm_simps)

section \<open>Replay\<close>

definition MINING_REWARD_MATURITY :: u32 where
  "MINING_REWARD_MATURITY = 100"

definition MATURITY_ACTIVATION_HEIGHT :: u32 where
  "MATURITY_ACTIVATION_HEIGHT = 1500"

definition is_coinbase :: "transaction \<Rightarrow> bool" where
  "is_coinbase tx \<longleftrightarrow> sender tx = ''MINING_REWARDS''"

definition drop_mature :: "u32 \<Rightarrow> recent_rewards \<Rightarrow> recent_rewards" where
  "drop_mature h recent =
     dropWhile (\<lambda>(rh, _, _). saturating_add rh MINING_REWARD_MATURITY \<le> h) recent"

definition immature_of :: "string \<Rightarrow> recent_rewards \<Rightarrow> i128" where
  "immature_of a recent = sum_list (map (\<lambda>(_, _, x). x) (filter (\<lambda>(_, r, _). r = a) recent))"

definition replay_tx :: "u32 \<Rightarrow> balances \<times> recent_rewards \<Rightarrow> transaction
    \<Rightarrow> blockchain_error + (balances \<times> recent_rewards)" where
  "replay_tx block_height st tx =
     (let (m, recent) = st in
      if is_coinbase tx
      then Inr (credit (recipient tx) (amount_units tx) m,
                recent @ [(block_height, recipient tx, amount_units tx)])
      else
        let debit = total_debit_units tx;
            immature = (if block_height \<ge> MATURITY_ACTIVATION_HEIGHT
                        then immature_of (sender tx) recent else 0)
        in if bal m (sender tx) - immature < debit then Inl InsufficientFunds
           else Inr (credit (recipient tx) (amount_units tx) (credit (sender tx) (- debit) m), recent))"

definition replay_apply_block_checked :: "u32 \<Rightarrow> transaction list \<Rightarrow> balances \<times> recent_rewards
    \<Rightarrow> blockchain_error + (balances \<times> recent_rewards)" where
  "replay_apply_block_checked block_height txs st =
     (let (m, recent) = st
      in try_fold (replay_tx block_height) (m, drop_mature block_height recent) txs)"

definition revert_tx :: "transaction \<Rightarrow> balances \<Rightarrow> balances" where
  "revert_tx tx m =
     (if is_coinbase tx then credit (recipient tx) (- amount_units tx) m
      else credit (recipient tx) (- amount_units tx) (credit (sender tx) (total_debit_units tx) m))"

definition replay_revert_block :: "transaction list \<Rightarrow> balances \<Rightarrow> balances" where
  "replay_revert_block txs m = fold revert_tx txs m"

text \<open>A replay of consecutive blocks.\<close>

definition replay_blocks :: "block list \<Rightarrow> balances \<times> recent_rewards
    \<Rightarrow> blockchain_error + (balances \<times> recent_rewards)" where
  "replay_blocks bs st =
     try_fold (\<lambda>st b. replay_apply_block_checked (index b) (transactions b) st) st bs"

section \<open>The state at a fork\<close>

definition touched_by :: "transaction list \<Rightarrow> string list" where
  "touched_by txs = concat (map (\<lambda>tx. (if is_coinbase tx then [] else [sender tx]) @ [recipient tx]) txs)"

text \<open>\<open>None\<close> when some block of the list does not load.\<close>

fun load_blocks :: "(u32 \<Rightarrow> block option) \<Rightarrow> u32 list \<Rightarrow> block list option" where
  "load_blocks get_block [] = Some []"
| "load_blocks get_block (h # hs) =
     (case get_block h of
        None \<Rightarrow> None
      | Some b \<Rightarrow> map_option ((#) b) (load_blocks get_block hs))"

definition coinbase_rewards :: "block \<Rightarrow> recent_rewards" where
  "coinbase_rewards b =
     map (\<lambda>tx. (index b, recipient tx, amount_units tx)) (filter is_coinbase (transactions b))"

text \<open>The balances index is a map with the height it covers.\<close>

definition balances_at_fork_state :: "(u32 \<Rightarrow> block option) \<Rightarrow> balances \<Rightarrow> u64 option \<Rightarrow> u32 \<Rightarrow> u32
    \<Rightarrow> block list \<Rightarrow> (balances \<times> recent_rewards) option" where
  "balances_at_fork_state get_block tree marker fork_start old_tip branch =
     (if fork_start = 0 \<or> fork_start > old_tip then None
      else if marker \<noteq> Some old_tip then None
      else case load_blocks get_block [fork_start..<old_tip + 1] of
             None \<Rightarrow> None
           | Some reverted_blocks \<Rightarrow>
               (let touched = remdups (concat (map (\<lambda>b. touched_by (transactions b)) (reverted_blocks @ branch)));
                    m0 = map (\<lambda>a. (a, bal tree a)) touched;
                    m = fold (\<lambda>b. replay_revert_block (transactions b)) reverted_blocks m0
                in case load_blocks get_block [saturating_sub fork_start MINING_REWARD_MATURITY..<fork_start] of
                     None \<Rightarrow> None
                   | Some seed \<Rightarrow> Some (m, concat (map coinbase_rewards seed))))"

section \<open>The overlay by scanning\<close>

definition immature_coinbase_details :: "(u32 \<Rightarrow> block option) \<Rightarrow> string \<Rightarrow> u64 \<Rightarrow> transaction list
    \<Rightarrow> (u32 \<times> i128) list" where
  "immature_coinbase_details get_block address spend_height in_flight =
     (if as_u32 spend_height < MATURITY_ACTIVATION_HEIGHT then []
      else
        let low = saturating_add (saturating_sub spend_height MINING_REWARD_MATURITY) 1 in
        concat (map (\<lambda>rh. case get_block (as_u32 rh) of
                   None \<Rightarrow> []
                 | Some b \<Rightarrow> map (\<lambda>tx. (as_u32 rh, amount_units tx))
                     (filter (\<lambda>tx. is_coinbase tx \<and> recipient tx = address) (transactions b)))
                 [low..<spend_height])
        @ map (\<lambda>tx. (as_u32 spend_height, amount_units tx))
            (filter (\<lambda>tx. is_coinbase tx \<and> recipient tx = address) in_flight))"

definition immature_reward_units_scan :: "(u32 \<Rightarrow> block option) \<Rightarrow> string \<Rightarrow> u64 \<Rightarrow> transaction list
    \<Rightarrow> i128" where
  "immature_reward_units_scan get_block address spend_height in_flight =
     sum_list (map snd (immature_coinbase_details get_block address spend_height in_flight))"

definition immature_rewards_by_recipient :: "(u32 \<Rightarrow> block option) \<Rightarrow> transaction list \<Rightarrow> u32 \<Rightarrow> balances" where
  "immature_rewards_by_recipient get_block txs spend_height =
     (if \<not> list_ex (\<lambda>tx. \<not> is_coinbase tx) txs \<or> spend_height < MATURITY_ACTIVATION_HEIGHT then []
      else
        let low = saturating_add (saturating_sub spend_height MINING_REWARD_MATURITY) 1 in
        fold (\<lambda>rh m. case get_block (as_u32 rh) of
                None \<Rightarrow> m
              | Some b \<Rightarrow> fold (\<lambda>tx m. if is_coinbase tx then credit (recipient tx) (amount_units tx) m else m)
                  (transactions b) m)
          [low..<spend_height] [])"

section \<open>Structural authentication\<close>

text \<open>Every failure is \<open>CanonicalCorruption\<close> with the height; the reason text is not modelled.\<close>

definition load_structurally_valid_canonical_block :: "crypto \<Rightarrow> (transaction \<Rightarrow> string) \<Rightarrow> (u32 \<Rightarrow> block option)
    \<Rightarrow> u32 \<Rightarrow> block option \<Rightarrow> blockchain_error + block" where
  "load_structurally_valid_canonical_block c serialize get_block height previous =
     (case get_block height of
        None \<Rightarrow> Inl (CanonicalCorruption height)
      | Some b \<Rightarrow>
          guard_err (index b \<noteq> height) (CanonicalCorruption height)
           (guard_err (case previous of
                         Some parent \<Rightarrow> previous_hash b \<noteq> hash parent \<or> block_timestamp b < block_timestamp parent
                       | None \<Rightarrow> height = 0 \<and> previous_hash b \<noteq> zero_hash) (CanonicalCorruption height)
             (guard_err (calculate_merkle_root c serialize (transactions b) \<noteq> merkle_root b)
                (CanonicalCorruption height)
               (guard_err (calculate_hash_for_block c b \<noteq> hash b) (CanonicalCorruption height) (Inr b)))))"

fun validate_rows :: "(u32 \<Rightarrow> block option \<Rightarrow> blockchain_error + block) \<Rightarrow> u32 list \<Rightarrow> block option
    \<Rightarrow> blockchain_error + unit" where
  "validate_rows load [] previous = Inr ()"
| "validate_rows load (h # hs) previous = and_then (load h previous) (\<lambda>b. validate_rows load hs (Some b))"

definition validate_canonical_chain_structure :: "crypto \<Rightarrow> (transaction \<Rightarrow> string) \<Rightarrow> (u32 \<Rightarrow> block option)
    \<Rightarrow> u32 option \<Rightarrow> blockchain_error + unit" where
  "validate_canonical_chain_structure c serialize get_block highest =
     (case highest of
        None \<Rightarrow> Inr ()
      | Some tip \<Rightarrow> validate_rows (load_structurally_valid_canonical_block c serialize get_block) [0..<tip + 1] None)"

section \<open>The dry run of a branch\<close>

text \<open>A canonical block that does not authenticate is an error (\<open>Inl\<close>); an overspend ends the
  dry run (\<open>Inr None\<close>).\<close>

fun replay_heights :: "(u32 \<Rightarrow> block option \<Rightarrow> blockchain_error + block) \<Rightarrow> u32 list \<Rightarrow> block option
    \<Rightarrow> balances \<times> recent_rewards \<Rightarrow> blockchain_error + (balances \<times> recent_rewards) option" where
  "replay_heights load [] previous st = Inr (Some st)"
| "replay_heights load (h # hs) previous st =
     and_then (load h previous) (\<lambda>b.
       case replay_apply_block_checked h (transactions b) st of
         Inl _ \<Rightarrow> Inr None
       | Inr st' \<Rightarrow> replay_heights load hs (Some b) st')"

definition branch_is_balance_valid :: "crypto \<Rightarrow> (transaction \<Rightarrow> string) \<Rightarrow> (u32 \<Rightarrow> block option) \<Rightarrow> u32
    \<Rightarrow> block list \<Rightarrow> blockchain_error + bool" where
  "branch_is_balance_valid c serialize get_block fork_start branch =
     and_then (replay_heights (load_structurally_valid_canonical_block c serialize get_block)
                 [0..<fork_start] None ([], [])) (\<lambda>r.
       case r of
         None \<Rightarrow> Inr False
       | Some st \<Rightarrow> Inr (is_ok (replay_blocks branch st)))"

section \<open>The balances index\<close>

text \<open>
  The tree of confirmed balances with its height marker.  The marker lives in the same tree
  under a reserved key; a batch writes content and marker together, so both change in one step.
\<close>

record balances_index =
  tree :: balances
  marker :: "u64 option"

fun rebuild_replay :: "(u32 \<Rightarrow> block option \<Rightarrow> blockchain_error + block) \<Rightarrow> u32 list \<Rightarrow> block option
    \<Rightarrow> balances \<times> recent_rewards \<Rightarrow> blockchain_error + (balances \<times> recent_rewards)" where
  "rebuild_replay load [] previous st = Inr st"
| "rebuild_replay load (h # hs) previous st =
     and_then (load h previous) (\<lambda>b.
       and_then (replay_apply_block_checked h (transactions b) st) (\<lambda>st'.
         rebuild_replay load hs (Some b) st'))"

definition rebuild_balances_index :: "crypto \<Rightarrow> (transaction \<Rightarrow> string) \<Rightarrow> (u32 \<Rightarrow> block option) \<Rightarrow> u32 option
    \<Rightarrow> balances_index \<Rightarrow> (blockchain_error + unit) \<times> balances_index" where
  "rebuild_balances_index c serialize get_block covered idx =
     (let r = (case covered of
                 None \<Rightarrow> Inr ([], [])
               | Some tip \<Rightarrow> rebuild_replay (load_structurally_valid_canonical_block c serialize get_block)
                   [0..<tip + 1] None ([], []))
      in case r of
           Inl e \<Rightarrow> (Inl e, idx)
         | Inr (m, _) \<Rightarrow>
             (Inr (), idx\<lparr>tree := fold (\<lambda>(a, v). hm_insert a v) m (hm_retain (\<lambda>a _. hm_contains m a) (tree idx)),
                           marker := Some (case covered of None \<Rightarrow> 0 | Some tip \<Rightarrow> tip)\<rparr>))"

text \<open>\<open>rebuild\<close> is the fall-back of the catch-up.\<close>

fun catch_up_blocks :: "(balances_index \<Rightarrow> (blockchain_error + unit) \<times> balances_index) \<Rightarrow> (u32 \<Rightarrow> block option)
    \<Rightarrow> u64 list \<Rightarrow> balances \<times> recent_rewards \<Rightarrow> balances_index
    \<Rightarrow> (blockchain_error + unit) \<times> balances_index" where
  "catch_up_blocks rebuild get_block [] st idx = (Inr (), idx)"
| "catch_up_blocks rebuild get_block (h # hs) (m, recent) idx =
     (case get_block (as_u32 h) of
        None \<Rightarrow> rebuild idx
      | Some b \<Rightarrow>
          let touched = touched_by (transactions b);
              m1 = fold (\<lambda>a m. if hm_contains m a then m else hm_insert a (bal (tree idx) a) m) touched m
          in (case replay_apply_block_checked (index b) (transactions b) (m1, recent) of
                Inl _ \<Rightarrow> rebuild idx
              | Inr (m2, recent') \<Rightarrow>
                  catch_up_blocks rebuild get_block hs (m2, recent')
                    (idx\<lparr>tree := fold (\<lambda>a t. case hm_get m2 a of Some v \<Rightarrow> hm_insert a v t | None \<Rightarrow> t)
                                  touched (tree idx),
                         marker := Some h\<rparr>)))"

definition catch_up_balances_index :: "crypto \<Rightarrow> (transaction \<Rightarrow> string) \<Rightarrow> (u32 \<Rightarrow> block option) \<Rightarrow> u32 option
    \<Rightarrow> u64 \<Rightarrow> u64 \<Rightarrow> balances_index \<Rightarrow> (blockchain_error + unit) \<times> balances_index" where
  "catch_up_balances_index c serialize get_block highest from_height tip idx =
     (let rebuild = rebuild_balances_index c serialize get_block highest;
          first = saturating_add from_height 1
      in case load_blocks (\<lambda>rh. get_block (as_u32 rh))
                [saturating_sub first MINING_REWARD_MATURITY..<from_height + 1] of
           None \<Rightarrow> rebuild idx
         | Some seed \<Rightarrow>
             catch_up_blocks rebuild get_block [first..<tip + 1] ([], concat (map coinbase_rewards seed)) idx)"

definition get_latest_block_index :: "u32 option \<Rightarrow> u64" where
  "get_latest_block_index highest = (case highest of Some tip \<Rightarrow> tip | None \<Rightarrow> 0)"

definition ensure_balances_index_with_force :: "crypto \<Rightarrow> (transaction \<Rightarrow> string) \<Rightarrow> (u32 \<Rightarrow> block option)
    \<Rightarrow> u32 option \<Rightarrow> bool \<Rightarrow> bool \<Rightarrow> balances_index \<Rightarrow> (blockchain_error + unit) \<times> balances_index" where
  "ensure_balances_index_with_force c serialize get_block highest chain_state_dirty force idx =
     (let tip = get_latest_block_index highest in
      if \<not> force \<and> marker idx = Some tip then (Inr (), idx)
      else if \<not> force \<and> chain_state_dirty then (Inr (), idx)
      else case marker idx of
             Some height \<Rightarrow>
               if \<not> force \<and> height < tip
               then catch_up_balances_index c serialize get_block highest height tip idx
               else rebuild_balances_index c serialize get_block highest idx
           | None \<Rightarrow> rebuild_balances_index c serialize get_block highest idx)"

end
