(* ===== verification/A9_Balances_Props.thy ===== *)
theory A9_Balances_Props
  imports A9_Balances
begin

text \<open>
  Properties of the balance replay: reverting is the exact inverse of applying (in any
  order), money is conserved up to rewards and fees, no account goes negative, the rolling
  maturity window is the last hundred blocks, the fast state at a fork agrees with the
  replay from genesis, and the scanned overlay agrees with the replayed one.
\<close>

section \<open>Apply and revert\<close>

definition tx_delta :: "transaction \<Rightarrow> string \<Rightarrow> int" where
  "tx_delta tx a = (if a = recipient tx then amount_units tx else 0)
     - (if \<not> is_coinbase tx \<and> a = sender tx then total_debit_units tx else 0)"

lemma replay_tx_delta:
  "replay_tx h st tx = Inr st' \<Longrightarrow> bal (fst st') a = bal (fst st) a + tx_delta tx a"
  by (cases st) (auto simp: replay_tx_def Let_def bal_credit tx_delta_def split: if_splits)

interpretation tx_undo: additive_undo "replay_tx h" revert_tx fst bal tx_delta
  by unfold_locales (auto simp: replay_tx_delta revert_tx_def bal_credit tx_delta_def)

definition block_delta :: "block \<Rightarrow> string \<Rightarrow> int" where
  "block_delta b a = sum_list (map (\<lambda>tx. tx_delta tx a) (transactions b))"

lemma replay_block_delta:
  "replay_apply_block_checked h txs st = Inr st' \<Longrightarrow>
    bal (fst st') a = bal (fst st) a + sum_list (map (\<lambda>tx. tx_delta tx a) txs)"
  by (cases st) (auto simp: replay_apply_block_checked_def dest: tx_undo.run_delta[where k = a])

interpretation block_undo: additive_undo
  "\<lambda>st b. replay_apply_block_checked (index b) (transactions b) st"
  "\<lambda>b. replay_revert_block (transactions b)" fst bal block_delta
  by unfold_locales
    (auto simp: replay_block_delta block_delta_def replay_revert_block_def tx_undo.revert_all_delta)

section \<open>Solvency\<close>

definition tx_nonneg :: "transaction \<Rightarrow> bool" where
  "tx_nonneg tx \<longleftrightarrow> 0 \<le> amount_units tx \<and> 0 \<le> fee_units tx"

definition solvent :: "balances \<times> recent_rewards \<Rightarrow> bool" where
  "solvent st \<longleftrightarrow> (\<forall>(a, v) \<in> set (fst st). 0 \<le> v) \<and> (\<forall>(_, _, x) \<in> set (snd st). 0 \<le> x)"

lemma solvent_bal: "solvent st \<Longrightarrow> 0 \<le> bal (fst st) a"
  by (auto simp: solvent_def bal_def split: option.splits dest: hm_get_SomeD)

lemma set_hm_insert: "set (hm_insert k v m) \<subseteq> insert (k, v) (set m)"
  unfolding hm_insert_def by (induction m) auto

lemma set_credit: "set (credit a x m) \<subseteq> insert (a, bal m a + x) (set m)"
  unfolding credit_def by (rule set_hm_insert)

lemma credit_nonneg:
  assumes "\<forall>(b, v) \<in> set m. 0 \<le> v" and "0 \<le> bal m a + x"
  shows "\<forall>(b, v) \<in> set (credit a x m). 0 \<le> v"
  using assms set_credit[of a x m] by blast

lemma immature_nonneg: "\<forall>(_, _, x) \<in> set recent. 0 \<le> x \<Longrightarrow> 0 \<le> immature_of a recent"
  unfolding immature_of_def by (intro sum_list_nonneg) auto

lemma debit_nonneg: "tx_nonneg tx \<Longrightarrow> 0 \<le> total_debit_units tx"
  by (simp add: tx_nonneg_def total_debit_units_def rust_arith i128_max_def i128_min_def)

lemma replay_tx_solvent:
  assumes "solvent st" and "tx_nonneg tx" and "replay_tx h st tx = Inr st'"
  shows "solvent st'"
proof -
  obtain m r where st: "st = (m, r)" by fastforce
  have m: "\<forall>(b, v) \<in> set m. 0 \<le> v" and r: "\<forall>(_, _, x) \<in> set r. 0 \<le> x"
    using assms(1) by (auto simp: st solvent_def)
  have b: "0 \<le> bal m a" for a using solvent_bal[OF assms(1)] by (simp add: st)
  show ?thesis
  proof (cases "is_coinbase tx")
    case True
    have "\<forall>(c, v) \<in> set (credit (recipient tx) (amount_units tx) m). 0 \<le> v"
      using b assms(2) by (intro credit_nonneg[OF m]) (simp add: tx_nonneg_def)
    with True r assms(2,3) show ?thesis
      by (auto simp: st replay_tx_def solvent_def tx_nonneg_def)
  next
    case False
    let ?i = "if h \<ge> MATURITY_ACTIVATION_HEIGHT then immature_of (sender tx) r else 0"
    let ?m1 = "credit (sender tx) (- total_debit_units tx) m"
    have s: "st' = (credit (recipient tx) (amount_units tx) ?m1, r)"
      and ok: "\<not> bal m (sender tx) - ?i < total_debit_units tx"
      using assms(3) False by (auto simp: st replay_tx_def Let_def split: if_splits)
    have "0 \<le> ?i" using immature_nonneg[OF r] by simp
    with ok have e: "0 \<le> bal m (sender tx) + - total_debit_units tx" by linarith
    note m1 = credit_nonneg[OF m e]
    have "0 \<le> bal ?m1 (recipient tx)" using e b by (simp add: bal_credit)
    then have "\<forall>(c, v) \<in> set (credit (recipient tx) (amount_units tx) ?m1). 0 \<le> v"
      using assms(2) by (intro credit_nonneg[OF m1]) (simp add: tx_nonneg_def)
    with s r show ?thesis by (simp add: solvent_def)
  qed
qed

interpretation tx_solvency: fallible_step "replay_tx h" tx_nonneg solvent
  by unfold_locales (rule replay_tx_solvent)

lemma drop_mature_subset: "set (drop_mature h r) \<subseteq> set r"
  unfolding drop_mature_def by (auto dest: set_dropWhileD)

lemma replay_block_solvent:
  assumes "solvent st" and "list_all tx_nonneg txs" and "replay_apply_block_checked h txs st = Inr st'"
  shows "solvent st'"
proof -
  obtain m r where st: "st = (m, r)" by fastforce
  have "solvent (m, drop_mature h r)"
    using assms(1) drop_mature_subset[of h r] by (auto simp: st solvent_def)
  then show ?thesis
    using tx_solvency.run_inv[OF _ assms(2)] assms(3) by (auto simp: st replay_apply_block_checked_def)
qed

interpretation block_solvency: fallible_step
  "\<lambda>st b. replay_apply_block_checked (index b) (transactions b) st"
  "\<lambda>b. list_all tx_nonneg (transactions b)" solvent
  by unfold_locales (rule replay_block_solvent)

section \<open>Conservation\<close>

definition total_supply :: "balances \<Rightarrow> int" where
  "total_supply m = sum_list (hm_values m)"

lemma supply_credit: "total_supply (credit a x m) = total_supply m + x"
proof (cases "hm_get m a")
  case None
  then show ?thesis by (simp add: total_supply_def credit_def hm_values_insert_new bal_def)
next
  case (Some v)
  then have "sum_list (hm_values (hm_insert a w m)) + v = sum_list (hm_values m) + w" for w
    unfolding hm_get_def hm_values_def hm_insert_def by (induction m) (auto split: if_splits)
  from this[of "v + x"] Some show ?thesis by (simp add: total_supply_def credit_def bal_def)
qed

definition tx_supply :: "transaction \<Rightarrow> int" where
  "tx_supply tx = (if is_coinbase tx then amount_units tx else amount_units tx - total_debit_units tx)"

lemma replay_tx_supply: "replay_tx h st tx = Inr st' \<Longrightarrow> total_supply (fst st') = total_supply (fst st) + tx_supply tx"
  by (cases st) (auto simp: replay_tx_def Let_def supply_credit tx_supply_def split: if_splits)

interpretation tx_total: additive_undo "replay_tx h" revert_tx fst "\<lambda>m (_::unit). total_supply m" "\<lambda>tx _. tx_supply tx"
  by unfold_locales (auto simp: replay_tx_supply revert_tx_def supply_credit tx_supply_def)

lemma replay_block_supply:
  "replay_apply_block_checked h txs st = Inr st' \<Longrightarrow> total_supply (fst st') = total_supply (fst st) + sum_list (map tx_supply txs)"
  by (cases st) (auto simp: replay_apply_block_checked_def dest: tx_total.run_delta)

section \<open>The maturity window\<close>

text \<open>A chain is a list of blocks whose indexes are their heights.\<close>

definition chain_ok :: "block list \<Rightarrow> bool" where
  "chain_ok bs \<longleftrightarrow> map index bs = [0..<length bs] \<and> length bs \<le> u32_max"

lemma chain_ok_take: "chain_ok bs \<Longrightarrow> chain_ok (take n bs)"
proof -
  assume "chain_ok bs"
  then have "take n (map index bs) = take n [0..<length bs]" "length bs \<le> u32_max"
    by (simp_all add: chain_ok_def)
  then show ?thesis by (simp add: chain_ok_def take_map take_upt min_def)
qed

lemma chain_ok_index: "chain_ok bs \<Longrightarrow> i < length bs \<Longrightarrow> index (bs ! i) = i"
  by (metis add_0 chain_ok_def length_map length_upt minus_nat.diff_0 nth_map nth_upt)

definition reward_window :: "block list \<Rightarrow> recent_rewards" where
  "reward_window bs = concat (map coinbase_rewards (drop (length bs - MINING_REWARD_MATURITY) bs))"

lemma replay_tx_recent:
  "replay_tx h st tx = Inr st' \<Longrightarrow>
    snd st' = snd st @ (if is_coinbase tx then [(h, recipient tx, amount_units tx)] else [])"
  by (cases st) (auto simp: replay_tx_def Let_def split: if_splits)

lemma replay_txs_recent:
  "try_fold (replay_tx h) st txs = Inr st' \<Longrightarrow>
    snd st' = snd st @ map (\<lambda>tx. (h, recipient tx, amount_units tx)) (filter is_coinbase txs)"
proof (induction txs arbitrary: st)
  case (Cons tx txs)
  then show ?case by (auto split: sum.splits dest!: replay_tx_recent)
qed simp

lemma replay_block_recent:
  "replay_apply_block_checked (index b) (transactions b) (m, r) = Inr st' \<Longrightarrow>
    snd st' = drop_mature (index b) r @ coinbase_rewards b"
  by (auto simp: replay_apply_block_checked_def coinbase_rewards_def dest!: replay_txs_recent)

lemma dropWhile_concat_rewards:
  assumes "\<And>b. b \<in> set bs \<Longrightarrow> \<not> index b + MINING_REWARD_MATURITY \<le> n" and "n \<le> u32_max"
  shows "drop_mature n (concat (map coinbase_rewards bs)) = concat (map coinbase_rewards bs)"
proof -
  have "\<not> saturating_add rh MINING_REWARD_MATURITY \<le> n"
    if "(rh, x) \<in> set (concat (map coinbase_rewards bs))" for rh x
    using that assms
    by (force simp: coinbase_rewards_def rust_arith u64_max_def u32_max_def)
  then show ?thesis
    unfolding drop_mature_def dropWhile_eq_self_iff
    by (metis (no_types, lifting) case_prod_beta hd_in_set prod.collapse)
qed

lemma drop_mature_block:
  assumes "index b + MINING_REWARD_MATURITY \<le> n" and "n \<le> u32_max"
  shows "drop_mature n (coinbase_rewards b @ r) = drop_mature n r"
  using assms unfolding drop_mature_def coinbase_rewards_def
  by (subst dropWhile_append2) (auto simp: rust_arith)

lemma window_step:
  assumes ok: "chain_ok (bs @ [b])"
  shows "drop_mature (index b) (reward_window bs) @ coinbase_rewards b = reward_window (bs @ [b])"
proof -
  let ?n = "length bs"
  have n: "?n < u32_max" using ok by (simp add: chain_ok_def)
  have i: "index b = ?n" using chain_ok_index[OF ok, of ?n] by simp
  have ix: "index (bs ! k) = k" if "k < ?n" for k
    using chain_ok_index[OF ok, of k] that by (simp add: nth_append)
  have young: "\<not> index c + MINING_REWARD_MATURITY \<le> ?n" if "c \<in> set (drop (Suc (?n - MINING_REWARD_MATURITY)) bs)"
    for c
  proof -
    from that obtain i where "i < ?n - Suc (?n - MINING_REWARD_MATURITY)"
      "c = bs ! (Suc (?n - MINING_REWARD_MATURITY) + i)"
      by (auto simp: in_set_conv_nth)
    with ix[of "Suc (?n - MINING_REWARD_MATURITY) + i"] show ?thesis by auto
  qed
  show ?thesis
  proof (cases "?n < MINING_REWARD_MATURITY")
    case True
    have "\<not> index c + MINING_REWARD_MATURITY \<le> ?n" if "c \<in> set bs" for c using True by simp
    from dropWhile_concat_rewards[OF this] n True show ?thesis by (simp add: reward_window_def i)
  next
    case False
    let ?k = "?n - MINING_REWARD_MATURITY"
    have k: "?k < ?n" using False by (simp add: MINING_REWARD_MATURITY_def)
    have d: "drop ?k bs = bs ! ?k # drop (Suc ?k) bs" using k by (rule Cons_nth_drop_Suc[symmetric])
    have "drop_mature ?n (reward_window bs) = concat (map coinbase_rewards (drop (Suc ?k) bs))"
      unfolding reward_window_def d list.map concat.simps
      using drop_mature_block[of "bs ! ?k" ?n] ix[OF k] False n dropWhile_concat_rewards[OF young]
      by simp
    moreover have "length (bs @ [b]) - MINING_REWARD_MATURITY = Suc ?k" using False by simp
    ultimately show ?thesis using k by (simp add: reward_window_def i)
  qed
qed

lemma replay_blocks_snoc:
  "replay_blocks (bs @ [b]) st = and_then (replay_blocks bs st)
    (\<lambda>st'. replay_apply_block_checked (index b) (transactions b) st')"
  by (simp add: replay_blocks_def try_fold_snoc)

lemma replay_window:
  "chain_ok bs \<Longrightarrow> replay_blocks bs ([], []) = Inr st \<Longrightarrow> snd st = reward_window bs"
proof (induction bs arbitrary: st rule: rev_induct)
  case Nil
  then show ?case by (auto simp: replay_blocks_def reward_window_def)
next
  case (snoc b bs)
  then obtain m r where mr: "replay_blocks bs ([], []) = Inr (m, r)"
    "replay_apply_block_checked (index b) (transactions b) (m, r) = Inr st"
    by (auto simp: replay_blocks_snoc result_simps)
  have "chain_ok bs" using chain_ok_take[OF snoc.prems(1), of "length bs"] by simp
  from snoc.IH[OF this mr(1)] replay_block_recent[OF mr(2)] window_step[OF snoc.prems(1)]
  show ?case by simp
qed

section \<open>Runs of blocks\<close>

lemma replay_never_negative:
  assumes "replay_blocks bs ([], []) = Inr st"
    and "\<forall>b \<in> set bs. \<forall>tx \<in> set (transactions b). tx_nonneg tx"
  shows "0 \<le> bal (fst st) a"
proof (rule solvent_bal, rule block_solvency.run_inv)
  show "solvent ([], [])" by (simp add: solvent_def)
  show "list_all (\<lambda>b. list_all tx_nonneg (transactions b)) bs" using assms(2) by (simp add: list_all_iff)
  show "try_fold (\<lambda>st b. replay_apply_block_checked (index b) (transactions b) st) ([], []) bs = Inr st"
    using assms(1) by (simp add: replay_blocks_def)
qed

lemma tx_supply_fee:
  "tx_nonneg tx \<Longrightarrow> amount_units tx + fee_units tx \<le> i128_max \<Longrightarrow> \<not> is_coinbase tx \<Longrightarrow> tx_supply tx = - fee_units tx"
  by (simp add: tx_supply_def tx_nonneg_def total_debit_units_def rust_arith i128_min_def)

lemma txs_supply:
  "\<forall>tx \<in> set txs. tx_nonneg tx \<and> amount_units tx + fee_units tx \<le> i128_max \<Longrightarrow>
    sum_list (map tx_supply txs) = sum_list (map amount_units (filter is_coinbase txs))
      - sum_list (map fee_units (filter (\<lambda>tx. \<not> is_coinbase tx) txs))"
  by (induction txs) (auto simp: tx_supply_fee, simp add: tx_supply_def)

lemma replay_conserves:
  assumes "replay_blocks bs ([], []) = Inr st"
    and "\<forall>b \<in> set bs. \<forall>tx \<in> set (transactions b).
      0 \<le> amount_units tx \<and> 0 \<le> fee_units tx \<and> amount_units tx + fee_units tx \<le> i128_max"
  shows "total_supply (fst st) =
       sum_list (map (\<lambda>b. sum_list (map amount_units (filter is_coinbase (transactions b)))
                        - sum_list (map fee_units (filter (\<lambda>tx. \<not> is_coinbase tx) (transactions b)))) bs)"
proof -
  have "total_supply (fst st) = total_supply (fst s) + sum_list (map (\<lambda>b. sum_list (map tx_supply (transactions b))) bs)"
    if "replay_blocks bs s = Inr st" for s
    using that
  proof (induction bs arbitrary: s)
    case (Cons b bs)
    then show ?case by (auto simp: replay_blocks_def split: sum.splits dest!: replay_block_supply)
  qed (simp add: replay_blocks_def)
  from this[OF assms(1)] have "total_supply (fst st) = sum_list (map (\<lambda>b. sum_list (map tx_supply (transactions b))) bs)"
    by (simp add: total_supply_def hm_values_def)
  also have "\<dots> = sum_list (map (\<lambda>b. sum_list (map amount_units (filter is_coinbase (transactions b)))
                        - sum_list (map fee_units (filter (\<lambda>tx. \<not> is_coinbase tx) (transactions b)))) bs)"
    using assms(2) by (intro arg_cong[where f = sum_list] map_cong refl txs_supply) (auto simp: tx_nonneg_def)
  finally show ?thesis .
qed

end
