(* ===== verification/A9_Balance_Index.thy ===== *)
theory A9_Balance_Index
  imports A9_Balances_Props
begin

text \<open>
  The balances index: rebuilding it, catching it up and reverting it to a fork all give the
  values of the replay from genesis.  The reference is the authenticated chain
  (\<open>load_chain\<close>) replayed from the empty state.
\<close>

section \<open>The authenticated chain\<close>

text \<open>The canonical rows of a chain given as the list of its blocks.\<close>

definition chain_get :: "block list \<Rightarrow> u32 \<Rightarrow> block option" where
  "chain_get bs h = (if h < length bs then Some (bs ! h) else None)"

fun load_chain :: "(u32 \<Rightarrow> block option \<Rightarrow> blockchain_error + block) \<Rightarrow> u32 list \<Rightarrow> block option
    \<Rightarrow> blockchain_error + block list" where
  "load_chain load [] previous = Inr []"
| "load_chain load (h # hs) previous =
     and_then (load h previous) (\<lambda>b. and_then (load_chain load hs (Some b)) (\<lambda>bs. Inr (b # bs)))"

lemma load_index:
  "load_structurally_valid_canonical_block c ser get h prev = Inr b \<Longrightarrow> get h = Some b \<and> index b = h"
  by (auto simp: load_structurally_valid_canonical_block_def guard_err_def split: option.splits if_splits)

abbreviation authentic :: "crypto \<Rightarrow> (transaction \<Rightarrow> string) \<Rightarrow> (u32 \<Rightarrow> block option) \<Rightarrow> nat
    \<Rightarrow> blockchain_error + block list" where
  "authentic c ser get n \<equiv> load_chain (load_structurally_valid_canonical_block c ser get) [0..<n] None"

lemma load_chain_length: "load_chain load hs prev = Inr bs \<Longrightarrow> length bs = length hs"
  by (induction hs arbitrary: prev bs) (auto simp: result_simps)

lemma load_chain_rows:
  assumes "load_chain (load_structurally_valid_canonical_block c ser get) hs prev = Inr bs"
  shows "map index bs = hs \<and> map Some bs = map get hs"
  using assms by (induction hs arbitrary: prev bs) (auto simp: result_simps dest: load_index)

lemma load_chain_append: "load_chain load (hs @ hs') prev = Inr bs \<Longrightarrow>
    \<exists>xs ys prev'. load_chain load hs prev = Inr xs \<and> load_chain load hs' prev' = Inr ys \<and> bs = xs @ ys"
proof (induction hs arbitrary: prev bs)
  case Nil
  then show ?case by auto
next
  case (Cons h hs)
  then obtain b rest where b: "load h prev = Inr b" "load_chain load (hs @ hs') (Some b) = Inr rest" "bs = b # rest"
    by (auto simp: result_simps)
  from Cons.IH[OF b(2)] obtain xs ys prev' where
    "load_chain load hs (Some b) = Inr xs" "load_chain load hs' prev' = Inr ys" "rest = xs @ ys" by auto
  with b show ?case by (intro exI[of _ "b # xs"] exI[of _ ys] exI[of _ prev']) simp
qed

lemma authentic_take:
  assumes "authentic c ser get n = Inr bs" and "k \<le> n"
  shows "authentic c ser get k = Inr (take k bs)"
proof -
  have "[0..<n] = [0..<k] @ [k..<n]" using assms(2) by (metis le_add_diff_inverse upt_add_eq_append zero_le)
  from load_chain_append[OF assms(1)[unfolded this]] obtain xs ys where
    "authentic c ser get k = Inr xs" "bs = xs @ ys" by auto
  moreover from this have "length xs = k" using load_chain_length by fastforce
  ultimately show ?thesis by simp
qed

lemma authentic_chain_ok: "authentic c ser get n = Inr bs \<Longrightarrow> n \<le> u32_max \<Longrightarrow> chain_ok bs"
  using load_chain_rows load_chain_length by (fastforce simp: chain_ok_def)

lemma authentic_length: "authentic c ser get n = Inr bs \<Longrightarrow> length bs = n"
  using load_chain_length by fastforce

lemma authentic_get: "authentic c ser get n = Inr bs \<Longrightarrow> i < n \<Longrightarrow> get i = Some (bs ! i)"
proof -
  assume a: "authentic c ser get n = Inr bs" and i: "i < n"
  then have "map Some bs ! i = map get [0..<n] ! i" using load_chain_rows by metis
  with i authentic_length[OF a] show ?thesis by simp
qed

lemma validate_structure_iff:
  "validate_rows load hs prev = Inr () \<longleftrightarrow> (\<exists>bs. load_chain load hs prev = Inr bs)"
  by (induction hs arbitrary: prev) (auto simp: result_simps)

lemma rebuild_replay_iff:
  "rebuild_replay (load_structurally_valid_canonical_block c ser get) hs prev st = Inr st' \<longleftrightarrow>
    (\<exists>bs. load_chain (load_structurally_valid_canonical_block c ser get) hs prev = Inr bs
      \<and> replay_blocks bs st = Inr st')"
proof (induction hs arbitrary: prev st)
  case Nil
  then show ?case by (simp add: replay_blocks_def)
next
  case (Cons h hs)
  show ?case
  proof (cases "load_structurally_valid_canonical_block c ser get h prev")
    case (Inr b)
    then have "index b = h" by (auto dest: load_index)
    with Inr show ?thesis
      by (auto simp: result_simps Cons.IH replay_blocks_def split: sum.splits)
  qed simp
qed

lemma load_blocks_map: "(\<And>h. h \<in> set hs \<Longrightarrow> get h = Some (f h)) \<Longrightarrow> load_blocks get hs = Some (map f hs)"
  by (induction hs) auto

section \<open>Agreement on a set of accounts\<close>

text \<open>Two replay states agree on \<open>A\<close> when they have the same window and the same balances on \<open>A\<close>.\<close>

definition agree :: "string set \<Rightarrow> balances \<times> recent_rewards \<Rightarrow> balances \<times> recent_rewards \<Rightarrow> bool" where
  "agree A s t \<longleftrightarrow> snd s = snd t \<and> (\<forall>a \<in> A. bal (fst s) a = bal (fst t) a)"

lemma replay_tx_agree:
  assumes "agree A s t" and "set (touched_by [tx]) \<subseteq> A"
  shows "rel_sum (=) (agree A) (replay_tx h s tx) (replay_tx h t tx)"
  using assms
  by (cases s; cases t; cases "is_coinbase tx")
    (auto simp: agree_def replay_tx_def touched_by_def Let_def bal_credit)

lemma replay_txs_agree:
  assumes "agree A s t" and "set (touched_by txs) \<subseteq> A"
  shows "rel_sum (=) (agree A) (try_fold (replay_tx h) s txs) (try_fold (replay_tx h) t txs)"
  using assms
proof (induction txs arbitrary: s t)
  case Nil
  then show ?case by simp
next
  case (Cons tx txs)
  have sub: "set (touched_by [tx]) \<subseteq> A" "set (touched_by txs) \<subseteq> A"
    using Cons.prems(2) by (auto simp: touched_by_def)
  from replay_tx_agree[OF Cons.prems(1) sub(1), of h] show ?case
    by cases (auto intro: Cons.IH[OF _ sub(2)])
qed

lemma replay_block_agree:
  assumes "agree A s t" and "set (touched_by txs) \<subseteq> A"
  shows "rel_sum (=) (agree A) (replay_apply_block_checked h txs s) (replay_apply_block_checked h txs t)"
proof -
  have "agree A (fst s, drop_mature h (snd s)) (fst t, drop_mature h (snd t))"
    using assms(1) by (simp add: agree_def)
  from replay_txs_agree[OF this assms(2), of h] show ?thesis
    by (simp add: replay_apply_block_checked_def case_prod_beta Let_def)
qed

lemma replay_blocks_agree:
  assumes "agree A s t" and "\<forall>b \<in> set bs. set (touched_by (transactions b)) \<subseteq> A"
  shows "rel_sum (=) (agree A) (replay_blocks bs s) (replay_blocks bs t)"
  using assms
proof (induction bs arbitrary: s t)
  case Nil
  then show ?case by (simp add: replay_blocks_def)
next
  case (Cons b bs)
  from Cons.prems(2) have sub: "set (touched_by (transactions b)) \<subseteq> A" by simp
  from replay_block_agree[OF Cons.prems(1) sub, of "index b"] show ?case
    using Cons by cases (auto simp: replay_blocks_def)
qed

lemma tx_delta_untouched: "a \<notin> set (touched_by [tx]) \<Longrightarrow> tx_delta tx a = 0"
  by (auto simp: touched_by_def tx_delta_def)

lemma block_delta_untouched: "a \<notin> set (touched_by (transactions b)) \<Longrightarrow> block_delta b a = 0"
proof -
  assume "a \<notin> set (touched_by (transactions b))"
  then have "tx_delta tx a = 0" if "tx \<in> set (transactions b)" for tx
    using that by (intro tx_delta_untouched) (auto simp: touched_by_def)
  then show ?thesis by (simp add: block_delta_def cong: map_cong)
qed

lemma hm_contains_credit: "hm_contains (credit a x m) k \<longleftrightarrow> k = a \<or> hm_contains m k"
  by (simp add: credit_def hm_simps)

lemma replay_tx_keys: "replay_tx h s tx = Inr s' \<Longrightarrow>
    hm_contains (fst s') a \<longleftrightarrow> hm_contains (fst s) a \<or> a \<in> set (touched_by [tx])"
  by (cases s) (auto simp: replay_tx_def Let_def hm_contains_credit touched_by_def split: if_splits)

lemma replay_block_keys: "replay_apply_block_checked h txs s = Inr s' \<Longrightarrow>
    hm_contains (fst s') a \<longleftrightarrow> hm_contains (fst s) a \<or> a \<in> set (touched_by txs)"
proof -
  have "try_fold (replay_tx h) t txs = Inr s' \<Longrightarrow>
      hm_contains (fst s') a \<longleftrightarrow> hm_contains (fst t) a \<or> a \<in> set (touched_by txs)" for t
  proof (induction txs arbitrary: t)
    case (Cons tx txs)
    have "touched_by (tx # txs) = touched_by [tx] @ touched_by txs" by (simp add: touched_by_def)
    with Cons show ?case by (auto split: sum.splits simp: replay_tx_keys)
  qed (simp add: touched_by_def)
  then show "replay_apply_block_checked h txs s = Inr s' \<Longrightarrow> ?thesis"
    by (auto simp: replay_apply_block_checked_def case_prod_beta Let_def)
qed

section \<open>Rebuilding\<close>

lemma hm_get_Cons: "hm_get ((a, v) # m) k = (if k = a then Some v else hm_get m k)"
  by (simp add: hm_get_def)

lemma hm_get_fold_insert: "hm_wf m \<Longrightarrow>
    hm_get (fold (\<lambda>(a, v). hm_insert a v) m t) k = (case hm_get m k of Some v \<Rightarrow> Some v | None \<Rightarrow> hm_get t k)"
proof (induction m arbitrary: t)
  case (Cons p m)
  obtain a v where p: "p = (a, v)" by fastforce
  have "hm_wf m" "hm_get m a = None"
    using Cons.prems by (auto simp: p hm_wf_def hm_get_def map_of_eq_None_iff)
  with Cons.IH show ?case
    by (auto simp: p hm_simps hm_get_Cons split: option.splits)
qed (simp add: hm_simps)

lemma replay_tx_wf: "hm_wf (fst s) \<Longrightarrow> replay_tx h s tx = Inr s' \<Longrightarrow> hm_wf (fst s')"
  by (cases s) (auto simp: replay_tx_def Let_def credit_def hm_simps split: if_splits)

interpretation tx_wf: fallible_step "replay_tx h" "\<lambda>_. True" "\<lambda>s. hm_wf (fst s)"
  by unfold_locales (rule replay_tx_wf)

interpretation block_wf: fallible_step
  "\<lambda>st b. replay_apply_block_checked (index b) (transactions b) st" "\<lambda>_. True" "\<lambda>s. hm_wf (fst s)"
proof
  fix s b s'
  assume "hm_wf (fst s)" "replay_apply_block_checked (index b) (transactions b) s = Inr s'"
  then show "hm_wf (fst s')"
    using tx_wf.run_inv[of "(fst s, drop_mature (index b) (snd s))" "transactions b" "index b" s']
    by (simp add: replay_apply_block_checked_def case_prod_beta Let_def list_all_iff)
qed

text \<open>The content of an index for a replayed state: its accounts are exactly those of the replay.\<close>

definition index_exact :: "u64 \<Rightarrow> balances \<Rightarrow> balances_index \<Rightarrow> bool" where
  "index_exact tip m idx \<longleftrightarrow> marker idx = Some tip \<and> hm_wf (tree idx)
     \<and> (\<forall>a. bal (tree idx) a = bal m a)"

lemma rebuild_ok:
  assumes "authentic c ser get (tip + 1) = Inr bs" and "replay_blocks bs ([], []) = Inr st" and "hm_wf (tree idx)"
  shows "\<exists>idx'. rebuild_balances_index c ser get (Some tip) idx = (Inr (), idx')
    \<and> index_exact tip (fst st) idx' \<and> (\<forall>a. hm_get (tree idx') a = hm_get (fst st) a)"
proof -
  obtain m r where st: "st = (m, r)" by fastforce
  have rr: "rebuild_replay (load_structurally_valid_canonical_block c ser get) [0..<tip + 1] None ([], [])
      = Inr (m, r)"
    using assms(1,2) unfolding rebuild_replay_iff st by blast
  have wf: "hm_wf m"
    using block_wf.run_inv[OF _ _ assms(2)[unfolded replay_blocks_def]] by (simp add: st hm_simps list_all_iff)
  let ?t = "fold (\<lambda>(a, v). hm_insert a v) m (hm_retain (\<lambda>a _. hm_contains m a) (tree idx))"
  have get: "hm_get ?t a = hm_get m a" for a
    using assms(3) by (simp add: hm_get_fold_insert[OF wf] hm_get_retain hm_contains_def split: option.splits)
  have wf': "hm_wf t \<Longrightarrow> hm_wf (fold (\<lambda>(a, v). hm_insert a v) m t)" for t
    by (induction m arbitrary: t) (auto simp: hm_simps)
  show ?thesis
    using rr get wf'[OF hm_wf_retain[OF assms(3)]]
    by (simp add: rebuild_balances_index_def index_exact_def bal_def st Let_def del: upt_Suc)
qed

lemma rebuild_fails_closed:
  assumes "rebuild_balances_index c ser get (Some tip) idx = (Inl e, idx')"
  shows "idx' = idx \<and> (\<nexists>bs st. authentic c ser get (tip + 1) = Inr bs \<and> replay_blocks bs ([], []) = Inr st)"
proof -
  let ?r = "rebuild_replay (load_structurally_valid_canonical_block c ser get) [0..<tip + 1] None ([], [])"
  have "\<exists>e. ?r = Inl e" and "idx' = idx"
    using assms by (auto simp: rebuild_balances_index_def Let_def simp del: upt_Suc split: sum.splits)
  moreover have "?r = Inr st" if "authentic c ser get (tip + 1) = Inr bs" "replay_blocks bs ([], []) = Inr st" for bs st
    using that unfolding rebuild_replay_iff by blast
  ultimately show ?thesis by fastforce
qed

lemma rebuild_ok_iff:
  assumes "rebuild_balances_index c ser get (Some tip) idx = (Inr (), idx')"
  shows "\<exists>bs st. authentic c ser get (tip + 1) = Inr bs \<and> replay_blocks bs ([], []) = Inr st"
proof -
  let ?r = "rebuild_replay (load_structurally_valid_canonical_block c ser get) [0..<tip + 1] None ([], [])"
  obtain st where "?r = Inr st"
    using assms by (cases ?r) (simp_all add: rebuild_balances_index_def Let_def del: upt_Suc)
  then show ?thesis unfolding rebuild_replay_iff by blast
qed

section \<open>Catching up\<close>

lemma fold_load_touched:
  "hm_get (fold (\<lambda>a m. if hm_contains m a then m else hm_insert a (f a) m) as m) k =
    (if hm_contains m k then hm_get m k else if k \<in> set as then Some (f k) else None)"
  by (induction as arbitrary: m) (auto simp: hm_simps hm_contains_def)

lemma fold_write_touched:
  "hm_get (fold (\<lambda>a t. case hm_get m a of Some v \<Rightarrow> hm_insert a v t | None \<Rightarrow> t) as t) k =
    (if k \<in> set as \<and> hm_contains m k then hm_get m k else hm_get t k)"
  by (induction as arbitrary: t) (auto simp: hm_simps hm_contains_def split: option.splits)

lemma fold_write_wf:
  "hm_wf t \<Longrightarrow> hm_wf (fold (\<lambda>a t. case hm_get m a of Some v \<Rightarrow> hm_insert a v t | None \<Rightarrow> t) as t)"
  by (induction as arbitrary: t) (auto simp: hm_simps split: option.splits)

text \<open>What holds between two blocks: the tree is the replayed state, and the in-memory map agrees with it
  on the accounts it has loaded.\<close>

definition caught_up :: "balances \<times> recent_rewards \<Rightarrow> balances \<times> recent_rewards \<Rightarrow> balances_index \<Rightarrow> bool" where
  "caught_up st mem idx \<longleftrightarrow> hm_wf (tree idx) \<and> (\<forall>a. bal (tree idx) a = bal (fst st) a)
     \<and> agree {a. hm_contains (fst mem) a} mem st"

lemma catch_up_step:
  fixes b :: block
  assumes inv: "caught_up st (m, recent) idx"
    and ok: "replay_apply_block_checked (index b) (transactions b) st = Inr st'"
    and m1: "m1 = fold (\<lambda>a m. if hm_contains m a then m else hm_insert a (bal (tree idx) a) m)
                    (touched_by (transactions b)) m"
  shows "\<exists>m2 recent'. replay_apply_block_checked (index b) (transactions b) (m1, recent) = Inr (m2, recent')
    \<and> caught_up st' (m2, recent')
        (idx\<lparr>tree := fold (\<lambda>a t. case hm_get m2 a of Some v \<Rightarrow> hm_insert a v t | None \<Rightarrow> t)
                (touched_by (transactions b)) (tree idx), marker := x\<rparr>)"
proof -
  let ?T = "set (touched_by (transactions b))" and ?A = "{a. hm_contains m1 a}"
  have tree: "bal (tree idx) a = bal (fst st) a" for a using inv by (simp add: caught_up_def)
  have get1: "hm_get m1 a = (if hm_contains m a then hm_get m a else if a \<in> ?T then Some (bal (tree idx) a) else None)" for a
    unfolding m1 by (rule fold_load_touched)
  have A: "?T \<subseteq> ?A" by (auto simp: hm_contains_def get1)
  have "agree ?A (m1, recent) st"
    using inv by (auto simp: agree_def caught_up_def hm_contains_def bal_def get1 tree[unfolded bal_def] split: if_splits)
  from replay_block_agree[OF this A, of "index b"] ok obtain m2 recent' where
    r: "replay_apply_block_checked (index b) (transactions b) (m1, recent) = Inr (m2, recent')"
    and ag: "agree ?A (m2, recent') st'"
    by (auto elim: rel_sum.cases)
  have keys: "hm_contains m2 a \<longleftrightarrow> hm_contains m1 a" for a
    using replay_block_keys[OF r] A by auto
  let ?t = "fold (\<lambda>a t. case hm_get m2 a of Some v \<Rightarrow> hm_insert a v t | None \<Rightarrow> t)
                (touched_by (transactions b)) (tree idx)"
  have "bal ?t a = bal (fst st') a" for a
  proof (cases "a \<in> ?T")
    case True
    then have "bal ?t a = bal m2 a" using A keys by (auto simp: bal_def fold_write_touched)
    with True A ag show ?thesis by (auto simp: agree_def)
  next
    case False
    then have "bal ?t a = bal (tree idx) a" by (simp add: bal_def fold_write_touched)
    with block_undo.step_delta[OF ok, of a] block_delta_untouched[OF False] tree show ?thesis by simp
  qed
  moreover have "hm_wf ?t" using inv by (intro fold_write_wf) (simp add: caught_up_def)
  ultimately have "caught_up st' (m2, recent') (idx\<lparr>tree := ?t, marker := x\<rparr>)"
    using ag keys by (simp add: caught_up_def)
  with r show ?thesis by blast
qed

lemma catch_up_blocks_ok:
  assumes "map index bs = hs" and "map Some bs = map get hs" and "\<forall>h \<in> set hs. h \<le> u32_max"
    and "caught_up st mem idx" and "replay_blocks bs st = Inr st'"
  shows "\<exists>idx'. catch_up_blocks rebuild get hs mem idx = (Inr (), idx')
    \<and> hm_wf (tree idx') \<and> (\<forall>a. bal (tree idx') a = bal (fst st') a)
    \<and> marker idx' = (if hs = [] then marker idx else Some (last hs))"
  using assms
proof (induction bs arbitrary: hs st mem idx)
  case Nil
  then show ?case by (auto simp: replay_blocks_def caught_up_def)
next
  case (Cons b bs)
  obtain m recent where mem: "mem = (m, recent)" by fastforce
  obtain hs' where hs: "hs = index b # hs'" "map index bs = hs'" "map Some bs = map get hs'"
    "get (as_u32 (index b)) = Some b"
    using Cons.prems(1-3) by (cases hs) (auto simp: as_u32_def)
  obtain s1 where s1: "replay_apply_block_checked (index b) (transactions b) st = Inr s1"
    "replay_blocks bs s1 = Inr st'"
    using Cons.prems(5) by (auto simp: replay_blocks_def split: sum.splits)
  from catch_up_step[OF Cons.prems(4)[unfolded mem] s1(1) refl, of "Some (index b)"]
  obtain m2 r2 idx2 where step:
    "catch_up_blocks rebuild get hs mem idx = catch_up_blocks rebuild get hs' (m2, r2) idx2"
    "caught_up s1 (m2, r2) idx2" "marker idx2 = Some (index b)"
    by (auto simp: mem hs(1,4) Let_def)
  from Cons.IH[OF hs(2,3) _ step(2) s1(2)] Cons.prems(3) show ?case
    unfolding step(1) by (auto simp: hs(1) step(3))
qed

lemma window_seed:
  assumes "authentic c ser get n = Inr bs" and "n \<le> u32_max" and "k \<le> n"
  shows "load_blocks (\<lambda>rh. get (as_u32 rh)) [saturating_sub k MINING_REWARD_MATURITY..<k]
      = Some (drop (k - MINING_REWARD_MATURITY) (take k bs))"
    and "load_blocks get [saturating_sub k MINING_REWARD_MATURITY..<k]
      = Some (drop (k - MINING_REWARD_MATURITY) (take k bs))"
proof -
  have len: "length bs = n" by (rule authentic_length[OF assms(1)])
  have u: "as_u32 h = h" if "h < k" for h using that assms(2,3) by (simp add: as_u32_def)
  have get: "get h = Some (bs ! h)" if "h < k" for h
    using authentic_get[OF assms(1)] that assms(3) by simp
  have e: "map ((!) bs) [k - MINING_REWARD_MATURITY..<k] = drop (k - MINING_REWARD_MATURITY) (take k bs)"
    using assms(3) len by (intro nth_equalityI) auto
  show "load_blocks (\<lambda>rh. get (as_u32 rh)) [saturating_sub k MINING_REWARD_MATURITY..<k]
      = Some (drop (k - MINING_REWARD_MATURITY) (take k bs))"
    by (subst load_blocks_map[where f = "(!) bs"]) (auto simp: e u get saturating_sub_def)
  show "load_blocks get [saturating_sub k MINING_REWARD_MATURITY..<k]
      = Some (drop (k - MINING_REWARD_MATURITY) (take k bs))"
    by (subst load_blocks_map[where f = "(!) bs"]) (auto simp: e get saturating_sub_def)
qed

lemma reward_window_take:
  "k \<le> length bs \<Longrightarrow> reward_window (take k bs) = concat (map coinbase_rewards (drop (k - MINING_REWARD_MATURITY) (take k bs)))"
  by (simp add: reward_window_def min_absorb2)

lemma replay_blocks_split:
  assumes "replay_blocks bs ([], []) = Inr st"
  obtains st1 where "replay_blocks (take k bs) ([], []) = Inr st1" "replay_blocks (drop k bs) st1 = Inr st"
proof -
  have "replay_blocks (take k bs @ drop k bs) ([], []) = Inr st" using assms by simp
  then show thesis using that unfolding replay_blocks_def try_fold_append result_simps by blast
qed

text \<open>The index is exact at a height when it holds the replay of the blocks up to it.\<close>

definition exact_at :: "block list \<Rightarrow> u64 \<Rightarrow> balances_index \<Rightarrow> bool" where
  "exact_at bs h idx \<longleftrightarrow> (case replay_blocks (take (h + 1) bs) ([], []) of
     Inl _ \<Rightarrow> False | Inr st \<Rightarrow> index_exact h (fst st) idx)"

lemma catch_up_ok:
  assumes au: "authentic c ser get (tip + 1) = Inr bs" and small: "tip < u32_max"
    and rp: "replay_blocks bs ([], []) = Inr st"
    and ex: "exact_at bs h idx" and h: "h < tip"
  shows "\<exists>idx'. catch_up_balances_index c ser get highest h tip idx = (Inr (), idx')
    \<and> index_exact tip (fst st) idx'"
proof -
  have len: "length bs = tip + 1" by (rule authentic_length[OF au])
  have first: "saturating_add h 1 = h + 1"
    using h small by (simp add: saturating_add_def u64_max_def u32_max_def)
  from replay_blocks_split[OF rp, of "h + 1"] obtain s1 where s1:
    "replay_blocks (take (h + 1) bs) ([], []) = Inr s1" "replay_blocks (drop (h + 1) bs) s1 = Inr st" .
  have ok: "chain_ok bs" using authentic_chain_ok[OF au] small by simp
  have win: "snd s1 = reward_window (take (h + 1) bs)"
    by (rule replay_window[OF chain_ok_take[OF ok] s1(1)])
  define seed where "seed = drop (h + 1 - MINING_REWARD_MATURITY) (take (h + 1) bs)"
  have inv: "caught_up s1 ([], concat (map coinbase_rewards seed)) idx"
    using ex s1(1) win reward_window_take[of "h + 1" bs] h len
    by (simp add: caught_up_def agree_def exact_at_def index_exact_def hm_contains_def hm_simps seed_def)
  have rows: "map index bs = [0..<tip + 1]" "map Some bs = map get [0..<tip + 1]"
    using load_chain_rows[OF au] by simp_all
  have d: "drop (h + 1) [0..<tip + 1] = [h + 1..<tip + 1]" by simp
  have ix: "map index (drop (h + 1) bs) = [h + 1..<tip + 1]"
    and mp: "map Some (drop (h + 1) bs) = map get [h + 1..<tip + 1]"
    unfolding drop_map[symmetric] rows by (simp_all add: drop_map d del: upt_Suc)
  from catch_up_blocks_ok[OF ix mp _ inv s1(2), of "rebuild_balances_index c ser get highest"] small h
    window_seed(1)[OF au, of "h + 1"]
  show ?thesis
    by (auto simp: catch_up_balances_index_def Let_def first[simplified] index_exact_def seed_def simp del: upt_Suc)
qed

section \<open>The fork boundary\<close>

lemma revert_blocks_bal:
  "bal (fold (\<lambda>b. replay_revert_block (transactions b)) bs m) a = bal m a - sum_list (map (\<lambda>b. block_delta b a) bs)"
  for bs :: "block list"
  by (rule block_undo.revert_all_delta)

lemma replay_blocks_bal:
  "replay_blocks bs st = Inr st' \<Longrightarrow> bal (fst st') a = bal (fst st) a + sum_list (map (\<lambda>b. block_delta b a) bs)"
  unfolding replay_blocks_def by (rule block_undo.run_delta)

lemma bal_map_touched: "bal (map (\<lambda>a. (a, f a)) as) k = (if k \<in> set as then f k else 0)"
  by (induction as) (auto simp: bal_def hm_get_def)

lemma map_nth_drop: "length bs = n \<Longrightarrow> map ((!) bs) [k..<n] = drop k bs"
  by (intro nth_equalityI) auto

lemma fork_state_ok:
  assumes au: "authentic c ser get (tip + 1) = Inr bs" and small: "tip < u32_max"
    and rp: "replay_blocks bs ([], []) = Inr st"
    and ex: "index_exact tip (fst st) idx"
    and fk: "0 < fork" "fork \<le> tip"
  shows "\<exists>s m. replay_blocks (take fork bs) ([], []) = Inr s
    \<and> balances_at_fork_state get (tree idx) (marker idx) fork tip branch = Some (m, snd s)
    \<and> agree (\<Union>b \<in> set (drop fork bs @ branch). set (touched_by (transactions b))) (m, snd s) s"
proof -
  have len: "length bs = tip + 1" by (rule authentic_length[OF au])
  have ok: "chain_ok bs" using authentic_chain_ok[OF au] small by simp
  from replay_blocks_split[OF rp, of fork] obtain s1 where s1:
    "replay_blocks (take fork bs) ([], []) = Inr s1" "replay_blocks (drop fork bs) s1 = Inr st" .
  have win: "snd s1 = reward_window (take fork bs)"
    by (rule replay_window[OF chain_ok_take[OF ok] s1(1)])
  have rev: "load_blocks get [fork..<tip + 1] = Some (drop fork bs)"
    by (subst load_blocks_map[where f = "(!) bs"])
      (use map_nth_drop[OF len, of fork] in \<open>auto simp: authentic_get[OF au] simp del: upt_Suc\<close>)
  define touched where
    "touched = remdups (concat (map (\<lambda>b. touched_by (transactions b)) (drop fork bs @ branch)))"
  define m where "m = fold (\<lambda>b. replay_revert_block (transactions b)) (drop fork bs)
      (map (\<lambda>a. (a, bal (tree idx) a)) touched)"
  have T: "set touched = (\<Union>b \<in> set (drop fork bs @ branch). set (touched_by (transactions b)))"
    by (simp add: touched_def)
  have "bal m a = bal (fst s1) a" if "a \<in> set touched" for a
    using replay_blocks_bal[OF s1(2), of a] ex that
    by (simp add: m_def revert_blocks_bal bal_map_touched index_exact_def)
  then have "agree (set touched) (m, snd s1) s1" by (simp add: agree_def)
  moreover have "balances_at_fork_state get (tree idx) (marker idx) fork tip branch = Some (m, snd s1)"
    using fk ex rev window_seed(2)[OF au _, of fork] small win reward_window_take[of fork bs] len
    by (simp add: balances_at_fork_state_def index_exact_def m_def touched_def Let_def del: upt_Suc remdups.simps)
  ultimately show ?thesis using s1(1) unfolding T by blast
qed

lemma rel_sum_is_ok: "rel_sum R S x y \<Longrightarrow> is_ok x = is_ok y"
  by (auto elim: rel_sum.cases)

lemma replay_heights_ok:
  "load_chain (load_structurally_valid_canonical_block c ser get) hs prev = Inr bs \<Longrightarrow> replay_blocks bs st = Inr st' \<Longrightarrow>
    replay_heights (load_structurally_valid_canonical_block c ser get) hs prev st = Inr (Some st')"
proof (induction hs arbitrary: prev bs st)
  case Nil
  then show ?case by (simp add: replay_blocks_def)
next
  case (Cons h hs)
  then obtain b rest where b: "load_structurally_valid_canonical_block c ser get h prev = Inr b"
    "load_chain (load_structurally_valid_canonical_block c ser get) hs (Some b) = Inr rest" "bs = b # rest"
    by (auto simp: result_simps)
  with load_index[OF b(1)] Cons.prems(2) Cons.IH[OF b(2)] show ?case
    by (auto simp: replay_blocks_def split: sum.splits)
qed

lemma dry_run_agrees:
  assumes au: "authentic c ser get (tip + 1) = Inr bs" and small: "tip < u32_max"
    and rp: "replay_blocks bs ([], []) = Inr st"
    and ex: "index_exact tip (fst st) idx"
    and fk: "0 < fork" "fork \<le> tip"
  shows "\<exists>s. balances_at_fork_state get (tree idx) (marker idx) fork tip branch = Some s
    \<and> branch_is_balance_valid c ser get fork branch = Inr (is_ok (replay_blocks branch s))"
proof -
  let ?A = "\<Union>b \<in> set (drop fork bs @ branch). set (touched_by (transactions b))"
  from fork_state_ok[OF assms, of branch] obtain s m where
    s: "replay_blocks (take fork bs) ([], []) = Inr s"
      "balances_at_fork_state get (tree idx) (marker idx) fork tip branch = Some (m, snd s)"
      "agree ?A (m, snd s) s" by blast
  have "\<forall>b \<in> set branch. set (touched_by (transactions b)) \<subseteq> ?A" by auto
  from rel_sum_is_ok[OF replay_blocks_agree[OF s(3) this]]
  have "is_ok (replay_blocks branch (m, snd s)) = is_ok (replay_blocks branch s)" .
  moreover have "branch_is_balance_valid c ser get fork branch = Inr (is_ok (replay_blocks branch s))"
    using replay_heights_ok[OF authentic_take[OF au, of fork] s(1)] fk
    by (simp add: branch_is_balance_valid_def)
  ultimately show ?thesis using s(2) by simp
qed

section \<open>The overlay by scanning\<close>

lemma immature_of_append: "immature_of a (r @ r') = immature_of a r + immature_of a r'"
  by (simp add: immature_of_def)

lemma immature_of_rewards:
  "immature_of a (coinbase_rewards b)
    = sum_list (map amount_units (filter (\<lambda>tx. is_coinbase tx \<and> recipient tx = a) (transactions b)))"
  by (simp add: immature_of_def coinbase_rewards_def filter_map comp_def filter_filter conj_commute)

lemma immature_of_concat: "immature_of a (concat rs) = sum_list (map (immature_of a) rs)"
  by (induction rs) (simp_all add: immature_of_append, simp add: immature_of_def)

text \<open>The scan reads the heights \<open>spend_height - 99 .. spend_height - 1\<close>: what the replay window holds after the
  rewards that mature at the spend height are dropped.\<close>

lemma scan_is_window:
  assumes au: "authentic c ser get n = Inr bs" and "n < u32_max" and act: "MATURITY_ACTIVATION_HEIGHT \<le> n"
  shows "immature_reward_units_scan get a n in_flight =
    immature_of a (drop_mature n (reward_window bs) @ coinbase_rewards (blk\<lparr>index := n, transactions := in_flight\<rparr>))"
proof -
  have len: "length bs = n" by (rule authentic_length[OF au])
  have big: "MINING_REWARD_MATURITY < n" using act by (simp add: MATURITY_ACTIVATION_HEIGHT_def MINING_REWARD_MATURITY_def)
  let ?k = "Suc (n - MINING_REWARD_MATURITY)"
  have ok: "chain_ok (bs @ [blk\<lparr>index := n\<rparr>])"
    using authentic_chain_ok[OF au] assms(2) len by (simp add: chain_ok_def)
  have "n + 1 - MINING_REWARD_MATURITY = ?k" using big by simp
  then have "reward_window (bs @ [blk\<lparr>index := n\<rparr>])
      = concat (map coinbase_rewards (drop ?k bs)) @ coinbase_rewards (blk\<lparr>index := n\<rparr>)"
    using len by (simp add: reward_window_def MINING_REWARD_MATURITY_def)
  with window_step[OF ok] have win: "drop_mature n (reward_window bs) = concat (map coinbase_rewards (drop ?k bs))"
    by simp
  have u: "as_u32 h = h" if "h \<le> n" for h using that assms(2) by (simp add: as_u32_def)
  have low: "saturating_add (saturating_sub n MINING_REWARD_MATURITY) 1 = ?k"
    using assms(2) by (simp add: rust_arith u64_max_def u32_max_def)
  let ?f = "\<lambda>b. sum_list (map amount_units (filter (\<lambda>tx. is_coinbase tx \<and> recipient tx = a) (transactions b)))"
  have "sum_list (map snd (concat (map (\<lambda>rh. case get (as_u32 rh) of None \<Rightarrow> []
                 | Some b \<Rightarrow> map (\<lambda>tx. (as_u32 rh, amount_units tx))
                     (filter (\<lambda>tx. is_coinbase tx \<and> recipient tx = a) (transactions b))) hs)))
      = sum_list (map (\<lambda>h. ?f (bs ! h)) hs)" if "\<forall>h \<in> set hs. h < n" for hs
    using that by (induction hs) (auto simp: u authentic_get[OF au] comp_def)
  from this[of "[?k..<n]"] have "sum_list (map snd (concat (map (\<lambda>rh. case get (as_u32 rh) of None \<Rightarrow> []
                 | Some b \<Rightarrow> map (\<lambda>tx. (as_u32 rh, amount_units tx))
                     (filter (\<lambda>tx. is_coinbase tx \<and> recipient tx = a) (transactions b))) [?k..<n])))
      = sum_list (map ?f (drop ?k bs))"
    using arg_cong[OF map_nth_drop[OF len, of ?k], of "map ?f"] by (simp add: comp_def)
  then show ?thesis
    using act by (simp add: immature_reward_units_scan_def immature_coinbase_details_def u low[simplified] win Let_def
      immature_of_append immature_of_concat immature_of_rewards comp_def)
qed

lemma credit_rewards_bal:
  "bal (fold (\<lambda>tx m. if is_coinbase tx then credit (recipient tx) (amount_units tx) m else m) txs m) a
    = bal m a + sum_list (map amount_units (filter (\<lambda>tx. is_coinbase tx \<and> recipient tx = a) txs))"
  by (induction txs arbitrary: m) (auto simp: bal_credit)

lemma by_recipient_is_scan:
  assumes "list_ex (\<lambda>tx. \<not> is_coinbase tx) txs" and "n \<le> u32_max"
  shows "bal (immature_rewards_by_recipient get txs n) a = immature_reward_units_scan get a n []"
proof -
  have "bal (fold (\<lambda>rh m. case get (as_u32 rh) of None \<Rightarrow> m
        | Some b \<Rightarrow> fold (\<lambda>tx m. if is_coinbase tx then credit (recipient tx) (amount_units tx) m else m)
            (transactions b) m) hs m) a
    = bal m a + sum_list (map snd (concat (map (\<lambda>rh. case get (as_u32 rh) of None \<Rightarrow> []
        | Some b \<Rightarrow> map (\<lambda>tx. (as_u32 rh, amount_units tx))
            (filter (\<lambda>tx. is_coinbase tx \<and> recipient tx = a) (transactions b))) hs)))" for hs m
    by (induction hs arbitrary: m) (auto simp: credit_rewards_bal comp_def split: option.splits)
  moreover have "bal [] a = 0" by (simp add: bal_def hm_simps)
  moreover have "as_u32 n = n" using assms(2) by (simp add: as_u32_def)
  ultimately show ?thesis
    using assms(1) by (simp add: immature_rewards_by_recipient_def immature_reward_units_scan_def
      immature_coinbase_details_def Let_def)
qed

end
