(* ===== verification/A9_Balance_Theorems.thy ===== *)
theory A9_Balance_Theorems
  imports A9_Balance_Index
begin

text \<open>
  The theorems on confirmed balances, with a sample chain on which each of them is applied.
\<close>

section \<open>A sample chain\<close>

text \<open>Every block of the sample chain pays 500 units to \<open>miner\<close>; from block 1 on, the miner pays
  20 units to \<open>bob\<close> with a fee of 3.  Its hash function is constant, so that the chain
  authenticates at every length.\<close>

definition flat_crypto :: crypto where
  "flat_crypto = \<lparr>sha256 = (\<lambda>_. zero_hash), blake3 = (\<lambda>_. zero_hash), hex_encode = id, hex_decode = Some,
     mldsa_verify = (\<lambda>_ _ _. True)\<rparr>"

definition pay :: "string \<Rightarrow> string \<Rightarrow> int \<Rightarrow> int \<Rightarrow> transaction" where
  "pay s r a f = \<lparr>sender = s, recipient = r, fee_units = f, amount_units = a, timestamp = 0,
     signature = None, pub_key = None, sig_hash = None\<rparr>"

definition flat_block :: "transaction list \<Rightarrow> nat \<Rightarrow> block" where
  "flat_block txs i = \<lparr>index = i, previous_hash = zero_hash, block_timestamp = 0, transactions = txs,
     nonce = 0, difficulty = 0, hash = zero_hash, merkle_root = zero_hash\<rparr>"

definition sample_txs :: "nat \<Rightarrow> transaction list" where
  "sample_txs i = pay ''MINING_REWARDS'' ''miner'' 500 0 # (if i = 0 then [] else [pay ''miner'' ''bob'' 20 3])"

definition sample_get :: "u32 \<Rightarrow> block option" where
  "sample_get i = Some (flat_block (sample_txs i) i)"

lemma flat_merkle_climb: "xs \<noteq> [] \<Longrightarrow> \<forall>x \<in> set xs. x = zero_hash \<Longrightarrow> merkle_climb (\<lambda>_. zero_hash) xs = zero_hash"
proof (induction "\<lambda>_::string. zero_hash" xs rule: merkle_climb.induct)
  case (1 xs)
  have all: "\<forall>x \<in> set (merkle_level (\<lambda>_. zero_hash) ys). x = zero_hash" for ys
    by (induction "\<lambda>_::string. zero_hash" ys rule: merkle_level.induct) auto
  show ?case
  proof (cases "length xs > 1")
    case True
    then have "length (merkle_level (\<lambda>_. zero_hash) xs) \<noteq> 0" unfolding merkle_level_length by simp
    then have "merkle_level (\<lambda>_. zero_hash) xs \<noteq> []" by simp
    with 1(1)[OF True _ all] True show ?thesis by (subst merkle_climb.simps) simp
  next
    case False
    with 1(2,3) show ?thesis by (subst merkle_climb.simps) auto
  qed
qed

lemma flat_merkle: "calculate_merkle_root flat_crypto ser txs = zero_hash"
  by (auto simp: calculate_merkle_root_def calculate_merkle_root_from_leaf_hashes_def empty_root_def
      flat_crypto_def calculate_merkle_leaf_hash_def Let_def intro!: flat_merkle_climb)

lemma sample_load:
  "prev \<in> {None} \<union> (Some ` range (\<lambda>i. flat_block (sample_txs i) i)) \<Longrightarrow>
    load_structurally_valid_canonical_block flat_crypto ser sample_get h prev = Inr (flat_block (sample_txs h) h)"
  by (auto simp: load_structurally_valid_canonical_block_def sample_get_def flat_block_def guard_err_def flat_merkle
      calculate_hash_for_block_def, simp_all add: flat_crypto_def)

lemma sample_authentic:
  "authentic flat_crypto ser sample_get n = Inr (map (\<lambda>i. flat_block (sample_txs i) i) [0..<n])"
proof -
  have "load_chain (load_structurally_valid_canonical_block flat_crypto ser sample_get) hs prev
      = Inr (map (\<lambda>i. flat_block (sample_txs i) i) hs)"
    if "prev \<in> {None} \<union> (Some ` range (\<lambda>i. flat_block (sample_txs i) i))" for hs prev
    using that by (induction hs arbitrary: prev) (auto simp: sample_load)
  then show ?thesis by simp
qed

lemmas sample_defs = flat_block_def sample_txs_def pay_def replay_blocks_def replay_apply_block_checked_def
  replay_tx_def is_coinbase_def drop_mature_def credit_def bal_def hm_get_def hm_insert_def total_debit_units_def
  i128_saturating_add_def i128_clamp_def i128_max_def i128_min_def MINING_REWARD_MATURITY_def
  MATURITY_ACTIVATION_HEIGHT_def saturating_add_def u64_max_def

lemma sample_replay:
  "replay_blocks [flat_block (sample_txs 0) 0, flat_block (sample_txs 1) 1] ([], [])
    = Inr ([(''miner'', 977), (''bob'', 20)], [(0, ''miner'', 500), (1, ''miner'', 500)])"
  by (simp add: sample_defs)

lemma sample_replay1:
  "replay_blocks [flat_block (sample_txs 0) 0] ([], []) = Inr ([(''miner'', 500)], [(0, ''miner'', 500)])"
  by (simp add: sample_defs)

lemma upt_2: "[0..<2] = [0, 1::nat]"
  by (simp add: upt_rec)

lemma sample_authentic2:
  "authentic flat_crypto ser sample_get (1 + 1) = Inr [flat_block (sample_txs 0) 0, flat_block (sample_txs 1) 1]"
  unfolding sample_authentic unfolding one_add_one upt_2 by simp

section \<open>The theorems\<close>

text \<open>C22. Reverting is the exact inverse of applying: after any run of blocks has been replayed, reverting
  the same blocks in whatever order gives every account its balance back.\<close>

theorem revert_inverts_replay:
  assumes "replay_blocks bs st = Inr st'" and "mset bs = mset bs'"
  shows "bal (fold (\<lambda>b. replay_revert_block (transactions b)) bs' (fst st')) a = bal (fst st) a"
  using assms unfolding replay_blocks_def by (rule block_undo.undo)

theorem revert_inverts_replay_witness:
  "bal (fold (\<lambda>b. replay_revert_block (transactions b)) [flat_block (sample_txs 1) 1, flat_block (sample_txs 0) 0]
     [(''miner'', 977), (''bob'', 20)]) ''miner'' = 0"
  using revert_inverts_replay[OF sample_replay, of "[flat_block (sample_txs 1) 1, flat_block (sample_txs 0) 0]" "''miner''"]
  by (simp add: bal_def hm_get_def add_mset_commute)

text \<open>C23. The replay from genesis never leaves an account negative, at any block, and creates or destroys no
  money beyond the declared rewards and fees: the sum of all balances is the sum of the coinbase
  amounts minus the sum of the fees of the other transactions.\<close>

theorem replay_solvent_and_conserving:
  assumes "replay_blocks bs ([], []) = Inr st"
    and "\<forall>b \<in> set bs. \<forall>tx \<in> set (transactions b).
      0 \<le> amount_units tx \<and> 0 \<le> fee_units tx \<and> amount_units tx + fee_units tx \<le> i128_max"
  shows "(\<forall>a. 0 \<le> bal (fst st) a)
    \<and> total_supply (fst st) =
       sum_list (map (\<lambda>b. sum_list (map amount_units (filter is_coinbase (transactions b)))
                        - sum_list (map fee_units (filter (\<lambda>tx. \<not> is_coinbase tx) (transactions b)))) bs)"
  using replay_never_negative[OF assms(1)] replay_conserves[OF assms] assms(2)
  by (auto simp: tx_nonneg_def)

theorem replay_solvent_and_conserving_witness:
  "total_supply [(''miner'', 977), (''bob'', 20)] = 997"
  using conjunct2[OF replay_solvent_and_conserving[OF sample_replay]]
  by (simp add: flat_block_def sample_txs_def pay_def is_coinbase_def i128_max_def)



text \<open>A rebuild publishes all or nothing: it succeeds exactly when every row from 0 to the tip authenticates
  and the chain replays, and then the tree holds exactly the accounts of the replay; otherwise it
  reports the error and the index is the one it was.\<close>

theorem rebuild_all_or_nothing:
  assumes "hm_wf (tree idx)"
  shows "case rebuild_balances_index c ser get (Some tip) idx of
      (Inr (), idx') \<Rightarrow> \<exists>bs st. authentic c ser get (tip + 1) = Inr bs \<and> replay_blocks bs ([], []) = Inr st
        \<and> marker idx' = Some tip \<and> (\<forall>a. hm_get (tree idx') a = hm_get (fst st) a)
    | (Inl e, idx') \<Rightarrow> idx' = idx
        \<and> (\<nexists>bs st. authentic c ser get (tip + 1) = Inr bs \<and> replay_blocks bs ([], []) = Inr st)"
proof (cases "rebuild_balances_index c ser get (Some tip) idx")
  case (Pair r idx')
  show ?thesis
  proof (cases r)
    case (Inl e)
    from rebuild_fails_closed[OF Pair[unfolded Inl]] show ?thesis by (simp add: Pair Inl)
  next
    case (Inr u)
    from rebuild_ok_iff[of c ser get tip idx idx'] Pair Inr obtain bs st where
      b: "authentic c ser get (tip + 1) = Inr bs" "replay_blocks bs ([], []) = Inr st" by auto
    from rebuild_ok[OF b assms] have "marker idx' = Some tip \<and> (\<forall>a. hm_get (tree idx') a = hm_get (fst st) a)"
      unfolding Pair Inr by (simp add: index_exact_def)
    with b have "\<exists>bs st. authentic c ser get (tip + 1) = Inr bs \<and> replay_blocks bs ([], []) = Inr st
        \<and> marker idx' = Some tip \<and> (\<forall>a. hm_get (tree idx') a = hm_get (fst st) a)" by blast
    then show ?thesis unfolding Pair Inr by (cases u) (simp only: prod.case sum.case old.unit.case)
  qed
qed

theorem rebuild_all_or_nothing_witness:
  "case rebuild_balances_index flat_crypto (\<lambda>_. '''') (\<lambda>_. None) (Some 0) \<lparr>tree = [(''bob'', 7)], marker = Some 3\<rparr> of
      (Inr (), idx') \<Rightarrow> False
    | (Inl e, idx') \<Rightarrow> idx' = \<lparr>tree = [(''bob'', 7)], marker = Some 3\<rparr>"
  using rebuild_all_or_nothing[of "\<lparr>tree = [(''bob'', 7)], marker = Some 3\<rparr>" flat_crypto "\<lambda>_. ''''" "\<lambda>_. None" 0]
  by (auto simp: hm_wf_def load_structurally_valid_canonical_block_def split: prod.splits sum.splits unit.splits)

text \<open>The fast path of a reorganisation decides like the full one: when the index is exact at the old tip,
  the state it derives at the fork is available, and the dry run of any branch from it accepts exactly
  the branches that the replay from genesis accepts.\<close>

theorem fast_fork_state_decides_like_replay:
  assumes "authentic c ser get (tip + 1) = Inr bs" and "tip < u32_max"
    and "replay_blocks bs ([], []) = Inr st" and "index_exact tip (fst st) idx"
    and "0 < fork" and "fork \<le> tip"
  shows "\<exists>s. balances_at_fork_state get (tree idx) (marker idx) fork tip branch = Some s
    \<and> branch_is_balance_valid c ser get fork branch = Inr (is_ok (replay_blocks branch s))"
  using assms by (rule dry_run_agrees)

theorem fast_fork_state_decides_like_replay_witness:
  "\<exists>s. balances_at_fork_state sample_get [(''miner'', 977), (''bob'', 20)] (Some 1) 1 1
        [flat_block [pay ''bob'' ''miner'' 1 0] 1] = Some s
    \<and> branch_is_balance_valid flat_crypto (\<lambda>_. '''') sample_get 1 [flat_block [pay ''bob'' ''miner'' 1 0] 1]
      = Inr (is_ok (replay_blocks [flat_block [pay ''bob'' ''miner'' 1 0] 1] s))"
proof -
  have "authentic flat_crypto (\<lambda>_. '''') sample_get (1 + 1)
      = Inr [flat_block (sample_txs 0) 0, flat_block (sample_txs 1) 1]"
    by (rule sample_authentic2)
  from fast_fork_state_decides_like_replay[OF this _ sample_replay,
      of "\<lparr>tree = [(''miner'', 977), (''bob'', 20)], marker = Some 1\<rparr>" 1 "[flat_block [pay ''bob'' ''miner'' 1 0] 1]"]
  show ?thesis by (simp add: u32_max_def hm_wf_def index_exact_def)
qed

text \<open>The maturity overlay of the tip gates is the one of the replay: from the activation height on, the
  scan of stored blocks gives the immature amount the replay compares with when it reaches that
  height, the block's own rewards included, and the batched map gives the same number for every
  account.\<close>

theorem scan_overlay_matches_replay:
  assumes "authentic c ser get n = Inr bs" and "n < u32_max" and "MATURITY_ACTIVATION_HEIGHT \<le> n"
    and "list_ex (\<lambda>tx. \<not> is_coinbase tx) txs"
  shows "immature_reward_units_scan get a n in_flight
      = immature_of a (drop_mature n (reward_window bs) @ coinbase_rewards (flat_block in_flight n))
    \<and> bal (immature_rewards_by_recipient get txs n) a = immature_reward_units_scan get a n []"
proof -
  have "(flat_block [] 0)\<lparr>index := n, transactions := in_flight\<rparr> = flat_block in_flight n"
    by (simp add: flat_block_def)
  with scan_is_window[OF assms(1-3), of a in_flight "flat_block [] 0"] by_recipient_is_scan[OF assms(4), of n get a]
    assms(2) show ?thesis by simp
qed

theorem scan_overlay_matches_replay_witness:
  "bal (immature_rewards_by_recipient sample_get [pay ''miner'' ''bob'' 1 0] 1500) ''miner''
    = immature_reward_units_scan sample_get ''miner'' 1500 []"
  using conjunct2[OF scan_overlay_matches_replay[OF sample_authentic, of 1500 "[pay ''miner'' ''bob'' 1 0]" "''miner''"]]
  by (simp add: u32_max_def MATURITY_ACTIVATION_HEIGHT_def is_coinbase_def pay_def)

end
