(* ===== verification/A9_Reward.thy ===== *)
theory A9_Reward
  imports A9_Balances
begin

text \<open>
  The block reward and the fee-accounting rule (\<^verbatim>\<open>src/a9/blockchain.rs\<close>): the decaying ceiling in
  \<open>f64\<close>, the legacy reward curve, Reward V2 in integer units, the rule on the coinbase of a block,
  and the running totals a template packer keeps (\<open>TemplateFeeAccounting\<close>).
\<close>

section \<open>More of binary64\<close>

fun f64_mul :: "f64 \<Rightarrow> f64 \<Rightarrow> f64" where
  "f64_mul x (Fin c) = f64_mul_fin x c"
| "f64_mul (Fin c) x = f64_mul_fin x c"
| "f64_mul NaN x = NaN"
| "f64_mul x NaN = NaN"
| "f64_mul PosInf PosInf = PosInf"
| "f64_mul NegInf NegInf = PosInf"
| "f64_mul PosInf NegInf = NegInf"
| "f64_mul NegInf PosInf = NegInf"

fun f64_add :: "f64 \<Rightarrow> f64 \<Rightarrow> f64" where
  "f64_add (Fin a) (Fin b) = f64_of_rat (a + b)"
| "f64_add NaN x = NaN"
| "f64_add x NaN = NaN"
| "f64_add PosInf NegInf = NaN"
| "f64_add NegInf PosInf = NaN"
| "f64_add PosInf x = PosInf"
| "f64_add NegInf x = NegInf"
| "f64_add (Fin a) x = x"

fun f64_neg :: "f64 \<Rightarrow> f64" where
  "f64_neg (Fin a) = Fin (- a)"
| "f64_neg PosInf = NegInf"
| "f64_neg NegInf = PosInf"
| "f64_neg NaN = NaN"

definition f64_sub :: "f64 \<Rightarrow> f64 \<Rightarrow> f64" where
  "f64_sub x y = f64_add x (f64_neg y)"

text \<open>Division by a positive zero gives an infinity (the sign of a zero is not modelled).\<close>

fun f64_div :: "f64 \<Rightarrow> f64 \<Rightarrow> f64" where
  "f64_div (Fin a) (Fin b) =
     (if b \<noteq> 0 then f64_of_rat (a / b) else if a = 0 then NaN else if 0 < a then PosInf else NegInf)"
| "f64_div x (Fin b) = (if b \<noteq> 0 then f64_div_fin x b else x)"
| "f64_div (Fin a) NaN = NaN"
| "f64_div (Fin a) x = Fin 0"
| "f64_div x y = NaN"

fun f64_less :: "f64 \<Rightarrow> f64 \<Rightarrow> bool" where
  "f64_less (Fin a) (Fin b) = (a < b)"
| "f64_less NegInf (Fin b) = True"
| "f64_less NegInf PosInf = True"
| "f64_less (Fin a) PosInf = True"
| "f64_less x y = False"

definition f64_le :: "f64 \<Rightarrow> f64 \<Rightarrow> bool" where
  "f64_le x y \<longleftrightarrow> x \<noteq> NaN \<and> (x = y \<or> f64_less x y)"

definition f64_min :: "f64 \<Rightarrow> f64 \<Rightarrow> f64" where
  "f64_min x y = (if x = NaN then y else if y = NaN then x else if f64_less y x then y else x)"

definition f64_max :: "f64 \<Rightarrow> f64 \<Rightarrow> f64" where
  "f64_max x y = (if x = NaN then y else if y = NaN then x else if f64_less x y then y else x)"

text \<open>\<open>f64::clamp\<close> panics unless \<open>lo \<le> hi\<close>.\<close>

definition f64_clamp :: "f64 \<Rightarrow> f64 \<Rightarrow> f64 \<Rightarrow> blockchain_error + f64" where
  "f64_clamp x lo hi =
     (if \<not> f64_le lo hi then Inl ClampPanic
      else Inr (if f64_less x lo then lo else if f64_less hi x then hi else x))"

text \<open>A decimal literal of the source.\<close>

definition lit :: "rat \<Rightarrow> f64" where
  "lit q = f64_of_rat q"

section \<open>Constants\<close>

definition MIN_BLOCK_REWARD :: f64 where
  "MIN_BLOCK_REWARD = Fin 1"

definition MAX_BLOCK_REWARD :: f64 where
  "MAX_BLOCK_REWARD = Fin 50"

definition REDUCTION_RATE :: f64 where
  "REDUCTION_RATE = lit (83 / 100)"

definition GENESIS_LAUNCH_AMOUNT :: f64 where
  "GENESIS_LAUNCH_AMOUNT = lit (1776 / 100)"

definition NETWORK_FEE :: f64 where
  "NETWORK_FEE = lit (5 / 10000)"

definition MINT_CLIP :: f64 where
  "MINT_CLIP = lit (35 / 100)"

definition FEE_SYSTEM_ACTIVATION_HEIGHT :: u32 where
  "FEE_SYSTEM_ACTIVATION_HEIGHT = 517583"

definition REWARD_CURVE_V2_ACTIVATION_HEIGHT :: u32 where
  "REWARD_CURVE_V2_ACTIVATION_HEIGHT = 569423"

definition REWARD_V2_MINER_FEE_NUMERATOR :: i128 where
  "REWARD_V2_MINER_FEE_NUMERATOR = 65"

definition REWARD_V2_MINER_FEE_DENOMINATOR :: i128 where
  "REWARD_V2_MINER_FEE_DENOMINATOR = 100"

definition LOW_FEE_COMPATIBILITY_ENVELOPE_UNITS :: i128 where
  "LOW_FEE_COMPATIBILITY_ENVELOPE_UNITS = 500000"

definition SECONDS_IN_SIX_MONTHS :: u64 where
  "SECONDS_IN_SIX_MONTHS = 15768000"

definition MAX_REDUCTION_PERIODS :: u64 where
  "MAX_REDUCTION_PERIODS = 8192"

section \<open>The ceiling\<close>

function reduction_loop :: "f64 \<Rightarrow> f64 \<Rightarrow> nat \<Rightarrow> f64" where
  "reduction_loop result base n =
     (if n = 0 then result
      else let result' = (if n mod 2 = 1 then f64_mul result base else result);
               n' = n div 2;
               base' = (if n' > 0 then f64_mul base base else base)
           in reduction_loop result' base' n')"
  by pat_completeness auto
termination
  by (relation "measure (\<lambda>(_, _, n). n)") auto

declare reduction_loop.simps [simp del]

definition reduction_factor :: "u64 \<Rightarrow> f64" where
  "reduction_factor periods = reduction_loop (Fin 1) REDUCTION_RATE (min periods MAX_REDUCTION_PERIODS)"

text \<open>\<open>genesis_ts\<close> is the timestamp of the genesis block, or the error of loading it.\<close>

definition scheduled_reward_ceiling :: "blockchain_error + u64 \<Rightarrow> u64 \<Rightarrow> blockchain_error + f64" where
  "scheduled_reward_ceiling genesis_ts blk_ts =
     and_then genesis_ts (\<lambda>gts.
       let time_since_genesis = saturating_sub blk_ts gts;
           periods = time_since_genesis div SECONDS_IN_SIX_MONTHS
       in Inr (f64_mul MAX_BLOCK_REWARD (reduction_factor periods)))"

section \<open>Rewards\<close>

definition subsidy_units :: "f64 \<Rightarrow> blockchain_error + i128" where
  "subsidy_units subsidy_ceiling =
     (let reward_floor = f64_min MIN_BLOCK_REWARD subsidy_ceiling
      in and_then (f64_clamp (f64_mul subsidy_ceiling (lit (2 / 10))) reward_floor subsidy_ceiling) (\<lambda>x.
           Inr (to_units (round_amount x))))"

definition reward_curve_v2_units :: "f64 \<Rightarrow> usize \<Rightarrow> i128 \<Rightarrow> blockchain_error + i128" where
  "reward_curve_v2_units subsidy_ceiling tx_count total_fee_units =
     guard_err (total_fee_units < 0 \<or> (tx_count = 0 \<and> total_fee_units \<noteq> 0)) InvalidTransactionAmount
       (and_then (subsidy_units subsidy_ceiling) (\<lambda>s.
          let f = (if tx_count = 0 then 0 else total_fee_units) in
          and_then (ok_or InvalidTransactionAmount (i128_checked_mul f REWARD_V2_MINER_FEE_NUMERATOR)) (\<lambda>p.
            ok_or InvalidTransactionAmount
              (i128_checked_add s (trunc_div p REWARD_V2_MINER_FEE_DENOMINATOR)))))"

definition block_reward_from_totals :: "blockchain_error + u64 \<Rightarrow> u32 \<Rightarrow> u64 \<Rightarrow> usize \<Rightarrow> f64
    \<Rightarrow> blockchain_error + f64" where
  "block_reward_from_totals genesis_ts block_index blk_ts tx_count total_fees =
     (if block_index = 0 then Inr GENESIS_LAUNCH_AMOUNT
      else and_then (scheduled_reward_ceiling genesis_ts blk_ts) (\<lambda>current_max.
        if block_index \<ge> REWARD_CURVE_V2_ACTIVATION_HEIGHT then
          guard_err (\<not> is_finite total_fees \<or> f64_less total_fees (Fin 0)) InvalidTransactionAmount
            (and_then (reward_curve_v2_units current_max tx_count (to_units total_fees)) (\<lambda>r.
               Inr (from_units r)))
        else
          let fee_target = f64_max (f64_mul current_max (lit (5 / 100))) (lit (1 / 10000));
              effective_fees = f64_mul total_fees (f64_sub (Fin 1) MINT_CLIP)
          in and_then (f64_clamp (f64_div effective_fees fee_target) (Fin 0) (Fin 1)) (\<lambda>fee_factor.
               let base_reward = (if tx_count = 0 then f64_mul current_max (lit (2 / 10))
                                  else f64_add MIN_BLOCK_REWARD
                                    (f64_mul (f64_sub current_max MIN_BLOCK_REWARD) fee_factor));
                   reward_floor = f64_min MIN_BLOCK_REWARD current_max
               in and_then (f64_clamp (f64_add base_reward effective_fees) reward_floor current_max) (\<lambda>x.
                    Inr (round_amount x)))))"

definition block_reward_units_from_totals :: "blockchain_error + u64 \<Rightarrow> u32 \<Rightarrow> u64 \<Rightarrow> usize \<Rightarrow> i128
    \<Rightarrow> blockchain_error + i128" where
  "block_reward_units_from_totals genesis_ts block_index blk_ts tx_count total_fee_units =
     (if block_index = 0 then Inr (to_units GENESIS_LAUNCH_AMOUNT)
      else if block_index < REWARD_CURVE_V2_ACTIVATION_HEIGHT then
        and_then (block_reward_from_totals genesis_ts block_index blk_ts tx_count (from_units total_fee_units))
          (\<lambda>r. Inr (to_units r))
      else and_then (scheduled_reward_ceiling genesis_ts blk_ts) (\<lambda>ceil.
             reward_curve_v2_units ceil tx_count total_fee_units))"

definition regular :: "transaction list \<Rightarrow> transaction list" where
  "regular txs = filter (\<lambda>tx. \<not> is_coinbase tx) txs"

definition add_fee_units :: "i128 \<Rightarrow> transaction \<Rightarrow> blockchain_error + i128" where
  "add_fee_units so_far tx =
     guard_err (fee_units tx < 0) InvalidTransactionAmount
       (ok_or InvalidTransactionAmount (i128_checked_add so_far (fee_units tx)))"

definition aggregate_regular_fee_units :: "transaction list \<Rightarrow> blockchain_error + i128" where
  "aggregate_regular_fee_units txs = try_fold add_fee_units 0 (regular txs)"

definition calculate_block_reward :: "blockchain_error + u64 \<Rightarrow> block \<Rightarrow> blockchain_error + f64" where
  "calculate_block_reward genesis_ts b =
     (if index b = 0 then Inr GENESIS_LAUNCH_AMOUNT
      else if index b \<ge> REWARD_CURVE_V2_ACTIVATION_HEIGHT then
        and_then (try_fold (\<lambda>(cnt, fees) tx.
                    and_then (add_fee_units fees tx) (\<lambda>next_fees. Inr (saturating_add cnt 1, next_fees)))
                  (0, 0) (regular (transactions b))) (\<lambda>(tx_count, total_fee_units).
          and_then (block_reward_units_from_totals genesis_ts (index b) (block_timestamp b) tx_count total_fee_units)
            (\<lambda>r. Inr (from_units r)))
      else
        let (tx_count, total_fees) =
              fold (\<lambda>tx (cnt, fees). (cnt + 1, f64_add fees (fee tx))) (regular (transactions b)) (0, Fin 0)
        in block_reward_from_totals genesis_ts (index b) (block_timestamp b) tx_count total_fees)"

section \<open>Fee accounting\<close>

definition scheduled_baseline_units_at :: "blockchain_error + u64 \<Rightarrow> u32 \<Rightarrow> u64 \<Rightarrow> blockchain_error + i128" where
  "scheduled_baseline_units_at genesis_ts block_index blk_ts =
     (if block_index = 0 then Inr (to_units GENESIS_LAUNCH_AMOUNT)
      else
        and_then (block_reward_units_from_totals genesis_ts block_index blk_ts 0 0) (\<lambda>empty_units.
        and_then (block_reward_units_from_totals genesis_ts block_index blk_ts 1 0) (\<lambda>nonempty_floor_units.
        and_then (block_reward_units_from_totals genesis_ts block_index blk_ts 1
                    LOW_FEE_COMPATIBILITY_ENVELOPE_UNITS) (\<lambda>compatibility_reward_units.
        and_then (ok_or InvalidTransactionAmount
                    (i128_checked_sub compatibility_reward_units LOW_FEE_COMPATIBILITY_ENVELOPE_UNITS)) (\<lambda>net.
          Inr (max (max empty_units nonempty_floor_units) net))))))"

definition fee_accounting_is_admissible_for_block :: "blockchain_error + u64 \<Rightarrow> block \<Rightarrow> i128
    \<Rightarrow> blockchain_error + bool" where
  "fee_accounting_is_admissible_for_block genesis_ts b expected_reward_units =
     and_then (aggregate_regular_fee_units (transactions b)) (\<lambda>total_fee_units.
     and_then (scheduled_baseline_units_at genesis_ts (index b) (block_timestamp b)) (\<lambda>baseline.
     and_then (ok_or InvalidTransactionAmount (i128_checked_sub expected_reward_units total_fee_units)) (\<lambda>net.
       Inr (net \<le> baseline))))"

definition validate_block_reward_rules_at :: "blockchain_error + u64 \<Rightarrow> block \<Rightarrow> u32 \<Rightarrow> blockchain_error + unit" where
  "validate_block_reward_rules_at genesis_ts b activation_height =
     (let reward_txs = filter is_coinbase (transactions b) in
      guard_err (length reward_txs \<noteq> 1) InvalidSystemTransaction
       (guard_err (case transactions b of [] \<Rightarrow> True | tx # _ \<Rightarrow> \<not> is_coinbase tx) InvalidSystemTransaction
         (let reward_tx = hd reward_txs in
          guard_err (fee_units reward_tx \<noteq> to_units NETWORK_FEE) InvalidSystemTransaction
            (and_then (calculate_block_reward genesis_ts b) (\<lambda>r.
               let expected = to_units r in
               guard_err (amount_units reward_tx \<noteq> expected) InvalidTransactionAmount
                 (if index b \<ge> activation_height then
                    and_then (fee_accounting_is_admissible_for_block genesis_ts b expected) (\<lambda>ok.
                      if ok then Inr () else Inl FeeAccountingLimitExceeded)
                  else Inr ()))))))"

definition accounting_view :: "transaction \<Rightarrow> transaction" where
  "accounting_view tx =
     \<lparr>sender = (if is_coinbase tx then ''MINING_REWARDS'' else ''''), recipient = '''',
      fee_units = fee_units tx, amount_units = amount_units tx, timestamp = timestamp tx,
      signature = None, pub_key = None, sig_hash = None\<rparr>"

definition template_fee_accounting_is_admissible_at :: "blockchain_error + u64 \<Rightarrow> u32 \<Rightarrow> u64 \<Rightarrow> transaction list
    \<Rightarrow> u32 \<Rightarrow> blockchain_error + bool" where
  "template_fee_accounting_is_admissible_at genesis_ts block_index blk_ts txs activation_height =
     (if block_index < activation_height then Inr True
      else
        let b = \<lparr>index = block_index, previous_hash = zero_hash, block_timestamp = blk_ts,
                 transactions = map accounting_view txs, nonce = 0, difficulty = 0,
                 hash = zero_hash, merkle_root = zero_hash\<rparr>
        in and_then (calculate_block_reward genesis_ts b) (\<lambda>r.
             fee_accounting_is_admissible_for_block genesis_ts b (to_units r)))"

section \<open>The packer's running totals\<close>

record template_fee_accounting =
  activated :: bool
  acc_index :: u32
  acc_timestamp :: u64
  baseline_units :: i128
  tx_count :: usize
  total_fees :: f64
  total_fee_units :: i128

definition new_at :: "blockchain_error + u64 \<Rightarrow> u32 \<Rightarrow> u64 \<Rightarrow> u32 \<Rightarrow> blockchain_error + template_fee_accounting" where
  "new_at genesis_ts block_index blk_ts activation_height =
     (let act = block_index \<ge> activation_height in
      and_then (if act then scheduled_baseline_units_at genesis_ts block_index blk_ts else Inr 0) (\<lambda>baseline.
        Inr \<lparr>activated = act, acc_index = block_index, acc_timestamp = blk_ts, baseline_units = baseline,
             tx_count = 0, total_fees = Fin 0, total_fee_units = 0\<rparr>))"

definition totals_with :: "template_fee_accounting \<Rightarrow> transaction \<Rightarrow> blockchain_error + usize \<times> f64 \<times> i128" where
  "totals_with acc tx =
     and_then (add_fee_units (total_fee_units acc) tx) (\<lambda>units.
       Inr (saturating_add (tx_count acc) 1, f64_add (total_fees acc) (fee tx), units))"

definition admits :: "blockchain_error + u64 \<Rightarrow> template_fee_accounting \<Rightarrow> transaction \<Rightarrow> blockchain_error + bool" where
  "admits genesis_ts acc tx =
     (if \<not> activated acc then Inr True
      else and_then (totals_with acc tx) (\<lambda>(n, fees, units).
        and_then (if acc_index acc \<ge> REWARD_CURVE_V2_ACTIVATION_HEIGHT
                  then block_reward_units_from_totals genesis_ts (acc_index acc) (acc_timestamp acc) n units
                  else and_then (block_reward_from_totals genesis_ts (acc_index acc) (acc_timestamp acc) n fees)
                         (\<lambda>r. Inr (to_units r))) (\<lambda>reward_units.
        and_then (ok_or InvalidTransactionAmount (i128_checked_sub reward_units units)) (\<lambda>net.
          Inr (net \<le> baseline_units acc)))))"

definition commit :: "template_fee_accounting \<Rightarrow> transaction \<Rightarrow> blockchain_error + template_fee_accounting" where
  "commit acc tx =
     and_then (totals_with acc tx) (\<lambda>(n, fees, units).
       Inr (acc\<lparr>tx_count := n, total_fees := fees, total_fee_units := units\<rparr>))"

end
