(* ===== verification/A9_Rules.thy ===== *)
theory A9_Rules
  imports A9_Reward
begin

text \<open>
  The consensus rules on one block (\<^verbatim>\<open>src/a9/blockchain.rs\<close>): weight and shape of transactions,
  the signature check with its cache, receipt fields of stored blocks, the validation of a block
  against its parent, of a block whose parent is unknown, and of a freshly mined block, and the
  form in which blocks are stored.  The LRU cache is a list of keys (every cached value is
  \<open>true\<close>) with an eviction function.
\<close>

section \<open>Constants\<close>

datatype signature_validation_mode = RequireFull | AllowTruncatedStored

definition PUBLIC_KEY_BYTES :: usize where
  "PUBLIC_KEY_BYTES = 2592"

definition SIGNATURE_BYTES :: usize where
  "SIGNATURE_BYTES = 4627"

definition TRANSACTION_WEIGHT_FIXED_BYTES :: usize where
  "TRANSACTION_WEIGHT_FIXED_BYTES = 128"

definition BLOCK_WEIGHT_FIXED_BYTES :: usize where
  "BLOCK_WEIGHT_FIXED_BYTES = 512"

definition MAX_BLOCK_WEIGHT_BYTES :: usize where
  "MAX_BLOCK_WEIGHT_BYTES = 3500000"

definition MAX_BLOCK_TX_COUNT :: usize where
  "MAX_BLOCK_TX_COUNT = 4096"

definition MAX_TX_AGE_SECS :: u64 where
  "MAX_TX_AGE_SECS = 21600"

definition GENESIS_LAUNCH_TIMESTAMP :: u64 where
  "GENESIS_LAUNCH_TIMESTAMP = 1783191900"

definition GENESIS_LAUNCH_NONCE :: u64 where
  "GENESIS_LAUNCH_NONCE = 7377"

section \<open>Shape and weight\<close>

fun has_dup :: "string list \<Rightarrow> string list \<Rightarrow> bool" where
  "has_dup seen [] = False"
| "has_dup seen (x # xs) = (if x \<in> set seen then True else has_dup (x # seen) xs)"

definition has_duplicate_regular_tx :: "transaction list \<Rightarrow> bool" where
  "has_duplicate_regular_tx txs = has_dup [] (map get_tx_id (filter (\<lambda>tx. \<not> is_coinbase tx) txs))"

definition hex_field_has_decoded_len :: "string \<Rightarrow> usize \<Rightarrow> bool" where
  "hex_field_has_decoded_len v decoded_len \<longleftrightarrow> decoded_len * 2 \<le> u64_max \<and> length v = decoded_len * 2
     \<and> list_all (\<lambda>b. (CHR ''0'' \<le> b \<and> b \<le> CHR ''9'') \<or> (CHR ''a'' \<le> b \<and> b \<le> CHR ''f'')) v"

definition checked_sum :: "usize list \<Rightarrow> blockchain_error + usize" where
  "checked_sum xs = try_fold (\<lambda>s x. ok_or BlockWeightExceeded (checked_add s x)) 0 xs"

definition full_witness_transaction_weight :: "transaction \<Rightarrow> blockchain_error + usize" where
  "full_witness_transaction_weight tx =
     and_then (checked_sum [TRANSACTION_WEIGHT_FIXED_BYTES, length (sender tx), length (recipient tx)]) (\<lambda>w.
       if sender tx \<in> set SYSTEM_ADDRESSES then Inr w
       else checked_sum [w, SIGNATURE_BYTES * 2, PUBLIC_KEY_BYTES * 2, 64])"

definition full_witness_weight :: "block \<Rightarrow> blockchain_error + usize" where
  "full_witness_weight b =
     try_fold (\<lambda>w tx. and_then (full_witness_transaction_weight tx) (\<lambda>x. ok_or BlockWeightExceeded (checked_add w x)))
       BLOCK_WEIGHT_FIXED_BYTES (transactions b)"

definition validate_activated_transaction_shape :: "transaction \<Rightarrow> signature_validation_mode
    \<Rightarrow> blockchain_error + unit" where
  "validate_activated_transaction_shape tx sig_mode =
     guard_err (\<not> is_canonical_user_address (recipient tx)) NonCanonicalTransaction
      (if sender tx \<in> set SYSTEM_ADDRESSES then
         guard_err (signature tx \<noteq> None \<or> pub_key tx \<noteq> None \<or> sig_hash tx \<noteq> None) NonCanonicalTransaction (Inr ())
       else
         guard_err (\<not> is_canonical_user_address (sender tx)) NonCanonicalTransaction
          (case pub_key tx of None \<Rightarrow> Inl NonCanonicalTransaction | Some pk \<Rightarrow>
           guard_err (\<not> hex_field_has_decoded_len pk PUBLIC_KEY_BYTES) NonCanonicalTransaction
            (case sig_hash tx of None \<Rightarrow> Inl NonCanonicalTransaction | Some h \<Rightarrow>
             guard_err (\<not> hex_field_has_decoded_len h 32) NonCanonicalTransaction
              (case signature tx of None \<Rightarrow> Inl NonCanonicalTransaction | Some sig \<Rightarrow>
               let is_full = hex_field_has_decoded_len sig SIGNATURE_BYTES;
                   is_receipt = hex_field_has_decoded_len sig 64
               in guard_err (\<not> is_full \<and> \<not> (sig_mode = AllowTruncatedStored \<and> is_receipt))
                    NonCanonicalTransaction (Inr ())))))"

definition validate_activated_block_shape :: "block \<Rightarrow> signature_validation_mode \<Rightarrow> blockchain_error + unit" where
  "validate_activated_block_shape b sig_mode =
     and_then (try_fold (\<lambda>_ tx. validate_activated_transaction_shape tx sig_mode) () (transactions b)) (\<lambda>_.
       and_then (full_witness_weight b) (\<lambda>w.
         guard_err (w > MAX_BLOCK_WEIGHT_BYTES) BlockWeightExceeded (Inr ())))"

definition validate_block_shape_rules_at :: "block \<Rightarrow> signature_validation_mode \<Rightarrow> u32 \<Rightarrow> blockchain_error + unit" where
  "validate_block_shape_rules_at b sig_mode activation_height =
     (if index b < activation_height then Inr () else validate_activated_block_shape b sig_mode)"

definition template_regular_transaction_weight_at :: "u32 \<Rightarrow> transaction \<Rightarrow> u32 \<Rightarrow> blockchain_error + usize option" where
  "template_regular_transaction_weight_at block_index tx activation_height =
     (if block_index < activation_height then Inr None
      else guard_err (sender tx \<in> set SYSTEM_ADDRESSES) NonCanonicalTransaction
        (and_then (validate_activated_transaction_shape tx RequireFull) (\<lambda>_.
           and_then (full_witness_transaction_weight tx) (\<lambda>w. Inr (Some w)))))"

definition template_regular_transaction_weight :: "u32 \<Rightarrow> transaction \<Rightarrow> blockchain_error + usize option" where
  "template_regular_transaction_weight block_index tx =
     template_regular_transaction_weight_at block_index tx FEE_SYSTEM_ACTIVATION_HEIGHT"

definition mining_template_base_weight :: "string \<Rightarrow> blockchain_error + usize" where
  "mining_template_base_weight miner_address =
     guard_err (\<not> is_canonical_user_address miner_address) NonCanonicalTransaction
       (checked_sum [BLOCK_WEIGHT_FIXED_BYTES, TRANSACTION_WEIGHT_FIXED_BYTES, length ''MINING_REWARDS'',
          length miner_address])"

definition pending_transaction_is_admissible_at :: "blockchain_error + u64 \<Rightarrow> u32 \<Rightarrow> u64 \<Rightarrow> transaction \<Rightarrow> u32
    \<Rightarrow> blockchain_error + bool" where
  "pending_transaction_is_admissible_at genesis_ts block_index blk_ts tx activation_height =
     (if block_index < activation_height then Inr True
      else and_then (validate_activated_transaction_shape tx RequireFull) (\<lambda>_.
             template_fee_accounting_is_admissible_at genesis_ts block_index blk_ts [tx] activation_height))"

section \<open>Signatures\<close>

text \<open>What the validation reads of the rest of the node: the libraries (\<open>cv_crypto\<close>, the block codec
  \<open>cv_serialize\<close>, the eviction of the LRU cache), the stored canonical blocks, the orphan pool, the
  genesis timestamp and the clock.\<close>

record chain_view =
  cv_crypto :: crypto
  cv_serialize :: "transaction \<Rightarrow> string"
  cv_evict :: "string list \<Rightarrow> string list"
  cv_get_block :: "u32 \<Rightarrow> block option"
  cv_orphans :: "(string, block) hmap"
  cv_genesis_ts :: "blockchain_error + u64"
  cv_now :: u64

text \<open>\<open>mldsa::validate_public_key\<close>: any string of the right length decodes to a key.\<close>

definition validate_public_key :: "string \<Rightarrow> bool" where
  "validate_public_key pk \<longleftrightarrow> length pk = PUBLIC_KEY_BYTES"

definition cache_key :: "crypto \<Rightarrow> transaction \<Rightarrow> string \<Rightarrow> string \<Rightarrow> string" where
  "cache_key c tx pk actual_hash = get_tx_id tx @ '':'' @ signature_hash_hex c pk @ '':'' @ actual_hash"

definition derived_address :: "crypto \<Rightarrow> string \<Rightarrow> string" where
  "derived_address c pub_key_bytes = hex_encode c (take 20 (sha256 c pub_key_bytes))"

definition verify_transaction_signature :: "crypto \<Rightarrow> (string list \<Rightarrow> string list) \<Rightarrow> transaction \<Rightarrow> string list
    \<Rightarrow> (blockchain_error + unit) \<times> string list" where
  "verify_transaction_signature c evict tx cache =
     (let err = (Inl InvalidTransactionSignature, cache) in
      if sender tx \<in> set SYSTEM_ADDRESSES then (Inr (), cache)
      else case signature tx of None \<Rightarrow> err | Some sig_hex \<Rightarrow>
       (case hex_decode c sig_hex of None \<Rightarrow> err | Some sig_bytes \<Rightarrow>
        if sig_bytes = [] then err
        else case pub_key tx of None \<Rightarrow> err | Some pk \<Rightarrow>
         (let actual_hash = signature_hash_hex c sig_bytes in
          if (case sig_hash tx of Some expected \<Rightarrow> actual_hash \<noteq> expected | None \<Rightarrow> False) then err
          else
            let key = cache_key c tx pk actual_hash in
            if key \<in> set cache then (Inr (), cache)
            else if \<not> is_valid c tx pk then err
            else case hex_decode c pk of None \<Rightarrow> err | Some pub_key_bytes \<Rightarrow>
              if derived_address c pub_key_bytes \<noteq> sender tx then err
              else (Inr (), evict (key # cache)))))"

definition verify_transaction_receipt_fields :: "crypto \<Rightarrow> transaction \<Rightarrow> blockchain_error + unit" where
  "verify_transaction_receipt_fields c tx =
     (let err = Inl InvalidTransactionSignature in
      if sender tx \<in> set SYSTEM_ADDRESSES then Inr ()
      else case signature tx of None \<Rightarrow> err | Some sig_hex \<Rightarrow>
       (case hex_decode c sig_hex of None \<Rightarrow> err | Some sig_bytes \<Rightarrow>
        if sig_bytes = [] then err
        else case pub_key tx of None \<Rightarrow> err | Some pk \<Rightarrow>
         (case hex_decode c pk of None \<Rightarrow> err | Some pub_key_bytes \<Rightarrow>
          if \<not> validate_public_key pub_key_bytes then err
          else if derived_address c pub_key_bytes \<noteq> sender tx then err
          else case sig_hash tx of None \<Rightarrow> err | Some h \<Rightarrow>
            if length h \<noteq> 64 \<or> hex_decode c h = None then err else Inr ())))"

text \<open>The witness of one transaction, as both block validators check it.\<close>

definition check_witness :: "chain_view \<Rightarrow> signature_validation_mode \<Rightarrow> transaction \<Rightarrow> string list
    \<Rightarrow> (blockchain_error + unit) \<times> string list" where
  "check_witness cv sig_mode tx cache =
     (let err = (Inl InvalidTransactionSignature, cache) in
      if pub_key tx = None \<or> sig_hash tx = None then err
      else case signature tx of None \<Rightarrow> err | Some sig_hex \<Rightarrow>
       (case hex_decode (cv_crypto cv) sig_hex of None \<Rightarrow> err | Some sig_bytes \<Rightarrow>
        if sig_mode = RequireFull \<and> length sig_bytes \<le> 64 then err
        else if length sig_bytes > 64 then verify_transaction_signature (cv_crypto cv) (cv_evict cv) tx cache
        else (verify_transaction_receipt_fields (cv_crypto cv) tx, cache)))"

section \<open>Validation of a block\<close>

definition get_parent_block_for :: "chain_view \<Rightarrow> block \<Rightarrow> block option" where
  "get_parent_block_for cv b =
     (if index b = 0 then None
      else case cv_get_block cv (saturating_sub (index b) 1) of
             Some parent \<Rightarrow> if hash parent = previous_hash b then Some parent
                            else hm_get (cv_orphans cv) (previous_hash b)
           | None \<Rightarrow> hm_get (cv_orphans cv) (previous_hash b))"

definition validate_parent_timestamp :: "block \<Rightarrow> block \<Rightarrow> blockchain_error + unit" where
  "validate_parent_timestamp b parent =
     guard_err (block_timestamp b < block_timestamp parent) InvalidBlockHeader (Inr ())"

definition is_valid_hash_with_difficulty :: "string \<Rightarrow> u64 \<Rightarrow> bool" where
  "is_valid_hash_with_difficulty h d \<longleftrightarrow> from_bytes_be h \<le> pow_target_from_difficulty d"

definition genesis_launch_block :: "crypto \<Rightarrow> (transaction \<Rightarrow> string) \<Rightarrow> block" where
  "genesis_launch_block c serialize =
     (let txs = [new_transaction ''MINING_REWARDS'' ''ALPHANUMERIC_1776_ARTIFACT'' GENESIS_LAUNCH_AMOUNT
                   NETWORK_FEE GENESIS_LAUNCH_TIMESTAMP None];
          b = \<lparr>index = 0, previous_hash = zero_hash, block_timestamp = GENESIS_LAUNCH_TIMESTAMP,
               transactions = txs, nonce = GENESIS_LAUNCH_NONCE, difficulty = GENESIS_LAUNCH_DIFFICULTY,
               hash = zero_hash, merkle_root = calculate_merkle_root c serialize txs\<rparr>
      in b\<lparr>hash := calculate_hash_for_block c b\<rparr>)"

text \<open>The linkage of a non-genesis block.  The oracle that \<open>adjust_dynamic_difficulty\<close> also feeds is a
  fresh one that is dropped.\<close>

definition validate_linkage :: "chain_view \<Rightarrow> block \<Rightarrow> blockchain_error + unit" where
  "validate_linkage cv b =
     (if index b > 0 then
        (case get_parent_block_for cv b of
           None \<Rightarrow> Inl InvalidBlockHeader
         | Some parent \<Rightarrow>
             guard_err (hash parent \<noteq> previous_hash b) InvalidBlockHeader
              (guard_err (index parent \<noteq> saturating_sub (index b) 1) InvalidBlockHeader
                (and_then (validate_parent_timestamp b parent) (\<lambda>_.
                   guard_err (difficulty b \<noteq> consensus_next_difficulty (difficulty parent)
                       (saturating_sub (block_timestamp b) (block_timestamp parent)) (index b))
                     InvalidBlockHeader (Inr ())))))
      else Inr ())"

text \<open>Everything before the loop over the transactions.\<close>

definition validate_block_head :: "chain_view \<Rightarrow> signature_validation_mode \<Rightarrow> block \<Rightarrow> blockchain_error + unit" where
  "validate_block_head cv sig_mode b =
     and_then (validate_header (cv_crypto cv) (cv_now cv) b) (\<lambda>_.
      guard_err (length (transactions b) > MAX_BLOCK_TX_COUNT) BlockTransactionCountExceeded
       (and_then (validate_block_shape_rules_at b sig_mode FEE_SYSTEM_ACTIVATION_HEIGHT) (\<lambda>_.
        guard_err (has_duplicate_regular_tx (transactions b)) DuplicateTransaction
         (guard_err (calculate_merkle_root (cv_crypto cv) (cv_serialize cv) (transactions b) \<noteq> merkle_root b)
            InvalidBlockHeader
           (guard_err (\<not> is_valid_hash_with_difficulty (hash b) (difficulty b)) InvalidHash
             (guard_err (index b = 0 \<and> hash b \<noteq> hash (genesis_launch_block (cv_crypto cv) (cv_serialize cv)))
                InvalidBlockHeader
               (and_then (validate_linkage cv b) (\<lambda>_.
                  validate_block_reward_rules_at (cv_genesis_ts cv) b FEE_SYSTEM_ACTIVATION_HEIGHT))))))))"

definition check_block_tx :: "chain_view \<Rightarrow> signature_validation_mode \<Rightarrow> block \<Rightarrow> transaction \<Rightarrow> string list
    \<Rightarrow> (blockchain_error + unit) \<times> string list" where
  "check_block_tx cv sig_mode b tx cache =
     (if \<not> has_valid_regular_amounts tx then (Inl InvalidTransactionAmount, cache)
      else if index b > 0 \<and> saturating_add (timestamp tx) MAX_TX_AGE_SECS < block_timestamp b
        then (Inl InvalidTransaction, cache)
      else if index b > 0 \<and> timestamp tx > saturating_add (block_timestamp b) MAX_BLOCK_FUTURE_TIME
        then (Inl InvalidTransaction, cache)
      else check_witness cv sig_mode tx cache)"

text \<open>The loop over the transactions: coinbases are skipped, the first error ends it, the cache is threaded.\<close>

fun check_txs :: "(transaction \<Rightarrow> string list \<Rightarrow> (blockchain_error + unit) \<times> string list) \<Rightarrow> transaction list
    \<Rightarrow> string list \<Rightarrow> (blockchain_error + unit) \<times> string list" where
  "check_txs chk [] cache = (Inr (), cache)"
| "check_txs chk (tx # txs) cache =
     (if is_coinbase tx then check_txs chk txs cache
      else case chk tx cache of
             (Inl e, cache') \<Rightarrow> (Inl e, cache')
           | (Inr _, cache') \<Rightarrow> check_txs chk txs cache')"

definition validate_block_internal :: "chain_view \<Rightarrow> signature_validation_mode \<Rightarrow> block \<Rightarrow> string list
    \<Rightarrow> (blockchain_error + unit) \<times> string list" where
  "validate_block_internal cv sig_mode b cache =
     (case validate_block_head cv sig_mode b of
        Inl e \<Rightarrow> (Inl e, cache)
      | Inr _ \<Rightarrow> check_txs (check_block_tx cv sig_mode b) (transactions b) cache)"

definition prevalidate_unattached_block :: "chain_view \<Rightarrow> signature_validation_mode \<Rightarrow> block \<Rightarrow> string list
    \<Rightarrow> (blockchain_error + unit) \<times> string list" where
  "prevalidate_unattached_block cv sig_mode b cache =
     (case and_then (validate_header (cv_crypto cv) (cv_now cv) b) (\<lambda>_.
             guard_err (calculate_merkle_root (cv_crypto cv) (cv_serialize cv) (transactions b) \<noteq> merkle_root b)
               InvalidBlockHeader (Inr ())) of
        Inl e \<Rightarrow> (Inl e, cache)
      | Inr _ \<Rightarrow> check_txs (\<lambda>tx cache.
            if \<not> has_valid_regular_amounts tx then (Inl InvalidTransactionAmount, cache)
            else check_witness cv sig_mode tx cache) (transactions b) cache)"

section \<open>A freshly mined block\<close>

text \<open>\<open>confirmed\<close> is the confirmed balance of each sender when the check starts; the loop keeps what the
  earlier transactions of the block have already taken.\<close>

fun check_affordable :: "chain_view \<Rightarrow> (string \<Rightarrow> i128) \<Rightarrow> balances \<Rightarrow> transaction list \<Rightarrow> balances \<Rightarrow> string list
    \<Rightarrow> (blockchain_error + unit) \<times> string list" where
  "check_affordable cv confirmed immature [] pending cache = (Inr (), cache)"
| "check_affordable cv confirmed immature (tx # txs) pending cache =
     (if \<not> has_valid_regular_amounts tx then (Inl InvalidTransactionAmount, cache)
      else case check_witness cv RequireFull tx cache of
        (Inl e, cache') \<Rightarrow> (Inl e, cache')
      | (Inr _, cache') \<Rightarrow>
          let available = confirmed (sender tx) - bal pending (sender tx) - bal immature (sender tx);
              required = total_debit_units tx
          in if available < required then (Inl InsufficientFunds, cache')
             else check_affordable cv confirmed immature txs (credit (sender tx) required pending) cache')"

definition validate_new_block :: "chain_view \<Rightarrow> (string \<Rightarrow> i128) \<Rightarrow> block \<Rightarrow> string list
    \<Rightarrow> (blockchain_error + unit) \<times> string list" where
  "validate_new_block cv confirmed b cache =
     (case and_then (validate_header (cv_crypto cv) (cv_now cv) b) (\<lambda>_.
             guard_err (length (transactions b) > MAX_BLOCK_TX_COUNT) BlockTransactionCountExceeded
              (and_then (validate_block_shape_rules_at b RequireFull FEE_SYSTEM_ACTIVATION_HEIGHT) (\<lambda>_.
                 if index b \<ge> FEE_SYSTEM_ACTIVATION_HEIGHT
                 then validate_block_reward_rules_at (cv_genesis_ts cv) b FEE_SYSTEM_ACTIVATION_HEIGHT
                 else Inr ()))) of
        Inl e \<Rightarrow> (Inl e, cache)
      | Inr _ \<Rightarrow> check_affordable cv confirmed
                    (immature_rewards_by_recipient (cv_get_block cv) (transactions b) (index b))
                    (filter (\<lambda>tx. \<not> is_coinbase tx) (transactions b)) [] cache)"

section \<open>Stored blocks\<close>

definition stored_transaction :: "crypto \<Rightarrow> transaction \<Rightarrow> transaction" where
  "stored_transaction c tx =
     (if is_coinbase tx then tx
      else case (case sig_hash tx of
                   Some h \<Rightarrow> Some h
                 | None \<Rightarrow> Option.bind (signature tx) (\<lambda>sig_hex.
                     map_option (signature_hash_hex c) (hex_decode c sig_hex))) of
             Some h \<Rightarrow> with_truncated_signature c tx h
           | None \<Rightarrow> tx)"

definition to_storage_block :: "crypto \<Rightarrow> block \<Rightarrow> block" where
  "to_storage_block c b = b\<lparr>transactions := map (stored_transaction c) (transactions b)\<rparr>"

end
