(* ===== verification/A9_Rules_Props.thy ===== *)
theory A9_Rules_Props
  imports A9_Rules A9_Balance_Index
begin

text \<open>
  Properties of the block rules: the gate on mined blocks implies that the authoritative replay
  applies the block, the signature cache does not change the verdict on transactions between
  well-formed addresses, and a block accepted with full signatures is accepted in its stored form.
\<close>

section \<open>A mined block replays\<close>

definition overlay :: "u32 \<Rightarrow> string \<Rightarrow> recent_rewards \<Rightarrow> i128" where
  "overlay h a recent = (if h \<ge> MATURITY_ACTIVATION_HEIGHT then immature_of a recent else 0)"

text \<open>What the replay has available is at least what the gate thinks is available.\<close>

definition covers :: "u32 \<Rightarrow> (string \<Rightarrow> i128) \<Rightarrow> balances \<times> recent_rewards \<Rightarrow> bool" where
  "covers h avail st \<longleftrightarrow> (\<forall>a. avail a \<le> bal (fst st) a - overlay h a (snd st))"

lemma covers_coinbase:
  assumes "covers h avail st" and "is_coinbase tx" and "0 \<le> amount_units tx"
  shows "\<exists>st'. replay_tx h st tx = Inr st' \<and> covers h avail st'"
proof -
  obtain m r where st: "st = (m, r)" by fastforce
  have "immature_of a (r @ [(h, recipient tx, amount_units tx)])
      = immature_of a r + (if a = recipient tx then amount_units tx else 0)" for a
    by (simp add: immature_of_def)
  then have "covers h avail (credit (recipient tx) (amount_units tx) m, r @ [(h, recipient tx, amount_units tx)])"
    using assms(1,3) by (auto simp: st covers_def overlay_def bal_credit intro: add_increasing2)
  with assms(2) show ?thesis by (simp add: st replay_tx_def)
qed

lemma covers_regular:
  assumes "covers h avail st" and "\<not> is_coinbase tx" and "0 \<le> amount_units tx"
    and "total_debit_units tx \<le> avail (sender tx)"
  shows "\<exists>st'. replay_tx h st tx = Inr st'
    \<and> covers h (avail(sender tx := avail (sender tx) - total_debit_units tx)) st'"
proof -
  obtain m r where st: "st = (m, r)" by fastforce
  have le: "avail a \<le> bal m a - overlay h a r" for a using assms(1) by (simp add: st covers_def)
  let ?m = "credit (recipient tx) (amount_units tx) (credit (sender tx) (- total_debit_units tx) m)"
  have "replay_tx h st tx = Inr (?m, r)"
    using assms(2,4) le[of "sender tx"] by (auto simp: st replay_tx_def overlay_def Let_def)
  moreover have "covers h (avail(sender tx := avail (sender tx) - total_debit_units tx)) (?m, r)"
  proof -
    have "(avail(sender tx := avail (sender tx) - total_debit_units tx)) a \<le> bal ?m a - overlay h a r" for a
      using le[of a] assms(3) by (auto simp: bal_credit)
    then show ?thesis by (simp add: covers_def)
  qed
  ultimately show ?thesis by blast
qed

lemma check_affordable_replays:
  assumes "check_affordable cv confirmed immature (filter (\<lambda>tx. \<not> is_coinbase tx) txs) pending cache = (Inr (), cache')"
    and "covers h (\<lambda>a. confirmed a - bal pending a - bal immature a) st"
    and "\<forall>tx \<in> set txs. is_coinbase tx \<longrightarrow> 0 \<le> amount_units tx"
  shows "\<exists>st'. try_fold (replay_tx h) st txs = Inr st'"
  using assms
proof (induction txs arbitrary: pending cache st)
  case Nil
  then show ?case by simp
next
  case (Cons tx txs)
  show ?case
  proof (cases "is_coinbase tx")
    case True
    with covers_coinbase[OF Cons.prems(2) True] Cons.prems(3) obtain st' where
      "replay_tx h st tx = Inr st'" "covers h (\<lambda>a. confirmed a - bal pending a - bal immature a) st'" by auto
    with Cons.IH[OF _ this(2)] Cons.prems(1,3) True show ?thesis by auto
  next
    case False
    let ?p = "credit (sender tx) (total_debit_units tx) pending"
    have ok: "has_valid_regular_amounts tx"
      "\<exists>c1. check_affordable cv confirmed immature (filter (\<lambda>tx. \<not> is_coinbase tx) txs) ?p c1 = (Inr (), cache')"
      "total_debit_units tx \<le> confirmed (sender tx) - bal pending (sender tx) - bal immature (sender tx)"
      using Cons.prems(1) False by (auto simp: Let_def split: if_splits prod.splits sum.splits)
    have "0 \<le> amount_units tx" using ok(1) by (simp add: has_valid_regular_amounts_def MIN_TRANSACTION_AMOUNT_UNITS_def)
    from covers_regular[OF Cons.prems(2) False this ok(3)] obtain st' where st':
      "replay_tx h st tx = Inr st'"
      "covers h ((\<lambda>a. confirmed a - bal pending a - bal immature a)(sender tx :=
          confirmed (sender tx) - bal pending (sender tx) - bal immature (sender tx) - total_debit_units tx)) st'" by blast
    have "(\<lambda>a. confirmed a - bal pending a - bal immature a)(sender tx :=
          confirmed (sender tx) - bal pending (sender tx) - bal immature (sender tx) - total_debit_units tx)
        = (\<lambda>a. confirmed a - bal ?p a - bal immature a)" by (auto simp: bal_credit)
    with st' ok(2) Cons.IH[of ?p _ st'] Cons.prems(3) show ?thesis by auto
  qed
qed

lemma coinbases_replay:
  "\<forall>tx \<in> set txs. is_coinbase tx \<Longrightarrow> \<exists>st'. try_fold (replay_tx h) st txs = Inr st'"
proof (induction txs arbitrary: st)
  case (Cons tx txs)
  then have "\<exists>st'. replay_tx h st tx = Inr st'" by (cases st) (simp add: replay_tx_def)
  with Cons show ?case by auto
qed simp

lemma mined_block_replays:
  assumes au: "authentic c ser (cv_get_block cv) n = Inr bs" and small: "n < u32_max" and ix: "index b = n"
    and rp: "replay_blocks bs ([], []) = Inr st"
    and ok: "validate_new_block cv (bal (fst st)) b cache = (Inr (), cache')"
    and cb: "\<forall>tx \<in> set (transactions b). is_coinbase tx \<longrightarrow> 0 \<le> amount_units tx"
  shows "\<exists>st'. replay_apply_block_checked n (transactions b) st = Inr st'"
proof -
  obtain m r where st: "st = (m, r)" by fastforce
  let ?I = "immature_rewards_by_recipient (cv_get_block cv) (transactions b) n"
  have win: "r = reward_window bs"
    using replay_window[OF authentic_chain_ok[OF au] rp] small by (simp add: st)
  have afford: "check_affordable cv (bal m) ?I (filter (\<lambda>tx. \<not> is_coinbase tx) (transactions b)) [] cache = (Inr (), cache')"
    using ok ix by (auto simp: validate_new_block_def st split: sum.splits)
  have cov: "covers n (\<lambda>a. bal m a - bal [] a - bal ?I a) (m, drop_mature n r)" if "list_ex (\<lambda>tx. \<not> is_coinbase tx) (transactions b)"
  proof -
    have "overlay n a (drop_mature n r) = bal ?I a" for a
    proof (cases "MATURITY_ACTIVATION_HEIGHT \<le> n")
      case True
      from scan_is_window[OF au small True, of a "[]" "undefined"] by_recipient_is_scan[OF that, of n "cv_get_block cv" a] small
      show ?thesis by (simp add: True overlay_def win immature_of_append coinbase_rewards_def immature_of_def)
    next
      case False
      then show ?thesis by (simp add: overlay_def immature_rewards_by_recipient_def bal_def hm_simps)
    qed
    then show ?thesis by (simp add: covers_def bal_def hm_simps)
  qed
  have "\<exists>st'. try_fold (replay_tx n) (m, drop_mature n r) (transactions b) = Inr st'"
  proof (cases "list_ex (\<lambda>tx. \<not> is_coinbase tx) (transactions b)")
    case True
    from check_affordable_replays[OF afford cov[OF True] cb] show ?thesis .
  next
    case False
    then have "\<forall>tx \<in> set (transactions b). is_coinbase tx" by (simp add: list_ex_iff)
    then show ?thesis by (rule coinbases_replay)
  qed
  then show ?thesis by (simp add: replay_apply_block_checked_def st)
qed

section \<open>The signature cache\<close>

text \<open>What the hex crate documents: encoding is lower-case hex text of twice the length, and decoding inverts it.\<close>

definition hex_field_text :: "string \<Rightarrow> bool" where
  "hex_field_text v \<longleftrightarrow> list_all (\<lambda>b. (CHR ''0'' \<le> b \<and> b \<le> CHR ''9'') \<or> (CHR ''a'' \<le> b \<and> b \<le> CHR ''f'')) v"

definition hex_faithful :: "crypto \<Rightarrow> bool" where
  "hex_faithful c \<longleftrightarrow> (\<forall>x. hex_decode c (hex_encode c x) = Some x) \<and> (\<forall>x. hex_field_text (hex_encode c x))
     \<and> (\<forall>x. length (hex_encode c x) = 2 * length x)"

lemma hex_faithful_inj: "hex_faithful c \<Longrightarrow> hex_encode c x = hex_encode c y \<Longrightarrow> x = y"
  unfolding hex_faithful_def by (metis option.inject)

lemma hex_no_colon: "hex_faithful c \<Longrightarrow> CHR '':'' \<notin> set (hex_encode c x)"
proof
  assume "hex_faithful c" "CHR '':'' \<in> set (hex_encode c x)"
  moreover have "\<not> (CHR '':'' \<le> CHR ''9'')" "\<not> (CHR ''a'' \<le> CHR '':'')" by (simp_all add: less_eq_char_def)
  ultimately show False unfolding hex_faithful_def hex_field_text_def list_all_iff by blast
qed

lemma split_at_last:
  assumes "a @ x # b = a' @ x # b'" and "x \<notin> set b" and "x \<notin> set b'"
  shows "a = a' \<and> b = b'"
proof -
  have "rev b @ x # rev a = rev b' @ x # rev a'" using arg_cong[OF assms(1), of rev] by simp
  from split_at[OF this] assms(2,3) show ?thesis by simp
qed

lemma cache_key_inj:
  assumes hx: "hex_faithful c" and eq: "cache_key c tx pk (signature_hash_hex c sb) = cache_key c tx' pk' (signature_hash_hex c sb')"
  shows "get_tx_id tx = get_tx_id tx' \<and> sha256 c pk = sha256 c pk' \<and> sha256 c sb = sha256 c sb'"
proof -
  note nc = hex_no_colon[OF hx]
  have "(get_tx_id tx @ '':'' @ signature_hash_hex c pk) @ CHR '':'' # signature_hash_hex c sb
      = (get_tx_id tx' @ '':'' @ signature_hash_hex c pk') @ CHR '':'' # signature_hash_hex c sb'"
    using eq by (simp add: cache_key_def)
  from split_at_last[OF this] nc have 1: "get_tx_id tx @ CHR '':'' # signature_hash_hex c pk
      = get_tx_id tx' @ CHR '':'' # signature_hash_hex c pk'" "signature_hash_hex c sb = signature_hash_hex c sb'"
    by (simp_all add: signature_hash_hex_def)
  from split_at_last[OF 1(1)] nc have 2: "get_tx_id tx = get_tx_id tx'" "signature_hash_hex c pk = signature_hash_hex c pk'"
    by (simp_all add: signature_hash_hex_def)
  with 1(2) hex_faithful_inj[OF hx] show ?thesis by (auto simp: signature_hash_hex_def)
qed

lemma tx_id_sender:
  assumes "get_tx_id tx = get_tx_id tx'" and "CHR '':'' \<notin> set (sender tx)" and "CHR '':'' \<notin> set (sender tx')"
  shows "sender tx = sender tx'"
proof -
  have "sender tx @ CHR '':'' # recipient tx @ '':'' @ format_8 (amount tx) @ '':'' @ format_8 (fee tx) @ '':'' @ show_nat (timestamp tx)
      = sender tx' @ CHR '':'' # recipient tx' @ '':'' @ format_8 (amount tx') @ '':'' @ format_8 (fee tx') @ '':'' @ show_nat (timestamp tx')"
    using assms(1) by (simp add: get_tx_id_def)
  from split_at[OF this assms(2,3)] show ?thesis by simp
qed

text \<open>The strings a signature check hashes to form its cache key.\<close>

definition hashed_strings :: "crypto \<Rightarrow> transaction \<Rightarrow> string list" where
  "hashed_strings c tx = (case pub_key tx of Some pk \<Rightarrow> [pk] | None \<Rightarrow> [])
     @ (case Option.bind (signature tx) (hex_decode c) of Some sb \<Rightarrow> [sb] | None \<Rightarrow> [])"

text \<open>The verdict of a node with an empty cache.\<close>

abbreviation cold :: "crypto \<Rightarrow> transaction \<Rightarrow> blockchain_error + unit" where
  "cold c tx \<equiv> fst (verify_transaction_signature c (\<lambda>_. []) tx [])"

text \<open>Every cached key comes from a transaction that passed.\<close>

definition cache_sound :: "crypto \<Rightarrow> transaction list \<Rightarrow> string list \<Rightarrow> bool" where
  "cache_sound c seen cache \<longleftrightarrow> (\<forall>k \<in> set cache. \<exists>tx \<in> set seen. \<exists>pk sg sb. cold c tx = Inr ()
     \<and> sender tx \<notin> set SYSTEM_ADDRESSES \<and> pub_key tx = Some pk \<and> signature tx = Some sg \<and> hex_decode c sg = Some sb
     \<and> k = cache_key c tx pk (signature_hash_hex c sb))"

lemma cold_ok_iff:
  assumes "sender tx \<notin> set SYSTEM_ADDRESSES" and "pub_key tx = Some pk" and "signature tx = Some sg" and "hex_decode c sg = Some sb"
  shows "cold c tx = Inr () \<longleftrightarrow> sb \<noteq> [] \<and> (\<forall>h. sig_hash tx = Some h \<longrightarrow> signature_hash_hex c sb = h)
    \<and> is_valid c tx pk \<and> (\<exists>pb. hex_decode c pk = Some pb \<and> derived_address c pb = sender tx)"
  using assms by (auto simp: verify_transaction_signature_def Let_def split: option.splits)

lemma is_valid_by_text:
  assumes "sender tx \<notin> set SYSTEM_ADDRESSES" and "sender tx' = sender tx" and "get_tx_id tx = get_tx_id tx'"
    and "signature tx = Some sg" and "signature tx' = Some sg'" and "hex_decode c sg = hex_decode c sg'"
  shows "is_valid c tx pk = is_valid c tx' pk"
  using assms by (simp add: is_valid_def get_message_def get_tx_id_def split: option.splits)

lemma warm_is_cold:
  assumes hx: "hex_faithful c" and sound: "cache_sound c seen cache"
    and nc: "\<forall>t \<in> set (tx # seen). CHR '':'' \<notin> set (sender t)"
  shows "fst (verify_transaction_signature c evict tx cache) = cold c tx
    \<or> collision_in (sha256 c) (hashed_strings c tx) (concat (map (hashed_strings c) seen))"
proof (cases "\<exists>pk sg sb. sender tx \<notin> set SYSTEM_ADDRESSES \<and> pub_key tx = Some pk \<and> signature tx = Some sg
    \<and> hex_decode c sg = Some sb \<and> sb \<noteq> [] \<and> (\<forall>h. sig_hash tx = Some h \<longrightarrow> signature_hash_hex c sb = h)
    \<and> cache_key c tx pk (signature_hash_hex c sb) \<in> set cache")
  case False
  then show ?thesis
    by (auto simp: verify_transaction_signature_def Let_def split: option.splits if_splits)
next
  case True
  then obtain pk sg sb where t: "sender tx \<notin> set SYSTEM_ADDRESSES" "pub_key tx = Some pk" "signature tx = Some sg"
    "hex_decode c sg = Some sb" "sb \<noteq> []" "\<forall>h. sig_hash tx = Some h \<longrightarrow> signature_hash_hex c sb = h"
    "cache_key c tx pk (signature_hash_hex c sb) \<in> set cache" by blast
  have warm: "fst (verify_transaction_signature c evict tx cache) = Inr ()"
    using t by (auto simp: verify_transaction_signature_def Let_def split: option.splits)
  from t(7) sound obtain tx' pk' sg' sb' where t': "tx' \<in> set seen" "cold c tx' = Inr ()"
    "sender tx' \<notin> set SYSTEM_ADDRESSES" "pub_key tx' = Some pk'" "signature tx' = Some sg'" "hex_decode c sg' = Some sb'"
    "cache_key c tx pk (signature_hash_hex c sb) = cache_key c tx' pk' (signature_hash_hex c sb')"
    unfolding cache_sound_def by blast
  have h: "hashed_strings c tx = [pk, sb]" "hashed_strings c tx' = [pk', sb']" using t t' by (simp_all add: hashed_strings_def)
  note k = cache_key_inj[OF hx t'(7)]
  show ?thesis
  proof (cases "pk = pk' \<and> sb = sb'")
    case False
    then have "collision_in (sha256 c) (hashed_strings c tx) (hashed_strings c tx')"
      using k by (auto simp: collision_in_def h)
    with t'(1) show ?thesis by (auto simp: collision_in_def list_ex_iff)
  next
    case True
    have s: "sender tx = sender tx'" using tx_id_sender k nc t'(1) by simp
    have "is_valid c tx pk = is_valid c tx' pk"
      using t t' k s True by (intro is_valid_by_text[of tx tx' sg sg']) simp_all
    with cold_ok_iff[OF t(1-4)] cold_ok_iff[OF t'(3-6)] t'(2) t(5,6) True s warm show ?thesis by auto
  qed
qed

lemma verify_keeps_sound:
  assumes "cache_sound c seen cache" and "\<And>k. set (evict k) \<subseteq> set k"
    and "fst (verify_transaction_signature c evict tx cache) = cold c tx"
  shows "cache_sound c (tx # seen) (snd (verify_transaction_signature c evict tx cache))"
proof -
  let ?v = "verify_transaction_signature c evict tx cache"
  have "snd ?v = cache \<or> (\<exists>pk sg sb. fst ?v = Inr () \<and> sender tx \<notin> set SYSTEM_ADDRESSES \<and> pub_key tx = Some pk
      \<and> signature tx = Some sg \<and> hex_decode c sg = Some sb
      \<and> snd ?v = evict (cache_key c tx pk (signature_hash_hex c sb) # cache))"
    by (auto simp: verify_transaction_signature_def Let_def split: option.splits if_splits)
  then show ?thesis
  proof
    assume "snd ?v = cache"
    with assms(1) show ?thesis unfolding cache_sound_def by auto
  next
    assume "\<exists>pk sg sb. fst ?v = Inr () \<and> sender tx \<notin> set SYSTEM_ADDRESSES \<and> pub_key tx = Some pk
      \<and> signature tx = Some sg \<and> hex_decode c sg = Some sb
      \<and> snd ?v = evict (cache_key c tx pk (signature_hash_hex c sb) # cache)"
    then obtain pk sg sb where v: "fst ?v = Inr ()" "sender tx \<notin> set SYSTEM_ADDRESSES" "pub_key tx = Some pk"
      "signature tx = Some sg" "hex_decode c sg = Some sb"
      "snd ?v = evict (cache_key c tx pk (signature_hash_hex c sb) # cache)" by blast
    have sub: "set (snd ?v) \<subseteq> insert (cache_key c tx pk (signature_hash_hex c sb)) (set cache)"
      unfolding v(6) using assms(2)[of "cache_key c tx pk (signature_hash_hex c sb) # cache"] by simp
    have c: "cold c tx = Inr ()" using assms(3) v(1) by simp
    show ?thesis unfolding cache_sound_def
    proof
      fix k assume "k \<in> set (snd ?v)"
      with sub consider "k = cache_key c tx pk (signature_hash_hex c sb)" | "k \<in> set cache" by blast
      then show "\<exists>t \<in> set (tx # seen). \<exists>pk sg sb. cold c t = Inr () \<and> sender t \<notin> set SYSTEM_ADDRESSES
          \<and> pub_key t = Some pk \<and> signature t = Some sg \<and> hex_decode c sg = Some sb
          \<and> k = cache_key c t pk (signature_hash_hex c sb)"
        using assms(1) v(2-5) c unfolding cache_sound_def by cases auto
    qed
  qed
qed

text \<open>A run of checks over one cache.\<close>

fun verify_all :: "crypto \<Rightarrow> (string list \<Rightarrow> string list) \<Rightarrow> transaction list \<Rightarrow> string list
    \<Rightarrow> (blockchain_error + unit) list" where
  "verify_all c evict [] cache = []"
| "verify_all c evict (tx # txs) cache =
     (let (r, cache') = verify_transaction_signature c evict tx cache in r # verify_all c evict txs cache')"

lemma verify_all_cold:
  assumes "hex_faithful c" and "\<And>k. set (evict k) \<subseteq> set k"
    and "cache_sound c seen cache" and "\<forall>t \<in> set (seen @ txs). CHR '':'' \<notin> set (sender t)"
  shows "verify_all c evict txs cache = map (cold c) txs
    \<or> collision_in (sha256 c) (concat (map (hashed_strings c) txs)) (concat (map (hashed_strings c) (txs @ seen)))"
  using assms(3,4)
proof (induction txs arbitrary: seen cache)
  case Nil
  then show ?case by simp
next
  case (Cons tx txs)
  let ?v = "verify_transaction_signature c evict tx cache"
  have nc: "\<forall>t \<in> set (tx # seen). CHR '':'' \<notin> set (sender t)" using Cons.prems(2) by auto
  from warm_is_cold[OF assms(1) Cons.prems(1) nc, of evict] show ?case
  proof
    assume eq: "fst ?v = cold c tx"
    have "\<forall>t \<in> set ((tx # seen) @ txs). CHR '':'' \<notin> set (sender t)" using Cons.prems(2) by auto
    from Cons.IH[OF verify_keeps_sound[OF Cons.prems(1) assms(2) eq] this] show ?case
      using eq by (auto simp: case_prod_beta Let_def collision_in_def list_ex_iff)
  qed (auto simp: collision_in_def list_ex_iff)
qed

section \<open>Stored blocks\<close>

lemma try_fold_map: "(\<And>s x. f s (g x) = f s x) \<Longrightarrow> try_fold f s (map g xs) = try_fold f s xs"
  by (induction xs arbitrary: s) (auto split: sum.splits)

lemma fold_map_same: "(\<And>s x. f (g x) s = f x s) \<Longrightarrow> fold f (map g xs) s = fold f xs s"
  by (induction xs arbitrary: s) auto

lemma stored_fields [simp]:
  "sender (stored_transaction c tx) = sender tx" "recipient (stored_transaction c tx) = recipient tx"
  "fee_units (stored_transaction c tx) = fee_units tx" "amount_units (stored_transaction c tx) = amount_units tx"
  "timestamp (stored_transaction c tx) = timestamp tx" "pub_key (stored_transaction c tx) = pub_key tx"
  by (simp_all add: stored_transaction_def with_truncated_signature_def split: option.splits)

lemma stored_coinbase [simp]: "is_coinbase (stored_transaction c tx) = is_coinbase tx"
  by (simp add: is_coinbase_def)

lemma stored_derived [simp]:
  "fee (stored_transaction c tx) = fee tx" "get_tx_id (stored_transaction c tx) = get_tx_id tx"
  "has_valid_regular_amounts (stored_transaction c tx) = has_valid_regular_amounts tx"
  "full_witness_transaction_weight (stored_transaction c tx) = full_witness_transaction_weight tx"
  "add_fee_units t (stored_transaction c tx) = add_fee_units t tx"
  by (simp_all add: fee_def get_tx_id_def amount_def has_valid_regular_amounts_def full_witness_transaction_weight_def
      add_fee_units_def)

lemma storage_fields [simp]:
  "index (to_storage_block c b) = index b" "previous_hash (to_storage_block c b) = previous_hash b"
  "block_timestamp (to_storage_block c b) = block_timestamp b" "difficulty (to_storage_block c b) = difficulty b"
  "hash (to_storage_block c b) = hash b" "merkle_root (to_storage_block c b) = merkle_root b"
  "nonce (to_storage_block c b) = nonce b"
  "transactions (to_storage_block c b) = map (stored_transaction c) (transactions b)"
  by (simp_all add: to_storage_block_def)

lemma storage_header [simp]: "validate_header k now (to_storage_block c b) = validate_header k now b"
  by (simp add: validate_header_def calculate_hash_for_block_def header_data_def verify_difficulty_proof_def verify_pow_def)

lemma storage_linkage [simp]: "validate_linkage cv (to_storage_block c b) = validate_linkage cv b"
  unfolding validate_linkage_def get_parent_block_for_def validate_parent_timestamp_def storage_fields ..

lemma regular_stored: "regular (map (stored_transaction c) txs) = map (stored_transaction c) (regular txs)"
  by (simp add: regular_def filter_map comp_def)

lemma storage_weight: "full_witness_weight (to_storage_block c b) = full_witness_weight b"
  by (simp add: full_witness_weight_def try_fold_map)

lemma storage_reward: "calculate_block_reward g (to_storage_block c b) = calculate_block_reward g b"
proof -
  have 1: "try_fold (\<lambda>(cnt, fees) tx. and_then (add_fee_units fees tx) (\<lambda>n. Inr (saturating_add cnt 1, n))) s (map (stored_transaction c) xs)
      = try_fold (\<lambda>(cnt, fees) tx. and_then (add_fee_units fees tx) (\<lambda>n. Inr (saturating_add cnt 1, n))) s xs" for s xs
    by (rule try_fold_map) (simp add: case_prod_beta)
  have 2: "fold (\<lambda>tx (cnt, fees). (cnt + 1, f64_add fees (fee tx))) (map (stored_transaction c) xs) s
      = fold (\<lambda>tx (cnt, fees). (cnt + 1, f64_add fees (fee tx))) xs s" for s :: "nat \<times> f64" and xs
    by (rule fold_map_same) (simp add: case_prod_beta)
  show ?thesis unfolding calculate_block_reward_def storage_fields regular_stored 1 2 ..
qed

lemma storage_reward_rules:
  "validate_block_reward_rules_at g (to_storage_block c b) act = validate_block_reward_rules_at g b act"
proof (cases "filter is_coinbase (transactions b)")
  case Nil
  then show ?thesis by (simp add: validate_block_reward_rules_at_def Let_def filter_map comp_def guard_err_def)
next
  case (Cons cb rest)
  have agg: "aggregate_regular_fee_units (map (stored_transaction c) xs) = aggregate_regular_fee_units xs" for xs
    by (simp add: aggregate_regular_fee_units_def regular_stored try_fold_map)
  have first: "(case map (stored_transaction c) xs of [] \<Rightarrow> True | tx # _ \<Rightarrow> \<not> is_coinbase tx)
      = (case xs of [] \<Rightarrow> True | tx # _ \<Rightarrow> \<not> is_coinbase tx)" for xs
    by (cases xs) simp_all
  have adm: "fee_accounting_is_admissible_for_block g (to_storage_block c b) e = fee_accounting_is_admissible_for_block g b e" for e
    unfolding fee_accounting_is_admissible_for_block_def storage_fields agg ..
  have f: "filter is_coinbase (map (stored_transaction c) (transactions b)) = stored_transaction c cb # map (stored_transaction c) rest"
    using Cons by (simp add: filter_map comp_def)
  show ?thesis
    unfolding validate_block_reward_rules_at_def Let_def storage_fields storage_reward adm first f Cons list.sel
      stored_fields by simp
qed

lemma storage_merkle:
  assumes "hex_faithful c"
    and "\<forall>tx \<in> set (transactions b). \<not> is_coinbase tx \<longrightarrow>
      (\<exists>h sg sb. sig_hash tx = Some h \<and> signature tx = Some sg \<and> hex_decode c sg = Some sb)"
  shows "calculate_merkle_root c ser (map (stored_transaction c) (transactions b)) = calculate_merkle_root c ser (transactions b)"
proof -
  have leaf: "calculate_merkle_leaf_hash c ser (stored_transaction c tx) = calculate_merkle_leaf_hash c ser tx"
    if "tx \<in> set (transactions b)" for tx
  proof (cases "is_coinbase tx")
    case False
    with assms(2) that obtain h sg sb where t: "sig_hash tx = Some h" "signature tx = Some sg" "hex_decode c sg = Some sb"
      by blast
    have "calculate_merkle_leaf_hash c ser (with_truncated_signature c tx h) = calculate_merkle_leaf_hash c ser tx"
      using assms(1) False t by (intro leaf_hash_truncation_stable) (auto simp: hex_faithful_def is_coinbase_def)
    with False t show ?thesis by (simp add: stored_transaction_def)
  qed (simp add: stored_transaction_def)
  have "map (calculate_merkle_leaf_hash c ser) (map (stored_transaction c) (transactions b))
      = map (calculate_merkle_leaf_hash c ser) (transactions b)" using leaf by simp
  then show ?thesis unfolding calculate_merkle_root_def by (simp only: map_is_Nil_conv)
qed

lemma hex_field_receipt:
  assumes "hex_faithful c" and "length sb = 64"
  shows "hex_field_has_decoded_len (hex_encode c sb) 64"
  using assms unfolding hex_field_has_decoded_len_def hex_faithful_def hex_field_text_def by (simp add: u64_max_def)

text \<open>A transaction that passed the strict witness check on an empty cache passes the receipt check when stored.\<close>

lemma strict_witness:
  assumes "check_witness cv RequireFull tx [] = (Inr (), c')" and "cv_crypto cv = c" and "\<not> is_coinbase tx"
  obtains h sg sb pk pb where "sig_hash tx = Some h" "signature tx = Some sg" "hex_decode c sg = Some sb" "64 < length sb"
    "pub_key tx = Some pk" "hex_decode c pk = Some pb" "derived_address c pb = sender tx"
    "h = signature_hash_hex c sb" "mldsa_verify c (get_message tx) sb pb"
proof -
  from assms obtain h sg sb pk where t: "sig_hash tx = Some h" "signature tx = Some sg" "hex_decode c sg = Some sb"
    "64 < length sb" "pub_key tx = Some pk" "verify_transaction_signature c (cv_evict cv) tx [] = (Inr (), c')"
    by (auto simp: check_witness_def Let_def split: option.splits if_splits)
  have "sender tx \<notin> set SYSTEM_ADDRESSES" using assms(3) by (simp add: is_coinbase_def SYSTEM_ADDRESSES_def)
  with t(6) have u: "signature_hash_hex c sb = h \<and> is_valid c tx pk
      \<and> (\<exists>pb. hex_decode c pk = Some pb \<and> derived_address c pb = sender tx)"
    using t by (auto simp: verify_transaction_signature_def Let_def split: option.splits if_splits)
  then obtain pb where pb: "hex_decode c pk = Some pb" "derived_address c pb = sender tx" by blast
  have "mldsa_verify c (get_message tx) sb pb"
    using u t pb by (auto simp: is_valid_def split: if_splits option.splits)
  with that t u pb show thesis by blast
qed

lemma stored_witness:
  assumes hx: "hex_faithful c" and sha: "\<forall>x. length (sha256 c x) = 32"
    and key: "\<And>m s p. mldsa_verify c m s p \<Longrightarrow> length p = PUBLIC_KEY_BYTES"
    and ok: "check_witness cv RequireFull tx [] = (Inr (), c')" and cv: "cv_crypto cv = c" and nc: "\<not> is_coinbase tx"
  shows "check_witness cv AllowTruncatedStored (stored_transaction c tx) cache = (Inr (), cache)"
proof -
  obtain h sg sb pk pb where t: "sig_hash tx = Some h" "signature tx = Some sg" "hex_decode c sg = Some sb" "64 < length sb"
    "pub_key tx = Some pk" "hex_decode c pk = Some pb" "derived_address c pb = sender tx"
    "h = signature_hash_hex c sb" "mldsa_verify c (get_message tx) sb pb"
    using strict_witness[OF ok cv nc] .
  have d: "hex_decode c (hex_encode c x) = Some x" "length (hex_encode c x) = 2 * length x" for x
    using hx by (simp_all add: hex_faithful_def)
  have st: "stored_transaction c tx = with_truncated_signature c tx h" using nc t(1) by (simp add: stored_transaction_def)
  have sys: "sender tx \<notin> set SYSTEM_ADDRESSES" using nc by (simp add: is_coinbase_def SYSTEM_ADDRESSES_def)
  have h: "length h = 64" "hex_decode c h \<noteq> None" using d sha by (simp_all add: t(8) signature_hash_hex_def)
  have "verify_transaction_receipt_fields c (with_truncated_signature c tx h) = Inr ()"
    using t sys h key[OF t(9)] d
    by (auto simp: verify_transaction_receipt_fields_def with_truncated_signature_def validate_public_key_def Let_def)
  then show ?thesis
    using t d by (simp add: check_witness_def st with_truncated_signature_def cv Let_def)
qed

lemma stored_shape:
  assumes hx: "hex_faithful c"
    and ok: "validate_activated_transaction_shape tx RequireFull = Inr ()"
    and w: "\<not> is_coinbase tx \<Longrightarrow> \<exists>sg sb. signature tx = Some sg \<and> hex_decode c sg = Some sb \<and> 64 < length sb"
  shows "validate_activated_transaction_shape (stored_transaction c tx) AllowTruncatedStored = Inr ()"
proof (cases "is_coinbase tx")
  case True
  with ok show ?thesis
    by (auto simp: stored_transaction_def validate_activated_transaction_shape_def guard_err_def is_coinbase_def
        SYSTEM_ADDRESSES_def split: if_splits option.splits)
next
  case False
  then obtain sg sb where t: "signature tx = Some sg" "hex_decode c sg = Some sb" "64 < length sb" using w by blast
  have sys: "sender tx \<notin> set SYSTEM_ADDRESSES" using False by (simp add: is_coinbase_def SYSTEM_ADDRESSES_def)
  have r: "hex_field_has_decoded_len (hex_encode c (take 64 sb)) 64" using t by (intro hex_field_receipt[OF hx]) simp
  from ok sys t obtain h where "sig_hash tx = Some h"
    by (auto simp: validate_activated_transaction_shape_def guard_err_def split: if_splits option.splits)
  with ok sys t r False show ?thesis
    by (auto simp: stored_transaction_def with_truncated_signature_def validate_activated_transaction_shape_def guard_err_def Let_def
        split: if_splits option.splits)
qed

lemma try_fold_unit: "try_fold (\<lambda>_ x. f x) () xs = Inr () \<longleftrightarrow> (\<forall>x \<in> set xs. f x = Inr ())"
  by (induction xs) (auto split: sum.splits)

lemma check_txs_all:
  assumes "\<And>tx k. snd (chk tx []) = []"
  shows "fst (check_txs chk txs []) = Inr () \<longleftrightarrow> (\<forall>tx \<in> set txs. \<not> is_coinbase tx \<longrightarrow> fst (chk tx []) = Inr ())"
proof (induction txs)
  case (Cons tx txs)
  obtain r k where "chk tx [] = (r, k)" by fastforce
  with Cons assms[of tx] show ?case by (cases r) auto
qed simp

lemma cold_cache_stays_empty:
  assumes "cv_evict cv = (\<lambda>_. [])"
  shows "snd (check_block_tx cv mode b tx []) = []"
  using assms by (simp add: check_block_tx_def check_witness_def verify_transaction_signature_def Let_def split: option.splits)

lemma check_txs_keep:
  "\<forall>tx \<in> set txs. \<not> is_coinbase tx \<longrightarrow> chk tx cache = (Inr (), cache) \<Longrightarrow> check_txs chk txs cache = (Inr (), cache)"
  by (induction txs) auto

lemma stored_block_ok:
  assumes hx: "hex_faithful (cv_crypto cv)" and sha: "\<forall>x. length (sha256 (cv_crypto cv) x) = 32"
    and key: "\<And>m s p. mldsa_verify (cv_crypto cv) m s p \<Longrightarrow> length p = PUBLIC_KEY_BYTES"
    and ev: "cv_evict cv = (\<lambda>_. [])"
    and ok: "fst (validate_block_internal cv RequireFull b []) = Inr ()"
  shows "validate_block_internal cv AllowTruncatedStored (to_storage_block (cv_crypto cv) b) cache = (Inr (), cache)"
proof -
  let ?c = "cv_crypto cv" and ?b = "to_storage_block (cv_crypto cv) b"
  have head: "validate_block_head cv RequireFull b = Inr ()"
    and loop: "fst (check_txs (check_block_tx cv RequireFull b) (transactions b) []) = Inr ()"
    using ok by (auto simp: validate_block_internal_def split: sum.splits)
  have each: "fst (check_block_tx cv RequireFull b tx []) = Inr ()" if "tx \<in> set (transactions b)" "\<not> is_coinbase tx" for tx
    using loop that check_txs_all[of "check_block_tx cv RequireFull b" "transactions b", OF cold_cache_stays_empty[OF ev]] by blast
  then have wit: "\<exists>k. check_witness cv RequireFull tx [] = (Inr (), k)" if "tx \<in> set (transactions b)" "\<not> is_coinbase tx" for tx
    using each[OF that] by (auto simp: check_block_tx_def prod_eq_iff split: if_splits)
  have parts: "\<exists>h sg sb. sig_hash tx = Some h \<and> signature tx = Some sg \<and> hex_decode ?c sg = Some sb \<and> 64 < length sb"
    if tx: "tx \<in> set (transactions b)" "\<not> is_coinbase tx" for tx
    using wit[OF tx] strict_witness[OF _ refl tx(2)] by metis
  have shape: "validate_block_shape_rules_at ?b AllowTruncatedStored act = Inr ()"
    if "validate_block_shape_rules_at b RequireFull act = Inr ()" for act
    using that parts stored_shape[OF hx]
    by (auto simp: validate_block_shape_rules_at_def validate_activated_block_shape_def storage_weight result_simps try_fold_unit
        split: if_splits)
  have merkle: "calculate_merkle_root ?c ser (transactions ?b) = calculate_merkle_root ?c ser (transactions b)" for ser
    using storage_merkle[OF hx, of b ser] parts by fastforce
  have dup: "has_duplicate_regular_tx (transactions ?b) = has_duplicate_regular_tx (transactions b)"
    by (simp add: has_duplicate_regular_tx_def filter_map comp_def)
  have "validate_block_head cv AllowTruncatedStored ?b = Inr ()"
    using head shape by (auto simp: validate_block_head_def result_simps merkle[simplified] dup[simplified] storage_reward_rules)
  moreover have "check_block_tx cv AllowTruncatedStored ?b (stored_transaction ?c tx) cache = (Inr (), cache)"
    if tx: "tx \<in> set (transactions b)" "\<not> is_coinbase tx" for tx
  proof -
    obtain k where "check_witness cv RequireFull tx [] = (Inr (), k)" using wit[OF tx] by blast
    from stored_witness[OF hx sha key this refl tx(2)] each[OF tx] show ?thesis
      by (auto simp: check_block_tx_def split: if_splits)
  qed
  ultimately show ?thesis by (auto simp: validate_block_internal_def intro!: check_txs_keep)
qed

end
