(* ===== verification/A9_Reward_Props.thy ===== *)
theory A9_Reward_Props
  imports A9_Reward
begin

text \<open>
  Properties of the rewards: the schedule never leaves the range 0 to 50 coins, so no reward
  calculation panics; Reward V2 pays the subsidy plus 65 percent of the fees and never raises net
  issuance above the subsidy; the packer's running totals decide like the rule on whole blocks.
\<close>

section \<open>Rounding below an integer\<close>

lemma round_half_even_mono_int: "q \<le> of_int n \<Longrightarrow> round_half_even q \<le> n"
proof -
  assume q: "q \<le> of_int n"
  show ?thesis
  proof (cases "\<lfloor>q\<rfloor> = n")
    case True
    then have "q = of_int n" using q by linarith
    then show ?thesis by simp
  next
    case False
    then have "\<lfloor>q\<rfloor> + 1 \<le> n" using q by (simp add: floor_le_iff le_less) linarith
    then show ?thesis by (simp add: round_half_even_def Let_def)
  qed
qed

lemma round_half_even_nonneg: "0 \<le> q \<Longrightarrow> 0 \<le> round_half_even q"
  by (simp add: round_half_even_def Let_def)

text \<open>A value between 0 and a 53-bit integer is rounded to a value between them.\<close>

lemma f64_of_rat_bound:
  assumes "0 \<le> q" and "q \<le> of_nat n" and "n < 2 ^ 53"
  shows "\<exists>v. f64_of_rat q = Fin v \<and> 0 \<le> v \<and> v \<le> of_nat n"
proof (cases "q = 0")
  case True
  then show ?thesis by simp
next
  case False
  then have pos: "0 < q" using assms(1) by simp
  let ?e = "max (ilog2 \<bar>q\<bar>) (- 1022)" and ?u = "(2::rat) powi (max (ilog2 \<bar>q\<bar>) (- 1022) - 52)"
  let ?v = "of_int (round_half_even (q / ?u)) * ?u"
  have b: "2 powi ilog2 \<bar>q\<bar> \<le> q" using ilog2_bounds(1)[of "\<bar>q\<bar>"] pos by simp
  have n53: "(of_nat n :: rat) < 2 ^ 53"
    using assms(3) by (metis of_nat_less_iff of_nat_numeral of_nat_power)
  have e52: "?e \<le> 52"
  proof (rule ccontr)
    assume "\<not> ?e \<le> 52"
    then have "(2::rat) powi 53 \<le> 2 powi ilog2 \<bar>q\<bar>" by (intro power_int_increasing) auto
    with b assms(2) n53 show False by simp
  qed
  define k where "k = nat (52 - ?e)"
  have u: "?u = 1 / 2 ^ k" using e52 by (simp add: k_def power_int_def field_simps)
  have "q / ?u \<le> of_int (int n * 2 ^ k)" unfolding u using assms(2) by (simp add: mult_right_mono)
  from round_half_even_mono_int[OF this] have "of_int (round_half_even (q / ?u)) \<le> (of_int (int n * 2 ^ k) :: rat)"
    by (simp only: of_int_le_iff)
  then have "?v \<le> of_int (int n * 2 ^ k) * ?u" unfolding u by (intro mult_right_mono) auto
  then have le: "?v \<le> of_nat n" unfolding u by simp
  have ge: "0 \<le> ?v" using pos unfolding u by (intro mult_nonneg_nonneg) (auto intro!: round_half_even_nonneg)
  have "(2::rat) ^ 53 \<le> 2 ^ 1024" by (rule power_increasing) auto
  then have "\<not> \<bar>?v\<bar> \<ge> 2 ^ 1024" using le ge n53 by linarith
  then have "f64_of_rat q = Fin ?v" using False by (simp add: f64_of_rat_def Let_def)
  with le ge show ?thesis by blast
qed

text \<open>The values between 0 and \<open>n\<close>.\<close>

definition fin_upto :: "nat \<Rightarrow> f64 \<Rightarrow> bool" where
  "fin_upto n x \<longleftrightarrow> (\<exists>v. x = Fin v \<and> 0 \<le> v \<and> v \<le> of_nat n)"

lemma within_mul:
  assumes "fin_upto m x" and "fin_upto n y" and "m * n < 2 ^ 53"
  shows "fin_upto (m * n) (f64_mul x y)"
proof -
  obtain a b where ab: "x = Fin a" "0 \<le> a" "a \<le> of_nat m" "y = Fin b" "0 \<le> b" "b \<le> of_nat n"
    using assms(1,2) by (auto simp: fin_upto_def)
  have "a * b \<le> of_nat m * of_nat n" using ab by (intro mult_mono) auto
  with f64_of_rat_bound[of "a * b" "m * n"] ab assms(3) show ?thesis by (simp add: fin_upto_def)
qed

lemma within_lit: "0 \<le> q \<Longrightarrow> q \<le> 1 \<Longrightarrow> fin_upto 1 (lit q)"
  using f64_of_rat_bound[of q 1] by (simp add: fin_upto_def lit_def)

lemma reduction_loop_within: "fin_upto 1 result \<Longrightarrow> fin_upto 1 base \<Longrightarrow> fin_upto 1 (reduction_loop result base n)"
proof (induction result base n rule: reduction_loop.induct)
  case (1 result base n)
  show ?case
  proof (cases "n = 0")
    case False
    have "fin_upto 1 (f64_mul result base)" "fin_upto 1 (f64_mul base base)"
      using within_mul[of 1 result 1 base] within_mul[of 1 base 1 base] 1(2,3) by simp_all
    with 1(1)[OF False refl refl refl] 1(2,3) False show ?thesis
      by (subst reduction_loop.simps) (simp add: Let_def)
  qed (use 1 in \<open>subst reduction_loop.simps, simp\<close>)
qed

lemma reduction_factor_within: "fin_upto 1 (reduction_factor periods)"
  unfolding reduction_factor_def REDUCTION_RATE_def
  by (intro reduction_loop_within within_lit) (auto simp: fin_upto_def)

lemma ceiling_within: "scheduled_reward_ceiling (Inr g) ts = Inr c \<Longrightarrow> fin_upto 50 c"
  using within_mul[of 50 MAX_BLOCK_REWARD 1] reduction_factor_within
  by (auto simp: scheduled_reward_ceiling_def Let_def MAX_BLOCK_REWARD_def fin_upto_def)

lemma ceiling_total: "\<exists>c. scheduled_reward_ceiling (Inr g) ts = Inr c \<and> fin_upto 50 c"
  using ceiling_within by (simp add: scheduled_reward_ceiling_def Let_def)

lemma clamp_floor:
  assumes "fin_upto 50 c"
  shows "\<exists>y. f64_clamp x (f64_min MIN_BLOCK_REWARD c) c = Inr y \<and> (fin_upto n x \<longrightarrow> fin_upto 50 y)"
proof -
  obtain v where v: "c = Fin v" "0 \<le> v" "v \<le> 50" using assms by (auto simp: fin_upto_def)
  then show ?thesis
    by (cases x) (auto simp: f64_clamp_def f64_min_def MIN_BLOCK_REWARD_def f64_le_def fin_upto_def)
qed

lemma round_half_away_bound: "0 \<le> q \<Longrightarrow> q \<le> of_nat n \<Longrightarrow> 0 \<le> round_half_away q \<and> round_half_away q \<le> int n"
  by (auto simp: round_half_away_def floor_le_iff)

lemma within_round: "fin_upto n x \<Longrightarrow> fin_upto n (f64_round x)"
proof -
  assume "fin_upto n x"
  then obtain q where q: "x = Fin q" "0 \<le> q" "q \<le> of_nat n" by (auto simp: fin_upto_def)
  from round_half_away_bound[OF q(2,3)] have "(of_int (round_half_away q) :: rat) \<le> of_int (int n)"
    by (simp only: of_int_le_iff)
  with round_half_away_bound[OF q(2,3)] q(1) show ?thesis by (simp add: fin_upto_def)
qed

lemma within_scale:
  assumes "fin_upto 50 x"
  shows "fin_upto 5000000000 (f64_mul_fin x money_scale_f64)"
  using within_mul[OF assms, of 100000000 "Fin money_scale_f64"]
  by (simp add: fin_upto_def money_scale_f64_def)

lemma within_round_amount:
  assumes "fin_upto 50 x"
  shows "fin_upto 50 (round_amount x)"
proof -
  obtain q where q: "f64_round (f64_mul_fin x money_scale_f64) = Fin q" "0 \<le> q" "q \<le> 5000000000"
    using within_round[OF within_scale[OF assms]] by (auto simp: fin_upto_def)
  with f64_of_rat_bound[of "q / 100000000" 50] show ?thesis
    by (simp add: round_amount_def money_scale_f64_def fin_upto_def)
qed

lemma to_units_within:
  assumes "fin_upto 50 x"
  shows "0 \<le> to_units x" "to_units x \<le> 5000000000"
proof -
  obtain q where q: "f64_round (f64_mul_fin (round_amount x) money_scale_f64) = Fin q" "0 \<le> q" "q \<le> 5000000000"
    using within_round[OF within_scale[OF within_round_amount[OF assms]]] by (auto simp: fin_upto_def)
  moreover have "is_finite x" using assms by (auto simp: fin_upto_def)
  moreover have "\<lfloor>q\<rfloor> \<le> 5000000000" using q(3) by (simp add: floor_le_iff)
  ultimately show "0 \<le> to_units x" "to_units x \<le> 5000000000"
    by (auto simp: to_units_def i128_clamp_def i128_max_def i128_min_def)
qed

lemma subsidy_bounds:
  assumes "fin_upto 50 c"
  shows "\<exists>s. subsidy_units c = Inr s \<and> 0 \<le> s \<and> s \<le> 5000000000"
proof -
  have "fin_upto 50 (f64_mul c (lit (2 / 10)))" using within_mul[OF assms within_lit, of "2 / 10"] by simp
  from clamp_floor[OF assms] this obtain y where
    "f64_clamp (f64_mul c (lit (2 / 10))) (f64_min MIN_BLOCK_REWARD c) c = Inr y" "fin_upto 50 y" by blast
  with to_units_within[OF within_round_amount] show ?thesis by (simp add: subsidy_units_def Let_def)
qed

section \<open>Reward V2\<close>

lemma reward_v2_exact:
  assumes c: "fin_upto 50 c" and f: "0 \<le> f" "f * 65 \<le> i128_max - 5000000000" and n: "n = 0 \<Longrightarrow> f = 0"
  shows "\<exists>s. subsidy_units c = Inr s \<and> 0 \<le> s \<and> s \<le> 5000000000
    \<and> reward_curve_v2_units c n f = Inr (s + f * 65 div 100)"
proof -
  obtain s where s: "subsidy_units c = Inr s" "0 \<le> s" "s \<le> 5000000000" using subsidy_bounds[OF c] by blast
  have d: "trunc_div (f * 65) 100 = f * 65 div 100" using f by (intro trunc_div_nonneg) auto
  have "f * 65 div 100 \<le> f * 65" "0 \<le> f * 65 div 100" using f by simp_all
  then have "in_i128 (f * 65)" "in_i128 (s + f * 65 div 100)"
    using f s by (simp_all add: in_i128_def i128_min_def)
  moreover have e: "(if n = 0 then 0 else f) = f" using n by auto
  ultimately show ?thesis
    unfolding reward_curve_v2_units_def Let_def e
    using s f n d by (auto simp: guard_err_def i128_checked_mul_def
        i128_checked_add_def ok_or_def REWARD_V2_MINER_FEE_NUMERATOR_def REWARD_V2_MINER_FEE_DENOMINATOR_def)
qed

lemma v2_units:
  assumes idx: "REWARD_CURVE_V2_ACTIVATION_HEIGHT \<le> i" and f: "0 \<le> f" "f * 65 \<le> i128_max - 5000000000"
    and n: "n = 0 \<Longrightarrow> f = 0"
  shows "\<exists>s. 0 \<le> s \<and> s \<le> 5000000000 \<and> block_reward_units_from_totals (Inr g) i ts 0 0 = Inr s
    \<and> block_reward_units_from_totals (Inr g) i ts n f = Inr (s + f * 65 div 100)"
proof -
  obtain c where c: "scheduled_reward_ceiling (Inr g) ts = Inr c" "fin_upto 50 c" using ceiling_total by blast
  have i: "i \<noteq> 0" "\<not> i < REWARD_CURVE_V2_ACTIVATION_HEIGHT"
    using idx by (auto simp: REWARD_CURVE_V2_ACTIVATION_HEIGHT_def)
  obtain s where s: "subsidy_units c = Inr s" "0 \<le> s" "s \<le> 5000000000"
    "reward_curve_v2_units c n f = Inr (s + f * 65 div 100)"
    using reward_v2_exact[OF c(2) f n] by blast
  with reward_v2_exact[OF c(2), of 0 0] show ?thesis
    using i c(1) by (auto simp: block_reward_units_from_totals_def i128_max_def)
qed

lemma net_le_subsidy: "0 \<le> f \<Longrightarrow> s + f * 65 div 100 - f \<le> (s::int)"
proof -
  assume "0 \<le> f"
  then have "f * 65 div 100 \<le> f * 100 div 100" by (intro zdiv_mono1) auto
  then show ?thesis by simp
qed

lemma baseline_ge_empty:
  assumes "scheduled_baseline_units_at g i ts = Inr base" and "i \<noteq> 0"
    and "block_reward_units_from_totals g i ts 0 0 = Inr s"
  shows "s \<le> base"
  using assms by (auto simp: scheduled_baseline_units_at_def result_simps max_def)

section \<open>No panic\<close>

lemma clamp_unit: "\<exists>y. f64_clamp x (Fin 0) (Fin 1) = Inr y"
  by (simp add: f64_clamp_def f64_le_def)

lemma v2_no_panic: "fin_upto 50 c \<Longrightarrow> reward_curve_v2_units c n f \<noteq> Inl ClampPanic"
  using subsidy_bounds[of c] by (auto simp: reward_curve_v2_units_def guard_err_def Let_def ok_or_def split: option.splits)

lemma from_totals_no_panic: "block_reward_from_totals (Inr g) i ts n fees \<noteq> Inl ClampPanic"
proof -
  obtain c where c: "scheduled_reward_ceiling (Inr g) ts = Inr c" "fin_upto 50 c" using ceiling_total by blast
  note cl = clamp_floor[OF c(2)]
  show ?thesis
  proof (cases "REWARD_CURVE_V2_ACTIVATION_HEIGHT \<le> i")
    case True
    with c(1) v2_no_panic[OF c(2)] show ?thesis
      by (auto simp: block_reward_from_totals_def guard_err_def result_simps)
  next
    case False
    let ?e = "f64_mul fees (f64_sub (Fin 1) MINT_CLIP)"
    let ?t = "f64_max (f64_mul c (lit (5 / 100))) (lit (1 / 10000))"
    obtain k where k: "f64_clamp (f64_div ?e ?t) (Fin 0) (Fin 1) = Inr k" using clamp_unit by blast
    let ?b = "if n = 0 then f64_mul c (lit (2 / 10))
              else f64_add MIN_BLOCK_REWARD (f64_mul (f64_sub c MIN_BLOCK_REWARD) k)"
    obtain y where "f64_clamp (f64_add ?b ?e) (f64_min MIN_BLOCK_REWARD c) c = Inr y" using cl by blast
    with False c(1) k show ?thesis by (auto simp: block_reward_from_totals_def Let_def)
  qed
qed

lemma units_from_totals_no_panic: "block_reward_units_from_totals (Inr g) i ts n f \<noteq> Inl ClampPanic"
proof -
  obtain c where c: "scheduled_reward_ceiling (Inr g) ts = Inr c" "fin_upto 50 c" using ceiling_total by blast
  then show ?thesis
    using from_totals_no_panic[of g i ts n "from_units f"] v2_no_panic[OF c(2)]
    by (auto simp: block_reward_units_from_totals_def result_simps)
qed

lemma reward_fold_no_panic:
  "try_fold (\<lambda>(cnt, fees) tx. and_then (add_fee_units fees tx) (\<lambda>nf. Inr (saturating_add cnt 1, nf))) s txs
    \<noteq> Inl ClampPanic"
proof (induction txs arbitrary: s)
  case (Cons tx txs)
  then show ?case
    by (cases s) (auto simp: add_fee_units_def guard_err_def ok_or_def i128_checked_add_def split: sum.splits)
qed simp

lemma calculate_no_panic: "calculate_block_reward (Inr g) b \<noteq> Inl ClampPanic"
  using reward_fold_no_panic from_totals_no_panic units_from_totals_no_panic
  by (auto simp: calculate_block_reward_def result_simps case_prod_beta Let_def)

section \<open>The running totals\<close>

abbreviation pair_step :: "usize \<times> i128 \<Rightarrow> transaction \<Rightarrow> blockchain_error + usize \<times> i128" where
  "pair_step \<equiv> \<lambda>(cnt, fees) tx. and_then (add_fee_units fees tx) (\<lambda>nf. Inr (saturating_add cnt 1, nf))"

abbreviation legacy_step :: "transaction \<Rightarrow> usize \<times> f64 \<Rightarrow> usize \<times> f64" where
  "legacy_step \<equiv> \<lambda>tx (cnt, fees). (cnt + 1, f64_add fees (fee tx))"

lemma view_fee [simp]: "fee_units (accounting_view tx) = fee_units tx" "fee (accounting_view tx) = fee tx"
  by (simp_all add: accounting_view_def fee_def)

lemma view_add_fee [simp]: "add_fee_units t (accounting_view tx) = add_fee_units t tx"
  by (simp add: add_fee_units_def)

lemma view_coinbase [simp]: "is_coinbase (accounting_view tx) = is_coinbase tx"
  by (simp add: is_coinbase_def accounting_view_def)

lemma regular_view: "\<forall>tx \<in> set txs. \<not> is_coinbase tx \<Longrightarrow> regular (map accounting_view txs) = map accounting_view txs"
  by (simp add: regular_def)

lemma commit_run:
  assumes "try_fold commit acc txs = Inr acc'" and "tx_count acc + length txs \<le> u64_max"
  shows "try_fold pair_step (tx_count acc, total_fee_units acc) (map accounting_view txs)
      = Inr (tx_count acc', total_fee_units acc')
    \<and> fold legacy_step (map accounting_view txs) (tx_count acc, total_fees acc) = (tx_count acc', total_fees acc')
    \<and> try_fold add_fee_units (total_fee_units acc) (map accounting_view txs) = Inr (total_fee_units acc')
    \<and> tx_count acc' = tx_count acc + length txs
    \<and> activated acc' = activated acc \<and> acc_index acc' = acc_index acc
    \<and> acc_timestamp acc' = acc_timestamp acc \<and> baseline_units acc' = baseline_units acc"
  using assms
proof (induction txs arbitrary: acc)
  case Nil
  then show ?case by simp
next
  case (Cons tx txs)
  obtain u where u: "add_fee_units (total_fee_units acc) tx = Inr u"
    using Cons.prems(1) by (auto simp: commit_def totals_with_def result_simps split: sum.splits)
  let ?a = "acc\<lparr>tx_count := saturating_add (tx_count acc) 1, total_fees := f64_add (total_fees acc) (fee tx),
      total_fee_units := u\<rparr>"
  have c: "commit acc tx = Inr ?a" by (simp add: commit_def totals_with_def u)
  have sat: "saturating_add (tx_count acc) 1 = tx_count acc + 1"
    using Cons.prems(2) by (simp add: saturating_add_def)
  from Cons.IH[of ?a] Cons.prems c u sat show ?case by simp
qed

lemma pair_step_split:
  "try_fold pair_step (n, t) txs = Inr (n', t') \<Longrightarrow> try_fold add_fee_units t txs = Inr t'"
proof (induction txs arbitrary: n t)
  case (Cons tx txs)
  then show ?case by (auto split: sum.splits simp: result_simps)
qed simp

lemma add_fee_exact: "add_fee_units t tx = Inr u \<longleftrightarrow> 0 \<le> fee_units tx \<and> u = t + fee_units tx \<and> in_i128 u"
  by (auto simp: add_fee_units_def guard_err_def ok_or_def i128_checked_add_def)

lemma aggregate_exact:
  "try_fold add_fee_units t txs = Inr u \<Longrightarrow> u = t + sum_list (map fee_units txs) \<and> t \<le> u"
proof (induction txs arbitrary: t)
  case (Cons tx txs)
  then obtain v where "add_fee_units t tx = Inr v" "try_fold add_fee_units v txs = Inr u"
    by (auto split: sum.splits)
  with Cons.IH show ?case by (force simp: add_fee_exact)
qed simp

lemma v2_roundtrip:
  assumes "0 \<le> s" "s \<le> 5000000000" "0 \<le> f" "f \<le> 2 ^ 50"
  shows "to_units (from_units (s + f * 65 div 100)) = s + f * 65 div 100"
proof (rule to_units_from_units)
  have "f * 65 div 100 \<le> 2 ^ 50 * 65 div 100" using assms(4) by (intro zdiv_mono1) auto
  also have "\<dots> \<le> 731834939447706" by simp
  finally show "exact_units (s + f * 65 div 100)" using assms by (simp add: exact_units_def)
qed

lemma small_fee: "f \<le> 2 ^ 50 \<Longrightarrow> f * 65 \<le> i128_max - 5000000000"
  by (simp add: i128_max_def)

section \<open>Theorems\<close>

definition accounting_block :: "u32 \<Rightarrow> u64 \<Rightarrow> transaction list \<Rightarrow> block" where
  "accounting_block i ts txs = \<lparr>index = i, previous_hash = zero_hash, block_timestamp = ts,
     transactions = map accounting_view txs, nonce = 0, difficulty = 0, hash = zero_hash, merkle_root = zero_hash\<rparr>"

lemma template_block:
  "template_fee_accounting_is_admissible_at g i ts txs act = (if i < act then Inr True
     else and_then (calculate_block_reward g (accounting_block i ts txs)) (\<lambda>r.
       fee_accounting_is_admissible_for_block g (accounting_block i ts txs) (to_units r)))"
  by (simp add: template_fee_accounting_is_admissible_at_def accounting_block_def Let_def)

lemma legacy_reward_total:
  assumes "i < REWARD_CURVE_V2_ACTIVATION_HEIGHT"
  shows "\<exists>r. block_reward_from_totals (Inr g) i ts n fees = Inr r"
proof (cases "i = 0")
  case False
  obtain c where c: "scheduled_reward_ceiling (Inr g) ts = Inr c" "fin_upto 50 c" using ceiling_total by blast
  let ?e = "f64_mul fees (f64_sub (Fin 1) MINT_CLIP)"
  obtain k where k: "f64_clamp (f64_div ?e (f64_max (f64_mul c (lit (5 / 100))) (lit (1 / 10000)))) (Fin 0) (Fin 1) = Inr k"
    using clamp_unit by blast
  obtain y where "f64_clamp (f64_add (if n = 0 then f64_mul c (lit (2 / 10))
      else f64_add MIN_BLOCK_REWARD (f64_mul (f64_sub c MIN_BLOCK_REWARD) k)) ?e) (f64_min MIN_BLOCK_REWARD c) c = Inr y"
    using clamp_floor[OF c(2)] by blast
  with False c(1) k assms show ?thesis by (simp add: block_reward_from_totals_def Let_def)
qed (simp add: block_reward_from_totals_def)

lemma clamp_range:
  assumes "fin_upto 50 c" and "f64_clamp x (f64_min MIN_BLOCK_REWARD c) c = Inr y"
  shows "y = NaN \<or> fin_upto 50 y"
  using assms by (cases x) (auto simp: f64_clamp_def f64_min_def MIN_BLOCK_REWARD_def fin_upto_def split: if_splits)

lemma legacy_reward_nonneg:
  assumes "i < REWARD_CURVE_V2_ACTIVATION_HEIGHT" and "i \<noteq> 0" and "block_reward_from_totals (Inr g) i ts n fees = Inr r"
  shows "0 \<le> to_units r"
proof -
  obtain c where c: "scheduled_reward_ceiling (Inr g) ts = Inr c" "fin_upto 50 c" using ceiling_total by blast
  obtain x y where y: "f64_clamp x (f64_min MIN_BLOCK_REWARD c) c = Inr y" "r = round_amount y"
    using assms c(1) by (auto simp: block_reward_from_totals_def result_simps Let_def)
  from clamp_range[OF c(2) y(1)] show ?thesis
  proof
    assume "y = NaN"
    then show ?thesis by (simp add: y(2) round_amount_def to_units_def)
  qed (simp add: y(2) to_units_within within_round_amount)
qed

lemma packed_reward:
  assumes run: "try_fold commit acc0 txs = Inr acc" and start: "tx_count acc0 = 0" "total_fees acc0 = Fin 0" "total_fee_units acc0 = 0"
    and reg: "\<forall>t \<in> set (txs @ [tx]). \<not> is_coinbase t" and len: "length txs < u64_max"
  shows "aggregate_regular_fee_units (transactions (accounting_block i ts (txs @ [tx])))
      = add_fee_units (total_fee_units acc) tx"
    and "REWARD_CURVE_V2_ACTIVATION_HEIGHT \<le> i \<Longrightarrow> calculate_block_reward (Inr g) (accounting_block i ts (txs @ [tx]))
      = and_then (add_fee_units (total_fee_units acc) tx) (\<lambda>u.
          and_then (block_reward_units_from_totals (Inr g) i ts (tx_count acc + 1) u) (\<lambda>r. Inr (from_units r)))"
    and "i < REWARD_CURVE_V2_ACTIVATION_HEIGHT \<Longrightarrow> calculate_block_reward (Inr g) (accounting_block i ts (txs @ [tx]))
      = block_reward_from_totals (Inr g) i ts (tx_count acc + 1) (f64_add (total_fees acc) (fee tx))"
    and "try_fold add_fee_units 0 (map accounting_view txs) = Inr (total_fee_units acc)"
    and "saturating_add (tx_count acc) 1 = tx_count acc + 1"
proof -
  note cr = commit_run[OF run, unfolded start, simplified]
  have r: "regular (transactions (accounting_block i ts (txs @ [tx]))) = map accounting_view (txs @ [tx])"
    using regular_view[OF reg] by (simp add: accounting_block_def)
  have ab: "index (accounting_block i ts ys) = i" "block_timestamp (accounting_block i ts ys) = ts" for ys
    by (simp_all add: accounting_block_def)
  show sat: "saturating_add (tx_count acc) 1 = tx_count acc + 1"
    using cr len by (simp add: saturating_add_def)
  show "try_fold add_fee_units 0 (map accounting_view txs) = Inr (total_fee_units acc)" using cr len by simp
  show "aggregate_regular_fee_units (transactions (accounting_block i ts (txs @ [tx])))
      = add_fee_units (total_fee_units acc) tx"
    using cr len by (simp add: aggregate_regular_fee_units_def r try_fold_append split: sum.splits)
  have pair: "try_fold pair_step (0, 0) (map accounting_view (txs @ [tx]))
      = and_then (add_fee_units (total_fee_units acc) tx) (\<lambda>u. Inr (tx_count acc + 1, u))"
    using cr len sat by (simp add: try_fold_append split: sum.splits)
  have legacy: "fold legacy_step (map accounting_view (txs @ [tx])) (0, Fin 0)
      = (tx_count acc + 1, f64_add (total_fees acc) (fee tx))"
    using cr len by simp
  show "calculate_block_reward (Inr g) (accounting_block i ts (txs @ [tx]))
      = and_then (add_fee_units (total_fee_units acc) tx) (\<lambda>u.
          and_then (block_reward_units_from_totals (Inr g) i ts (tx_count acc + 1) u) (\<lambda>r. Inr (from_units r)))"
    if "REWARD_CURVE_V2_ACTIVATION_HEIGHT \<le> i"
    using that pair unfolding calculate_block_reward_def r ab
    by (cases "add_fee_units (total_fee_units acc) tx") (auto simp: REWARD_CURVE_V2_ACTIVATION_HEIGHT_def)
  show "calculate_block_reward (Inr g) (accounting_block i ts (txs @ [tx]))
      = block_reward_from_totals (Inr g) i ts (tx_count acc + 1) (f64_add (total_fees acc) (fee tx))"
    if "i < REWARD_CURVE_V2_ACTIVATION_HEIGHT"
    using that legacy unfolding calculate_block_reward_def r ab
    by (auto simp: block_reward_from_totals_def Let_def)
qed

lemma admits_matches:
  assumes new: "new_at (Inr g) i ts act = Inr acc0" and run: "try_fold commit acc0 txs = Inr acc"
    and reg: "\<forall>t \<in> set (txs @ [tx]). \<not> is_coinbase t" and len: "length txs < u64_max"
    and small: "REWARD_CURVE_V2_ACTIVATION_HEIGHT \<le> i \<Longrightarrow> sum_list (map fee_units (txs @ [tx])) \<le> 2 ^ 50"
  shows "admits (Inr g) acc tx = template_fee_accounting_is_admissible_at (Inr g) i ts (txs @ [tx]) act"
proof (cases "act \<le> i")
  case False
  then have "\<not> activated acc0" "tx_count acc0 = 0" using new by (auto simp: new_at_def Let_def)
  with commit_run[OF run] len have "\<not> activated acc" by simp
  with False show ?thesis by (simp add: admits_def template_block)
next
  case True
  obtain base where base: "scheduled_baseline_units_at (Inr g) i ts = Inr base"
    and acc0: "acc0 = \<lparr>activated = True, acc_index = i, acc_timestamp = ts, baseline_units = base,
             tx_count = 0, total_fees = Fin 0, total_fee_units = 0\<rparr>"
    using new True by (auto simp: new_at_def Let_def result_simps)
  have st: "tx_count acc0 = 0" "total_fees acc0 = Fin 0" "total_fee_units acc0 = 0" by (simp_all add: acc0)
  note pk = packed_reward[OF run st reg len]
  note cr = commit_run[OF run, unfolded acc0, simplified]
  have acc: "activated acc" "acc_index acc = i" "acc_timestamp acc = ts" "baseline_units acc = base"
    using cr len by simp_all
  have ab: "index (accounting_block i ts ys) = i" "block_timestamp (accounting_block i ts ys) = ts" for ys
    by (simp_all add: accounting_block_def)
  note defs = admits_def template_block fee_accounting_is_admissible_for_block_def acc ab pk(1) pk(5)[simplified] base totals_with_def
  have notl: "\<not> i < act" using True by simp
  show ?thesis
  proof (cases "i < REWARD_CURVE_V2_ACTIVATION_HEIGHT")
    case True
    obtain x where x: "block_reward_from_totals (Inr g) i ts (tx_count acc + 1) (f64_add (total_fees acc) (fee tx)) = Inr x"
      using legacy_reward_total[OF True] by blast
    show ?thesis
      using True x notl pk(3)[OF True] by (cases "add_fee_units (total_fee_units acc) tx") (simp_all add: defs)
  next
    case False
    then have V: "REWARD_CURVE_V2_ACTIVATION_HEIGHT \<le> i" by simp
    show ?thesis
    proof (cases "add_fee_units (total_fee_units acc) tx")
      case (Inl e)
      then show ?thesis using notl pk(2)[OF V] by (simp add: defs)
    next
      case (Inr u)
      have u: "u = sum_list (map fee_units (txs @ [tx]))" "0 \<le> u"
        using aggregate_exact[OF pk(4)] Inr by (simp_all add: add_fee_exact comp_def)
      from v2_units[OF V u(2) small_fee, of "tx_count acc + 1" g ts] small[OF V] u(1) obtain s where
        s: "0 \<le> s" "s \<le> 5000000000"
          "block_reward_units_from_totals (Inr g) i ts (tx_count acc + 1) u = Inr (s + u * 65 div 100)" by auto
      have rt: "to_units (from_units (s + u * 65 div 100)) = s + u * 65 div 100"
        using v2_roundtrip[OF s(1,2) u(2)] small[OF V] u(1) by simp
      show ?thesis using notl pk(2)[OF V] V s(3) Inr rt by (simp add: defs del: div_mult2_eq)
    qed
  qed
qed

end
