(* ===== verification/A9_Reward_Theorems.thy ===== *)
theory A9_Reward_Theorems
  imports A9_Reward_Props A9_Balance_Theorems
begin

text \<open>The theorems on block rewards and fee accounting, with their sample inputs.\<close>

section \<open>Lemmas on whole blocks\<close>

lemma regular_coinbase_free: "tx \<in> set (regular txs) \<Longrightarrow> \<not> is_coinbase tx"
  by (simp add: regular_def)

lemma fees_fold:
  assumes "\<forall>tx \<in> set txs. 0 \<le> fee_units tx" and "0 \<le> t" and "t + sum_list (map fee_units txs) \<le> i128_max"
  shows "try_fold add_fee_units t txs = Inr (t + sum_list (map fee_units txs))"
  using assms
proof (induction txs arbitrary: t)
  case (Cons tx txs)
  have "0 \<le> sum_list (map fee_units txs)" using Cons.prems(1) by (intro sum_list_nonneg) auto
  then have "add_fee_units t tx = Inr (t + fee_units tx)"
    using Cons.prems by (auto simp: add_fee_exact in_i128_def i128_min_def)
  with Cons.IH[of "t + fee_units tx"] Cons.prems show ?case by (simp add: add.assoc)
qed simp

lemma pair_fold:
  "try_fold add_fee_units t txs = Inr u \<Longrightarrow> \<exists>n'. try_fold pair_step (n, t) txs = Inr (n', u) \<and> (n' = 0 \<longrightarrow> txs = [])"
proof (induction txs arbitrary: n t)
  case (Cons tx txs)
  then obtain v where v: "add_fee_units t tx = Inr v" "try_fold add_fee_units v txs = Inr u"
    by (auto split: sum.splits)
  have pos: "try_fold pair_step (m, w) ys = Inr (m', w') \<Longrightarrow> 0 < m \<Longrightarrow> 0 < m'" for m w ys m' w'
  proof (induction ys arbitrary: m w)
    case (Cons y ys)
    then show ?case by (auto split: sum.splits simp: result_simps saturating_add_def u64_max_def)
  qed simp
  from Cons.IH[OF v(2), of "saturating_add n 1"] obtain n' where
    n': "try_fold pair_step (saturating_add n 1, v) txs = Inr (n', u)" by blast
  from pos[OF n'] have "0 < n'" by (simp add: saturating_add_def u64_max_def)
  with n' v(1) show ?case by auto
qed simp

lemma v2_baseline:
  assumes V: "REWARD_CURVE_V2_ACTIVATION_HEIGHT \<le> i"
  shows "\<exists>base. scheduled_baseline_units_at (Inr g) i ts = Inr base"
proof -
  have one: "\<exists>x. 0 \<le> x \<and> x \<le> 5000325000 \<and> block_reward_units_from_totals (Inr g) i ts n f = Inr x"
    if "f = 0 \<or> (f = 500000 \<and> n = 1)" for f n
    using v2_units[OF V, of f n g ts] that by (auto simp: i128_max_def)
  have "i \<noteq> 0" using V by (simp add: REWARD_CURVE_V2_ACTIVATION_HEIGHT_def)
  then show ?thesis
    using one[of 0 0] one[of 0 1] one[of 500000 1]
    by (auto simp: scheduled_baseline_units_at_def LOW_FEE_COMPATIBILITY_ENVELOPE_UNITS_def ok_or_def
        i128_checked_sub_def in_i128_def i128_max_def i128_min_def)
qed

text \<open>From Reward V2 on, a block whose fees are nonnegative and at most \<open>2\<^sup>5\<^sup>0\<close> units in total has a reward,
  and the accounting rule admits it.\<close>

lemma v2_block:
  assumes V: "REWARD_CURVE_V2_ACTIVATION_HEIGHT \<le> index b"
    and fees: "\<forall>tx \<in> set (regular (transactions b)). 0 \<le> fee_units tx"
    and F: "F = sum_list (map fee_units (regular (transactions b)))" "F \<le> 2 ^ 50"
  shows "\<exists>s r. 0 \<le> s \<and> s \<le> 5000000000
    \<and> block_reward_units_from_totals (Inr g) (index b) (block_timestamp b) 0 0 = Inr s
    \<and> calculate_block_reward (Inr g) b = Inr r \<and> to_units r = s + F * 65 div 100
    \<and> fee_accounting_is_admissible_for_block (Inr g) b (to_units r) = Inr True"
proof -
  let ?i = "index b" and ?t = "block_timestamp b"
  have F0: "0 \<le> F" unfolding F(1) using fees by (intro sum_list_nonneg) auto
  have i0: "?i \<noteq> 0" using V by (simp add: REWARD_CURVE_V2_ACTIVATION_HEIGHT_def)
  have agg: "try_fold add_fee_units 0 (regular (transactions b)) = Inr F"
    using fees_fold[OF fees, of 0] F F0 by (simp add: i128_max_def)
  from pair_fold[OF agg, of 0] obtain n where
    n: "try_fold pair_step (0, 0) (regular (transactions b)) = Inr (n, F)" "n = 0 \<Longrightarrow> F = 0" by (auto simp: F(1))
  from v2_units[OF V F0 small_fee[OF F(2)], of n g ?t] n(2) obtain s where
    s: "0 \<le> s" "s \<le> 5000000000" "block_reward_units_from_totals (Inr g) ?i ?t 0 0 = Inr s"
      "block_reward_units_from_totals (Inr g) ?i ?t n F = Inr (s + F * 65 div 100)" by blast
  obtain base where base: "scheduled_baseline_units_at (Inr g) ?i ?t = Inr base" using v2_baseline[OF V] by blast
  have sb: "s \<le> base" by (rule baseline_ge_empty[OF base i0 s(3)])
  have rt: "to_units (from_units (s + F * 65 div 100)) = s + F * 65 div 100"
    by (rule v2_roundtrip[OF s(1,2) F0 F(2)])
  have calc: "calculate_block_reward (Inr g) b = Inr (from_units (s + F * 65 div 100))"
    using V i0 n(1) s(4) by (simp add: calculate_block_reward_def)
  have "in_i128 (s + F * 65 div 100 - F)"
    using net_le_subsidy[OF F0, of s] s(1,2) F0 F(2) div_int_pos_iff[of "F * 65" 100]
    by (simp add: in_i128_def i128_max_def i128_min_def)
  then have "fee_accounting_is_admissible_for_block (Inr g) b (s + F * 65 div 100) = Inr True"
    using agg base sb net_le_subsidy[OF F0, of s]
    by (simp add: fee_accounting_is_admissible_for_block_def aggregate_regular_fee_units_def ok_or_def i128_checked_sub_def)
  with s calc rt show ?thesis by (intro exI[of _ s] exI[of _ "from_units (s + F * 65 div 100)"]) simp
qed

lemma single_coinbase:
  assumes "length (filter is_coinbase txs) = 1" and "case txs of [] \<Rightarrow> False | tx # _ \<Rightarrow> is_coinbase tx"
  shows "\<exists>cb rest. txs = cb # rest \<and> is_coinbase cb \<and> filter is_coinbase txs = [cb] \<and> regular txs = rest"
proof (cases txs)
  case (Cons cb rest)
  with assms have "filter is_coinbase rest = []" by simp
  with Cons assms(2) show ?thesis by (auto simp: regular_def filter_empty_conv intro!: filter_True)
qed (use assms in simp)

section \<open>Theorems\<close>



text \<open>No reward calculation panics: for every height, timestamp and transaction list the range given to
  \<open>f64::clamp\<close> is not empty, also once the ceiling has decayed below the one-coin floor and down to zero.\<close>

theorem reward_never_panics:
  "calculate_block_reward (Inr g) b \<noteq> Inl ClampPanic
    \<and> scheduled_baseline_units_at (Inr g) i ts \<noteq> Inl ClampPanic
    \<and> validate_block_reward_rules_at (Inr g) b act \<noteq> Inl ClampPanic"
proof -
  have base: "scheduled_baseline_units_at (Inr g) i ts \<noteq> Inl ClampPanic" for i ts
    using units_from_totals_no_panic by (auto simp: scheduled_baseline_units_at_def result_simps ok_or_def split: option.splits)
  have agg: "try_fold add_fee_units t txs \<noteq> Inl ClampPanic" for t txs
    by (induction txs arbitrary: t) (auto simp: add_fee_units_def guard_err_def ok_or_def split: sum.splits option.splits)
  have adm: "fee_accounting_is_admissible_for_block (Inr g) b e \<noteq> Inl ClampPanic" for e
    using base agg by (auto simp: fee_accounting_is_admissible_for_block_def aggregate_regular_fee_units_def
        result_simps ok_or_def split: option.splits)
  show ?thesis
    using base adm calculate_no_panic[of g b]
    by (auto simp: validate_block_reward_rules_at_def Let_def guard_err_def result_simps split: if_splits list.splits)
qed


definition sample_reward_block :: block where
  "sample_reward_block = flat_block [pay ''MINING_REWARDS'' ''miner''
     (case block_reward_units_from_totals (Inr 0) 600000 0 0 0 of Inr s \<Rightarrow> s | Inl _ \<Rightarrow> 0) (to_units NETWORK_FEE)] 600000"

lemma sample_reward_valid: "validate_block_reward_rules_at (Inr 0) sample_reward_block 517583 = Inr ()"
proof -
  let ?b = sample_reward_block
  have b: "index ?b = 600000" "block_timestamp ?b = 0" "regular (transactions ?b) = []"
    by (simp_all add: sample_reward_block_def flat_block_def regular_def is_coinbase_def pay_def)
  have V: "REWARD_CURVE_V2_ACTIVATION_HEIGHT \<le> index ?b" by (simp add: b REWARD_CURVE_V2_ACTIVATION_HEIGHT_def)
  from v2_block[OF V, of 0 0] obtain s r where
    sr: "block_reward_units_from_totals (Inr 0) 600000 0 0 0 = Inr s" "calculate_block_reward (Inr 0) ?b = Inr r"
      "to_units r = s" "fee_accounting_is_admissible_for_block (Inr 0) ?b (to_units r) = Inr True"
    by (auto simp: b)
  have tx: "transactions ?b = [pay ''MINING_REWARDS'' ''miner'' s (to_units NETWORK_FEE)]"
    by (simp add: sample_reward_block_def flat_block_def sr(1))
  show ?thesis
    unfolding validate_block_reward_rules_at_def Let_def tx b sr(2)
    using sr(3,4) by (simp add: guard_err_def is_coinbase_def pay_def)
qed


text \<open>From Reward V2 on the fee-accounting rule never makes a transaction set unmineable: every list of
  transactions with nonnegative fees of at most \<open>2\<^sup>5\<^sup>0\<close> units in total is admissible in a template.\<close>

theorem v2_accounting_never_binds:
  assumes "REWARD_CURVE_V2_ACTIVATION_HEIGHT \<le> i" and "\<forall>tx \<in> set (regular txs). 0 \<le> fee_units tx"
    and "sum_list (map fee_units (regular txs)) \<le> 2 ^ 50"
  shows "template_fee_accounting_is_admissible_at (Inr g) i ts txs act = Inr True"
proof -
  let ?b = "accounting_block i ts txs"
  have r: "regular (transactions ?b) = map accounting_view (regular txs)"
    by (simp add: accounting_block_def regular_def filter_map comp_def)
  have i: "index ?b = i" by (simp add: accounting_block_def)
  from v2_block[of ?b "sum_list (map fee_units (regular txs))" g] assms r i obtain x where
    "calculate_block_reward (Inr g) ?b = Inr x" "fee_accounting_is_admissible_for_block (Inr g) ?b (to_units x) = Inr True"
    by (auto simp: comp_def)
  then show ?thesis by (simp add: template_block)
qed

theorem v2_accounting_never_binds_witness:
  "template_fee_accounting_is_admissible_at (Inr 0) 600000 0 [pay ''a'' ''b'' 1000 700000, pay ''a'' ''c'' 5 1] 517583 = Inr True"
  by (rule v2_accounting_never_binds) (simp_all add: REWARD_CURVE_V2_ACTIVATION_HEIGHT_def regular_def is_coinbase_def pay_def)

text \<open>The template packer's running totals decide exactly like the rule on the whole block: after any
  committed selection of regular transactions, \<open>admits\<close> returns for one more transaction, errors
  included, what the block-form check returns for the selection with that transaction appended, below
  Reward V2 with its \<open>f64\<close> fold and above it in integers (there for fees of at most \<open>2\<^sup>5\<^sup>0\<close> units).\<close>

theorem packer_totals_match_block_rule:
  assumes "new_at (Inr g) i ts act = Inr acc0" and "try_fold commit acc0 txs = Inr acc"
    and "\<forall>t \<in> set (txs @ [tx]). \<not> is_coinbase t" and "length txs < u64_max"
    and "REWARD_CURVE_V2_ACTIVATION_HEIGHT \<le> i \<longrightarrow> sum_list (map fee_units (txs @ [tx])) \<le> 2 ^ 50"
  shows "admits (Inr g) acc tx = template_fee_accounting_is_admissible_at (Inr g) i ts (txs @ [tx]) act"
  using assms by (intro admits_matches) auto

theorem packer_totals_match_block_rule_witness:
  "\<exists>acc0 acc. new_at (Inr 0) 600000 0 517583 = Inr acc0 \<and> try_fold commit acc0 [pay ''a'' ''b'' 1000 7] = Inr acc
    \<and> admits (Inr 0) acc (pay ''b'' ''a'' 1000 9)
      = template_fee_accounting_is_admissible_at (Inr 0) 600000 0 [pay ''a'' ''b'' 1000 7, pay ''b'' ''a'' 1000 9] 517583"
proof -
  obtain base where "scheduled_baseline_units_at (Inr 0) 600000 0 = Inr base"
    using v2_baseline[of 600000 0 0] by (auto simp: REWARD_CURVE_V2_ACTIVATION_HEIGHT_def)
  then obtain acc0 where n: "new_at (Inr 0) 600000 0 517583 = Inr acc0" and z: "total_fee_units acc0 = 0"
    by (simp add: new_at_def)
  have "add_fee_units 0 (pay ''a'' ''b'' 1000 7) = Inr 7"
    by (simp add: add_fee_exact pay_def in_i128_def i128_max_def i128_min_def)
  with z obtain acc where c: "try_fold commit acc0 [pay ''a'' ''b'' 1000 7] = Inr acc"
    by (simp add: commit_def totals_with_def)
  from packer_totals_match_block_rule[OF n c, of "pay ''b'' ''a'' 1000 9"] n c show ?thesis
    by (auto simp: is_coinbase_def pay_def u64_max_def)
qed

end
