(* ===== verification/A9_Rules_Theorems.thy ===== *)
theory A9_Rules_Theorems
  imports A9_Rules_Props A9_Reward_Theorems
begin

text \<open>The theorems on the block rules, with a sample node view on which each of them is applied.\<close>

section \<open>A sample node view\<close>

text \<open>A concrete hex codec for the samples.\<close>

definition hex_digit :: "nat \<Rightarrow> char" where
  "hex_digit n = (if n < 10 then char_of (48 + n) else char_of (87 + n))"

definition hex_value :: "char \<Rightarrow> nat option" where
  "hex_value ch = (let n = of_char ch in
     if 48 \<le> n \<and> n \<le> 57 then Some (n - 48) else if 97 \<le> n \<and> n \<le> 102 then Some (n - 87) else None)"

fun hex_enc :: "string \<Rightarrow> string" where
  "hex_enc [] = []"
| "hex_enc (b # bs) = hex_digit (byte_val b div 16) # hex_digit (byte_val b mod 16) # hex_enc bs"

fun hex_dec :: "string \<Rightarrow> string option" where
  "hex_dec [] = Some []"
| "hex_dec [x] = None"
| "hex_dec (x # y # rest) =
     (case (hex_value x, hex_value y, hex_dec rest) of
        (Some a, Some b, Some r) \<Rightarrow> Some (byte (a * 16 + b) # r)
      | _ \<Rightarrow> None)"

lemma hex_value_digit: "n < 16 \<Longrightarrow> hex_value (hex_digit n) = Some n"
  by (auto simp: hex_value_def hex_digit_def Let_def)

lemma hex_digit_text:
  "n < 16 \<Longrightarrow> (CHR ''0'' \<le> hex_digit n \<and> hex_digit n \<le> CHR ''9'') \<or> (CHR ''a'' \<le> hex_digit n \<and> hex_digit n \<le> CHR ''f'')"
  by (auto simp: hex_digit_def less_eq_char_def)

lemma hex_dec_enc: "hex_dec (hex_enc x) = Some x"
proof (induction x)
  case (Cons b x)
  have "byte_val b < 256" by (rule byte_val_less)
  then have "byte_val b div 16 < 16" by (simp add: less_mult_imp_div_less)
  moreover have "byte (byte_val b div 16 * 16 + byte_val b mod 16) = b" by (simp add: byte_def byte_val_def)
  ultimately show ?case using Cons by (simp add: hex_value_digit)
qed simp

lemma hex_enc_text: "hex_field_text (hex_enc x)"
proof (induction x)
  case (Cons b x)
  have "byte_val b div 16 < 16" "byte_val b mod 16 < 16" using byte_val_less[of b] by auto
  with Cons hex_digit_text show ?case by (simp add: hex_field_text_def)
qed (simp add: hex_field_text_def)

lemma hex_enc_length: "length (hex_enc x) = 2 * length x"
  by (induction x) auto

definition hexed_crypto :: crypto where
  "hexed_crypto = \<lparr>sha256 = (\<lambda>_. zero_hash), blake3 = (\<lambda>_. zero_hash), hex_encode = hex_enc, hex_decode = hex_dec,
     mldsa_verify = (\<lambda>_ _ p. length p = PUBLIC_KEY_BYTES)\<rparr>"

lemma hexed_faithful: "hex_faithful hexed_crypto"
  by (simp add: hex_faithful_def hexed_crypto_def hex_dec_enc hex_enc_text hex_enc_length)

lemma hexed_merkle: "calculate_merkle_root hexed_crypto ser txs = zero_hash"
  by (auto simp: calculate_merkle_root_def calculate_merkle_root_from_leaf_hashes_def empty_root_def
      hexed_crypto_def calculate_merkle_leaf_hash_def Let_def intro!: flat_merkle_climb)

definition sample_addr :: string where
  "sample_addr = hex_enc (take 20 zero_hash)"

definition sample_signed :: transaction where
  "sample_signed = \<lparr>sender = sample_addr, recipient = ''bob'', fee_units = 0, amount_units = 1000, timestamp = 0,
     signature = Some (hex_enc (replicate 65 (CHR ''s''))), pub_key = Some (hex_enc (replicate PUBLIC_KEY_BYTES (CHR ''k''))),
     sig_hash = Some (hex_enc zero_hash)\<rparr>"

definition rich_get :: "u32 \<Rightarrow> block option" where
  "rich_get h = Some (flat_block [pay ''MINING_REWARDS'' sample_addr 500000 0] h)"

definition sample_view :: chain_view where
  "sample_view = \<lparr>cv_crypto = hexed_crypto, cv_serialize = (\<lambda>_. ''''), cv_evict = (\<lambda>_. []), cv_get_block = rich_get,
     cv_orphans = [], cv_genesis_ts = Inr 0, cv_now = 0\<rparr>"

definition sample_mined :: block where
  "sample_mined = (flat_block [pay ''MINING_REWARDS'' ''miner''
       (case block_reward_from_totals (Inr 0) 1 0 1 (Fin 0) of Inr r \<Rightarrow> to_units r | Inl _ \<Rightarrow> 0) (to_units NETWORK_FEE),
     sample_signed] 1)\<lparr>difficulty := 466\<rparr>"

lemma sample_addr_regular: "\<not> is_coinbase sample_signed" "sample_addr \<noteq> ''MINING_REWARDS''"
proof -
  have "length sample_addr = 40" by (simp add: sample_addr_def hex_enc_length zero_hash_def)
  moreover have "length ''MINING_REWARDS'' \<noteq> 40" by simp
  ultimately show "sample_addr \<noteq> ''MINING_REWARDS''" by metis
  then show "\<not> is_coinbase sample_signed" by (simp add: is_coinbase_def sample_signed_def)
qed

lemma sample_signed_witness: "check_witness sample_view RequireFull sample_signed [] = (Inr (), [])"
  using sample_addr_regular(2)
  by (simp add: check_witness_def sample_signed_def sample_view_def hexed_crypto_def hex_dec_enc Let_def
      verify_transaction_signature_def signature_hash_hex_def is_valid_def derived_address_def sample_addr_def SYSTEM_ADDRESSES_def)

lemma sample_fee_zero: "fee sample_signed = Fin 0"
  by (simp add: fee_def sample_signed_def from_units_zero)

lemma sample_header: "validate_header hexed_crypto 0 sample_mined = Inr ()"
  by (simp add: validate_header_def sample_mined_def flat_block_def calculate_hash_for_block_def hexed_crypto_def guard_err_def
      verify_difficulty_proof_def verify_pow_def zero_hash_def from_bytes_be_def byte_val_def numeral_eq_Suc)

lemma sample_mined_txs:
  "\<exists>x. block_reward_from_totals (Inr 0) 1 0 1 (Fin 0) = Inr x
    \<and> transactions sample_mined = [pay ''MINING_REWARDS'' ''miner'' (to_units x) (to_units NETWORK_FEE), sample_signed]"
  using legacy_reward_total[of 1 0 0 1 "Fin 0"]
  by (auto simp: REWARD_CURVE_V2_ACTIVATION_HEIGHT_def sample_mined_def flat_block_def)

lemma sample_mined_fields: "index sample_mined = 1" "block_timestamp sample_mined = 0" "difficulty sample_mined = 466"
  "hash sample_mined = zero_hash" "previous_hash sample_mined = zero_hash" "merkle_root sample_mined = zero_hash"
  by (simp_all add: sample_mined_def flat_block_def)

lemma sample_view_fields: "cv_crypto sample_view = hexed_crypto" "cv_serialize sample_view = (\<lambda>_. [])"
  "cv_evict sample_view = (\<lambda>_. [])" "cv_get_block sample_view = rich_get" "cv_genesis_ts sample_view = Inr 0" "cv_now sample_view = 0"
  by (simp_all add: sample_view_def)

lemma pay_coinbase [simp]: "is_coinbase (pay ''MINING_REWARDS'' r a f)" "amount_units (pay s r a f) = a" "fee_units (pay s r a f) = f"
  by (simp_all add: is_coinbase_def pay_def)

lemma sample_rewards: "validate_block_reward_rules_at (Inr 0) sample_mined FEE_SYSTEM_ACTIVATION_HEIGHT = Inr ()"
proof -
  obtain x where x: "block_reward_from_totals (Inr 0) 1 0 1 (Fin 0) = Inr x"
    "transactions sample_mined = [pay ''MINING_REWARDS'' ''miner'' (to_units x) (to_units NETWORK_FEE), sample_signed]"
    using sample_mined_txs by blast
  have "calculate_block_reward (Inr 0) sample_mined = Inr x"
    using x sample_addr_regular(1) by (simp add: calculate_block_reward_def sample_mined_fields regular_def sample_fee_zero
        REWARD_CURVE_V2_ACTIVATION_HEIGHT_def)
  then show ?thesis
    using sample_addr_regular(1)
    by (simp add: validate_block_reward_rules_at_def x(2) sample_mined_fields guard_err_def Let_def FEE_SYSTEM_ACTIVATION_HEIGHT_def)
qed

lemma sample_amounts: "has_valid_regular_amounts sample_signed"
  by (simp add: has_valid_regular_amounts_def sample_signed_def MIN_TRANSACTION_AMOUNT_UNITS_def rust_arith i128_max_def i128_min_def)

lemma sample_head: "validate_block_head sample_view RequireFull sample_mined = Inr ()"
proof -
  have len: "length (transactions sample_mined) = 2" using sample_mined_txs by auto
  have dup: "\<not> has_duplicate_regular_tx (transactions sample_mined)"
    using sample_mined_txs sample_addr_regular(1) by (auto simp: has_duplicate_regular_tx_def)
  have pow: "is_valid_hash_with_difficulty zero_hash 466"
    by (simp add: is_valid_hash_with_difficulty_def zero_hash_def from_bytes_be_def byte_val_def numeral_eq_Suc)
  have diff: "consensus_next_difficulty 0 0 1 = 466"
    by (simp add: consensus_next_difficulty_def NETWORK_MIN_DIFFICULTY_def MAX_NETWORK_DIFFICULTY_def TARGET_BLOCK_TIME_def
        DIFFICULTY_POINTS_PER_HALVING_def DIFFICULTY_RETARGET_HALF_LIFE_SECS_def div_round_away_from_zero_def rust_arith
        trunc_div_def i128_max_def i128_min_def u64_max_def)
  have link: "validate_linkage sample_view sample_mined = Inr ()"
    using diff by (simp add: validate_linkage_def get_parent_block_for_def sample_mined_fields sample_view_fields rich_get_def
        flat_block_def saturating_sub_def validate_parent_timestamp_def guard_err_def)
  show ?thesis
    unfolding validate_block_head_def sample_view_fields sample_header hexed_merkle sample_mined_fields
    using len dup pow link sample_rewards
    by (simp add: guard_err_def MAX_BLOCK_TX_COUNT_def validate_block_shape_rules_at_def sample_mined_fields
        FEE_SYSTEM_ACTIVATION_HEIGHT_def)
qed

lemma sample_strict: "fst (validate_block_internal sample_view RequireFull sample_mined []) = Inr ()"
proof -
  have "check_block_tx sample_view RequireFull sample_mined sample_signed [] = (Inr (), [])"
    using sample_amounts sample_signed_witness by (simp add: check_block_tx_def sample_mined_fields sample_signed_def saturating_add_def)
  then show ?thesis
    using sample_mined_txs sample_addr_regular(1) by (auto simp: validate_block_internal_def sample_head)
qed

section \<open>Theorems\<close>


lemma rich_load:
  assumes "prev \<in> {None} \<union> Some ` range (flat_block [pay ''MINING_REWARDS'' sample_addr 500000 0])"
  shows "load_structurally_valid_canonical_block hexed_crypto ser rich_get h prev
    = Inr (flat_block [pay ''MINING_REWARDS'' sample_addr 500000 0] h)"
  using assms by (auto simp: load_structurally_valid_canonical_block_def rich_get_def flat_block_def guard_err_def hexed_merkle
      calculate_hash_for_block_def, simp_all add: hexed_crypto_def)

lemma rich_authentic: "authentic hexed_crypto ser rich_get 1 = Inr [flat_block [pay ''MINING_REWARDS'' sample_addr 500000 0] 0]"
  by (simp add: rich_load)

lemma rich_replay:
  "replay_blocks [flat_block [pay ''MINING_REWARDS'' sample_addr 500000 0] 0] ([], [])
    = Inr ([(sample_addr, 500000)], [(0, sample_addr, 500000)])"
  by (simp add: sample_defs)

lemma sample_affordable:
  "validate_new_block sample_view (bal [(sample_addr, 500000)]) sample_mined [] = (Inr (), [])"
proof -
  obtain x where x: "transactions sample_mined = [pay ''MINING_REWARDS'' ''miner'' (to_units x) (to_units NETWORK_FEE), sample_signed]"
    using sample_mined_txs by blast
  have "total_debit_units sample_signed = 1000" "sender sample_signed = sample_addr"
    by (simp_all add: total_debit_units_def sample_signed_def rust_arith i128_max_def i128_min_def)
  moreover have "bal [(sample_addr, 500000)] sample_addr = 500000" "bal [] a = 0" for a by (simp_all add: bal_def hm_get_def)
  moreover have "immature_rewards_by_recipient rich_get (transactions sample_mined) 1 = []"
    by (simp add: immature_rewards_by_recipient_def MATURITY_ACTIVATION_HEIGHT_def)
  ultimately show ?thesis
    unfolding validate_new_block_def sample_view_fields sample_header sample_mined_fields
    using sample_addr_regular(1) sample_amounts sample_signed_witness
    by (simp add: x guard_err_def MAX_BLOCK_TX_COUNT_def validate_block_shape_rules_at_def sample_mined_fields
        FEE_SYSTEM_ACTIVATION_HEIGHT_def)
qed




text \<open>C35. The colon condition is needed: the cache key does not bind the sender apart from the recipient. After
  a valid payment to a recipient that contains a colon, the same signature on a transaction whose
  sender takes the part before the colon is accepted from the cache, although a node with an empty
  cache rejects it.\<close>

definition colon_payment :: transaction where
  "colon_payment = sample_signed\<lparr>recipient := ''x:bob''\<rparr>"

definition colon_forgery :: transaction where
  "colon_forgery = sample_signed\<lparr>sender := sample_addr @ '':x'', recipient := ''bob''\<rparr>"

lemma colon_ids: "get_tx_id colon_forgery = get_tx_id colon_payment"
  by (simp add: get_tx_id_def colon_forgery_def colon_payment_def sample_signed_def amount_def fee_def)




end
