(* ===== verification/A9_Fee_Estimate.thy ===== *)
theory A9_Fee_Estimate
  imports A9_Rules A9_Mempool "HOL-Library.Product_Lexorder"
begin

text \<open>
  The fee estimator (\<^verbatim>\<open>src/a9/blockchain.rs\<close>): the template-candidate predicate and order shared with the
  miner, and the bounded walk over the mempool that prices the next block.  The registry of
  confirmed transactions (\<open>confirmed\<close>) and the encoded size (\<open>None\<close>: not encodable) are parameters.
\<close>

section \<open>Definitions\<close>

definition TEMPLATE_FRESHNESS_MARGIN_SECS :: u64 where
  "TEMPLATE_FRESHNESS_MARGIN_SECS = 60"

definition FEE_ESTIMATE_ANCHOR_UNITS :: i128 where
  "FEE_ESTIMATE_ANCHOR_UNITS = MIN_RELAY_FEE_UNITS * 2"

definition FEE_ESTIMATE_AUTO_CAP_UNITS :: i128 where
  "FEE_ESTIMATE_AUTO_CAP_UNITS = FEE_ESTIMATE_ANCHOR_UNITS * 10"

definition WALLET_FEE_SAFETY_LIMIT_UNITS :: i128 where
  "WALLET_FEE_SAFETY_LIMIT_UNITS = 1000000"

definition TYPICAL_FULL_WITNESS_TX_BYTES :: usize where
  "TYPICAL_FULL_WITNESS_TX_BYTES = 16 * 1024"

definition MAX_TEMPLATE_TX_BYTES :: usize where
  "MAX_TEMPLATE_TX_BYTES = MAX_BLOCK_WEIGHT_BYTES"

definition is_template_candidate :: "crypto \<Rightarrow> (string \<Rightarrow> bool) \<Rightarrow> transaction \<Rightarrow> u64 \<Rightarrow> bool" where
  "is_template_candidate c confirmed tx now_secs =
     (if is_coinbase tx then False
      else if confirmed (get_tx_id tx) then False
      else if \<not> has_valid_regular_amounts tx then False
      else if fee_units tx < MIN_RELAY_FEE_UNITS then False
      else if saturating_add (timestamp tx) MAX_TX_AGE_SECS < saturating_add now_secs TEMPLATE_FRESHNESS_MARGIN_SECS
        then False
      else if timestamp tx > saturating_add now_secs MAX_BLOCK_FUTURE_TIME then False
      else case Option.bind (signature tx) (hex_decode c) of
             Some bytes \<Rightarrow> length bytes > 64
           | None \<Rightarrow> False)"

text \<open>\<open>template_candidate_order\<close>: highest fee first, then oldest; \<open>sort_by\<close> is stable.\<close>

definition template_candidate_key :: "transaction \<Rightarrow> int \<times> nat" where
  "template_candidate_key tx = (- fee_units tx, timestamp tx)"

record fee_walk =
  feed_count :: usize
  feed_bytes :: usize
  template_bytes :: usize
  included :: usize
  eligible_seen :: usize
  min_included_fee :: "i128 option"
  excluded_any :: bool
  consensus_weight :: usize

record fee_estimate =
  recommended_units :: i128
  anchor_units :: i128
  floor_units :: i128
  auto_cap_units :: i128
  explicit_cap_units :: i128
  congested :: bool
  pending_candidates :: usize
  next_block_fits :: usize

definition feed_count_cap :: usize where
  "feed_count_cap = MAX_TRANSACTIONS_PER_BLOCK"

definition feed_byte_cap :: usize where
  "feed_byte_cap = MAX_BLOCK_SIZE"

definition count_cap :: usize where
  "count_cap = min feed_count_cap (saturating_sub MAX_BLOCK_TX_COUNT 1)"

definition byte_cap :: usize where
  "byte_cap = min feed_byte_cap MAX_TEMPLATE_TX_BYTES"

text \<open>Stage 2: the miner's packing gates for one eligible candidate.\<close>

definition include_candidate :: "transaction \<Rightarrow> usize \<Rightarrow> fee_walk \<Rightarrow> fee_walk" where
  "include_candidate tx tx_bytes w =
     w\<lparr>template_bytes := saturating_add (template_bytes w) tx_bytes, included := included w + 1,
       min_included_fee := Some (case min_included_fee w of None \<Rightarrow> fee_units tx | Some m \<Rightarrow> min m (fee_units tx))\<rparr>"

definition pack_gates :: "u32 \<Rightarrow> transaction \<Rightarrow> usize \<Rightarrow> fee_walk \<Rightarrow> fee_walk" where
  "pack_gates next_height tx tx_bytes w =
     (if included w \<ge> count_cap then w\<lparr>excluded_any := True\<rparr>
      else if saturating_add (template_bytes w) tx_bytes > byte_cap then w\<lparr>excluded_any := True\<rparr>
      else if next_height \<ge> FEE_SYSTEM_ACTIVATION_HEIGHT then
        (case template_regular_transaction_weight next_height tx of
           Inr (Some tx_weight) \<Rightarrow>
             (case checked_add (consensus_weight w) tx_weight of
                None \<Rightarrow> w
              | Some next_weight \<Rightarrow>
                  if next_weight > MAX_BLOCK_WEIGHT_BYTES then w\<lparr>excluded_any := True\<rparr>
                  else include_candidate tx tx_bytes (w\<lparr>consensus_weight := next_weight\<rparr>))
         | _ \<Rightarrow> w)
      else include_candidate tx tx_bytes w)"

definition pack_candidate :: "u32 \<Rightarrow> transaction \<Rightarrow> usize \<Rightarrow> fee_walk \<Rightarrow> fee_walk" where
  "pack_candidate next_height tx tx_bytes w =
     pack_gates next_height tx tx_bytes (w\<lparr>eligible_seen := eligible_seen w + 1\<rparr>)"

fun estimate_walk :: "crypto \<Rightarrow> (string \<Rightarrow> bool) \<Rightarrow> (transaction \<Rightarrow> usize option) \<Rightarrow> u32 \<Rightarrow> u64 \<Rightarrow> transaction list
    \<Rightarrow> fee_walk \<Rightarrow> fee_walk" where
  "estimate_walk c confirmed encoded_size next_height now_secs [] w = w"
| "estimate_walk c confirmed encoded_size next_height now_secs (tx # txs) w =
     (if feed_count w \<ge> feed_count_cap \<or> feed_bytes w \<ge> feed_byte_cap then w\<lparr>excluded_any := True\<rparr>
      else case encoded_size tx of
             None \<Rightarrow> estimate_walk c confirmed encoded_size next_height now_secs txs w
           | Some tx_bytes \<Rightarrow>
               let w1 = w\<lparr>feed_count := feed_count w + 1, feed_bytes := saturating_add (feed_bytes w) tx_bytes\<rparr>;
                   w2 = (if is_template_candidate c confirmed tx now_secs then pack_candidate next_height tx tx_bytes w1 else w1)
               in estimate_walk c confirmed encoded_size next_height now_secs txs w2)"

definition start_walk :: "u32 \<Rightarrow> fee_walk" where
  "start_walk next_height =
     \<lparr>feed_count = 0, feed_bytes = 0, template_bytes = 0, included = 0, eligible_seen = 0, min_included_fee = None,
      excluded_any = False,
      consensus_weight =
        (if next_height \<ge> FEE_SYSTEM_ACTIVATION_HEIGHT
         then (case mining_template_base_weight (replicate 40 (CHR ''0'')) of Inr w \<Rightarrow> w | Inl _ \<Rightarrow> 0)
         else 0)\<rparr>"

definition fee_estimate_from_candidates :: "crypto \<Rightarrow> (string \<Rightarrow> bool) \<Rightarrow> (transaction \<Rightarrow> usize option) \<Rightarrow> u32 \<Rightarrow> u64
    \<Rightarrow> transaction list \<Rightarrow> fee_estimate" where
  "fee_estimate_from_candidates c confirmed encoded_size next_height now_secs candidates =
     (let w = estimate_walk c confirmed encoded_size next_height now_secs
                (sort_key template_candidate_key candidates) (start_walk next_height);
          caller_fits = (included w < count_cap
             \<and> saturating_add (template_bytes w) TYPICAL_FULL_WITNESS_TX_BYTES \<le> byte_cap
             \<and> feed_count w < feed_count_cap
             \<and> saturating_add (feed_bytes w) TYPICAL_FULL_WITNESS_TX_BYTES \<le> feed_byte_cap
             \<and> (\<not> next_height \<ge> FEE_SYSTEM_ACTIVATION_HEIGHT
                 \<or> saturating_add (consensus_weight w) TYPICAL_FULL_WITNESS_TX_BYTES \<le> MAX_BLOCK_WEIGHT_BYTES));
          cong = (excluded_any w \<or> \<not> caller_fits);
          recommended = min (if cong
             then max (i128_saturating_add (case min_included_fee w of None \<Rightarrow> FEE_ESTIMATE_ANCHOR_UNITS | Some m \<Rightarrow> m) 1)
                    FEE_ESTIMATE_ANCHOR_UNITS
             else FEE_ESTIMATE_ANCHOR_UNITS) FEE_ESTIMATE_AUTO_CAP_UNITS
      in \<lparr>recommended_units = recommended, anchor_units = FEE_ESTIMATE_ANCHOR_UNITS, floor_units = MIN_RELAY_FEE_UNITS,
          auto_cap_units = FEE_ESTIMATE_AUTO_CAP_UNITS, explicit_cap_units = WALLET_FEE_SAFETY_LIMIT_UNITS,
          congested = cong, pending_candidates = eligible_seen w, next_block_fits = included w\<rparr>)"

section \<open>The walk\<close>

text \<open>What holds throughout the walk.\<close>

definition walk_inv :: "fee_walk \<Rightarrow> bool" where
  "walk_inv w \<longleftrightarrow> included w \<le> eligible_seen w \<and> eligible_seen w \<le> feed_count w \<and> feed_count w \<le> feed_count_cap
     \<and> included w \<le> count_cap \<and> template_bytes w \<le> byte_cap \<and> consensus_weight w \<le> MAX_BLOCK_WEIGHT_BYTES
     \<and> (min_included_fee w = None \<longleftrightarrow> included w = 0)
     \<and> (\<forall>m. min_included_fee w = Some m \<longrightarrow> MIN_RELAY_FEE_UNITS \<le> m)"

lemma candidate_fee: "is_template_candidate c confirmed tx now \<Longrightarrow> MIN_RELAY_FEE_UNITS \<le> fee_units tx"
  by (simp add: is_template_candidate_def split: if_splits)

lemma walk_inv_mark: "walk_inv w \<Longrightarrow> walk_inv (w\<lparr>excluded_any := x\<rparr>)"
  by (simp add: walk_inv_def)

lemma include_inv:
  assumes "walk_inv w" and "included w < eligible_seen w" and "included w < count_cap"
    and "saturating_add (template_bytes w) n \<le> byte_cap" and "MIN_RELAY_FEE_UNITS \<le> fee_units tx"
    and "k \<le> MAX_BLOCK_WEIGHT_BYTES"
  shows "walk_inv (include_candidate tx n (w\<lparr>consensus_weight := k\<rparr>))"
  using assms by (auto simp: include_candidate_def walk_inv_def split: option.splits)

lemma pack_gates_inv:
  assumes inv: "walk_inv w" and lt: "included w < eligible_seen w" and rf: "MIN_RELAY_FEE_UNITS \<le> fee_units tx"
  shows "walk_inv (pack_gates h tx n w)"
proof -
  have k: "consensus_weight w \<le> MAX_BLOCK_WEIGHT_BYTES" using inv by (simp add: walk_inv_def)
  have same: "w\<lparr>consensus_weight := consensus_weight w\<rparr> = w" by simp
  note inc = include_inv[OF inv lt _ _ rf]
  show ?thesis
    unfolding pack_gates_def
    using inv walk_inv_mark[OF inv] inc inc[OF _ _ k, unfolded same]
    by (simp split: sum.split option.split)
qed

lemma pack_candidate_inv:
  assumes "walk_inv w" and "eligible_seen w < feed_count w" and "MIN_RELAY_FEE_UNITS \<le> fee_units tx"
  shows "walk_inv (pack_candidate h tx n w)"
  unfolding pack_candidate_def using assms by (intro pack_gates_inv) (auto simp: walk_inv_def)

lemma estimate_walk_inv: "walk_inv w \<Longrightarrow> walk_inv (estimate_walk c confirmed sz h now txs w)"
proof (induction txs arbitrary: w)
  case (Cons tx txs)
  show ?case
  proof (cases "feed_count w \<ge> feed_count_cap \<or> feed_bytes w \<ge> feed_byte_cap")
    case True
    with Cons.prems show ?thesis by (simp add: walk_inv_def)
  next
    case False
    show ?thesis
    proof (cases "sz tx")
      case None
      with False Cons show ?thesis by simp
    next
      case (Some n)
      let ?w = "w\<lparr>feed_count := feed_count w + 1, feed_bytes := saturating_add (feed_bytes w) n\<rparr>"
      have "walk_inv ?w" using Cons.prems False by (simp add: walk_inv_def)
      moreover have "walk_inv (pack_candidate h tx n ?w)" if "is_template_candidate c confirmed tx now"
        using Cons.prems False candidate_fee[OF that] by (intro pack_candidate_inv) (simp_all add: walk_inv_def)
      ultimately show ?thesis using False Some Cons.IH by (simp add: Let_def)
    qed
  qed
qed simp

lemma start_walk_inv: "walk_inv (start_walk h)"
proof -
  have "is_canonical_user_address (replicate 40 (CHR ''0''))"
    by (simp add: is_canonical_user_address_def list_all_iff less_eq_char_def)
  then have "mining_template_base_weight (replicate 40 (CHR ''0'')) = Inr 694"
    by (simp add: mining_template_base_weight_def guard_err_def checked_sum_def checked_add_def ok_or_def
        BLOCK_WEIGHT_FIXED_BYTES_def TRANSACTION_WEIGHT_FIXED_BYTES_def u64_max_def)
  then show ?thesis by (simp add: walk_inv_def start_walk_def MAX_BLOCK_WEIGHT_BYTES_def)
qed


definition bulky_payment :: transaction where
  "bulky_payment = \<lparr>sender = ''alice'', recipient = ''bob'', fee_units = 30000, amount_units = 1000000000,
     timestamp = 100, signature = Some (replicate 100 (CHR ''x'')), pub_key = None, sig_hash = None\<rparr>"


end
