(* ===== verification/A9_Store.thy ===== *)
theory A9_Store
  imports A9_Prelude "HOL-Library.Sublist"
begin

text \<open>
  The storage engine boundary (\<^verbatim>\<open>src/a9/store.rs\<close>): trees over the tables of an embedded
  ordered key-value engine, batches, the durability discipline, and the lazy scans that page
  through a table.  The engine itself is a parameter, a record of the table operations the code
  calls; its documented behaviour is the locale \<open>redb_contract\<close>.  Every operation takes the
  outcome of its transaction as an argument (\<open>None\<close>, or the error the engine reports): a
  transaction that fails is dropped and changes nothing.
\<close>

section \<open>The engine\<close>

type_synonym bytes = string
type_synonym kv = "bytes \<times> bytes"

datatype store_error = StoreError string

record 't redb =
  rd_empty :: 't
  rd_get :: "'t \<Rightarrow> bytes \<Rightarrow> bytes option"
  rd_insert :: "bytes \<Rightarrow> bytes \<Rightarrow> 't \<Rightarrow> 't"
  rd_remove :: "bytes \<Rightarrow> 't \<Rightarrow> 't"
  rd_range :: "'t \<Rightarrow> bytes \<Rightarrow> bytes option \<Rightarrow> kv list"
  rd_len :: "'t \<Rightarrow> u64"
  rd_first :: "'t \<Rightarrow> kv option"
  rd_last :: "'t \<Rightarrow> kv option"

text \<open>A half-open range; \<open>None\<close> is no upper bound.\<close>

fun below :: "bytes option \<Rightarrow> bytes \<Rightarrow> bool" where
  "below None k = True"
| "below (Some e) k = (k < e)"

fun range_ok :: "bytes \<Rightarrow> bytes option \<Rightarrow> bool" where
  "range_ok s None = True"
| "range_ok s (Some e) = (s \<le> e)"

text \<open>What the code relies on: a table is a map that iterates in the order of its keys.\<close>

locale redb_contract =
  fixes R :: "'t redb"
  assumes get_empty: "rd_get R (rd_empty R) k = None"
    and get_insert: "rd_get R (rd_insert R k v t) k' = (if k' = k then Some v else rd_get R t k')"
    and get_remove: "rd_get R (rd_remove R k t) k' = (if k' = k then None else rd_get R t k')"
    and range_ordered: "range_ok s e \<Longrightarrow> sorted_wrt (<) (map fst (rd_range R t s e))"
    and range_exact: "range_ok s e \<Longrightarrow> (k, v) \<in> set (rd_range R t s e) \<longleftrightarrow> rd_get R t k = Some v \<and> s \<le> k \<and> below e k"
    and len_range: "rd_len R t = length (rd_range R t [] None)"
    and first_range: "rd_first R t = (case rd_range R t [] None of [] \<Rightarrow> None | x # _ \<Rightarrow> Some x)"
    and last_range: "rd_last R t = (case rev (rd_range R t [] None) of [] \<Rightarrow> None | x # _ \<Rightarrow> Some x)"

section \<open>Errors at opening\<close>

definition CORRUPTION_MARKER :: string where
  "CORRUPTION_MARKER = ''CORRUPTION:''"

definition is_corruption :: "store_error \<Rightarrow> bool" where
  "is_corruption e = (case e of StoreError msg \<Rightarrow> prefix CORRUPTION_MARKER msg)"

text \<open>The variants of the engine's error that matter: corrupted storage, an I/O error with or
  without the kind \<open>InvalidData\<close>, anything else; the text is the engine's.\<close>

datatype database_error = StorageCorrupted string | StorageIo bool string | OtherDatabaseError string

fun database_error_text :: "database_error \<Rightarrow> string" where
  "database_error_text (StorageCorrupted m) = m"
| "database_error_text (StorageIo _ m) = m"
| "database_error_text (OtherDatabaseError m) = m"

definition classify_open_error :: "database_error \<Rightarrow> bool \<Rightarrow> store_error" where
  "classify_open_error e pre_existing =
     (let corrupt = (case e of
          StorageCorrupted _ \<Rightarrow> True
        | StorageIo invalid_data _ \<Rightarrow> pre_existing \<and> invalid_data
        | OtherDatabaseError _ \<Rightarrow> False)
      in StoreError (if corrupt then CORRUPTION_MARKER @ '' '' @ database_error_text e else database_error_text e))"

section \<open>The store\<close>

text \<open>
  What readers see and what a restart after a crash finds.  A commit without durability changes
  only the first; a durable commit copies it to the second.
\<close>

record 'i db =
  visible :: 'i
  durable :: 'i

type_synonym 't tables = "(string, 't) hmap"
type_synonym 't store = "'t tables db"

definition DEFAULT_TREE :: string where
  "DEFAULT_TREE = ''__default__''"

definition write_txn :: "'e option \<Rightarrow> ('i \<Rightarrow> 'r \<times> 'i) \<Rightarrow> 'i db \<Rightarrow> ('e + 'r) \<times> 'i db" where
  "write_txn fault body s =
     (case fault of
        Some e \<Rightarrow> (Inl e, s)
      | None \<Rightarrow> (Inr (fst (body (visible s))), s\<lparr>visible := snd (body (visible s))\<rparr>))"

definition with_table :: "'t redb \<Rightarrow> string \<Rightarrow> ('t \<Rightarrow> 'r \<times> 't) \<Rightarrow> 't tables \<Rightarrow> 'r \<times> 't tables" where
  "with_table R name f tabs =
     (let t = (case hm_get tabs name of Some t \<Rightarrow> t | None \<Rightarrow> rd_empty R)
      in (fst (f t), hm_insert name (snd (f t)) tabs))"

definition open_tree :: "'t redb \<Rightarrow> string \<Rightarrow> store_error option \<Rightarrow> 't store \<Rightarrow> (store_error + unit) \<times> 't store" where
  "open_tree R name fault = write_txn fault (with_table R name (\<lambda>t. ((), t)))"

definition tree_names :: "store_error option \<Rightarrow> 't store \<Rightarrow> store_error + string list" where
  "tree_names fault s = (case fault of Some e \<Rightarrow> Inl e | None \<Rightarrow> Inr (sort (hm_keys (visible s))))"

definition store_flush :: "'e option \<Rightarrow> 'i db \<Rightarrow> ('e + unit) \<times> 'i db" where
  "store_flush fault s = (case fault of Some e \<Rightarrow> (Inl e, s) | None \<Rightarrow> (Inr (), s\<lparr>durable := visible s\<rparr>))"

text \<open>The copy is taken of the file, hence of the durable image, while no writer can start.\<close>

definition snapshot_file_to :: "store_error option \<Rightarrow> store_error option \<Rightarrow> 'i db \<Rightarrow> (store_error + 'i) \<times> 'i db" where
  "snapshot_file_to fault copy_fault s =
     (case store_flush fault s of
        (Inl e, s') \<Rightarrow> (Inl e, s')
      | (Inr _, s') \<Rightarrow> (case copy_fault of Some e \<Rightarrow> (Inl e, s') | None \<Rightarrow> (Inr (durable s'), s')))"

definition crash :: "'i db \<Rightarrow> 'i db" where
  "crash s = s\<lparr>visible := durable s\<rparr>"

section \<open>Batches and trees\<close>

record batch =
  batch_ops :: "(bytes \<times> bytes option) list"

definition batch_insert :: "bytes \<Rightarrow> bytes \<Rightarrow> batch \<Rightarrow> batch" where
  "batch_insert k v b = b\<lparr>batch_ops := batch_ops b @ [(k, Some v)]\<rparr>"

definition batch_remove :: "bytes \<Rightarrow> batch \<Rightarrow> batch" where
  "batch_remove k b = b\<lparr>batch_ops := batch_ops b @ [(k, None)]\<rparr>"

definition batch_len :: "batch \<Rightarrow> usize" where
  "batch_len b = length (batch_ops b)"

text \<open>A read of a table that does not exist answers like an empty one.\<close>

definition read_table :: "store_error option \<Rightarrow> string \<Rightarrow> 't store \<Rightarrow> ('t \<Rightarrow> 'r) \<Rightarrow> 'r \<Rightarrow> store_error + 'r" where
  "read_table fault name s f missing =
     (case fault of
        Some e \<Rightarrow> Inl e
      | None \<Rightarrow> Inr (case hm_get (visible s) name of Some t \<Rightarrow> f t | None \<Rightarrow> missing))"

definition tree_get :: "'t redb \<Rightarrow> string \<Rightarrow> bytes \<Rightarrow> store_error option \<Rightarrow> 't store \<Rightarrow> store_error + bytes option" where
  "tree_get R name k fault s = read_table fault name s (\<lambda>t. rd_get R t k) None"

definition tree_contains_key :: "'t redb \<Rightarrow> string \<Rightarrow> bytes \<Rightarrow> store_error option \<Rightarrow> 't store \<Rightarrow> store_error + bool" where
  "tree_contains_key R name k fault s = and_then (tree_get R name k fault s) (\<lambda>v. Inr (v \<noteq> None))"

definition tree_insert :: "'t redb \<Rightarrow> string \<Rightarrow> bytes \<Rightarrow> bytes \<Rightarrow> store_error option \<Rightarrow> 't store
    \<Rightarrow> (store_error + bytes option) \<times> 't store" where
  "tree_insert R name k v fault = write_txn fault (with_table R name (\<lambda>t. (rd_get R t k, rd_insert R k v t)))"

definition tree_remove :: "'t redb \<Rightarrow> string \<Rightarrow> bytes \<Rightarrow> store_error option \<Rightarrow> 't store
    \<Rightarrow> (store_error + bytes option) \<times> 't store" where
  "tree_remove R name k fault = write_txn fault (with_table R name (\<lambda>t. (rd_get R t k, rd_remove R k t)))"

definition batch_op :: "'t redb \<Rightarrow> bytes \<times> bytes option \<Rightarrow> 't \<Rightarrow> 't" where
  "batch_op R op t = (case op of (k, Some v) \<Rightarrow> rd_insert R k v t | (k, None) \<Rightarrow> rd_remove R k t)"

definition apply_batch :: "'t redb \<Rightarrow> string \<Rightarrow> batch \<Rightarrow> store_error option \<Rightarrow> 't store
    \<Rightarrow> (store_error + unit) \<times> 't store" where
  "apply_batch R name b fault = write_txn fault (with_table R name (\<lambda>t. ((), fold (batch_op R) (batch_ops b) t)))"

definition tree_len :: "'t redb \<Rightarrow> string \<Rightarrow> store_error option \<Rightarrow> 't store \<Rightarrow> store_error + u64" where
  "tree_len R name fault s = read_table fault name s (rd_len R) 0"

definition tree_is_empty :: "'t redb \<Rightarrow> string \<Rightarrow> store_error option \<Rightarrow> 't store \<Rightarrow> store_error + bool" where
  "tree_is_empty R name fault s = and_then (tree_len R name fault s) (\<lambda>n. Inr (n = 0))"

definition tree_first :: "'t redb \<Rightarrow> string \<Rightarrow> store_error option \<Rightarrow> 't store \<Rightarrow> store_error + kv option" where
  "tree_first R name fault s = read_table fault name s (rd_first R) None"

definition tree_last :: "'t redb \<Rightarrow> string \<Rightarrow> store_error option \<Rightarrow> 't store \<Rightarrow> store_error + kv option" where
  "tree_last R name fault s = read_table fault name s (rd_last R) None"

definition tree_clear :: "'t redb \<Rightarrow> string \<Rightarrow> store_error option \<Rightarrow> 't store \<Rightarrow> (store_error + unit) \<times> 't store" where
  "tree_clear R name fault = write_txn fault (\<lambda>tabs. with_table R name (\<lambda>t. ((), t)) (hm_remove name tabs))"

definition update_and_fetch :: "'t redb \<Rightarrow> string \<Rightarrow> bytes \<Rightarrow> (bytes option \<Rightarrow> bytes option) \<Rightarrow> store_error option \<Rightarrow> 't store
    \<Rightarrow> (store_error + bytes option) \<times> 't store" where
  "update_and_fetch R name k f fault = write_txn fault (with_table R name (\<lambda>t.
     let next = f (rd_get R t k)
     in (next, case next of Some v \<Rightarrow> rd_insert R k v t | None \<Rightarrow> rd_remove R k t)))"

section \<open>Scans\<close>

definition byte_succ :: "char \<Rightarrow> char" where
  "byte_succ b = char_of ((of_char b :: nat) + 1)"

function prefix_end :: "bytes \<Rightarrow> bytes option" where
  "prefix_end p =
     (if p = [] then None
      else if last p < CHR 0xFF then Some (butlast p @ [byte_succ (last p)])
      else prefix_end (butlast p))"
  by pat_completeness auto
termination by (relation "measure length") auto

declare prefix_end.simps [simp del]

text \<open>The items of one range read: the entries, cut off by the error the engine may report.\<close>

type_synonym read_fault = "(nat \<times> store_error) option"

fun read_items :: "read_fault \<Rightarrow> kv list \<Rightarrow> (store_error + kv) list" where
  "read_items None xs = map Inr xs"
| "read_items (Some (n, e)) xs = map Inr (take n xs) @ [Inl e]"

definition PAGE_BYTE_BUDGET :: usize where
  "PAGE_BYTE_BUDGET = 16 * 1024 * 1024"

fun fill_page :: "(store_error + kv) list \<Rightarrow> usize \<Rightarrow> kv list \<Rightarrow> store_error + kv list" where
  "fill_page [] n out = Inr out"
| "fill_page (Inl e # items) n out = Inl e"
| "fill_page (Inr (k, v) # items) n out =
     (let n' = n + (length k + length v); out' = out @ [(k, v)]
      in if n' \<ge> PAGE_BYTE_BUDGET then Inr out' else fill_page items n' out')"

text \<open>A snapshot is the table a read transaction sees, if it exists, and the fault of the read.\<close>

type_synonym 't snapshot = "'t option \<times> read_fault"

definition range_page :: "'t redb \<Rightarrow> 't snapshot \<Rightarrow> bytes \<Rightarrow> bytes option \<Rightarrow> usize \<Rightarrow> store_error + kv list" where
  "range_page R snap start stop limit =
     (case snap of
        (None, _) \<Rightarrow> Inr []
      | (Some t, fault) \<Rightarrow> fill_page (take limit (read_items fault (rd_range R t start stop))) 0 [])"

definition range_page_rev :: "'t redb \<Rightarrow> 't snapshot \<Rightarrow> bytes \<Rightarrow> bytes option \<Rightarrow> usize \<Rightarrow> store_error + kv list" where
  "range_page_rev R snap start stop limit =
     (case snap of
        (None, _) \<Rightarrow> Inr []
      | (Some t, fault) \<Rightarrow> fill_page (take limit (read_items fault (rev (rd_range R t start stop)))) 0 [])"

definition PAGE :: usize where
  "PAGE = 1024"

record lazy_scan =
  ls_tree :: bool
  next_start :: bytes
  ls_end :: "bytes option"
  ls_buf :: "kv list"

record lazy_scan_rev =
  lr_tree :: bool
  lr_start :: bytes
  next_end :: "bytes option"
  lr_buf :: "kv list"

definition new_scan :: "bytes \<Rightarrow> bytes option \<Rightarrow> lazy_scan" where
  "new_scan start stop = \<lparr>ls_tree = True, next_start = start, ls_end = stop, ls_buf = []\<rparr>"

definition succ_key :: "bytes \<Rightarrow> bytes" where
  "succ_key k = k @ [CHR 0x00]"

definition lazy_next :: "'t redb \<Rightarrow> 't snapshot \<Rightarrow> lazy_scan \<Rightarrow> (store_error + kv) option \<times> lazy_scan" where
  "lazy_next R snap sc =
     (case ls_buf sc of
        pair # rest \<Rightarrow> (Some (Inr pair), sc\<lparr>ls_buf := rest\<rparr>)
      | [] \<Rightarrow>
          if \<not> ls_tree sc then (None, sc)
          else case range_page R snap (next_start sc) (ls_end sc) PAGE of
                 Inl e \<Rightarrow> (Some (Inl e), sc\<lparr>ls_tree := False\<rparr>)
               | Inr [] \<Rightarrow> (None, sc\<lparr>ls_tree := False\<rparr>)
               | Inr (pair # rest) \<Rightarrow>
                   (Some (Inr pair), sc\<lparr>next_start := succ_key (fst (last (pair # rest))), ls_buf := rest\<rparr>))"

definition rev_scan :: "lazy_scan \<Rightarrow> lazy_scan_rev" where
  "rev_scan sc = \<lparr>lr_tree = ls_tree sc, lr_start = next_start sc, next_end = ls_end sc, lr_buf = []\<rparr>"

definition lazy_next_rev :: "'t redb \<Rightarrow> 't snapshot \<Rightarrow> lazy_scan_rev \<Rightarrow> (store_error + kv) option \<times> lazy_scan_rev" where
  "lazy_next_rev R snap sc =
     (case lr_buf sc of
        pair # rest \<Rightarrow> (Some (Inr pair), sc\<lparr>lr_buf := rest\<rparr>)
      | [] \<Rightarrow>
          if \<not> lr_tree sc then (None, sc)
          else case range_page_rev R snap (lr_start sc) (next_end sc) PAGE of
                 Inl e \<Rightarrow> (Some (Inl e), sc\<lparr>lr_tree := False\<rparr>)
               | Inr [] \<Rightarrow> (None, sc\<lparr>lr_tree := False\<rparr>)
               | Inr (pair # rest) \<Rightarrow>
                   (Some (Inr pair), sc\<lparr>next_end := Some (fst (last (pair # rest))), lr_buf := rest\<rparr>))"

definition scan_prefix :: "bytes \<Rightarrow> lazy_scan" where
  "scan_prefix p = new_scan p (prefix_end p)"

definition iter_scan :: lazy_scan where
  "iter_scan = new_scan [] None"

datatype bound = Included bytes | Excluded bytes | Unbounded

definition range_scan :: "bound \<Rightarrow> bound \<Rightarrow> lazy_scan" where
  "range_scan start_bound end_bound =
     new_scan (case start_bound of Included s \<Rightarrow> s | Excluded s \<Rightarrow> succ_key s | Unbounded \<Rightarrow> [])
              (case end_bound of Included e \<Rightarrow> Some (succ_key e) | Excluded e \<Rightarrow> Some e | Unbounded \<Rightarrow> None)"

text \<open>The callback carries its own state and answers whether to go on.\<close>

fun walk :: "(bytes \<Rightarrow> bytes \<Rightarrow> 'a \<Rightarrow> bool \<times> 'a) \<Rightarrow> (store_error + kv) list \<Rightarrow> 'a \<Rightarrow> (store_error + unit) \<times> 'a" where
  "walk f [] acc = (Inr (), acc)"
| "walk f (Inl e # items) acc = (Inl e, acc)"
| "walk f (Inr (k, v) # items) acc =
     (if fst (f k v acc) then walk f items (snd (f k v acc)) else (Inr (), snd (f k v acc)))"

definition for_each_prefix :: "'t redb \<Rightarrow> 't snapshot \<Rightarrow> bytes \<Rightarrow> (bytes \<Rightarrow> bytes \<Rightarrow> 'a \<Rightarrow> bool \<times> 'a) \<Rightarrow> 'a
    \<Rightarrow> (store_error + unit) \<times> 'a" where
  "for_each_prefix R snap p f acc =
     (case snap of
        (None, _) \<Rightarrow> (Inr (), acc)
      | (Some t, fault) \<Rightarrow> walk f (read_items fault (rd_range R t p (prefix_end p))) acc)"

definition for_each :: "'t redb \<Rightarrow> 't snapshot \<Rightarrow> (bytes \<Rightarrow> bytes \<Rightarrow> 'a \<Rightarrow> bool \<times> 'a) \<Rightarrow> 'a
    \<Rightarrow> (store_error + unit) \<times> 'a" where
  "for_each R snap f acc =
     (case snap of
        (None, _) \<Rightarrow> (Inr (), acc)
      | (Some t, fault) \<Rightarrow> walk f (read_items fault (rd_range R t [] None)) acc)"

end
