(* ===== verification/A9_Registry.thy ===== *)
theory A9_Registry
  imports A9_Rules_Props
begin

text \<open>
  The replay registry (\<^verbatim>\<open>src/a9/blockchain.rs\<close>): the tree of confirmed transactions (id to the four
  little-endian bytes of the height), its prune index (eight big-endian bytes of the confirming
  block's timestamp followed by the id, no value), the marker of a completed build, and the guards
  that a tip extension and a reorganisation consult.  A store tree is a finite map; a store
  that fails to write is not modelled (the commit is then abandoned under the dirty marker).
\<close>

section \<open>Definitions\<close>

record registry =
  reg_tree :: "(string, string) hmap"
  reg_index :: "(string, string) hmap"
  reg_built :: bool

definition be_bytes :: "nat \<Rightarrow> nat \<Rightarrow> string" where
  "be_bytes w n = rev (le_bytes w n)"

definition from_le_bytes :: "string \<Rightarrow> nat" where
  "from_le_bytes bs = from_bytes_be (rev bs)"

definition confirmed_tx_index_checked :: "registry \<Rightarrow> string \<Rightarrow> blockchain_error + u32 option" where
  "confirmed_tx_index_checked reg tx_id =
     (case hm_get (reg_tree reg) tx_id of
        None \<Rightarrow> Inr None
      | Some raw \<Rightarrow> if length raw < 4 then Inl IoError else Inr (Some (from_le_bytes (take 4 raw))))"

definition confirmed_tx_index :: "registry \<Rightarrow> string \<Rightarrow> u32 option" where
  "confirmed_tx_index reg tx_id =
     (case confirmed_tx_index_checked reg tx_id of Inr r \<Rightarrow> r | Inl _ \<Rightarrow> None)"

definition is_system :: "transaction \<Rightarrow> bool" where
  "is_system tx \<longleftrightarrow> sender tx \<in> set SYSTEM_ADDRESSES"

definition index_key :: "u64 \<Rightarrow> string \<Rightarrow> string" where
  "index_key ts tx_id = be_bytes 8 ts @ tx_id"

text \<open>A batch of insertions is applied in order; the ids of the non-system transactions are its keys.\<close>

definition confirmed_ids :: "block \<Rightarrow> string list" where
  "confirmed_ids b = map get_tx_id (filter (\<lambda>tx. \<not> is_system tx) (transactions b))"

definition registry_rows :: "block \<Rightarrow> (string \<times> string) list" where
  "registry_rows b = map (\<lambda>i. (i, le_bytes 4 (index b))) (confirmed_ids b)"

definition index_rows :: "block \<Rightarrow> (string \<times> string) list" where
  "index_rows b = map (\<lambda>i. (index_key (block_timestamp b) i, [])) (confirmed_ids b)"

definition apply_inserts :: "(string \<times> string) list \<Rightarrow> (string, string) hmap \<Rightarrow> (string, string) hmap" where
  "apply_inserts batch m = fold (\<lambda>(k, v). hm_insert k v) batch m"

definition record_confirmed_txs :: "block \<Rightarrow> registry \<Rightarrow> registry" where
  "record_confirmed_txs b reg =
     reg\<lparr>reg_tree := apply_inserts (registry_rows b) (reg_tree reg),
         reg_index := apply_inserts (index_rows b) (reg_index reg)\<rparr>"

definition remove_confirmed_txs :: "block \<Rightarrow> registry \<Rightarrow> registry" where
  "remove_confirmed_txs b reg =
     reg\<lparr>reg_tree := fold hm_remove (confirmed_ids b) (reg_tree reg),
         reg_index := fold hm_remove (map (index_key (block_timestamp b)) (confirmed_ids b)) (reg_index reg)\<rparr>"

definition prune_horizon :: u64 where
  "prune_horizon = saturating_add MAX_TX_AGE_SECS MAX_BLOCK_FUTURE_TIME"

definition stale_keys :: "u64 \<Rightarrow> registry \<Rightarrow> string list" where
  "stale_keys cutoff reg = filter (\<lambda>k. k < be_bytes 8 cutoff) (sort (hm_keys (reg_index reg)))"

definition prune_confirmed_txs :: "u64 \<Rightarrow> registry \<Rightarrow> registry" where
  "prune_confirmed_txs tip_timestamp reg =
     (if tip_timestamp \<le> prune_horizon then reg
      else
        let stale = stale_keys (tip_timestamp - prune_horizon) reg;
            ids = filter (\<lambda>i. i \<noteq> []) (map (\<lambda>k. if length k > 8 then drop 8 k else []) stale)
        in reg\<lparr>reg_index := fold hm_remove stale (reg_index reg),
               reg_tree := fold hm_remove ids (reg_tree reg)\<rparr>)"

definition block_has_replayed_tx :: "registry \<Rightarrow> block \<Rightarrow> bool" where
  "block_has_replayed_tx reg b \<longleftrightarrow>
     list_ex (\<lambda>i. case confirmed_tx_index reg i of Some idx \<Rightarrow> idx \<noteq> index b | None \<Rightarrow> False) (confirmed_ids b)"

fun rebuild_rows :: "(u32 \<Rightarrow> block option \<Rightarrow> blockchain_error + block) \<Rightarrow> u32 list \<Rightarrow> block option
    \<Rightarrow> (string \<times> string) list \<times> (string \<times> string) list
    \<Rightarrow> blockchain_error + (string \<times> string) list \<times> (string \<times> string) list" where
  "rebuild_rows load [] previous batches = Inr batches"
| "rebuild_rows load (h # hs) previous (batch, index_batch) =
     and_then (load h previous) (\<lambda>b.
       rebuild_rows load hs (Some b) (batch @ registry_rows b, index_batch @ index_rows b))"

text \<open>\<open>highest\<close> is the height of the tip, if the chain has a block, and \<open>last_timestamp\<close> the time of the
  block that \<open>get_last_block\<close> finds there.\<close>

definition rebuild_confirmed_tx_index :: "crypto \<Rightarrow> (transaction \<Rightarrow> string) \<Rightarrow> (u32 \<Rightarrow> block option) \<Rightarrow> u32 option
    \<Rightarrow> u64 option \<Rightarrow> registry \<Rightarrow> (blockchain_error + unit) \<times> registry" where
  "rebuild_confirmed_tx_index c serialize get_block highest last_timestamp reg0 =
     (let reg = reg0\<lparr>reg_built := False\<rparr> in
      case highest of
        None \<Rightarrow> (Inr (), reg\<lparr>reg_tree := [], reg_index := [], reg_built := True\<rparr>)
      | Some tip \<Rightarrow>
          (case rebuild_rows (load_structurally_valid_canonical_block c serialize get_block) [0..<tip + 1] None ([], []) of
             Inl e \<Rightarrow> (Inl e, reg)
           | Inr (batch, index_batch) \<Rightarrow>
               (let reg1 = reg\<lparr>reg_tree := apply_inserts batch [], reg_index := apply_inserts index_batch []\<rparr>;
                    reg2 = (case last_timestamp of Some t \<Rightarrow> prune_confirmed_txs t reg1 | None \<Rightarrow> reg1)
                in (Inr (), reg2\<lparr>reg_built := True\<rparr>))))"

definition ensure_confirmed_tx_index :: "crypto \<Rightarrow> (transaction \<Rightarrow> string) \<Rightarrow> (u32 \<Rightarrow> block option) \<Rightarrow> u32 option
    \<Rightarrow> u64 option \<Rightarrow> registry \<Rightarrow> (blockchain_error + unit) \<times> registry" where
  "ensure_confirmed_tx_index c serialize get_block highest last_timestamp reg =
     (if reg_built reg then (Inr (), reg)
      else if reg_index reg \<noteq> [] then (Inr (), reg\<lparr>reg_built := True\<rparr>)
      else rebuild_confirmed_tx_index c serialize get_block highest last_timestamp reg)"

text \<open>The replay guard of a reorganisation and its registry updates (\<open>adopt_branch_if_valid\<close>).\<close>

definition branch_replays_below :: "registry \<Rightarrow> u32 \<Rightarrow> block list \<Rightarrow> bool" where
  "branch_replays_below reg fork_start branch \<longleftrightarrow>
     list_ex (\<lambda>b. list_ex (\<lambda>i. case confirmed_tx_index reg i of Some idx \<Rightarrow> idx < fork_start | None \<Rightarrow> False)
       (confirmed_ids b)) branch"

definition reorg_registry :: "block list \<Rightarrow> block list \<Rightarrow> registry \<Rightarrow> registry" where
  "reorg_registry reverted branch reg =
     prune_confirmed_txs (block_timestamp (last branch))
       (fold record_confirmed_txs branch (fold remove_confirmed_txs reverted reg))"

end
