(* ===== verification/A9_Apply_Window.thy ===== *)
theory A9_Apply_Window
  imports A9_Store A9_Registry
begin

text \<open>
  The crash protocol of the chain (\<^verbatim>\<open>src/a9/blockchain.rs\<close>): the dirty marker that is durable
  before any apply changes the chain, the catch-up windows in which one marker covers many
  applies, their cancellation, and the recovery that rebuilds the derived state.

  The state of the store is an image: the marker and the content (everything else).  The tasks that
  apply blocks hold one lock, so their operations do not interleave with each other; what can happen
  at any point is the cancellation of a window (its \<open>Drop\<close> takes no lock), the periodic
  flush, and a crash.  An operation that reads the depth of the windows takes the number of
  windows cancelled since its last read from the environment, together with the faults of the
  store; a flush that happens in the middle of an operation is one that happens after it with the
  operation's own flush failed.
\<close>

section \<open>State\<close>

record chain_state_dirty =
  dm_block_index :: u32
  dm_reason :: string
  dm_marked_at :: u64

record 'c image =
  im_marker :: "chain_state_dirty option"
  im_content :: 'c

record apply_batch_state =
  depth :: u64
  marked :: bool
  unbalanced_marks :: int
  opened_this_process :: bool

record 'c chain_node =
  nd_db :: "'c image db"
  nd_batch :: apply_batch_state

text \<open>
  What an operation meets: windows cancelled before its first, second and third read of the depth,
  the faults of reading the marker, of the flush of the whole store, of writing the marker tree and of
  flushing it, and the rebuild of the derived state with whatever fails in it.
\<close>

record 'c env =
  dropped1 :: nat
  dropped2 :: nat
  dropped3 :: nat
  read_fault :: "blockchain_error option"
  flush_fault :: "blockchain_error option"
  write_fault :: "blockchain_error option"
  sync_fault :: "blockchain_error option"
  rebuild_derived :: "'c \<Rightarrow> (blockchain_error + unit) \<times> 'c"

type_synonym ('r, 'c) outcome = "(blockchain_error + 'r) \<times> 'c chain_node"

definition st_then :: "('r, 'c) outcome \<Rightarrow> ('c chain_node \<Rightarrow> ('s, 'c) outcome) \<Rightarrow> ('s, 'c) outcome" where
  "st_then r f = (case r of (Inl e, n) \<Rightarrow> (Inl e, n) | (Inr _, n) \<Rightarrow> f n)"

definition on_db :: "('c image db \<Rightarrow> (blockchain_error + 'r) \<times> 'c image db) \<Rightarrow> 'c chain_node \<Rightarrow> ('r, 'c) outcome" where
  "on_db f n = (fst (f (nd_db n)), n\<lparr>nd_db := snd (f (nd_db n))\<rparr>)"

definition on_batch :: "(apply_batch_state \<Rightarrow> apply_batch_state) \<Rightarrow> 'c chain_node \<Rightarrow> 'c chain_node" where
  "on_batch f n = n\<lparr>nd_batch := f (nd_batch n)\<rparr>"

text \<open>\<open>Drop\<close> of window handles that were not committed.\<close>

definition drop_windows :: "nat \<Rightarrow> 'c chain_node \<Rightarrow> 'c chain_node" where
  "drop_windows d = on_batch (\<lambda>b. b\<lparr>depth := depth b - d\<rparr>)"

definition apply_batch_open :: "'c chain_node \<Rightarrow> bool" where
  "apply_batch_open n \<longleftrightarrow> depth (nd_batch n) > 0"

section \<open>The marker\<close>

definition receipt_batch :: string where
  "receipt_batch = ''receipt_batch''"

definition write_dirty_marker :: "'c env \<Rightarrow> chain_state_dirty \<Rightarrow> 'c chain_node \<Rightarrow> (unit, 'c) outcome" where
  "write_dirty_marker env m n =
     st_then (on_db (write_txn (write_fault env) (\<lambda>i. ((), i\<lparr>im_marker := Some m\<rparr>))) n)
       (on_db (store_flush (sync_fault env)))"

definition mark_chain_state_dirty :: "'c env \<Rightarrow> chain_state_dirty \<Rightarrow> 'c chain_node \<Rightarrow> (unit, 'c) outcome" where
  "mark_chain_state_dirty env m n0 =
     (let n = drop_windows (dropped1 env) n0 in
      if apply_batch_open n then
        (let count_pair = on_batch (\<lambda>b. b\<lparr>unbalanced_marks := unbalanced_marks b + 1\<rparr>) in
         if \<not> marked (nd_batch n) then
           st_then (write_dirty_marker env (m\<lparr>dm_reason := receipt_batch\<rparr>) n)
             (\<lambda>n'. (Inr (), count_pair (on_batch (\<lambda>b. b\<lparr>marked := True\<rparr>) n')))
         else (Inr (), count_pair n))
      else write_dirty_marker env m n)"

text \<open>The number of cancellations before the read is an argument: the operation is also called from
  recovery and from a commit.\<close>

definition clear_chain_state_dirty :: "'c env \<Rightarrow> nat \<Rightarrow> 'c chain_node \<Rightarrow> (unit, 'c) outcome" where
  "clear_chain_state_dirty env d n0 =
     (let n = drop_windows d n0 in
      if apply_batch_open n then (Inr (), on_batch (\<lambda>b. b\<lparr>unbalanced_marks := unbalanced_marks b - 1\<rparr>) n)
      else if unbalanced_marks (nd_batch n) \<noteq> 0 then (Inr (), n)
      else st_then (on_db (write_txn (write_fault env) (\<lambda>i. ((), i\<lparr>im_marker := None\<rparr>))) n)
             (on_db (store_flush (sync_fault env))))"

definition read_chain_state_dirty :: "'c env \<Rightarrow> 'c chain_node \<Rightarrow> blockchain_error + chain_state_dirty option" where
  "read_chain_state_dirty env n = (case read_fault env of Some e \<Rightarrow> Inl e | None \<Rightarrow> Inr (im_marker (visible (nd_db n))))"

section \<open>Recovery\<close>

definition run_rebuild :: "'c env \<Rightarrow> 'c chain_node \<Rightarrow> (unit, 'c) outcome" where
  "run_rebuild env = on_db (\<lambda>d. (fst (rebuild_derived env (im_content (visible d))),
     d\<lparr>visible := (visible d)\<lparr>im_content := snd (rebuild_derived env (im_content (visible d)))\<rparr>\<rparr>))"

definition recover_dirty_chain_state :: "'c env \<Rightarrow> 'c chain_node \<Rightarrow> (unit, 'c) outcome" where
  "recover_dirty_chain_state env n =
     st_then (run_rebuild env n) (\<lambda>n1.
       clear_chain_state_dirty env (dropped2 env) (on_batch (\<lambda>b. b\<lparr>unbalanced_marks := 0\<rparr>) n1))"

definition reconcile_chain_state_if_dirty :: "'c env \<Rightarrow> 'c chain_node \<Rightarrow> (unit, 'c) outcome" where
  "reconcile_chain_state_if_dirty env n0 =
     (let n = drop_windows (dropped1 env) n0; discharge = on_batch (\<lambda>b. b\<lparr>unbalanced_marks := 0\<rparr>) in
      if apply_batch_open n then
        if unbalanced_marks (nd_batch n) \<noteq> 0 then
          (case read_chain_state_dirty env n of
             Inl e \<Rightarrow> (Inl e, n)
           | Inr None \<Rightarrow> (Inr (), discharge n)
           | Inr (Some m) \<Rightarrow> st_then (recover_dirty_chain_state env n) (\<lambda>n'. (Inr (), discharge n')))
        else (Inr (), n)
      else
        (case read_chain_state_dirty env n of
           Inl e \<Rightarrow> (Inl e, n)
         | Inr None \<Rightarrow> (Inr (), n)
         | Inr (Some m) \<Rightarrow>
             if dm_reason m = receipt_batch \<and> opened_this_process (nd_batch n) \<and> unbalanced_marks (nd_batch n) = 0
             then st_then (on_db (store_flush (flush_fault env)) n) (clear_chain_state_dirty env (dropped2 env))
             else recover_dirty_chain_state env n))"

text \<open>
  The rebuild on the chain: the canonical rows, the recorded tip, the balances index and the replay
  registry.  The address history index, rebuilt for display only, is not part of the content.
  An I/O fault of a step leaves what the step had written: a batch is written as a whole, the
  registry may be left half written.
\<close>

record chain_tip_metadata =
  tip_height :: u32
  tip_hash :: string

record chain_content =
  cc_rows :: "(u32, block) hmap"
  cc_tip :: "chain_tip_metadata option"
  cc_index :: balances_index
  cc_registry :: registry

record rebuild_faults =
  tip_write_fault :: "blockchain_error option"
  tip_flush_fault :: "blockchain_error option"
  index_fault :: "blockchain_error option"
  registry_fault :: "(blockchain_error \<times> registry) option"

definition highest_block_index_scan :: "(u32, block) hmap \<Rightarrow> u32 option" where
  "highest_block_index_scan rows = (if rows = [] then None else Some (Max (set (hm_keys rows))))"

definition rebuild_chain_tip_metadata :: "rebuild_faults \<Rightarrow> chain_content \<Rightarrow> (blockchain_error + unit) \<times> chain_content" where
  "rebuild_chain_tip_metadata f cc =
     (case highest_block_index_scan (cc_rows cc) of
        None \<Rightarrow> (case tip_write_fault f of Some e \<Rightarrow> (Inl e, cc) | None \<Rightarrow> (Inr (), cc\<lparr>cc_tip := None\<rparr>))
      | Some height \<Rightarrow>
          (case hm_get (cc_rows cc) height of
             None \<Rightarrow> (Inl IoError, cc)
           | Some b \<Rightarrow>
               (case tip_write_fault f of
                  Some e \<Rightarrow> (Inl e, cc)
                | None \<Rightarrow> (case tip_flush_fault f of Some e \<Rightarrow> Inl e | None \<Rightarrow> Inr (),
                    cc\<lparr>cc_tip := Some \<lparr>tip_height = height, tip_hash = hash b\<rparr>\<rparr>))))"

text \<open>The height of the tip: the recorded one when its row has the recorded hash, else that of a scan.\<close>

definition highest_block_index :: "chain_content \<Rightarrow> u32 option" where
  "highest_block_index cc =
     (case cc_tip cc of
        None \<Rightarrow> highest_block_index_scan (cc_rows cc)
      | Some tip \<Rightarrow>
          (case hm_get (cc_rows cc) (tip_height tip) of
             None \<Rightarrow> highest_block_index_scan (cc_rows cc)
           | Some b \<Rightarrow> if hash b = tip_hash tip then Some (tip_height tip) else highest_block_index_scan (cc_rows cc)))"

definition rebuild_chain_state :: "crypto \<Rightarrow> (transaction \<Rightarrow> string) \<Rightarrow> rebuild_faults \<Rightarrow> chain_content
    \<Rightarrow> (blockchain_error + unit) \<times> chain_content" where
  "rebuild_chain_state c serialize f cc0 =
     (case rebuild_chain_tip_metadata f cc0 of
        (Inl e, cc) \<Rightarrow> (Inl e, cc)
      | (Inr _, cc) \<Rightarrow>
          let highest = highest_block_index cc; get_block = hm_get (cc_rows cc) in
          (case (case index_fault f of
                   Some e \<Rightarrow> (Inl e, cc_index cc)
                 | None \<Rightarrow> ensure_balances_index_with_force c serialize get_block highest True True (cc_index cc)) of
             (Inl e, idx) \<Rightarrow> (Inl e, cc\<lparr>cc_index := idx\<rparr>)
           | (Inr _, idx) \<Rightarrow>
               (case (case registry_fault f of
                        Some (e, reg) \<Rightarrow> (Inl e, reg)
                      | None \<Rightarrow> rebuild_confirmed_tx_index c serialize get_block highest
                          (case highest of None \<Rightarrow> None | Some h \<Rightarrow> map_option block_timestamp (get_block h)) (cc_registry cc)) of
                  (r, reg) \<Rightarrow> (r, cc\<lparr>cc_index := idx, cc_registry := reg\<rparr>))))"

section \<open>Catch-up windows\<close>

definition begin_receipt_batch :: "'c env \<Rightarrow> 'c chain_node \<Rightarrow> (unit, 'c) outcome" where
  "begin_receipt_batch env n0 =
     (let n = drop_windows (dropped1 env) n0; enter = on_batch (\<lambda>b. b\<lparr>depth := depth b + 1\<rparr>) in
      if \<not> apply_batch_open n then
        st_then (reconcile_chain_state_if_dirty env n) (\<lambda>n'.
          (Inr (), enter (on_batch (\<lambda>b. b\<lparr>marked := False, unbalanced_marks := 0, opened_this_process := True\<rparr>) n')))
      else (Inr (), enter (drop_windows (dropped3 env) n)))"

definition commit_receipt_batch :: "'c env \<Rightarrow> 'c chain_node \<Rightarrow> (unit, 'c) outcome" where
  "commit_receipt_batch env n0 =
     (let n1 = drop_windows (dropped1 env) n0; prev = depth (nd_batch n1); n = drop_windows 1 n1 in
      if prev \<noteq> 1 then (Inr (), n)
      else if \<not> marked (nd_batch n) then (Inr (), n)
      else st_then (on_db (store_flush (flush_fault env)) n) (\<lambda>n'.
             if unbalanced_marks (nd_batch n') = 0 then clear_chain_state_dirty env 0 n' else (Inr (), n')))"

text \<open>The end of a successful apply: the flush that a persisted block makes outside a window and a finalised
  block or a reorganisation makes always, then the clear.\<close>

definition close_apply :: "bool \<Rightarrow> 'c env \<Rightarrow> 'c chain_node \<Rightarrow> (unit, 'c) outcome" where
  "close_apply always env n0 =
     (let n = drop_windows (dropped1 env) n0 in
      st_then (if always \<or> \<not> apply_batch_open n then on_db (store_flush (flush_fault env)) n else (Inr (), n))
        (clear_chain_state_dirty env (dropped2 env)))"

section \<open>Restart\<close>

definition restart :: "'c chain_node \<Rightarrow> 'c chain_node" where
  "restart n = \<lparr>nd_db = crash (nd_db n),
     nd_batch = \<lparr>depth = 0, marked = False, unbalanced_marks = 0, opened_this_process = False\<rparr>\<rparr>"

text \<open>The recovery of a start (\<open>initialize\<close>).  A clean start brings the balances index up to date instead, one of
  the upkeep steps of a run.\<close>

definition startup_recovery :: "'c env \<Rightarrow> 'c chain_node \<Rightarrow> (unit, 'c) outcome" where
  "startup_recovery env n =
     (case read_chain_state_dirty env n of
        Inl e \<Rightarrow> (Inl e, n)
      | Inr None \<Rightarrow> (Inr (), n)
      | Inr (Some m) \<Rightarrow> recover_dirty_chain_state env n)"

section \<open>Runs\<close>

text \<open>
  The holder of the lock is idle, about to apply (reconciled), or applying; the flag of the last
  says whether its mark was counted in a window.  \<open>good\<close> says that the derived state belongs
  to the chain, and \<open>env_ok\<close> which environments the node meets.  The body of an apply may write
  anything; one that reports success has left a good state.
\<close>

datatype phase = Idle | Ready | Applying bool

definition content :: "'c chain_node \<Rightarrow> 'c" where
  "content n = im_content (visible (nd_db n))"

definition set_content :: "'c \<Rightarrow> 'c chain_node \<Rightarrow> 'c chain_node" where
  "set_content x n = n\<lparr>nd_db := (nd_db n)\<lparr>visible := (visible (nd_db n))\<lparr>im_content := x\<rparr>\<rparr>\<rparr>"

definition rebuild_sound :: "('c \<Rightarrow> bool) \<Rightarrow> 'c env \<Rightarrow> bool" where
  "rebuild_sound good env \<longleftrightarrow> (\<forall>x. fst (rebuild_derived env x) = Inr () \<longrightarrow> good (snd (rebuild_derived env x)))"

inductive window_step :: "('c \<Rightarrow> bool) \<Rightarrow> ('c env \<Rightarrow> bool) \<Rightarrow> 'c chain_node \<times> phase \<Rightarrow> 'c chain_node \<times> phase \<Rightarrow> bool" for good env_ok where
  w_begin: "env_ok env \<Longrightarrow> begin_receipt_batch env n = (r, n') \<Longrightarrow> window_step good env_ok (n, Idle) (n', Idle)"
| w_commit: "dropped1 env < depth (nd_batch n) \<Longrightarrow> commit_receipt_batch env n = (r, n') \<Longrightarrow> window_step good env_ok (n, Idle) (n', Idle)"
| w_reconciled: "env_ok env \<Longrightarrow> reconcile_chain_state_if_dirty env n = (Inr (), n') \<Longrightarrow> window_step good env_ok (n, Idle) (n', Ready)"
| w_reconcile_failed: "env_ok env \<Longrightarrow> reconcile_chain_state_if_dirty env n = (Inl e, n') \<Longrightarrow> window_step good env_ok (n, Idle) (n', Idle)"
| w_reject: "window_step good env_ok (n, Ready) (n, Idle)"
| w_mark: "dm_reason m \<noteq> receipt_batch \<Longrightarrow> mark_chain_state_dirty env m n = (Inr (), n')
    \<Longrightarrow> window_step good env_ok (n, Ready) (n', Applying (apply_batch_open (drop_windows (dropped1 env) n)))"
| w_mark_failed: "dm_reason m \<noteq> receipt_batch \<Longrightarrow> mark_chain_state_dirty env m n = (Inl e, n') \<Longrightarrow> window_step good env_ok (n, Ready) (n', Idle)"
| w_mutate: "window_step good env_ok (n, Applying w) (set_content x n, Applying w)"
| w_abort: "window_step good env_ok (n, Applying w) (n, Idle)"
| w_finish: "good (content n) \<Longrightarrow> close_apply always env n = (r, n') \<Longrightarrow> window_step good env_ok (n, Applying w) (n', Idle)"
| w_upkeep: "(good (content n) \<longrightarrow> good x) \<Longrightarrow> window_step good env_ok (n, ph) (set_content x n, ph)"
| w_cancel: "window_step good env_ok (n, ph) (drop_windows d n, ph)"
| w_flush: "window_step good env_ok (n, ph) (snd (on_db (store_flush None) n), ph)"
| w_crash: "window_step good env_ok (n, ph) (restart n, Idle)"
| w_startup: "env_ok env \<Longrightarrow> startup_recovery env (restart n) = (r, n') \<Longrightarrow> window_step good env_ok (n, ph) (n', Idle)"

inductive window_run :: "('c \<Rightarrow> bool) \<Rightarrow> ('c env \<Rightarrow> bool) \<Rightarrow> 'c chain_node \<times> phase \<Rightarrow> bool" for good env_ok where
  fresh: "good x \<Longrightarrow> window_run good env_ok (\<lparr>nd_db = \<lparr>visible = \<lparr>im_marker = None, im_content = x\<rparr>,
     durable = \<lparr>im_marker = None, im_content = x\<rparr>\<rparr>,
     nd_batch = \<lparr>depth = 0, marked = False, unbalanced_marks = 0, opened_this_process = False\<rparr>\<rparr>, Idle)"
| more: "window_run good env_ok s \<Longrightarrow> window_step good env_ok s s' \<Longrightarrow> window_run good env_ok s'"

end
