(* ===== verification/A9_Apply_Window_Props.thy ===== *)
theory A9_Apply_Window_Props
  imports A9_Apply_Window
begin

text \<open>
  The invariant of the crash protocol: an image without a marker has a derived state that belongs to
  its chain, in memory and on disk, whatever fails, is cancelled or crashes.
\<close>

named_theorems window_defs \<open>unfolding rules of the plumbing\<close>

lemmas [window_defs] = st_then_def on_db_def on_batch_def drop_windows_def apply_batch_open_def write_txn_def store_flush_def
  content_def set_content_def read_chain_state_dirty_def

abbreviation vmarker :: "'c chain_node \<Rightarrow> chain_state_dirty option" where
  "vmarker n \<equiv> im_marker (visible (nd_db n))"

abbreviation unbal :: "'c chain_node \<Rightarrow> int" where
  "unbal n \<equiv> unbalanced_marks (nd_batch n)"

definition image_ok :: "('c \<Rightarrow> bool) \<Rightarrow> 'c image \<Rightarrow> bool" where
  "image_ok good i \<longleftrightarrow> (im_marker i = None \<longrightarrow> good (im_content i))"

text \<open>What holds between operations, in every phase.\<close>

definition node_ok :: "('c \<Rightarrow> bool) \<Rightarrow> 'c chain_node \<Rightarrow> bool" where
  "node_ok good n \<longleftrightarrow> image_ok good (visible (nd_db n)) \<and> image_ok good (durable (nd_db n))
     \<and> (vmarker n = None \<longrightarrow> unbal n = 0)
     \<and> (0 < depth (nd_batch n) \<longrightarrow> opened_this_process (nd_batch n)
         \<and> (marked (nd_batch n) \<longrightarrow> (\<exists>m. vmarker n = Some m \<and> dm_reason m = receipt_batch)))"

text \<open>With balanced pairs, the state is good inside a window and behind a window marker of this process, so
  going on without a recovery and the cheap close are sound.\<close>

definition idle_ok :: "('c \<Rightarrow> bool) \<Rightarrow> 'c chain_node \<Rightarrow> bool" where
  "idle_ok good n \<longleftrightarrow> (unbal n = 0 \<longrightarrow> 0 < depth (nd_batch n)
       \<or> (\<exists>m. vmarker n = Some m \<and> dm_reason m = receipt_batch \<and> opened_this_process (nd_batch n))
     \<longrightarrow> good (content n))"

fun phase_ok :: "('c \<Rightarrow> bool) \<Rightarrow> 'c chain_node \<Rightarrow> phase \<Rightarrow> bool" where
  "phase_ok good n Idle = idle_ok good n"
| "phase_ok good n Ready = (good (content n) \<and> unbal n = 0)"
| "phase_ok good n (Applying w) = (vmarker n \<noteq> None
     \<and> (if w then unbal n = 1 else unbal n = 0 \<and> depth (nd_batch n) = 0 \<and> (\<forall>m. vmarker n = Some m \<longrightarrow> dm_reason m \<noteq> receipt_batch)))"

lemmas ok_defs = node_ok_def idle_ok_def image_ok_def

lemma good_idle: "good (content n) \<Longrightarrow> idle_ok good n"
  by (simp add: idle_ok_def)

section \<open>Operations\<close>

lemma flush_simps [simp]:
  "on_db (store_flush (Some e)) n = (Inl e, n)"
  "on_db (store_flush None) n = (Inr (), n\<lparr>nd_db := (nd_db n)\<lparr>durable := visible (nd_db n)\<rparr>\<rparr>)"
  by (simp_all add: on_db_def store_flush_def)

lemma node_ok_drop [simp]: "node_ok good n \<Longrightarrow> node_ok good (drop_windows d n)"
  by (auto simp: node_ok_def window_defs)

lemma drop_fields [simp]:
  "nd_db (drop_windows d n) = nd_db n" "marked (nd_batch (drop_windows d n)) = marked (nd_batch n)"
  "unbal (drop_windows d n) = unbal n" "opened_this_process (nd_batch (drop_windows d n)) = opened_this_process (nd_batch n)"
  "depth (nd_batch (drop_windows d n)) = depth (nd_batch n) - d" "content (drop_windows d n) = content n"
  by (simp_all add: window_defs)

lemma write_marker_ok:
  assumes "node_ok good n" and "good (content n)" and "write_dirty_marker env m n = (r, n')"
    and "dm_reason m = receipt_batch \<or> depth (nd_batch n) = 0"
  shows "node_ok good n' \<and> content n' = content n \<and> nd_batch n' = nd_batch n \<and> (r = Inr () \<longrightarrow> vmarker n' = Some m)"
  using assms
  by (cases "write_fault env"; cases "sync_fault env") (auto simp: write_dirty_marker_def window_defs ok_defs)

lemma clear_open:
  "0 < depth (nd_batch n) - d \<Longrightarrow> clear_chain_state_dirty env d n
     = (Inr (), n\<lparr>nd_batch := (nd_batch n)\<lparr>depth := depth (nd_batch n) - d, unbalanced_marks := unbal n - 1\<rparr>\<rparr>)"
  by (simp add: clear_chain_state_dirty_def Let_def window_defs)

lemma clear_refused:
  "depth (nd_batch n) - d = 0 \<Longrightarrow> unbal n \<noteq> 0 \<Longrightarrow> clear_chain_state_dirty env d n = (Inr (), drop_windows d n)"
  by (simp add: clear_chain_state_dirty_def Let_def window_defs)

lemma clear_durable:
  "depth (nd_batch n) - d = 0 \<Longrightarrow> unbal n = 0 \<Longrightarrow> clear_chain_state_dirty env d n
     = st_then (on_db (write_txn (write_fault env) (\<lambda>i. ((), i\<lparr>im_marker := None\<rparr>))) (drop_windows d n))
         (on_db (store_flush (sync_fault env)))"
  by (simp add: clear_chain_state_dirty_def Let_def apply_batch_open_def)

lemma clear_closed_ok:
  assumes "node_ok good n" and "good (content n)" and "depth (nd_batch n) = 0" "unbal n = 0"
    and "st_then (on_db (write_txn f (\<lambda>i. ((), i\<lparr>im_marker := None\<rparr>))) n) (on_db (store_flush f')) = (r, n')"
  shows "node_ok good n' \<and> content n' = content n \<and> nd_batch n' = nd_batch n"
  using assms by (cases f; cases f') (auto simp: window_defs ok_defs)

text \<open>Clearing a good state: whichever way it goes, the pair is closed or the state is as it was.\<close>

lemma clear_ok:
  assumes n: "node_ok good n" "good (content n)" and marker: "0 < depth (nd_batch n) - d \<Longrightarrow> vmarker n \<noteq> None"
    and "clear_chain_state_dirty env d n = (r, n')"
  shows "node_ok good n' \<and> content n' = content n \<and> depth (nd_batch n') = depth (nd_batch n) - d
    \<and> marked (nd_batch n') = marked (nd_batch n) \<and> opened_this_process (nd_batch n') = opened_this_process (nd_batch n)
    \<and> unbal n' = (if 0 < depth (nd_batch n) - d then unbal n - 1 else unbal n)
    \<and> (0 < depth (nd_batch n) - d \<longrightarrow> vmarker n' = vmarker n)"
proof -
  consider (open_) "0 < depth (nd_batch n) - d" | (refused) "depth (nd_batch n) - d = 0" "unbal n \<noteq> 0"
    | (closed) "depth (nd_batch n) - d = 0" "unbal n = 0" by linarith
  then show ?thesis
  proof cases
    case open_
    with clear_open[OF open_, of env] assms(4) n marker show ?thesis by (auto simp: ok_defs content_def)
  next
    case refused
    with clear_refused[OF refused, of env] assms(4) n show ?thesis by auto
  next
    case closed
    with clear_closed_ok[of good "drop_windows d n"] assms(4) n
    show ?thesis by (auto simp: clear_durable[OF closed])
  qed
qed

lemma run_rebuild_ok:
  assumes "node_ok good n" "vmarker n \<noteq> None" "rebuild_sound good env" "run_rebuild env n = (r, n')"
  shows "node_ok good n' \<and> vmarker n' = vmarker n \<and> nd_batch n' = nd_batch n \<and> (r = Inr () \<longrightarrow> good (content n'))"
  using assms by (auto simp: run_rebuild_def rebuild_sound_def window_defs ok_defs)

text \<open>Recovery gives a good state; its clear of an open window takes the counter below zero.\<close>

lemma recover_ok:
  assumes "node_ok good n" "vmarker n \<noteq> None" "rebuild_sound good env" "recover_dirty_chain_state env n = (r, n')"
  shows "node_ok good n' \<and> depth (nd_batch n') \<le> depth (nd_batch n) \<and> marked (nd_batch n') = marked (nd_batch n)
    \<and> opened_this_process (nd_batch n') = opened_this_process (nd_batch n)
    \<and> (r = Inr () \<longrightarrow> good (content n') \<and> (0 < depth (nd_batch n') \<longrightarrow> vmarker n' \<noteq> None) \<and> (depth (nd_batch n') = 0 \<longrightarrow> unbal n' = 0))
    \<and> (good (content n') \<or> (vmarker n' = vmarker n \<and> unbal n' = unbal n))"
proof -
  obtain r1 n1 where rb: "run_rebuild env n = (r1, n1)" by (metis prod.exhaust)
  note n1 = run_rebuild_ok[OF assms(1-3) rb]
  show ?thesis
  proof (cases r1)
    case (Inl e)
    with rb n1 assms(4) show ?thesis by (auto simp: recover_dirty_chain_state_def st_then_def)
  next
    case (Inr u)
    let ?n2 = "on_batch (\<lambda>b. b\<lparr>unbalanced_marks := 0\<rparr>) n1"
    have n2: "node_ok good ?n2" "content ?n2 = content n1" "good (content ?n2)" "vmarker ?n2 \<noteq> None" "depth (nd_batch ?n2) = depth (nd_batch n)"
      "marked (nd_batch ?n2) = marked (nd_batch n)" "opened_this_process (nd_batch ?n2) = opened_this_process (nd_batch n)" "unbal ?n2 = 0"
      using n1 Inr assms(2) by (auto simp: ok_defs on_batch_def content_def)
    from assms(4) rb Inr have "clear_chain_state_dirty env (dropped2 env) ?n2 = (r, n')"
      by (simp add: recover_dirty_chain_state_def st_then_def)
    from clear_ok[OF n2(1,3) _ this] n2 show ?thesis by auto
  qed
qed

text \<open>What a reconcile leaves: a good balanced state when it succeeds, and otherwise nothing worse.\<close>

definition reconciled :: "('c \<Rightarrow> bool) \<Rightarrow> 'c chain_node \<Rightarrow> (unit, 'c) outcome \<Rightarrow> bool" where
  "reconciled good n res \<longleftrightarrow> (case res of (r, n') \<Rightarrow> node_ok good n' \<and> depth (nd_batch n') \<le> depth (nd_batch n)
     \<and> (if r = Inr () then good (content n') \<and> unbal n' = 0 else idle_ok good n'))"

lemma reconcile_open_ok:
  assumes n: "node_ok good n" "idle_ok good n" and rb: "rebuild_sound good env" and open_n: "0 < depth (nd_batch n)"
  shows "reconciled good n (if unbal n \<noteq> 0 then
      (case read_chain_state_dirty env n of
         Inl e \<Rightarrow> (Inl e, n)
       | Inr None \<Rightarrow> (Inr (), on_batch (\<lambda>b. b\<lparr>unbalanced_marks := 0\<rparr>) n)
       | Inr (Some m) \<Rightarrow> st_then (recover_dirty_chain_state env n) (\<lambda>n'. (Inr (), on_batch (\<lambda>b. b\<lparr>unbalanced_marks := 0\<rparr>) n')))
    else (Inr (), n))"
proof (cases "unbal n \<noteq> 0")
  case True
  then obtain m where vm: "vmarker n = Some m" using n(1) by (auto simp: node_ok_def)
  obtain r1 n1 where rc: "recover_dirty_chain_state env n = (r1, n1)" by (metis prod.exhaust)
  note ok = recover_ok[OF n(1) _ rb rc]
  show ?thesis
  proof (cases "read_fault env")
    case None
    then have rd: "read_chain_state_dirty env n = Inr (Some m)" using vm by (simp add: read_chain_state_dirty_def)
    show ?thesis
    proof (cases r1)
      case (Inl e)
      with ok vm True rd rc show ?thesis by (auto simp: reconciled_def st_then_def idle_ok_def)
    next
      case (Inr u)
      with ok vm have "node_ok good (on_batch (\<lambda>b. b\<lparr>unbalanced_marks := 0\<rparr>) n1)" by (auto simp: ok_defs on_batch_def)
      with Inr ok vm True rd rc show ?thesis by (auto simp: reconciled_def st_then_def on_batch_def content_def)
    qed
  next
    case (Some e)
    with n True show ?thesis by (simp add: reconciled_def read_chain_state_dirty_def)
  qed
next
  case False
  with n open_n show ?thesis by (auto simp: reconciled_def idle_ok_def)
qed

lemma reconcile_cheap_ok:
  assumes n: "node_ok good n" "good (content n)" and closed: "depth (nd_batch n) = 0" "unbal n = 0"
  shows "reconciled good n (st_then (on_db (store_flush (flush_fault env)) n) (clear_chain_state_dirty env d))"
proof (cases "flush_fault env")
  case None
  let ?n = "snd (on_db (store_flush None) n)"
  have n2: "node_ok good ?n" "content ?n = content n" "nd_batch ?n = nd_batch n" using n(1) by (auto simp: ok_defs window_defs)
  obtain r n' where c: "clear_chain_state_dirty env d ?n = (r, n')" by (metis prod.exhaust)
  from clear_ok[OF n2(1) _ _ c] n2 n closed c None show ?thesis
    by (auto simp: reconciled_def st_then_def good_idle)
next
  case (Some e)
  with n show ?thesis by (auto simp: reconciled_def st_then_def good_idle)
qed

lemma reconcile_closed_ok:
  assumes n: "node_ok good n" "idle_ok good n" and rb: "rebuild_sound good env" and closed: "depth (nd_batch n) = 0"
  shows "reconciled good n (case read_chain_state_dirty env n of
      Inl e \<Rightarrow> (Inl e, n)
    | Inr None \<Rightarrow> (Inr (), n)
    | Inr (Some m) \<Rightarrow>
        if dm_reason m = receipt_batch \<and> opened_this_process (nd_batch n) \<and> unbal n = 0
        then st_then (on_db (store_flush (flush_fault env)) n) (clear_chain_state_dirty env (dropped2 env))
        else recover_dirty_chain_state env n)"
proof (cases "read_fault env")
  case None
  show ?thesis
  proof (cases "vmarker n")
    case no: None
    with None n show ?thesis by (auto simp: reconciled_def read_chain_state_dirty_def ok_defs content_def)
  next
    case (Some m)
    with None have rd: "read_chain_state_dirty env n = Inr (Some m)" by (simp add: read_chain_state_dirty_def)
    show ?thesis
    proof (cases "dm_reason m = receipt_batch \<and> opened_this_process (nd_batch n) \<and> unbal n = 0")
      case True
      with n(2) Some have "good (content n)" by (auto simp: idle_ok_def)
      from reconcile_cheap_ok[OF n(1) this closed] True show ?thesis by (simp add: rd)
    next
      case False
      obtain r n' where rc: "recover_dirty_chain_state env n = (r, n')" by (metis prod.exhaust)
      from recover_ok[OF n(1) _ rb rc] Some closed False show ?thesis by (auto simp: rd rc reconciled_def idle_ok_def)
    qed
  qed
next
  case (Some e)
  with n show ?thesis by (simp add: reconciled_def read_chain_state_dirty_def)
qed

lemma reconcile_ok:
  assumes "node_ok good n" "idle_ok good n" "rebuild_sound good env"
  shows "reconciled good n (reconcile_chain_state_if_dirty env n)"
proof -
  let ?n = "drop_windows (dropped1 env) n"
  have n1: "node_ok good ?n" "idle_ok good ?n" using assms by (auto simp: idle_ok_def)
  have "reconciled good ?n (reconcile_chain_state_if_dirty env n)"
  proof (cases "0 < depth (nd_batch ?n)")
    case True
    then show ?thesis using reconcile_open_ok[OF n1 assms(3) True]
      unfolding reconcile_chain_state_if_dirty_def Let_def apply_batch_open_def by (simp only: if_True)
  next
    case False
    then show ?thesis using reconcile_closed_ok[OF n1 assms(3)]
      unfolding reconcile_chain_state_if_dirty_def Let_def apply_batch_open_def by (simp only: if_False)
  qed
  then show ?thesis by (auto simp: reconciled_def split: if_splits)
qed

lemma begin_ok:
  assumes "node_ok good n" "idle_ok good n" "rebuild_sound good env" "begin_receipt_batch env n = (r, n')"
  shows "node_ok good n' \<and> idle_ok good n'"
proof -
  let ?n = "drop_windows (dropped1 env) n"
  have n1: "node_ok good ?n" "idle_ok good ?n" using assms by (auto simp: idle_ok_def)
  show ?thesis
  proof (cases "apply_batch_open ?n")
    case True
    with assms(4) n1 show ?thesis
      by (auto simp: begin_receipt_batch_def Let_def apply_batch_open_def on_batch_def ok_defs content_def)
  next
    case False
    obtain r1 n2 where rc: "reconcile_chain_state_if_dirty env ?n = (r1, n2)" by (metis prod.exhaust)
    have ok: "reconciled good ?n (r1, n2)" using reconcile_ok[OF n1 assms(3)] rc by simp
    show ?thesis
    proof (cases r1)
      case (Inl e)
      with assms(4) rc False ok show ?thesis by (auto simp: begin_receipt_batch_def Let_def st_then_def reconciled_def)
    next
      case (Inr u)
      with assms(4) rc False have "n' = on_batch (\<lambda>b. b\<lparr>depth := depth b + 1, marked := False, unbalanced_marks := 0, opened_this_process := True\<rparr>) n2"
        by (auto simp: begin_receipt_batch_def Let_def st_then_def on_batch_def)
      with ok Inr show ?thesis by (auto simp: reconciled_def ok_defs on_batch_def content_def)
    qed
  qed
qed

lemma commit_ok:
  assumes n: "node_ok good n" "idle_ok good n" and "dropped1 env < depth (nd_batch n)" and run: "commit_receipt_batch env n = (r, n')"
  shows "node_ok good n' \<and> idle_ok good n'"
proof -
  let ?n1 = "drop_windows (dropped1 env) n" let ?n = "drop_windows 1 ?n1"
  have n1: "node_ok good ?n" "idle_ok good ?n" using n by (auto simp: idle_ok_def)
  have op: "opened_this_process (nd_batch n)" "marked (nd_batch n) \<Longrightarrow> \<exists>m. vmarker n = Some m \<and> dm_reason m = receipt_batch"
    using n(1) assms(3) by (auto simp: node_ok_def)
  show ?thesis
  proof (cases "depth (nd_batch ?n1) = 1 \<and> marked (nd_batch n) \<and> flush_fault env = None")
    case False
    with run n1 show ?thesis
      by (auto simp: commit_receipt_batch_def Let_def st_then_def split: if_splits option.splits)
  next
    case True
    let ?n2 = "snd (on_db (store_flush None) ?n)"
    have n2: "node_ok good ?n2" "nd_batch ?n2 = nd_batch ?n" "vmarker ?n2 = vmarker n" "content ?n2 = content n"
      using n1(1) by (auto simp: ok_defs window_defs)
    show ?thesis
    proof (cases "unbal n = 0")
      case bal: True
      with n(2) op True have good: "good (content n)" by (auto simp: idle_ok_def)
      from run True bal n2 have "clear_chain_state_dirty env 0 ?n2 = (r, n')"
        by (simp add: commit_receipt_batch_def Let_def st_then_def)
      from clear_ok[OF n2(1) _ _ this] n2 good True show ?thesis by (auto simp: good_idle)
    next
      case False
      with run True n2 have "n' = ?n2" by (simp add: commit_receipt_batch_def Let_def st_then_def)
      with n2 False show ?thesis by (simp add: idle_ok_def)
    qed
  qed
qed

lemma mark_ok:
  assumes n: "node_ok good n" "good (content n)" "unbal n = 0" and m: "dm_reason m \<noteq> receipt_batch"
    and run: "mark_chain_state_dirty env m n = (r, n')"
  shows "node_ok good n' \<and> (if r = Inr () then phase_ok good n' (Applying (apply_batch_open (drop_windows (dropped1 env) n))) else idle_ok good n')"
proof -
  let ?n = "drop_windows (dropped1 env) n" and ?m = "m\<lparr>dm_reason := receipt_batch\<rparr>"
  have n1: "node_ok good ?n" "good (content ?n)" using n by auto
  show ?thesis
  proof (cases "apply_batch_open ?n")
    case op: True
    show ?thesis
    proof (cases "marked (nd_batch n)")
      case True
      with op run n n1 show ?thesis
        by (auto simp: mark_chain_state_dirty_def Let_def on_batch_def ok_defs apply_batch_open_def)
    next
      case False
      obtain r1 n2 where w: "write_dirty_marker env ?m ?n = (r1, n2)" by (metis prod.exhaust)
      note ok = write_marker_ok[OF n1 w]
      show ?thesis
      proof (cases r1)
        case (Inl e)
        with ok w op False run n1 show ?thesis by (auto simp: mark_chain_state_dirty_def Let_def st_then_def good_idle)
      next
        case (Inr u)
        with w op False run have "r = Inr ()" "n' = on_batch (\<lambda>b. b\<lparr>marked := True, unbalanced_marks := unbalanced_marks b + 1\<rparr>) n2"
          by (auto simp: mark_chain_state_dirty_def Let_def st_then_def on_batch_def)
        with ok Inr op n show ?thesis by (auto simp: ok_defs on_batch_def apply_batch_open_def)
      qed
    qed
  next
    case False
    with run have "write_dirty_marker env m ?n = (r, n')" by (simp add: mark_chain_state_dirty_def Let_def)
    from write_marker_ok[OF n1 this] False n m show ?thesis by (auto simp: apply_batch_open_def good_idle)
  qed
qed

lemma close_ok:
  assumes n: "node_ok good n" "good (content n)" "vmarker n \<noteq> None" and run: "close_apply always env n = (r, n')"
  shows "node_ok good n' \<and> idle_ok good n'"
proof -
  let ?n = "drop_windows (dropped1 env) n"
  let ?n2 = "snd (on_db (store_flush None) ?n)"
  have n1: "node_ok good ?n" "good (content ?n)" "vmarker ?n \<noteq> None" using n by auto
  have n2: "node_ok good ?n2" "good (content ?n2)" "vmarker ?n2 \<noteq> None"
    using n1 by (auto simp: ok_defs window_defs)
  have clear: "node_ok good n'' \<and> idle_ok good n''"
    if "node_ok good k" "good (content k)" "vmarker k \<noteq> None" "clear_chain_state_dirty env (dropped2 env) k = (r', n'')" for k r' n''
    using clear_ok[OF that(1,2) that(3) that(4)] that(2) by (auto simp: good_idle)
  show ?thesis
  proof (cases "(always \<or> \<not> apply_batch_open ?n) \<and> flush_fault env \<noteq> None")
    case True
    with run n1 show ?thesis by (auto simp: close_apply_def Let_def st_then_def good_idle)
  next
    case False
    with run have "clear_chain_state_dirty env (dropped2 env) ?n = (r, n') \<or> clear_chain_state_dirty env (dropped2 env) ?n2 = (r, n')"
      by (auto simp: close_apply_def Let_def st_then_def split: if_splits)
    with clear[OF n1] clear[OF n2] show ?thesis by blast
  qed
qed

lemma restart_ok: "node_ok good n \<Longrightarrow> node_ok good (restart n) \<and> idle_ok good (restart n)"
  by (auto simp: restart_def crash_def ok_defs)

lemma startup_ok:
  assumes "node_ok good n" "rebuild_sound good env" "startup_recovery env (restart n) = (r, n')"
  shows "node_ok good n' \<and> idle_ok good n'"
proof -
  let ?n = "restart n"
  have n: "node_ok good ?n" "idle_ok good ?n" using restart_ok[OF assms(1)] by auto
  have closed: "depth (nd_batch ?n) = 0" "\<not> opened_this_process (nd_batch ?n)" by (simp_all add: restart_def)
  then have "startup_recovery env ?n = (case read_chain_state_dirty env ?n of
      Inl e \<Rightarrow> (Inl e, ?n)
    | Inr None \<Rightarrow> (Inr (), ?n)
    | Inr (Some m) \<Rightarrow>
        if dm_reason m = receipt_batch \<and> opened_this_process (nd_batch ?n) \<and> unbal ?n = 0
        then st_then (on_db (store_flush (flush_fault env)) ?n) (clear_chain_state_dirty env (dropped2 env))
        else recover_dirty_chain_state env ?n)"
    by (simp add: startup_recovery_def split: sum.splits option.splits)
  with reconcile_closed_ok[OF n assms(2) closed(1)] assms(3) show ?thesis
    by (auto simp: reconciled_def good_idle split: if_splits)
qed

section \<open>Runs\<close>

text \<open>The interface of the protocol to the derived state: a rebuild that succeeds gives a good state.\<close>

locale derived_state =
  fixes good :: "'c \<Rightarrow> bool" and env_ok :: "'c env \<Rightarrow> bool"
  assumes sound: "env_ok env \<Longrightarrow> rebuild_sound good env"
begin

lemma window_step_ok:
  assumes "window_step good env_ok (n, ph) (n', ph')" and "node_ok good n" "phase_ok good n ph"
  shows "node_ok good n' \<and> phase_ok good n' ph'"
  using assms
proof (cases rule: window_step.cases)
  case (w_begin env r)
  then show ?thesis using sound begin_ok[of good n env r n'] assms by auto
next
  case (w_commit env r)
  then show ?thesis using commit_ok[of good n env r n'] assms by auto
next
  case (w_reconciled env)
  then show ?thesis using sound reconcile_ok[of good n env] assms by (auto simp: reconciled_def)
next
  case (w_reconcile_failed env e)
  then show ?thesis using sound reconcile_ok[of good n env] assms by (auto simp: reconciled_def)
next
  case w_reject
  then show ?thesis using assms by (auto simp: good_idle)
next
  case (w_mark m env)
  then show ?thesis using mark_ok[of good n m env "Inr ()" n'] assms by auto
next
  case (w_mark_failed m env e)
  then show ?thesis using mark_ok[of good n m env "Inl e" n'] assms by auto
next
  case (w_mutate w x)
  then show ?thesis using assms by (auto simp: ok_defs window_defs)
next
  case (w_abort w)
  then show ?thesis using assms by (auto simp: ok_defs split: if_splits)
next
  case (w_finish always env r w)
  then show ?thesis using close_ok[of good n always env r n'] assms by auto
next
  case (w_upkeep x)
  then show ?thesis using assms by (cases ph) (auto simp: ok_defs window_defs)
next
  case (w_cancel d)
  then show ?thesis using assms by (cases ph) (auto simp: idle_ok_def)
next
  case w_flush
  then show ?thesis using assms by (cases ph) (auto simp: ok_defs window_defs)
next
  case w_crash
  then show ?thesis using restart_ok[of good n] assms by auto
next
  case (w_startup env r)
  then show ?thesis using sound startup_ok[of good n env r n'] assms by auto
qed

lemma window_run_ok: "window_run good env_ok (n, ph) \<Longrightarrow> node_ok good n \<and> phase_ok good n ph"
proof (induction "(n, ph)" arbitrary: n ph rule: window_run.induct)
  case (fresh x)
  then show ?case by (auto simp: ok_defs)
next
  case (more s)
  obtain n1 ph1 where s: "s = (n1, ph1)" by (cases s)
  with more window_step_ok show ?case by blast
qed

end

end
