(* ===== verification/A9_Registry_Props.thy ===== *)
theory A9_Registry_Props
  imports A9_Registry A9_Balance_Index
begin

text \<open>
  The replay registry covers the recent chain: whatever it has pruned can no longer enter a block,
  so the guard on tip extensions keeps every confirmed payment unique.
\<close>

section \<open>Keys\<close>

lemma append_less: "length xs = length zs \<Longrightarrow> (xs @ ys < zs) = (xs < (zs :: string))"
  by (induction xs zs rule: list_induct2) auto

lemma length_be_bytes [simp]: "length (be_bytes w n) = w"
  by (simp add: be_bytes_def)

lemma be_bytes_value: "n < 256 ^ w \<Longrightarrow> from_bytes_be (be_bytes w n) = n"
proof (induction w arbitrary: n)
  case 0
  then show ?case by (simp add: be_bytes_def from_bytes_be_def)
next
  case (Suc w)
  have "be_bytes (Suc w) n = be_bytes w (n div 256) @ [byte n]" by (simp add: be_bytes_def)
  moreover have "n div 256 < 256 ^ w" using Suc.prems by (simp add: less_mult_imp_div_less mult.commute)
  ultimately show ?case using Suc.IH by (simp add: from_bytes_be_append)
qed

lemma le_bytes_value: "n < 256 ^ w \<Longrightarrow> from_le_bytes (le_bytes w n) = n"
  using be_bytes_value[of n w] by (simp add: from_le_bytes_def be_bytes_def)

lemma index_key_stale:
  assumes "ts \<le> u64_max" and "cutoff \<le> u64_max"
  shows "index_key ts i < be_bytes 8 cutoff \<longleftrightarrow> ts < cutoff"
proof -
  have v: "from_bytes_be (be_bytes 8 ts) = ts" "from_bytes_be (be_bytes 8 cutoff) = cutoff"
    using assms by (auto intro!: be_bytes_value simp: u64_max_def)
  have "index_key ts i < be_bytes 8 cutoff \<longleftrightarrow> \<not> be_bytes 8 cutoff \<le> be_bytes 8 ts"
    by (simp add: index_key_def append_less not_le)
  also have "\<dots> \<longleftrightarrow> ts < cutoff" by (simp add: lex_numeric v not_le)
  finally show ?thesis .
qed

lemma index_key_id [simp]: "drop 8 (index_key ts i) = i" "length (index_key ts i) = 8 + length i"
  by (simp_all add: index_key_def)

text \<open>The id ends in the timestamp, whatever the addresses contain.\<close>

lemma tx_id_timestamp: "get_tx_id tx = get_tx_id tx' \<Longrightarrow> timestamp tx = timestamp tx'"
proof -
  assume eq: "get_tx_id tx = get_tx_id tx'"
  define body where "body t = sender t @ '':'' @ recipient t @ '':'' @ format_8 (amount t) @ '':'' @ format_8 (fee t)" for t
  have "body tx @ CHR '':'' # show_nat (timestamp tx) = body tx' @ CHR '':'' # show_nat (timestamp tx')"
    using eq by (simp add: body_def get_tx_id_def)
  from split_at_last[OF this] show ?thesis by (auto dest: show_nat_inj)
qed

lemma tx_id_nonempty: "get_tx_id tx \<noteq> []"
  by (simp add: get_tx_id_def)

lemma system_is_coinbase: "is_system tx = is_coinbase tx"
  by (simp add: is_system_def is_coinbase_def SYSTEM_ADDRESSES_def)

lemma confirmed_ids_stored [simp]: "confirmed_ids (to_storage_block c b) = confirmed_ids b"
  by (simp add: confirmed_ids_def filter_map comp_def system_is_coinbase)

section \<open>Batches\<close>

lemma get_apply_inserts:
  "hm_get (apply_inserts rows m) k = (case map_of (rev rows) k of Some v \<Rightarrow> Some v | None \<Rightarrow> hm_get m k)"
  by (induction rows arbitrary: m) (auto simp: apply_inserts_def hm_simps map_add_def split: option.splits)

lemma apply_inserts_append: "apply_inserts (xs @ ys) m = apply_inserts ys (apply_inserts xs m)"
  by (simp add: apply_inserts_def)

lemma map_of_const_rows: "map_of (rev (map (\<lambda>i. (f i, v)) xs)) k = (if k \<in> f ` set xs then Some v else None)"
  by (induction xs) (auto simp: map_add_def)

lemma get_record_tree:
  "hm_get (reg_tree (record_confirmed_txs b reg)) i
    = (if i \<in> set (confirmed_ids b) then Some (le_bytes 4 (index b)) else hm_get (reg_tree reg) i)"
  using map_of_const_rows[of "\<lambda>i. i" "le_bytes 4 (index b)" "confirmed_ids b" i]
  by (simp add: record_confirmed_txs_def get_apply_inserts registry_rows_def)

lemma get_record_index:
  "hm_get (reg_index (record_confirmed_txs b reg)) k
    = (if k \<in> index_key (block_timestamp b) ` set (confirmed_ids b) then Some [] else hm_get (reg_index reg) k)"
  using map_of_const_rows[of "index_key (block_timestamp b)" "[] :: string" "confirmed_ids b" k]
  by (simp add: record_confirmed_txs_def get_apply_inserts index_rows_def)

lemma get_prune_tree:
  assumes "hm_get (reg_tree (prune_confirmed_txs t reg)) i \<noteq> hm_get (reg_tree reg) i"
  obtains k where "hm_get (reg_index reg) k \<noteq> None" "k < be_bytes 8 (t - prune_horizon)" "prune_horizon < t" "drop 8 k = i"
  using assms
  by (auto simp: prune_confirmed_txs_def Let_def hm.get_fold_del stale_keys_def hm_keys_iff split: if_splits) 

lemma get_prune_index:
  "hm_get (reg_index (prune_confirmed_txs t reg)) k \<noteq> None \<Longrightarrow> hm_get (reg_index reg) k \<noteq> None"
  by (auto simp: prune_confirmed_txs_def Let_def hm.get_fold_del split: if_splits)

section \<open>Coverage\<close>

text \<open>What the chain promises: heights, times within their type and in order, payments post-dated at
  most by the tolerance of the block rules, no payment twice.\<close>

definition chain_facts :: "block list \<Rightarrow> bool" where
  "chain_facts bs \<longleftrightarrow> (\<forall>i < length bs. index (bs ! i) = i \<and> i \<le> u32_max \<and> block_timestamp (bs ! i) \<le> u64_max)
     \<and> sorted (map block_timestamp bs)
     \<and> (\<forall>b \<in> set bs. \<forall>tx \<in> set (transactions b). \<not> is_system tx \<longrightarrow> timestamp tx \<le> block_timestamp b + MAX_BLOCK_FUTURE_TIME)
     \<and> distinct (concat (map confirmed_ids bs))"

text \<open>What the registry promises at time \<open>t\<close>: every prune key and every entry belongs to a confirmed
  payment, and a confirmed payment is registered under its height unless its block is older than
  the horizon.\<close>

definition reg_covers :: "block list \<Rightarrow> registry \<Rightarrow> u64 \<Rightarrow> bool" where
  "reg_covers bs reg t \<longleftrightarrow>
     (\<forall>k. hm_get (reg_index reg) k \<noteq> None \<longrightarrow> (\<exists>b \<in> set bs. \<exists>i \<in> set (confirmed_ids b). k = index_key (block_timestamp b) i))
     \<and> (\<forall>i v. hm_get (reg_tree reg) i = Some v \<longrightarrow> (\<exists>b \<in> set bs. i \<in> set (confirmed_ids b) \<and> v = le_bytes 4 (index b)))
     \<and> (\<forall>b \<in> set bs. \<forall>i \<in> set (confirmed_ids b).
          hm_get (reg_tree reg) i = Some (le_bytes 4 (index b)) \<or> block_timestamp b + prune_horizon < t)"

lemma reg_covers_record:
  assumes "reg_covers bs reg t" and "distinct (concat (map confirmed_ids (bs @ [b])))"
  shows "reg_covers (bs @ [b]) (record_confirmed_txs b reg) t"
proof -
  have new: "i \<notin> set (confirmed_ids b)" if "b' \<in> set bs" "i \<in> set (confirmed_ids b')" for b' i
    using assms(2) that by auto
  with assms(1) show ?thesis
    unfolding reg_covers_def get_record_tree get_record_index by (auto split: if_splits)
qed

lemma distinct_concat_owner:
  assumes "distinct (concat (map f xs))" and "x \<in> set xs" "y \<in> set xs" "i \<in> set (f x)" "i \<in> set (f y)"
  shows "x = y"
  using assms by (induction xs) auto

lemma reg_covers_prune:
  assumes cov: "reg_covers bs reg t" and t: "t \<le> t'" "t' \<le> u64_max" and ch: "chain_facts bs"
  shows "reg_covers bs (prune_confirmed_txs t' reg) t'"
proof -
  have "hm_get (reg_tree (prune_confirmed_txs t' reg)) i = Some (le_bytes 4 (index b)) \<or> block_timestamp b + prune_horizon < t'"
    if b: "b \<in> set bs" and i: "i \<in> set (confirmed_ids b)" for b i
  proof (cases "hm_get (reg_tree (prune_confirmed_txs t' reg)) i = hm_get (reg_tree reg) i")
    case True
    with cov b i t(1) show ?thesis unfolding reg_covers_def by fastforce
  next
    case False
    then obtain k where k: "hm_get (reg_index reg) k \<noteq> None" "k < be_bytes 8 (t' - prune_horizon)" "prune_horizon < t'" "drop 8 k = i"
      by (rule get_prune_tree)
    with cov obtain b' j where b': "b' \<in> set bs" "j \<in> set (confirmed_ids b')" "k = index_key (block_timestamp b') j"
      unfolding reg_covers_def by blast
    with k i have "b' = b" using distinct_concat_owner[of confirmed_ids bs b' b i] ch b by (simp add: chain_facts_def)
    moreover have "block_timestamp b' \<le> u64_max" using ch b'(1) by (auto simp: chain_facts_def in_set_conv_nth)
    ultimately show ?thesis using k b' t(2) index_key_stale[of "block_timestamp b'" "t' - prune_horizon" j] by auto
  qed
  moreover have "hm_get (reg_tree (prune_confirmed_txs t' reg)) i = Some v \<Longrightarrow> hm_get (reg_tree reg) i = Some v" for i v
    by (auto simp: prune_confirmed_txs_def Let_def hm.get_fold_del split: if_splits)
  ultimately show ?thesis
    using cov get_prune_index[of t' reg] unfolding reg_covers_def by (intro conjI) (blast, blast, blast)
qed

lemma prune_horizon_value: "prune_horizon = MAX_TX_AGE_SECS + MAX_BLOCK_FUTURE_TIME"
  by (simp add: prune_horizon_def MAX_TX_AGE_SECS_def MAX_BLOCK_FUTURE_TIME_def rust_arith u64_max_def)

text \<open>A payment that is still fresh at the tip is registered, so the guard sees it.\<close>

lemma fresh_payment_is_guarded:
  assumes ch: "chain_facts bs" and cov: "reg_covers bs reg t" and b: "b \<in> set bs"
    and tx: "tx \<in> set (transactions b)" "\<not> is_system tx" and tx': "get_tx_id tx' = get_tx_id tx" "tx' \<in> set (transactions nb)" "\<not> is_system tx'"
    and fresh: "t \<le> timestamp tx' + MAX_TX_AGE_SECS" and idx: "index nb = length bs"
  shows "block_has_replayed_tx reg nb"
proof -
  have i: "get_tx_id tx \<in> set (confirmed_ids b)" using tx by (auto simp: confirmed_ids_def)
  have "timestamp tx' = timestamp tx" using tx'(1) by (rule tx_id_timestamp)
  moreover have "timestamp tx \<le> block_timestamp b + MAX_BLOCK_FUTURE_TIME" using ch b tx by (auto simp: chain_facts_def)
  ultimately have "\<not> block_timestamp b + prune_horizon < t" using fresh by (simp add: prune_horizon_value)
  with cov b i have reg: "hm_get (reg_tree reg) (get_tx_id tx) = Some (le_bytes 4 (index b))" by (auto simp: reg_covers_def)
  have pos: "index b < length bs" "index b \<le> u32_max" using ch b by (auto simp: chain_facts_def in_set_conv_nth)
  have "confirmed_tx_index reg (get_tx_id tx) = Some (index b)"
    using reg pos le_bytes_value[of "index b" 4] by (simp add: confirmed_tx_index_def confirmed_tx_index_checked_def u32_max_def)
  with tx' pos idx show ?thesis
    by (auto simp: block_has_replayed_tx_def list_ex_iff confirmed_ids_def intro!: bexI[of _ tx'])
qed

section \<open>What an accepted block satisfies\<close>

lemma has_dup_iff: "has_dup seen xs \<longleftrightarrow> \<not> (distinct xs \<and> set xs \<inter> set seen = {})"
  by (induction xs arbitrary: seen) auto

lemma check_txs_each:
  "fst (check_txs chk txs cache) = Inr () \<Longrightarrow> tx \<in> set txs \<Longrightarrow> \<not> is_coinbase tx \<Longrightarrow> \<exists>k. fst (chk tx k) = Inr ()"
proof (induction txs arbitrary: cache)
  case (Cons x txs)
  show ?case
  proof (cases "is_coinbase x")
    case True
    with Cons show ?thesis by auto
  next
    case False
    obtain r k where rk: "chk x cache = (r, k)" by fastforce
    with False Cons.prems(1) obtain u where r: "r = Inr u" and rest: "fst (check_txs chk txs k) = Inr ()" by (cases r) auto
    show ?thesis
    proof (cases "tx = x")
      case True
      with rk r show ?thesis by (intro exI[of _ cache]) simp
    next
      case False
      with Cons.IH[OF rest] Cons.prems show ?thesis by simp
    qed
  qed
qed simp

lemma accepted_unique: "validate_block_head cv mode b = Inr () \<Longrightarrow> distinct (confirmed_ids b)"
  by (auto simp: validate_block_head_def result_simps has_duplicate_regular_tx_def has_dup_iff confirmed_ids_def system_is_coinbase)

lemma accepted_fresh:
  assumes "fst (validate_block_internal cv mode b cache) = Inr ()" and "0 < index b"
    and "tx \<in> set (transactions b)" "\<not> is_system tx"
  shows "block_timestamp b \<le> timestamp tx + MAX_TX_AGE_SECS" "timestamp tx \<le> block_timestamp b + MAX_BLOCK_FUTURE_TIME"
proof -
  from assms have "fst (check_txs (check_block_tx cv mode b) (transactions b) cache) = Inr ()"
    by (auto simp: validate_block_internal_def split: sum.splits)
  from check_txs_each[OF this assms(3)] assms(4) obtain k where "fst (check_block_tx cv mode b tx k) = Inr ()"
    by (auto simp: system_is_coinbase)
  then have "\<not> saturating_add (timestamp tx) MAX_TX_AGE_SECS < block_timestamp b"
    "\<not> timestamp tx > saturating_add (block_timestamp b) MAX_BLOCK_FUTURE_TIME"
    using assms(2) by (auto simp: check_block_tx_def split: if_splits)
  then show "block_timestamp b \<le> timestamp tx + MAX_TX_AGE_SECS" "timestamp tx \<le> block_timestamp b + MAX_BLOCK_FUTURE_TIME"
    by (auto simp: rust_arith split: if_splits)
qed

lemma accepted_after_tip:
  assumes "validate_block_head cv mode b = Inr ()" and "cv_get_block cv = chain_get bs" and "bs \<noteq> []"
    and "index b = length bs" and "previous_hash b = hash (last bs)"
  shows "block_timestamp (last bs) \<le> block_timestamp b"
proof -
  have "get_parent_block_for cv b = Some (last bs)"
    using assms(2-5) by (auto simp: get_parent_block_for_def chain_get_def rust_arith last_conv_nth)
  moreover have "validate_linkage cv b = Inr ()" using assms(1) by (auto simp: validate_block_head_def result_simps)
  ultimately show ?thesis
    using assms(3,4) by (auto simp: validate_linkage_def validate_parent_timestamp_def result_simps guard_err_def split: if_splits)
qed

section \<open>Runs\<close>

text \<open>
  The canonical chain with its registry: it starts at the launch block; a block that extends the
  tip (\<open>save_block\<close>, \<open>save_receipt_verified_block\<close>, \<open>finalize_block\<close>) is stored after the block rules and
  the replay guard accept it, and is then recorded and the registry pruned at its time; a
  start or a recovery may re-derive the registry, with or without success.  Heights and times
  are within their types.
\<close>

inductive confirmed_run :: "crypto \<Rightarrow> (transaction \<Rightarrow> string) \<Rightarrow> block list \<Rightarrow> registry \<Rightarrow> bool" for c ser where
  launch: "confirmed_run c ser [genesis_launch_block c ser]
     (record_confirmed_txs (genesis_launch_block c ser) \<lparr>reg_tree = [], reg_index = [], reg_built = bt\<rparr>)"
| extend: "confirmed_run c ser bs reg \<Longrightarrow> cv_crypto cv = c \<Longrightarrow> cv_serialize cv = ser \<Longrightarrow> cv_get_block cv = chain_get bs \<Longrightarrow>
     index b = length bs \<Longrightarrow> previous_hash b = hash (last bs) \<Longrightarrow> index b \<le> u32_max \<Longrightarrow> block_timestamp b \<le> u64_max \<Longrightarrow>
     fst (validate_block_internal cv mode b cache) = Inr () \<Longrightarrow> \<not> block_has_replayed_tx reg b \<Longrightarrow>
     confirmed_run c ser (bs @ [to_storage_block c b])
       (prune_confirmed_txs (block_timestamp b) (record_confirmed_txs b reg))"
| ensure: "confirmed_run c ser bs reg \<Longrightarrow>
     confirmed_run c ser bs (snd (ensure_confirmed_tx_index c ser (chain_get bs) (Some (length bs - 1))
       (Some (block_timestamp (last bs))) reg))"
| rebuild: "confirmed_run c ser bs reg \<Longrightarrow>
     confirmed_run c ser bs (snd (rebuild_confirmed_tx_index c ser (chain_get bs) (Some (length bs - 1))
       (Some (block_timestamp (last bs))) reg))"

definition run_ok :: "block list \<Rightarrow> registry \<Rightarrow> bool" where
  "run_ok bs reg \<longleftrightarrow> bs \<noteq> [] \<and> chain_facts bs \<and> reg_covers bs reg (block_timestamp (last bs))"

lemma record_stored: "record_confirmed_txs (to_storage_block c b) reg = record_confirmed_txs b reg"
  by (simp add: record_confirmed_txs_def registry_rows_def index_rows_def)

lemma chain_facts_extend:
  assumes ch: "chain_facts bs" "bs \<noteq> []" and ok: "fst (validate_block_internal cv mode b cache) = Inr ()"
    and cv: "cv_get_block cv = chain_get bs" and b: "index b = length bs" "previous_hash b = hash (last bs)" "index b \<le> u32_max"
    "block_timestamp b \<le> u64_max"
    and cov: "reg_covers bs reg (block_timestamp (last bs))" and guard: "\<not> block_has_replayed_tx reg b"
  shows "chain_facts (bs @ [to_storage_block c b])"
proof -
  have head: "validate_block_head cv mode b = Inr ()" using ok by (auto simp: validate_block_internal_def split: sum.splits)
  have pos: "0 < index b" using ch(2) b(1) by simp
  have after: "block_timestamp (last bs) \<le> block_timestamp b" using accepted_after_tip[OF head cv ch(2) b(1,2)] .
  have fresh: "i \<notin> set (confirmed_ids b)" if "b' \<in> set bs" "i \<in> set (confirmed_ids b')" for b' i
  proof
    assume "i \<in> set (confirmed_ids b)"
    with that(2) obtain tx tx' where t: "tx \<in> set (transactions b')" "\<not> is_system tx" "i = get_tx_id tx"
      "tx' \<in> set (transactions b)" "\<not> is_system tx'" "i = get_tx_id tx'" by (auto simp: confirmed_ids_def)
    have "block_timestamp (last bs) \<le> timestamp tx' + MAX_TX_AGE_SECS" using accepted_fresh(1)[OF ok pos t(4,5)] after by simp
    from fresh_payment_is_guarded[OF ch(1) cov that(1) t(1,2) _ t(4,5) this b(1)] t(3,6) guard show False by simp
  qed
  have "sorted (map block_timestamp (bs @ [to_storage_block c b]))"
  proof -
    have "x \<le> block_timestamp (last bs)" if "x \<in> set (map block_timestamp bs)" for x
      using ch that by (auto simp: chain_facts_def in_set_conv_nth last_conv_nth sorted_iff_nth_mono)
    with ch(1) after show ?thesis by (fastforce simp: chain_facts_def sorted_append)
  qed
  moreover have "distinct (concat (map confirmed_ids (bs @ [to_storage_block c b])))"
    using ch(1) accepted_unique[OF head] fresh by (auto simp: chain_facts_def)
  moreover have "timestamp tx \<le> block_timestamp b + MAX_BLOCK_FUTURE_TIME" if "tx \<in> set (transactions b)" "\<not> is_system tx" for tx
    using accepted_fresh(2)[OF ok pos that] .
  ultimately show ?thesis
    using ch(1) b by (auto simp: chain_facts_def nth_append system_is_coinbase less_Suc_eq)
qed

section \<open>Rebuilding\<close>

lemma rebuild_rows_chain:
  "rebuild_rows load hs prev (rows, irows) = Inr r \<Longrightarrow> \<exists>bs. load_chain load hs prev = Inr bs
     \<and> r = (rows @ concat (map registry_rows bs), irows @ concat (map index_rows bs))"
proof (induction hs arbitrary: prev rows irows)
  case (Cons h hs)
  then obtain b where b: "load h prev = Inr b"
    "rebuild_rows load hs (Some b) (rows @ registry_rows b, irows @ index_rows b) = Inr r" by (auto simp: result_simps)
  from Cons.IH[OF b(2)] b(1) show ?case by auto
qed simp

lemma fold_record_trees:
  "reg_tree (fold record_confirmed_txs bs reg) = apply_inserts (concat (map registry_rows bs)) (reg_tree reg)"
  "reg_index (fold record_confirmed_txs bs reg) = apply_inserts (concat (map index_rows bs)) (reg_index reg)"
  by (induction bs arbitrary: reg) (simp_all add: record_confirmed_txs_def apply_inserts_append, simp_all add: apply_inserts_def)

lemma fold_record_covers:
  assumes "distinct (concat (map confirmed_ids bs))" and "reg_tree reg = []" "reg_index reg = []"
  shows "reg_covers bs (fold record_confirmed_txs bs reg) t"
  using assms
proof (induction bs rule: rev_induct)
  case Nil
  then show ?case by (simp add: reg_covers_def hm_simps)
next
  case (snoc b bs)
  then show ?case using reg_covers_record[of bs "fold record_confirmed_txs bs reg" t b] by simp
qed

lemma reg_covers_cong:
  "reg_tree reg = reg_tree reg' \<Longrightarrow> reg_index reg = reg_index reg' \<Longrightarrow> reg_covers bs reg t = reg_covers bs reg' t"
  by (simp add: reg_covers_def)

lemma chain_get_rows: "map Some bs' = map (chain_get bs) [0..<length bs] \<Longrightarrow> bs' = bs"
proof -
  assume eq: "map Some bs' = map (chain_get bs) [0..<length bs]"
  have "map (chain_get bs) [0..<length bs] = map Some bs" by (rule nth_equalityI) (simp_all add: chain_get_def)
  with eq have "map the (map Some bs') = map the (map Some bs)" by (rule arg_cong[OF trans])
  then show ?thesis by (simp only: map_map comp_def option.sel list.map_ident)
qed

lemma rebuild_covers:
  assumes ok: "run_ok bs reg"
  shows "run_ok bs (snd (rebuild_confirmed_tx_index c ser (chain_get bs) (Some (length bs - 1)) (Some (block_timestamp (last bs))) reg))"
proof -
  let ?load = "load_structurally_valid_canonical_block c ser (chain_get bs)" and ?t = "block_timestamp (last bs)"
  have bs: "bs \<noteq> []" "chain_facts bs" "reg_covers bs reg ?t" using ok by (simp_all add: run_ok_def)
  have hs: "[0..<length bs - 1 + 1] = [0..<length bs]" using bs(1) by simp
  have t: "?t \<le> u64_max" using bs(1,2) by (auto simp: chain_facts_def last_conv_nth)
  show ?thesis
  proof (cases "rebuild_rows ?load [0..<length bs] None ([], [])")
    case (Inl e)
    have "snd (rebuild_confirmed_tx_index c ser (chain_get bs) (Some (length bs - 1)) (Some ?t) reg) = reg\<lparr>reg_built := False\<rparr>"
      unfolding rebuild_confirmed_tx_index_def Let_def option.case hs Inl by simp
    with ok show ?thesis using reg_covers_cong[of "reg\<lparr>reg_built := False\<rparr>" reg] by (simp add: run_ok_def)
  next
    case (Inr r)
    from rebuild_rows_chain[OF Inr] obtain bs' where bs': "load_chain ?load [0..<length bs] None = Inr bs'"
      "r = (concat (map registry_rows bs'), concat (map index_rows bs'))" by auto
    have "bs' = bs" using load_chain_rows[OF bs'(1)] by (intro chain_get_rows) simp
    define reg1 where "reg1 = reg\<lparr>reg_built := False, reg_tree := apply_inserts (concat (map registry_rows bs)) [],
      reg_index := apply_inserts (concat (map index_rows bs)) []\<rparr>"
    have "reg_covers bs reg1 ?t"
      using fold_record_covers[of bs "\<lparr>reg_tree = [], reg_index = [], reg_built = False\<rparr>" ?t] bs(2)
      by (subst reg_covers_cong[of _ "fold record_confirmed_txs bs \<lparr>reg_tree = [], reg_index = [], reg_built = False\<rparr>"])
        (simp_all add: fold_record_trees reg1_def chain_facts_def)
    then have "reg_covers bs (prune_confirmed_txs ?t reg1) ?t" using reg_covers_prune t bs(2) by blast
    moreover have "snd (rebuild_confirmed_tx_index c ser (chain_get bs) (Some (length bs - 1)) (Some ?t) reg)
        = (prune_confirmed_txs ?t reg1)\<lparr>reg_built := True\<rparr>"
      unfolding rebuild_confirmed_tx_index_def Let_def option.case hs Inr bs'(2) \<open>bs' = bs\<close> by (simp add: reg1_def)
    ultimately show ?thesis
      using bs reg_covers_cong[of "(prune_confirmed_txs ?t reg1)\<lparr>reg_built := True\<rparr>" "prune_confirmed_txs ?t reg1"]
      by (simp add: run_ok_def)
  qed
qed

lemma ensure_covers:
  assumes ok: "run_ok bs reg"
  shows "run_ok bs (snd (ensure_confirmed_tx_index c ser (chain_get bs) (Some (length bs - 1)) (Some (block_timestamp (last bs))) reg))"
proof -
  have stamped: "run_ok bs (reg\<lparr>reg_built := True\<rparr>)"
    using ok reg_covers_cong[of "reg\<lparr>reg_built := True\<rparr>" reg] by (simp add: run_ok_def)
  show ?thesis
    unfolding ensure_confirmed_tx_index_def using ok stamped rebuild_covers[OF ok, of c ser] by (cases "reg_built reg"; cases "reg_index reg = []") simp_all
qed

lemma genesis_ids: "confirmed_ids (genesis_launch_block c ser) = []"
  by (simp add: confirmed_ids_def genesis_launch_block_def Let_def new_transaction_def system_is_coinbase is_coinbase_def)

lemma genesis_fields: "index (genesis_launch_block c ser) = 0" "block_timestamp (genesis_launch_block c ser) = 1783191900"
  by (simp_all add: genesis_launch_block_def Let_def GENESIS_LAUNCH_TIMESTAMP_def)

lemma genesis_system: "tx \<in> set (transactions (genesis_launch_block c ser)) \<Longrightarrow> is_system tx"
  by (simp add: genesis_launch_block_def Let_def new_transaction_def system_is_coinbase is_coinbase_def)

lemma genesis_facts: "chain_facts [genesis_launch_block c ser]"
  using genesis_system[of _ c ser] by (auto simp: chain_facts_def genesis_ids genesis_fields u64_max_def)

lemma confirmed_run_ok: "confirmed_run c ser bs reg \<Longrightarrow> run_ok bs reg"
proof (induction rule: confirmed_run.induct)
  case (launch bt)
  show ?case
    by (simp add: run_ok_def genesis_facts)
      (simp add: reg_covers_def genesis_ids record_confirmed_txs_def registry_rows_def index_rows_def apply_inserts_def hm_simps)
next
  case (extend bs reg cv b mode cache)
  let ?b = "to_storage_block c b" and ?t = "block_timestamp (last bs)"
  have ok: "bs \<noteq> []" "chain_facts bs" "reg_covers bs reg ?t" using extend.IH by (simp_all add: run_ok_def)
  have ch: "chain_facts (bs @ [?b])" using extend ok by (intro chain_facts_extend)
  have head: "validate_block_head cv mode b = Inr ()" using extend.hyps by (auto simp: validate_block_internal_def split: sum.splits)
  have after: "?t \<le> block_timestamp b" using accepted_after_tip[OF head] extend.hyps ok(1) by simp
  have "reg_covers (bs @ [?b]) (record_confirmed_txs ?b reg) ?t"
    using ch by (intro reg_covers_record ok(3)) (simp add: chain_facts_def)
  then have "reg_covers (bs @ [?b]) (prune_confirmed_txs (block_timestamp b) (record_confirmed_txs b reg)) (block_timestamp b)"
    using reg_covers_prune[OF _ after _ ch] extend.hyps by (simp add: record_stored)
  with ch show ?case by (simp add: run_ok_def)
next
  case (ensure bs reg)
  from ensure.IH show ?case by (rule ensure_covers)
next
  case (rebuild bs reg)
  from rebuild.IH show ?case by (rule rebuild_covers)
qed

lemma run_lookup:
  assumes "confirmed_run c ser bs reg" and "hm_get (reg_tree reg) i = Some (le_bytes 4 (index b))" and "b \<in> set bs"
  shows "confirmed_tx_index reg i = Some (index b)"
proof -
  have "index b \<le> u32_max" using confirmed_run_ok[OF assms(1)] assms(3) by (auto simp: run_ok_def chain_facts_def in_set_conv_nth)
  with assms(2) le_bytes_value[of "index b" 4] show ?thesis
    by (simp add: confirmed_tx_index_def confirmed_tx_index_checked_def u32_max_def)
qed

lemma confirmed_payment_index:
  assumes run: "confirmed_run c ser bs reg" and h: "confirmed_tx_index reg i = Some h"
  shows "h < length bs \<and> i \<in> set (confirmed_ids (bs ! h))"
proof -
  have ok: "chain_facts bs" "reg_covers bs reg (block_timestamp (last bs))"
    using confirmed_run_ok[OF run] by (simp_all add: run_ok_def)
  obtain v where v: "hm_get (reg_tree reg) i = Some v"
    using h by (auto simp: confirmed_tx_index_def confirmed_tx_index_checked_def split: option.splits)
  with ok(2) obtain b where b: "b \<in> set bs" "i \<in> set (confirmed_ids b)" "v = le_bytes 4 (index b)"
    unfolding reg_covers_def by blast
  with run_lookup[OF run] v h have "index b = h" by simp
  with b ok(1) show ?thesis by (auto simp: chain_facts_def in_set_conv_nth)
qed

end
