(* ===== verification/A9_Registry_Theorems.thy ===== *)
theory A9_Registry_Theorems
  imports A9_Registry_Props A9_Rules_Theorems
begin

text \<open>The theorems on the replay registry, with a block that extends the launch block as a sample.\<close>

section \<open>A sample run\<close>

definition launch_time :: u64 where
  "launch_time = 1783191900"

definition dated_signed :: transaction where
  "dated_signed = sample_signed\<lparr>timestamp := launch_time\<rparr>"

definition launch_chain :: "block list" where
  "launch_chain = [genesis_launch_block hexed_crypto (\<lambda>_. '''')]"

definition launch_view :: chain_view where
  "launch_view = sample_view\<lparr>cv_get_block := chain_get launch_chain, cv_genesis_ts := Inr launch_time, cv_now := launch_time\<rparr>"

definition second_block :: block where
  "second_block = (flat_block [pay ''MINING_REWARDS'' ''miner''
       (case block_reward_from_totals (Inr launch_time) 1 launch_time 1 (Fin 0) of Inr r \<Rightarrow> to_units r | Inl _ \<Rightarrow> 0) (to_units NETWORK_FEE),
     dated_signed] 1)\<lparr>block_timestamp := launch_time,
     difficulty := consensus_next_difficulty GENESIS_LAUNCH_DIFFICULTY 0 1\<rparr>"

definition empty_registry :: registry where
  "empty_registry = \<lparr>reg_tree = [], reg_index = [], reg_built = True\<rparr>"

lemma second_fields: "index second_block = 1" "block_timestamp second_block = launch_time" "hash second_block = zero_hash"
  "previous_hash second_block = zero_hash" "merkle_root second_block = zero_hash"
  "difficulty second_block = consensus_next_difficulty GENESIS_LAUNCH_DIFFICULTY 0 1"
  by (simp_all add: second_block_def flat_block_def)

lemma launch_fields: "cv_crypto launch_view = hexed_crypto" "cv_serialize launch_view = (\<lambda>_. [])"
  "cv_get_block launch_view = chain_get launch_chain" "cv_genesis_ts launch_view = Inr launch_time" "cv_now launch_view = launch_time"
  by (simp_all add: launch_view_def sample_view_def)

lemma dated_regular: "\<not> is_coinbase dated_signed" "fee dated_signed = Fin 0" "has_valid_regular_amounts dated_signed"
  using sample_addr_regular(1) sample_fee_zero sample_amounts
  by (simp_all add: dated_signed_def is_coinbase_def fee_def has_valid_regular_amounts_def)

lemma second_txs:
  "\<exists>x. block_reward_from_totals (Inr launch_time) 1 launch_time 1 (Fin 0) = Inr x
    \<and> transactions second_block = [pay ''MINING_REWARDS'' ''miner'' (to_units x) (to_units NETWORK_FEE), dated_signed]"
  using legacy_reward_total[of 1 launch_time launch_time 1 "Fin 0"]
  by (auto simp: REWARD_CURVE_V2_ACTIVATION_HEIGHT_def second_block_def flat_block_def)

lemma second_header: "validate_header hexed_crypto launch_time second_block = Inr ()"
  by (simp add: validate_header_def second_fields calculate_hash_for_block_def hexed_crypto_def guard_err_def
      verify_difficulty_proof_def verify_pow_def zero_hash_def from_bytes_be_def byte_val_def numeral_eq_Suc)

lemma second_rewards: "validate_block_reward_rules_at (Inr launch_time) second_block FEE_SYSTEM_ACTIVATION_HEIGHT = Inr ()"
proof -
  obtain x where x: "block_reward_from_totals (Inr launch_time) 1 launch_time 1 (Fin 0) = Inr x"
    "transactions second_block = [pay ''MINING_REWARDS'' ''miner'' (to_units x) (to_units NETWORK_FEE), dated_signed]"
    using second_txs by blast
  have "calculate_block_reward (Inr launch_time) second_block = Inr x"
    using x dated_regular by (simp add: calculate_block_reward_def second_fields regular_def REWARD_CURVE_V2_ACTIVATION_HEIGHT_def)
  then show ?thesis
    using dated_regular(1)
    by (simp add: validate_block_reward_rules_at_def x(2) second_fields guard_err_def Let_def FEE_SYSTEM_ACTIVATION_HEIGHT_def)
qed

lemma second_head: "validate_block_head launch_view RequireFull second_block = Inr ()"
proof -
  let ?g = "genesis_launch_block hexed_crypto (\<lambda>_. [])"
  have len: "length (transactions second_block) = 2" using second_txs by auto
  have dup: "\<not> has_duplicate_regular_tx (transactions second_block)"
    using second_txs dated_regular(1) by (auto simp: has_duplicate_regular_tx_def)
  have pow: "is_valid_hash_with_difficulty zero_hash d" for d
    by (simp add: is_valid_hash_with_difficulty_def zero_hash_def from_bytes_be_def byte_val_def numeral_eq_Suc)
  have g: "hash ?g = zero_hash" "difficulty ?g = GENESIS_LAUNCH_DIFFICULTY" "block_timestamp ?g = launch_time" "index ?g = 0"
    by (simp_all add: genesis_launch_block_def Let_def calculate_hash_for_block_def hexed_crypto_def launch_time_def GENESIS_LAUNCH_TIMESTAMP_def)
  have link: "validate_linkage launch_view second_block = Inr ()"
    by (simp add: validate_linkage_def get_parent_block_for_def second_fields launch_fields chain_get_def launch_chain_def g
        saturating_sub_def validate_parent_timestamp_def guard_err_def)
  show ?thesis
    unfolding validate_block_head_def launch_fields second_header hexed_merkle second_fields
    using len dup pow link second_rewards
    by (simp add: guard_err_def MAX_BLOCK_TX_COUNT_def validate_block_shape_rules_at_def second_fields FEE_SYSTEM_ACTIVATION_HEIGHT_def)
qed

lemma dated_witness: "check_witness launch_view RequireFull dated_signed [] = (Inr (), [])"
  using sample_addr_regular(2)
  by (simp add: check_witness_def dated_signed_def sample_signed_def launch_view_def sample_view_def hexed_crypto_def hex_dec_enc Let_def
      verify_transaction_signature_def signature_hash_hex_def is_valid_def derived_address_def sample_addr_def SYSTEM_ADDRESSES_def)

lemma second_accepted: "fst (validate_block_internal launch_view RequireFull second_block []) = Inr ()"
proof -
  have "check_block_tx launch_view RequireFull second_block dated_signed [] = (Inr (), [])"
    using dated_regular(3) dated_witness
    by (simp add: check_block_tx_def second_fields, simp add: dated_signed_def saturating_add_def launch_time_def u64_max_def MAX_TX_AGE_SECS_def
        MAX_BLOCK_FUTURE_TIME_def)
  then show ?thesis using second_txs dated_regular(1) by (auto simp: validate_block_internal_def second_head)
qed

lemma second_ids: "confirmed_ids second_block = [get_tx_id dated_signed]"
  using second_txs dated_regular(1) by (auto simp: confirmed_ids_def system_is_coinbase)

definition launch_registry :: registry where
  "launch_registry = record_confirmed_txs (genesis_launch_block hexed_crypto (\<lambda>_. '''')) empty_registry"

lemma launch_run: "confirmed_run hexed_crypto (\<lambda>_. '''') launch_chain launch_registry"
  unfolding launch_chain_def launch_registry_def empty_registry_def by (rule confirmed_run.launch)

lemma launch_second_run:
  "confirmed_run hexed_crypto (\<lambda>_. '''') (launch_chain @ [to_storage_block hexed_crypto second_block])
     (prune_confirmed_txs launch_time (record_confirmed_txs second_block launch_registry))"
proof -
  have "\<not> block_has_replayed_tx launch_registry second_block"
    by (simp add: block_has_replayed_tx_def second_ids confirmed_tx_index_def confirmed_tx_index_checked_def launch_registry_def
        get_record_tree genesis_ids empty_registry_def hm_simps)
  then show ?thesis
    using confirmed_run.extend[OF launch_run launch_fields(1) _ launch_fields(3) _ _ _ _ second_accepted]
    by (simp add: launch_fields second_fields launch_chain_def launch_time_def u32_max_def u64_max_def
        genesis_launch_block_def Let_def calculate_hash_for_block_def hexed_crypto_def)
qed

section \<open>Theorems\<close>

text \<open>C38. No payment is confirmed twice: along every run of tip extensions and registry rebuilds from
  the launch block, no regular transaction id occurs twice in the canonical chain.  The registry
  lists only confirmed payments, each at its height, and what it has pruned is older than the
  horizon, beyond which the freshness rule keeps the payment out of any further block.\<close>

theorem confirmed_payment_unique:
  assumes "confirmed_run c ser bs reg"
  shows "distinct (concat (map confirmed_ids bs))
    \<and> (\<forall>i h. confirmed_tx_index reg i = Some h \<longrightarrow> h < length bs \<and> i \<in> set (confirmed_ids (bs ! h)))
    \<and> (\<forall>h < length bs. \<forall>i \<in> set (confirmed_ids (bs ! h)). confirmed_tx_index reg i = Some h
         \<or> block_timestamp (bs ! h) + prune_horizon < block_timestamp (last bs))"
proof -
  have ok: "chain_facts bs" "reg_covers bs reg (block_timestamp (last bs))"
    using confirmed_run_ok[OF assms] by (simp_all add: run_ok_def)
  have "confirmed_tx_index reg i = Some h \<or> block_timestamp (bs ! h) + prune_horizon < block_timestamp (last bs)"
    if "h < length bs" "i \<in> set (confirmed_ids (bs ! h))" for h i
  proof -
    have "index (bs ! h) = h" "bs ! h \<in> set bs" using ok(1) that(1) by (auto simp: chain_facts_def)
    with ok(2) that(2) run_lookup[OF assms, of i "bs ! h"] show ?thesis unfolding reg_covers_def by auto
  qed
  with ok(1) confirmed_payment_index[OF assms] show ?thesis by (auto simp: chain_facts_def)
qed

theorem confirmed_payment_unique_witness:
  "confirmed_tx_index (prune_confirmed_txs launch_time (record_confirmed_txs second_block launch_registry)) (get_tx_id dated_signed) = Some 1"
proof -
  have "block_timestamp ((launch_chain @ [to_storage_block hexed_crypto second_block]) ! 1) = launch_time"
    "block_timestamp (last (launch_chain @ [to_storage_block hexed_crypto second_block])) = launch_time"
    "get_tx_id dated_signed \<in> set (confirmed_ids ((launch_chain @ [to_storage_block hexed_crypto second_block]) ! 1))"
    "1 < length (launch_chain @ [to_storage_block hexed_crypto second_block])"
    by (simp_all add: launch_chain_def second_fields second_ids)
  with confirmed_payment_unique[OF launch_second_run] show ?thesis by (metis less_irrefl not_add_less1)
qed

lemma run_lookup_none:
  "confirmed_run c ser bs reg \<Longrightarrow> i \<notin> set (concat (map confirmed_ids bs)) \<Longrightarrow> confirmed_tx_index reg i = None"
  using confirmed_payment_index[of c ser bs reg i] nth_mem by (cases "confirmed_tx_index reg i") auto

lemma recorded_id_kept:
  assumes run: "confirmed_run c ser bs reg" and new: "i \<notin> set (concat (map confirmed_ids bs))" and ids: "confirmed_ids b = [i]"
    and b: "index b \<le> u32_max" "block_timestamp b \<le> u64_max"
  shows "confirmed_tx_index (prune_confirmed_txs (block_timestamp b) (record_confirmed_txs b reg)) i = Some (index b)"
proof -
  let ?reg = "record_confirmed_txs b reg"
  have cov: "reg_covers bs reg (block_timestamp (last bs))" using confirmed_run_ok[OF run] by (simp add: run_ok_def)
  have "hm_get (reg_tree (prune_confirmed_txs (block_timestamp b) ?reg)) i = hm_get (reg_tree ?reg) i"
  proof (rule ccontr)
    assume "\<not> ?thesis"
    then obtain k where k: "hm_get (reg_index ?reg) k \<noteq> None" "k < be_bytes 8 (block_timestamp b - prune_horizon)"
      "drop 8 k = i" by (rule get_prune_tree)
    show False
    proof (cases "k = index_key (block_timestamp b) i")
      case True
      with k(2) b(2) index_key_stale[of "block_timestamp b" "block_timestamp b - prune_horizon" i] show False by simp
    next
      case False
      with k(1) ids have "hm_get (reg_index reg) k \<noteq> None" by (simp add: get_record_index split: if_splits)
      with cov k(3) new show False unfolding reg_covers_def by fastforce
    qed
  qed
  then show ?thesis
    using le_bytes_value[of "index b" 4] b(1)
    by (simp add: confirmed_tx_index_def confirmed_tx_index_checked_def get_record_tree ids u32_max_def)
qed

text \<open>C39. The replay guard of a reorganisation sees a repeated payment only through the registry: a branch of
  two blocks that both include one payment is refused exactly when the payment is confirmed below
  the fork.  A payment that is not confirmed passes the guard at every fork height, and neither
  block repeats an id by itself, while a node that receives the same two blocks as tip
  extensions rejects the second one as a replay.\<close>

theorem reorg_guard_misses_repeat:
  assumes run: "confirmed_run c ser bs reg" and tx: "\<not> is_system tx"
    and b1: "transactions b1 = [r1, tx]" "is_coinbase r1" "index b1 \<le> u32_max" "block_timestamp b1 \<le> u64_max"
    and b2: "transactions b2 = [r2, tx]" "is_coinbase r2" "index b2 = Suc (index b1)"
  shows "(branch_replays_below reg fork_start [b1, b2] \<longleftrightarrow> (\<exists>h < fork_start. confirmed_tx_index reg (get_tx_id tx) = Some h))
    \<and> \<not> has_duplicate_regular_tx (transactions b1) \<and> \<not> has_duplicate_regular_tx (transactions b2)
    \<and> (get_tx_id tx \<notin> set (concat (map confirmed_ids bs)) \<longrightarrow>
         \<not> branch_replays_below reg fork_start [b1, b2]
         \<and> block_has_replayed_tx (prune_confirmed_txs (block_timestamp b1) (record_confirmed_txs b1 reg)) b2)"
proof -
  have ids: "confirmed_ids b1 = [get_tx_id tx]" "confirmed_ids b2 = [get_tx_id tx]"
    using b1 b2 tx by (simp_all add: confirmed_ids_def system_is_coinbase)
  have guard: "branch_replays_below reg fork_start [b1, b2] \<longleftrightarrow> (\<exists>h < fork_start. confirmed_tx_index reg (get_tx_id tx) = Some h)"
    by (auto simp: branch_replays_below_def ids split: option.splits)
  have "\<not> branch_replays_below reg fork_start [b1, b2]
      \<and> block_has_replayed_tx (prune_confirmed_txs (block_timestamp b1) (record_confirmed_txs b1 reg)) b2"
    if "get_tx_id tx \<notin> set (concat (map confirmed_ids bs))"
    using run_lookup_none[OF run that] recorded_id_kept[OF run that ids(1) b1(3,4)] b2(3)
    by (simp add: guard block_has_replayed_tx_def ids)
  with guard b1 b2 tx show ?thesis by (simp add: has_duplicate_regular_tx_def system_is_coinbase)
qed

definition repeat_block :: "u32 \<Rightarrow> block" where
  "repeat_block h = flat_block [pay ''MINING_REWARDS'' ''miner'' 1 0, dated_signed] h"

theorem reorg_guard_misses_repeat_witness:
  "\<not> branch_replays_below launch_registry 1 [repeat_block 1, repeat_block 2]
    \<and> is_ok (replay_blocks [repeat_block 1, repeat_block 2] ([(sample_addr, 2000)], []))"
proof -
  have tx: "\<not> is_system dated_signed" using dated_regular(1) by (simp add: system_is_coinbase)
  have ids: "get_tx_id dated_signed \<notin> set (concat (map confirmed_ids launch_chain))"
    by (simp add: launch_chain_def genesis_ids)
  have f: "transactions (repeat_block h) = [pay ''MINING_REWARDS'' ''miner'' 1 0, dated_signed]" "index (repeat_block h) = h"
    "block_timestamp (repeat_block h) = 0" for h
    by (simp_all add: repeat_block_def flat_block_def)
  have "\<not> branch_replays_below launch_registry 1 [repeat_block 1, repeat_block 2]"
    using reorg_guard_misses_repeat[OF launch_run tx f(1)[of 1] _ _ _ f(1)[of 2], of 1] ids
    by (auto simp: f u32_max_def u64_max_def)
  moreover have "sample_addr \<noteq> ''bob''" "sample_addr \<noteq> ''miner''"
    by (auto simp: sample_addr_def hex_enc_length zero_hash_def dest!: arg_cong[where f = length])
  ultimately show ?thesis
    using sample_addr_regular(2) by (simp add: sample_defs f dated_signed_def sample_signed_def)
qed

end
