(* ===== verification/A9_Apply_Window_Theorems.thy ===== *)
theory A9_Apply_Window_Theorems
  imports A9_Apply_Window_Props A9_Registry_Theorems
begin

text \<open>
  The crash protocol on the chain: the rebuild of the derived state is sound, so every reachable
  state of the node satisfies the protocol's promise.
\<close>

section \<open>The rebuild is sound\<close>

text \<open>The derived state belongs to the canonical rows: the recorded tip is the highest row, the rows authenticate
  and replay, the balances index has the replay's values under the tip's marker, and the replay
  registry covers the chain whenever the chain obeys the acceptance rules the registry relies on.\<close>

definition chain_consistent :: "crypto \<Rightarrow> (transaction \<Rightarrow> string) \<Rightarrow> chain_content \<Rightarrow> bool" where
  "chain_consistent c ser cc \<longleftrightarrow>
     (case highest_block_index_scan (cc_rows cc) of
        None \<Rightarrow> cc_tip cc = None
      | Some tip \<Rightarrow>
          (\<exists>bs m recent. authentic c ser (hm_get (cc_rows cc)) (tip + 1) = Inr bs \<and> replay_blocks bs ([], []) = Inr (m, recent)
             \<and> cc_tip cc = Some \<lparr>tip_height = tip, tip_hash = hash (last bs)\<rparr>
             \<and> marker (cc_index cc) = Some tip \<and> (\<forall>a. bal (tree (cc_index cc)) a = bal m a)
             \<and> (chain_facts bs \<longrightarrow> reg_covers bs (cc_registry cc) (block_timestamp (last bs)))))"

lemma hm_get_retain_key: "hm_get (hm_retain (\<lambda>a _. P a) m) k = (if P k then hm_get m k else None)"
  by (induction m) (auto simp: hm_get_def hm_retain_def)

lemma rebuild_values:
  assumes "rebuild_balances_index c ser get (Some tip) idx = (Inr (), idx')"
  shows "\<exists>bs m recent. authentic c ser get (tip + 1) = Inr bs \<and> replay_blocks bs ([], []) = Inr (m, recent)
    \<and> marker idx' = Some tip \<and> (\<forall>a. bal (tree idx') a = bal m a)"
proof -
  obtain m recent where rr: "rebuild_replay (load_structurally_valid_canonical_block c ser get) [0..<tip + 1] None ([], []) = Inr (m, recent)"
    and idx': "idx' = idx\<lparr>tree := fold (\<lambda>(a, v). hm_insert a v) m (hm_retain (\<lambda>a _. hm_contains m a) (tree idx)), marker := Some tip\<rparr>"
    using assms by (auto simp: rebuild_balances_index_def Let_def simp del: upt_Suc split: sum.splits)
  from rr obtain bs where bs: "authentic c ser get (tip + 1) = Inr bs" "replay_blocks bs ([], []) = Inr (m, recent)"
    unfolding rebuild_replay_iff by blast
  have "hm_wf m" using block_wf.run_inv[OF _ _ bs(2)[unfolded replay_blocks_def]] by (simp add: hm_simps list_all_iff)
  then have "bal (tree idx') a = bal m a" for a
    by (simp add: idx' bal_def hm_get_fold_insert hm_get_retain_key hm_contains_def split: option.splits)
  with bs idx' show ?thesis by (intro exI[of _ bs] exI[of _ m] exI[of _ recent]) simp
qed

lemma rebuild_registry_covers:
  assumes "authentic c ser get (tip + 1) = Inr bs" "chain_facts bs"
    and "rebuild_confirmed_tx_index c ser get (Some tip) (Some (block_timestamp (last bs))) reg = (Inr (), reg')"
  shows "reg_covers bs reg' (block_timestamp (last bs))"
proof -
  let ?load = "load_structurally_valid_canonical_block c ser get" and ?t = "block_timestamp (last bs)"
  obtain batch irows where rows: "rebuild_rows ?load [0..<tip + 1] None ([], []) = Inr (batch, irows)"
    using assms(3) by (auto simp: rebuild_confirmed_tx_index_def Let_def simp del: upt_Suc split: sum.splits)
  from rebuild_rows_chain[OF rows] assms(1) have b: "batch = concat (map registry_rows bs)" "irows = concat (map index_rows bs)" by auto
  define reg1 where "reg1 = reg\<lparr>reg_built := False, reg_tree := apply_inserts (concat (map registry_rows bs)) [],
      reg_index := apply_inserts (concat (map index_rows bs)) []\<rparr>"
  have reg': "reg' = (prune_confirmed_txs ?t reg1)\<lparr>reg_built := True\<rparr>"
    using assms(3) rows b by (simp add: rebuild_confirmed_tx_index_def Let_def reg1_def del: upt_Suc)
  have ne: "bs \<noteq> []" using authentic_length[OF assms(1)] by auto
  then have t: "?t \<le> u64_max" using assms(2) by (auto simp: chain_facts_def last_conv_nth)
  have "reg_covers bs reg1 ?t"
    using fold_record_covers[of bs "\<lparr>reg_tree = [], reg_index = [], reg_built = False\<rparr>" ?t] assms(2)
    by (subst reg_covers_cong[of _ "fold record_confirmed_txs bs \<lparr>reg_tree = [], reg_index = [], reg_built = False\<rparr>"])
      (simp_all add: fold_record_trees reg1_def chain_facts_def)
  then have "reg_covers bs (prune_confirmed_txs ?t reg1) ?t" using reg_covers_prune t assms(2) by blast
  then show ?thesis unfolding reg' by (subst reg_covers_cong[of _ "prune_confirmed_txs ?t reg1"]) simp_all
qed

lemma rebuild_tip_ok:
  assumes "rebuild_chain_tip_metadata f cc = (Inr (), cc')"
  shows "cc_rows cc' = cc_rows cc \<and> highest_block_index cc' = highest_block_index_scan (cc_rows cc)
    \<and> (highest_block_index_scan (cc_rows cc) = None \<longrightarrow> cc_tip cc' = None)
    \<and> (\<forall>h. highest_block_index_scan (cc_rows cc) = Some h \<longrightarrow>
         (\<exists>b. hm_get (cc_rows cc) h = Some b \<and> cc_tip cc' = Some \<lparr>tip_height = h, tip_hash = hash b\<rparr>))"
proof (cases "highest_block_index_scan (cc_rows cc)")
  case None
  with assms have "cc' = cc\<lparr>cc_tip := None\<rparr>" by (cases "tip_write_fault f") (simp_all add: rebuild_chain_tip_metadata_def)
  with None show ?thesis by (simp add: highest_block_index_def)
next
  case (Some h)
  with assms obtain b where b: "hm_get (cc_rows cc) h = Some b"
    by (cases "hm_get (cc_rows cc) h") (simp_all add: rebuild_chain_tip_metadata_def)
  with Some assms have "cc' = cc\<lparr>cc_tip := Some \<lparr>tip_height = h, tip_hash = hash b\<rparr>\<rparr>"
    by (cases "tip_write_fault f") (simp_all add: rebuild_chain_tip_metadata_def)
  with Some b show ?thesis by (simp add: highest_block_index_def)
qed

lemma rebuild_chain_state_sound:
  assumes "rebuild_chain_state c ser f cc0 = (Inr (), cc')"
  shows "chain_consistent c ser cc'"
proof -
  obtain cc where tip: "rebuild_chain_tip_metadata f cc0 = (Inr (), cc)"
    using assms by (auto simp: rebuild_chain_state_def split: prod.splits sum.splits)
  note t = rebuild_tip_ok[OF tip]
  show ?thesis
  proof (cases "highest_block_index_scan (cc_rows cc0)")
    case None
    with t assms tip show ?thesis
      by (auto simp: rebuild_chain_state_def Let_def chain_consistent_def split: prod.splits sum.splits)
  next
    case (Some h)
    then obtain b where b: "hm_get (cc_rows cc) h = Some b" "cc_tip cc = Some \<lparr>tip_height = h, tip_hash = hash b\<rparr>" using t by auto
    have hi: "highest_block_index cc = Some h" "highest_block_index_scan (cc_rows cc) = Some h" using t Some by auto
    from assms tip hi b(1) obtain idx reg where
      idx: "ensure_balances_index_with_force c ser (hm_get (cc_rows cc)) (Some h) True True (cc_index cc) = (Inr (), idx)" and
      reg: "rebuild_confirmed_tx_index c ser (hm_get (cc_rows cc)) (Some h) (Some (block_timestamp b)) (cc_registry cc) = (Inr (), reg)" and
      cc': "cc' = cc\<lparr>cc_index := idx, cc_registry := reg\<rparr>"
      by (auto simp: rebuild_chain_state_def Let_def split: prod.splits sum.splits option.splits)
    from idx have "rebuild_balances_index c ser (hm_get (cc_rows cc)) (Some h) (cc_index cc) = (Inr (), idx)"
      by (auto simp: ensure_balances_index_with_force_def Let_def split: option.splits)
    from rebuild_values[OF this] obtain bs m recent where bs: "authentic c ser (hm_get (cc_rows cc)) (h + 1) = Inr bs"
      "replay_blocks bs ([], []) = Inr (m, recent)" "marker idx = Some h" "\<forall>a. bal (tree idx) a = bal m a" by blast
    have "b = last bs"
      using authentic_get[OF bs(1), of h] authentic_length[OF bs(1)] b(1) by (cases bs rule: rev_cases) (auto simp: nth_append)
    with bs b cc' hi rebuild_registry_covers[OF bs(1)] reg show ?thesis by (auto simp: chain_consistent_def)
  qed
qed

text \<open>The environments of the node: whatever fails, the rebuild is that of the chain.\<close>

definition chain_env :: "crypto \<Rightarrow> (transaction \<Rightarrow> string) \<Rightarrow> chain_content env \<Rightarrow> bool" where
  "chain_env c ser env \<longleftrightarrow> (\<exists>f. rebuild_derived env = rebuild_chain_state c ser f)"

interpretation chain: derived_state "chain_consistent c ser" "chain_env c ser"
  by unfold_locales (auto simp: chain_env_def rebuild_sound_def intro!: rebuild_chain_state_sound[OF prod_eqI])

section \<open>Theorem\<close>


definition empty_content :: chain_content where
  "empty_content = \<lparr>cc_rows = [], cc_tip = None, cc_index = \<lparr>tree = [], marker = None\<rparr>,
     cc_registry = \<lparr>reg_tree = [], reg_index = [], reg_built = False\<rparr>\<rparr>"

definition calm_env :: "crypto \<Rightarrow> (transaction \<Rightarrow> string) \<Rightarrow> chain_content env" where
  "calm_env c ser = \<lparr>dropped1 = 0, dropped2 = 0, dropped3 = 0, read_fault = None, flush_fault = None, write_fault = None, sync_fault = None,
     rebuild_derived = rebuild_chain_state c ser \<lparr>tip_write_fault = None, tip_flush_fault = None, index_fault = None, registry_fault = None\<rparr>\<rparr>"

definition node_of :: "nat \<Rightarrow> bool \<Rightarrow> chain_content chain_node" where
  "node_of d op = \<lparr>nd_db = \<lparr>visible = \<lparr>im_marker = None, im_content = empty_content\<rparr>, durable = \<lparr>im_marker = None, im_content = empty_content\<rparr>\<rparr>,
     nd_batch = \<lparr>depth = d, marked = False, unbalanced_marks = 0, opened_this_process = op\<rparr>\<rparr>"


text \<open>A chain that authenticates and replays is rebuilt when nothing fails.\<close>

lemma rebuild_rows_total:
  "load_chain load hs prev = Inr bs \<Longrightarrow> \<exists>r. rebuild_rows load hs prev st = Inr r"
proof (induction hs arbitrary: prev bs st)
  case (Cons h hs)
  then obtain b bs' where "load h prev = Inr b" "load_chain load hs (Some b) = Inr bs'" by (auto simp: result_simps)
  with Cons.IH show ?case by (cases st) auto
qed (cases st, simp)

lemma rebuild_chain_state_total:
  assumes "highest_block_index_scan (cc_rows cc) = Some h" and bs: "authentic c ser (hm_get (cc_rows cc)) (h + 1) = Inr bs"
    and "replay_blocks bs ([], []) = Inr st"
  shows "fst (rebuild_chain_state c ser \<lparr>tip_write_fault = None, tip_flush_fault = None, index_fault = None, registry_fault = None\<rparr> cc) = Inr ()"
proof -
  let ?f = "\<lparr>tip_write_fault = None, tip_flush_fault = None, index_fault = None, registry_fault = None\<rparr> :: rebuild_faults"
  have b: "hm_get (cc_rows cc) h = Some (bs ! h)" using authentic_get[OF bs] by simp
  let ?cc = "cc\<lparr>cc_tip := Some \<lparr>tip_height = h, tip_hash = hash (bs ! h)\<rparr>\<rparr>"
  have tip: "rebuild_chain_tip_metadata ?f cc = (Inr (), ?cc)" using assms(1) b by (simp add: rebuild_chain_tip_metadata_def)
  have hi: "highest_block_index ?cc = Some h" using b by (simp add: highest_block_index_def)
  have rr: "rebuild_replay (load_structurally_valid_canonical_block c ser (hm_get (cc_rows cc))) [0..<h + 1] None ([], []) = Inr st"
    using bs assms(3) unfolding rebuild_replay_iff by blast
  have "fst (rebuild_balances_index c ser (hm_get (cc_rows cc)) (Some h) (cc_index cc)) = Inr ()"
    unfolding rebuild_balances_index_def Let_def option.case rr by (cases st) simp
  moreover have "ensure_balances_index_with_force c ser (hm_get (cc_rows cc)) (Some h) True True (cc_index cc)
      = rebuild_balances_index c ser (hm_get (cc_rows cc)) (Some h) (cc_index cc)"
    by (simp add: ensure_balances_index_with_force_def Let_def split: option.splits)
  ultimately obtain idx where idx: "ensure_balances_index_with_force c ser (hm_get (cc_rows cc)) (Some h) True True (cc_index cc) = (Inr (), idx)"
    by (metis prod.collapse)
  obtain r where "rebuild_rows (load_structurally_valid_canonical_block c ser (hm_get (cc_rows cc))) [0..<h + 1] None ([], []) = Inr r"
    using rebuild_rows_total[OF bs] by blast
  then have "fst (rebuild_confirmed_tx_index c ser (hm_get (cc_rows cc)) (Some h) t reg) = Inr ()" for t reg
    by (cases r) (simp add: rebuild_confirmed_tx_index_def Let_def del: upt_Suc)
  then show ?thesis using tip hi idx by (simp add: rebuild_chain_state_def Let_def case_prod_unfold)
qed


definition torn_content :: chain_content where
  "torn_content = empty_content\<lparr>cc_rows := [(0, flat_block (sample_txs 0) 0)]\<rparr>"

definition torn_marker :: chain_state_dirty where
  "torn_marker = \<lparr>dm_block_index = 0, dm_reason = ''persist_block'', dm_marked_at = 7\<rparr>"

text \<open>A block whose row was written, with the balances and the registry still empty, when the node stopped.\<close>

definition torn_node :: "chain_content chain_node" where
  "torn_node = (node_of 0 False)\<lparr>nd_db := \<lparr>visible = \<lparr>im_marker = Some torn_marker, im_content = torn_content\<rparr>,
     durable = \<lparr>im_marker = Some torn_marker, im_content = torn_content\<rparr>\<rparr>\<rparr>"

lemma torn_authentic: "authentic flat_crypto ser (hm_get (cc_rows torn_content)) (0 + 1) = Inr [flat_block (sample_txs 0) 0]"
proof -
  have "load_structurally_valid_canonical_block flat_crypto ser (hm_get (cc_rows torn_content)) 0 None
      = load_structurally_valid_canonical_block flat_crypto ser sample_get 0 None"
    by (simp add: load_structurally_valid_canonical_block_def torn_content_def hm_get_def sample_get_def)
  then show ?thesis using sample_load[of None ser 0] by simp
qed

lemma torn_run:
  "window_run (chain_consistent flat_crypto ser) (chain_env flat_crypto ser) (torn_node, Applying False)"
proof -
  let ?good = "chain_consistent flat_crypto ser" and ?ok = "chain_env flat_crypto ser" and ?env = "calm_env flat_crypto ser"
  let ?n1 = "(node_of 0 False)\<lparr>nd_db := \<lparr>visible = \<lparr>im_marker = Some torn_marker, im_content = empty_content\<rparr>,
     durable = \<lparr>im_marker = Some torn_marker, im_content = empty_content\<rparr>\<rparr>\<rparr>"
  have env: "?ok ?env" by (auto simp: chain_env_def calm_env_def)
  have "window_run ?good ?ok (node_of 0 False, Idle)"
    unfolding node_of_def by (rule window_run.fresh) (simp add: chain_consistent_def empty_content_def highest_block_index_scan_def)
  moreover have "reconcile_chain_state_if_dirty ?env (node_of 0 False) = (Inr (), node_of 0 False)"
    by (simp add: reconcile_chain_state_if_dirty_def Let_def window_defs node_of_def calm_env_def)
  then have "window_step ?good ?ok (node_of 0 False, Idle) (node_of 0 False, Ready)"
    by (rule window_step.w_reconciled[where env_ok = ?ok and env = ?env, OF env])
  ultimately have ready: "window_run ?good ?ok (node_of 0 False, Ready)" by (rule window_run.more)
  have "mark_chain_state_dirty ?env torn_marker (node_of 0 False) = (Inr (), ?n1)" "dm_reason torn_marker \<noteq> receipt_batch"
    "\<not> apply_batch_open (drop_windows (dropped1 ?env) (node_of 0 False))"
    by (simp_all add: mark_chain_state_dirty_def write_dirty_marker_def Let_def window_defs node_of_def calm_env_def torn_marker_def receipt_batch_def)
  then have "window_step ?good ?ok (node_of 0 False, Ready) (?n1, Applying False)"
    using window_step.w_mark[of torn_marker ?env "node_of 0 False" ?n1 ?good ?ok] by simp
  with ready have "window_run ?good ?ok (?n1, Applying False)" by (rule window_run.more)
  from window_run.more[OF window_run.more[OF this window_step.w_mutate[of ?good ?ok ?n1 False torn_content]] window_step.w_flush]
  show ?thesis by (simp add: set_content_def torn_node_def)
qed


end
