(* ===== verification/A9_Store_Props.thy ===== *)
theory A9_Store_Props
  imports A9_Store
begin

text \<open>
  What the scans of the store give.  The locale \<open>page_cursor\<close> states what one page of a scan
  promises, forwards or backwards; its lemmas say what a run of \<open>next\<close> calls yields when
  every page reads another state of the table, and when the table stands still.  The contract of the
  engine makes the two scans of the code cursors (\<open>sublocale\<close>), and the contract holds of
  the association lists that model a tree in the other components (\<open>interpretation\<close>).
\<close>

section \<open>Byte order\<close>

lemma char_ge_0 [simp]: "\<not> c < CHR 0x00"
  by (simp add: less_char_def)

lemma char_le_FF [simp]: "c \<le> CHR 0xFF"
proof -
  have "of_char c < (256 :: nat)" by simp
  then have "of_char c \<le> (255 :: nat)" by linarith
  then show ?thesis by (simp add: less_eq_char_def)
qed

lemma not_less_FF: "\<not> c < CHR 0xFF \<longleftrightarrow> c = CHR 0xFF"
  using char_le_FF[of c] by (auto simp: order.order_iff_strict)

lemma less_succ_key: "k < succ_key x \<longleftrightarrow> k \<le> x"
proof (induction k arbitrary: x)
  case Nil
  then show ?case by (cases x) (auto simp: succ_key_def)
next
  case (Cons c k)
  then show ?case by (cases x) (auto simp: succ_key_def)
qed

lemma succ_key_le: "succ_key x \<le> k \<longleftrightarrow> x < k"
  using less_succ_key[of k x] by (metis not_le)

lemma append_le_cancel: "p @ x \<le> p @ y \<longleftrightarrow> x \<le> (y :: string)"
  by (induction p) auto

lemma append_less_cancel: "p @ x < p @ y \<longleftrightarrow> x < (y :: string)"
  by (induction p) auto

lemma prefix_le: "prefix p k \<Longrightarrow> p \<le> (k :: string)"
  using append_le_cancel[of p "[]"] by (auto simp: prefix_def)

lemma byte_succ_less: "b < CHR 0xFF \<Longrightarrow> c < byte_succ b \<longleftrightarrow> c \<le> b"
  by (simp add: byte_succ_def less_char_def less_eq_char_def less_Suc_eq_le)

lemma prefix_last_byte:
  assumes "b < CHR 0xFF"
  shows "prefix (q @ [b]) k \<longleftrightarrow> q @ [b] \<le> k \<and> k < q @ [byte_succ b]"
proof (induction q arbitrary: k)
  case Nil
  show ?case
  proof (cases k)
    case (Cons c cs)
    have "[b] \<le> c # cs \<longleftrightarrow> b \<le> c" "c # cs < [byte_succ b] \<longleftrightarrow> c < byte_succ b" by auto
    then show ?thesis using byte_succ_less[OF assms, of c] unfolding Cons by auto
  qed simp
next
  case (Cons c q)
  show ?case
  proof (cases k)
    case k: (Cons d ds)
    show ?thesis
    proof (cases "c = d")
      case True
      with Cons.IH[of ds] show ?thesis unfolding k append_Cons Cons_prefix_Cons Cons_le_Cons Cons_less_Cons by simp
    next
      case False
      then show ?thesis unfolding k append_Cons Cons_prefix_Cons Cons_le_Cons Cons_less_Cons using less_asym by blast
    qed
  qed simp
qed

text \<open>The bounds of a prefix scan select the keys with the prefix.\<close>

lemma prefix_end_exact: "prefix p k \<longleftrightarrow> p \<le> k \<and> below (prefix_end p) k"
proof (induction p rule: rev_induct)
  case Nil
  then show ?case by (simp add: prefix_end.simps)
next
  case (snoc b q)
  show ?case
  proof (cases "b < CHR 0xFF")
    case True
    then show ?thesis using prefix_last_byte by (subst prefix_end.simps) simp
  next
    case False
    then have b: "b = CHR 0xFF" using char_le_FF[of b] by simp
    have e: "prefix_end (q @ [b]) = prefix_end q" using b by (subst prefix_end.simps) simp
    show ?thesis
    proof
      assume "prefix (q @ [b]) k"
      then show "q @ [b] \<le> k \<and> below (prefix_end (q @ [b])) k"
        using snoc prefix_le e by (auto dest: append_prefixD)
    next
      assume k: "q @ [b] \<le> k \<and> below (prefix_end (q @ [b])) k"
      have "q \<le> q @ [b]" using append_le_cancel[of q "[]" "[b]"] by simp
      with k e snoc have "prefix q k" by auto
      then obtain r where r: "k = q @ r" by (auto simp: prefix_def)
      with k have "[b] \<le> r" by (simp add: append_le_cancel)
      then have "r \<noteq> []" "hd r = b" using b not_less_FF[of "hd r"] by (cases r; force)+
      with r show "prefix (q @ [b]) k" by (cases r) auto
    qed
  qed
qed

lemma prefix_range_ok: "range_ok p (prefix_end p)"
  using prefix_end_exact[of p p] by (cases "prefix_end p") auto

section \<open>Paging\<close>

text \<open>A scan as a cursor: whether it still reads, the window that is left, and the rest of the page.\<close>

type_synonym 'w cursor = "bool \<times> 'w \<times> kv list"
type_synonym item = "(store_error + kv) option"

definition cursor_next :: "('w \<Rightarrow> 's \<Rightarrow> store_error + kv list) \<Rightarrow> (kv list \<Rightarrow> 'w \<Rightarrow> 'w) \<Rightarrow> 's \<Rightarrow> 'w cursor \<Rightarrow> item \<times> 'w cursor" where
  "cursor_next page move s c =
     (case c of
        (live, w, pair # rest) \<Rightarrow> (Some (Inr pair), live, w, rest)
      | (live, w, []) \<Rightarrow>
          if \<not> live then (None, live, w, [])
          else case page w s of
                 Inl e \<Rightarrow> (Some (Inl e), False, w, [])
               | Inr [] \<Rightarrow> (None, False, w, [])
               | Inr (pair # rest) \<Rightarrow> (Some (Inr pair), live, move (pair # rest) w, rest))"

text \<open>Calls of \<open>next\<close>, one for each state of the table.\<close>

fun run_next :: "('s \<Rightarrow> 'c \<Rightarrow> 'i \<times> 'c) \<Rightarrow> 's list \<Rightarrow> 'c \<Rightarrow> 'i list" where
  "run_next f [] c = []"
| "run_next f (s # ss) c = fst (f s c) # run_next f ss (snd (f s c))"

definition entries_of :: "item list \<Rightarrow> kv list" where
  "entries_of is = List.map_filter (\<lambda>i. case i of Some (Inr x) \<Rightarrow> Some x | _ \<Rightarrow> None) is"

definition no_error :: "item list \<Rightarrow> bool" where
  "no_error is \<longleftrightarrow> (\<forall>e. Some (Inl e) \<notin> set is)"

lemma entries_of_simps [simp]:
  "entries_of [] = []" "entries_of (None # is) = entries_of is"
  "entries_of (Some (Inl e) # is) = entries_of is" "entries_of (Some (Inr x) # is) = x # entries_of is"
  by (simp_all add: entries_of_def map_filter_simps)

lemma no_error_simps [simp]:
  "no_error []" "no_error (None # is) = no_error is" "\<not> no_error (Some (Inl e) # is)" "no_error (Some (Inr x) # is) = no_error is"
  by (auto simp: no_error_def)

lemma length_run [simp]: "length (run_next f ss c) = length ss"
  by (induction ss arbitrary: c) simp_all

lemma sorted_wrt_unique:
  assumes "\<And>x. \<not> lt x x" and "\<And>x y z. lt x y \<Longrightarrow> lt y z \<Longrightarrow> lt x z"
  shows "sorted_wrt lt xs \<Longrightarrow> sorted_wrt lt ys \<Longrightarrow> set xs = set ys \<Longrightarrow> xs = ys"
proof (induction xs arbitrary: ys)
  case (Cons x xs)
  then obtain y ys' where ys: "ys = y # ys'" by (cases ys) auto
  have "x = y"
  proof (rule ccontr)
    assume "x \<noteq> y"
    with Cons.prems ys have "lt x y" "lt y x" by auto
    with assms show False by blast
  qed
  moreover have "x \<notin> set xs" "x \<notin> set ys'" using Cons.prems ys \<open>x = y\<close> assms(1) by auto
  then have "set xs = set ys'" using Cons.prems(3) ys \<open>x = y\<close> by (simp add: insert_ident)
  ultimately show ?case using Cons ys by simp
qed simp

lemma sorted_wrt_distinct: "(\<And>x. \<not> lt x x) \<Longrightarrow> sorted_wrt lt xs \<Longrightarrow> distinct xs"
  by (induction xs) auto

locale page_cursor =
  fixes page :: "'w \<Rightarrow> 's \<Rightarrow> store_error + kv list" and move :: "kv list \<Rightarrow> 'w \<Rightarrow> 'w"
    and window_ok :: "'w \<Rightarrow> bool" and inside :: "'w \<Rightarrow> bytes \<Rightarrow> bool"
    and before :: "bytes \<Rightarrow> bytes \<Rightarrow> bool" and rows :: "'s \<Rightarrow> bytes \<Rightarrow> bytes option"
  assumes before_irrefl: "\<not> before k k" and before_trans: "before k l \<Longrightarrow> before l m \<Longrightarrow> before k m"
    and page_sorted: "window_ok w \<Longrightarrow> page w s = Inr xs \<Longrightarrow> sorted_wrt before (map fst xs)"
    and page_rows: "window_ok w \<Longrightarrow> page w s = Inr xs \<Longrightarrow> (k, v) \<in> set xs \<Longrightarrow> inside w k \<and> rows s k = Some v"
    and page_end: "window_ok w \<Longrightarrow> page w s = Inr [] \<Longrightarrow> inside w k \<Longrightarrow> rows s k = None"
    and page_covers: "window_ok w \<Longrightarrow> page w s = Inr xs \<Longrightarrow> xs \<noteq> [] \<Longrightarrow> inside w k \<Longrightarrow> rows s k = Some v
      \<Longrightarrow> (k, v) \<in> set xs \<or> before (fst (last xs)) k"
    and move_ok: "window_ok w \<Longrightarrow> page w s = Inr xs \<Longrightarrow> xs \<noteq> [] \<Longrightarrow> window_ok (move xs w)"
    and move_inside: "window_ok w \<Longrightarrow> page w s = Inr xs \<Longrightarrow> xs \<noteq> []
      \<Longrightarrow> inside (move xs w) k \<longleftrightarrow> inside w k \<and> before (fst (last xs)) k"
begin

text \<open>The invariant of a scan of the window \<open>W\<close> that has read the states \<open>seen\<close> and yielded \<open>out\<close>.\<close>

definition scan_inv :: "'w \<Rightarrow> 's set \<Rightarrow> kv list \<Rightarrow> 'w cursor \<Rightarrow> bool" where
  "scan_inv W seen out c \<longleftrightarrow> (case c of (live, w, buf) \<Rightarrow>
     window_ok w \<and> sorted_wrt before (map fst (out @ buf))
     \<and> (\<forall>(k, v) \<in> set (out @ buf). inside W k \<and> (\<exists>s \<in> seen. rows s k = Some v))
     \<and> (\<forall>k. inside w k \<longrightarrow> inside W k \<and> (\<forall>x \<in> set (out @ buf). before (fst x) k))
     \<and> (\<forall>k. inside W k \<longrightarrow> \<not> inside w k \<longrightarrow> (\<forall>s \<in> seen. rows s k \<noteq> None) \<longrightarrow> k \<in> fst ` set (out @ buf)))"

lemma scan_inv_start: "window_ok W \<Longrightarrow> scan_inv W {} [] (True, W, [])"
  by (simp add: scan_inv_def)

lemma scan_inv_mono: "scan_inv W seen out c \<Longrightarrow> scan_inv W (insert s seen) out c"
  by (cases c) (fastforce simp: scan_inv_def)

lemma before_last: "sorted_wrt before (map fst xs) \<Longrightarrow> x \<in> set xs \<Longrightarrow> before (fst (last xs)) k \<Longrightarrow> before (fst x) k"
  by (induction xs) (auto split: if_splits intro: before_trans)

lemma scan_inv_page:
  assumes "scan_inv W seen out (True, w, [])" and p: "page w s = Inr xs" "xs \<noteq> []"
  shows "scan_inv W (insert s seen) out (True, move xs w, xs)"
proof -
  have inv: "window_ok w" "sorted_wrt before (map fst out)"
    "\<And>k v. (k, v) \<in> set out \<Longrightarrow> inside W k \<and> (\<exists>s \<in> seen. rows s k = Some v)"
    "\<And>k. inside w k \<Longrightarrow> inside W k \<and> (\<forall>x \<in> set out. before (fst x) k)"
    "\<And>k. inside W k \<Longrightarrow> \<not> inside w k \<Longrightarrow> (\<forall>s \<in> seen. rows s k \<noteq> None) \<Longrightarrow> k \<in> fst ` set out"
    using assms(1) by (auto simp: scan_inv_def)
  have sorted: "sorted_wrt before (map fst (out @ xs))"
    using inv(2,4) page_sorted[OF inv(1) p(1)] page_rows[OF inv(1) p(1)] by (fastforce simp: sorted_wrt_append)
  have left: "inside W k \<and> (\<forall>x \<in> set (out @ xs). before (fst x) k)" if "inside (move xs w) k" for k
    using that inv(4)[of k] move_inside[OF inv(1) p, of k] before_last[OF page_sorted[OF inv(1) p(1)]] by auto
  have gone: "k \<in> fst ` set (out @ xs)"
    if k: "inside W k" "\<not> inside (move xs w) k" "\<forall>s \<in> insert s seen. rows s k \<noteq> None" for k
  proof (cases "inside w k")
    case True
    from k(3) obtain v where "rows s k = Some v" by auto
    with True k(2) page_covers[OF inv(1) p True this] move_inside[OF inv(1) p, of k] show ?thesis by force
  next
    case False
    with inv(5) k show ?thesis by auto
  qed
  show ?thesis
    unfolding scan_inv_def using sorted left gone inv(3,4) page_rows[OF inv(1) p(1)] move_ok[OF inv(1) p] by auto
qed

lemma scan_inv_step:
  assumes "scan_inv W seen out c"
  shows "scan_inv W (insert s seen) (out @ entries_of [fst (cursor_next page move s c)]) (snd (cursor_next page move s c))"
proof -
  obtain live w buf where c: "c = (live, w, buf)" by (cases c)
  note inv = scan_inv_mono[OF assms, of s]
  show ?thesis
  proof (cases buf)
    case (Cons x xs)
    with inv c show ?thesis by (simp add: cursor_next_def scan_inv_def)
  next
    case Nil
    show ?thesis
    proof (cases "live \<and> (\<exists>x xs. page w s = Inr (x # xs))")
      case True
      then obtain x xs where p: "page w s = Inr (x # xs)" and live: "live" by blast
      from scan_inv_page[OF _ p, of W seen out] assms Nil c live
      have "scan_inv W (insert s seen) out (True, move (x # xs) w, x # xs)" by simp
      with p live Nil c show ?thesis by (simp add: cursor_next_def scan_inv_def)
    next
      case False
      with inv c Nil show ?thesis
        by (auto simp: cursor_next_def scan_inv_def split: sum.splits list.splits)
    qed
  qed
qed

lemma scan_inv_run:
  "scan_inv W seen out c \<Longrightarrow> \<exists>c'. scan_inv W (seen \<union> set ss) (out @ entries_of (run_next (cursor_next page move) ss c)) c'"
proof (induction ss arbitrary: seen out c)
  case Nil
  then show ?case by (intro exI[of _ c]) simp
next
  case (Cons s ss)
  let ?n = "cursor_next page move s c"
  have "entries_of (run_next (cursor_next page move) (s # ss) c)
      = entries_of [fst ?n] @ entries_of (run_next (cursor_next page move) ss (snd ?n))"
    by (simp add: entries_of_def map_filter_simps split: option.splits)
  with Cons.IH[OF scan_inv_step[OF Cons.prems, of s]] show ?case by simp
qed

text \<open>A scan that ended without an error has passed over its whole window.\<close>

lemma scan_complete:
  assumes "scan_inv W seen out (True, w, buf)" and "None \<in> set (run_next (cursor_next page move) ss (True, w, buf))"
    and "no_error (run_next (cursor_next page move) ss (True, w, buf))"
    and "inside W k" "\<forall>s \<in> seen \<union> set ss. rows s k \<noteq> None"
  shows "k \<in> fst ` set (out @ entries_of (run_next (cursor_next page move) ss (True, w, buf)))"
  using assms
proof (induction ss arbitrary: seen out w buf)
  case (Cons s ss)
  let ?n = "cursor_next page move s (True, w, buf)"
  have inv: "scan_inv W (insert s seen) (out @ entries_of [fst ?n]) (snd ?n)" by (rule scan_inv_step[OF Cons.prems(1)])
  show ?case
  proof (cases "fst ?n")
    case None
    then have p: "buf = []" "page w s = Inr []" by (auto simp: cursor_next_def split: list.splits sum.splits)
    have "window_ok w" using Cons.prems(1) by (simp add: scan_inv_def)
    with page_end[OF this p(2)] Cons.prems(5) have "\<not> inside w k" by auto
    with Cons.prems(1,4,5) p(1) show ?thesis by (auto simp: scan_inv_def)
  next
    case (Some r)
    with Cons.prems(3) obtain x where x: "fst ?n = Some (Inr x)" by (cases r) auto
    then obtain w' buf' where c: "snd ?n = (True, w', buf')" by (auto simp: cursor_next_def split: list.splits sum.splits)
    from x c Cons.prems Cons.IH[of "insert s seen" "out @ [x]" w' buf'] inv show ?thesis by simp
  qed
qed simp

lemma run_dead: "run_next (cursor_next page move) ss (False, w, []) = replicate (length ss) None"
  by (induction ss) (simp_all add: cursor_next_def)

lemma run_shape:
  assumes "no_error (run_next (cursor_next page move) ss (True, w, buf))"
  shows "\<exists>m. run_next (cursor_next page move) ss (True, w, buf)
    = map (\<lambda>x. Some (Inr x)) (entries_of (run_next (cursor_next page move) ss (True, w, buf))) @ replicate m None"
  using assms
proof (induction ss arbitrary: w buf)
  case (Cons s ss)
  let ?n = "cursor_next page move s (True, w, buf)"
  show ?case
  proof (cases "fst ?n")
    case None
    then have "snd ?n = (False, w, [])" by (auto simp: cursor_next_def split: list.splits sum.splits)
    with None show ?thesis
      by (intro exI[of _ "Suc (length ss)"]) (simp add: run_dead entries_of_def map_filter_def)
  next
    case (Some r)
    with Cons.prems obtain x where x: "fst ?n = Some (Inr x)" by (cases r) auto
    then obtain w' buf' where c: "snd ?n = (True, w', buf')" by (auto simp: cursor_next_def split: list.splits sum.splits)
    from x c Cons.prems Cons.IH[of w' buf'] show ?thesis by simp
  qed
qed simp

lemma run_no_error:
  "(\<And>w s. s \<in> set ss \<Longrightarrow> \<exists>xs. page w s = Inr xs) \<Longrightarrow> no_error (run_next (cursor_next page move) ss (live, w, buf))"
proof (induction ss arbitrary: live w buf)
  case (Cons s ss)
  obtain xs where xs: "page w s = Inr xs" using Cons.prems by auto
  obtain i l' w' b' where n: "cursor_next page move s (live, w, buf) = (i, l', w', b')" by (metis prod.exhaust)
  then have "i = None \<or> (\<exists>x. i = Some (Inr x))" using xs by (auto simp: cursor_next_def split: list.splits if_splits)
  with n Cons.IH[of l' w' b'] Cons.prems show ?case by auto
qed simp

text \<open>On a table that stands still the scan yields its entries, then the end.\<close>

lemma scan_exact:
  assumes W: "window_ok W" and still: "\<And>s. s \<in> set ss \<Longrightarrow> rows s = M" "\<And>w s. s \<in> set ss \<Longrightarrow> \<exists>xs. page w s = Inr xs"
    and es: "sorted_wrt before (map fst es)" "\<And>k v. (k, v) \<in> set es \<longleftrightarrow> inside W k \<and> M k = Some v"
    and len: "length ss = Suc (length es)"
  shows "run_next (cursor_next page move) ss (True, W, []) = map (\<lambda>x. Some (Inr x)) es @ [None]"
proof -
  let ?is = "run_next (cursor_next page move) ss (True, W, [])" and ?out = "entries_of (run_next (cursor_next page move) ss (True, W, []))"
  have ne: "no_error ?is" by (rule run_no_error) (use still(2) in blast)
  obtain m where m: "?is = map (\<lambda>x. Some (Inr x)) ?out @ replicate m None" using run_shape[OF ne] by blast
  obtain c where "scan_inv W (set ss) ?out c" using scan_inv_run[OF scan_inv_start[OF W], of ss] by auto
  then have out: "sorted_wrt before (map fst ?out)" "\<And>k v. (k, v) \<in> set ?out \<Longrightarrow> inside W k \<and> M k = Some v"
    using still(1) by (cases c; fastforce simp: scan_inv_def sorted_wrt_append)+
  have "distinct ?out" using sorted_wrt_distinct[OF before_irrefl out(1)] by (simp add: distinct_map)
  moreover have "set ?out \<subseteq> set es" using out(2) es(2) by auto
  ultimately have "length ?out \<le> length es" by (metis card_mono distinct_card finite_set card_length order_trans)
  with len arg_cong[OF m, of length] have "m \<noteq> 0" by simp
  with arg_cong[OF m, of set] have "None \<in> set ?is" by simp
  from scan_complete[OF scan_inv_start[OF W] this ne] have "k \<in> fst ` set ?out" if "inside W k" "M k \<noteq> None" for k
    using that still(1) by auto
  then have "set (map fst ?out) = set (map fst es)" using out(2) es(2) by fastforce
  from sorted_wrt_unique[OF before_irrefl before_trans out(1) es(1) this] have keys: "map fst ?out = map fst es" .
  have vals: "map (\<lambda>k. (k, the (M k))) (map fst xs) = xs" if "\<And>k v. (k, v) \<in> set xs \<Longrightarrow> M k = Some v" for xs
    unfolding map_map by (rule map_idI) (use that in force)
  have "?out = map (\<lambda>k. (k, the (M k))) (map fst ?out)" by (rule vals[symmetric]) (use out(2) in blast)
  also have "\<dots> = es" unfolding keys by (rule vals) (use es(2) in blast)
  finally have "?out = es" .
  moreover from this len arg_cong[OF m, of length] have "m = 1" by simp
  ultimately show ?thesis using m by simp
qed

end

section \<open>The scans of the code are cursors\<close>

lemma fill_page_prefix:
  "fill_page items n out = Inr res \<Longrightarrow> \<exists>ys. res = out @ ys \<and> prefix (map Inr ys) items \<and> (ys = [] \<longrightarrow> items = [])"
proof (induction items n out rule: fill_page.induct)
  case (3 k v items n out)
  show ?case
  proof (cases "n + (length k + length v) \<ge> PAGE_BYTE_BUDGET")
    case True
    with "3.prems" show ?thesis by (intro exI[of _ "[(k, v)]"]) simp
  next
    case False
    with "3.prems" "3.IH"[OF refl refl] obtain ys where "res = (out @ [(k, v)]) @ ys" "prefix (map Inr ys) items"
      by (auto simp: Let_def)
    then show ?thesis by (intro exI[of _ "(k, v) # ys"]) simp
  qed
qed simp_all

lemma prefix_map_Inr: "prefix (map Inr ys) (map Inr xs @ zs) \<Longrightarrow> (\<And>z. z \<in> set zs \<Longrightarrow> \<exists>e. z = Inl e) \<Longrightarrow> prefix ys xs"
proof (induction ys arbitrary: xs)
  case (Cons y ys)
  then show ?case
  proof (cases xs)
    case Nil
    with Cons.prems show ?thesis by (cases zs) fastforce+
  qed auto
qed simp

lemma page_prefix:
  assumes "fill_page (take l (read_items f xs)) 0 [] = Inr ys" and "0 < l"
  shows "prefix ys xs \<and> (ys = [] \<longrightarrow> xs = [])"
proof -
  from fill_page_prefix[OF assms(1)] have p: "prefix (map Inr ys) (take l (read_items f xs))"
    and e: "ys = [] \<longrightarrow> take l (read_items f xs) = []" by auto
  from p have p': "prefix (map Inr ys) (read_items f xs)" using take_is_prefix prefix_order.trans by blast
  show ?thesis
  proof (cases f)
    case None
    with p' e assms(2) prefix_map_Inr[of ys xs "[]"] show ?thesis by simp
  next
    case (Some ne)
    then obtain n e' where f: "f = Some (n, e')" by (cases ne) auto
    with p' have "prefix ys (take n xs)" using prefix_map_Inr[of ys "take n xs" "[Inl e']"] by auto
    then have "prefix ys xs" using take_is_prefix prefix_order.trans by blast
    with e f assms(2) show ?thesis by auto
  qed
qed

lemma page_total: "\<exists>ys. fill_page (map Inr xs) n out = Inr ys"
  by (induction xs arbitrary: n out) (auto simp: Let_def)

lemma prefix_covers:
  assumes "sorted_wrt lt (map fst xs)" "prefix ys xs" "ys \<noteq> []" "x \<in> set xs"
  shows "x \<in> set ys \<or> lt (fst (last ys)) (fst x)"
  using assms by (auto simp: prefix_def sorted_wrt_append)

definition fwd_page :: "'t redb \<Rightarrow> bytes \<times> bytes option \<Rightarrow> 't snapshot \<Rightarrow> store_error + kv list" where
  "fwd_page R w s = range_page R s (fst w) (snd w) PAGE"

definition fwd_move :: "kv list \<Rightarrow> bytes \<times> bytes option \<Rightarrow> bytes \<times> bytes option" where
  "fwd_move xs w = (succ_key (fst (last xs)), snd w)"

definition bwd_page :: "'t redb \<Rightarrow> bytes \<times> bytes option \<Rightarrow> 't snapshot \<Rightarrow> store_error + kv list" where
  "bwd_page R w s = range_page_rev R s (fst w) (snd w) PAGE"

definition bwd_move :: "kv list \<Rightarrow> bytes \<times> bytes option \<Rightarrow> bytes \<times> bytes option" where
  "bwd_move xs w = (fst w, Some (fst (last xs)))"

definition bounds_ok :: "bytes \<times> bytes option \<Rightarrow> bool" where
  "bounds_ok w = range_ok (fst w) (snd w)"

definition inside_range :: "bytes \<times> bytes option \<Rightarrow> bytes \<Rightarrow> bool" where
  "inside_range w k \<longleftrightarrow> fst w \<le> k \<and> below (snd w) k"

definition snap_rows :: "'t redb \<Rightarrow> 't snapshot \<Rightarrow> bytes \<Rightarrow> bytes option" where
  "snap_rows R s k = (case fst s of None \<Rightarrow> None | Some t \<Rightarrow> rd_get R t k)"

lemma PAGE_pos [simp]: "0 < PAGE"
  by (simp add: PAGE_def)

context redb_contract
begin

lemma fwd_page_cases:
  assumes "bounds_ok w" "fwd_page R w s = Inr xs"
  obtains L where "prefix xs L" "xs = [] \<longrightarrow> L = []" "sorted_wrt (<) (map fst L)"
    "\<And>k v. (k, v) \<in> set L \<longleftrightarrow> inside_range w k \<and> snap_rows R s k = Some v"
proof (cases "fst s")
  case None
  with assms that[of "[]"] show ?thesis by (cases s) (auto simp: fwd_page_def range_page_def snap_rows_def)
next
  case (Some t)
  with assms page_prefix[of PAGE "snd s" "rd_range R t (fst w) (snd w)" xs] that[of "rd_range R t (fst w) (snd w)"]
    range_ordered[of "fst w" "snd w" t] range_exact[of "fst w" "snd w" _ _ t]
  show ?thesis by (cases s) (auto simp: fwd_page_def range_page_def snap_rows_def bounds_ok_def inside_range_def)
qed

lemma bwd_page_cases:
  assumes "bounds_ok w" "bwd_page R w s = Inr xs"
  obtains L where "prefix xs L" "xs = [] \<longrightarrow> L = []" "sorted_wrt (>) (map fst L)"
    "\<And>k v. (k, v) \<in> set L \<longleftrightarrow> inside_range w k \<and> snap_rows R s k = Some v"
proof (cases "fst s")
  case None
  with assms that[of "[]"] show ?thesis by (cases s) (auto simp: bwd_page_def range_page_rev_def snap_rows_def)
next
  case (Some t)
  with assms page_prefix[of PAGE "snd s" "rev (rd_range R t (fst w) (snd w))" xs] that[of "rev (rd_range R t (fst w) (snd w))"]
    range_ordered[of "fst w" "snd w" t] range_exact[of "fst w" "snd w" _ _ t]
  show ?thesis
    by (cases s) (auto simp: bwd_page_def range_page_rev_def snap_rows_def bounds_ok_def inside_range_def sorted_wrt_rev simp flip: rev_map)
qed

end

sublocale redb_contract \<subseteq> fwd: page_cursor "fwd_page R" fwd_move bounds_ok inside_range "(<)" "snap_rows R"
proof (unfold_locales, goal_cases)
  case (3 w s xs)
  then show ?case by (rule fwd_page_cases) (auto simp: prefix_def sorted_wrt_append)
next
  case (4 w s xs k v)
  from 4(1,2) show ?case by (rule fwd_page_cases) (use 4(3) set_mono_prefix in blast)
next
  case (5 w s k)
  from 5(1,2) show ?case by (rule fwd_page_cases) (use 5(3) in \<open>fastforce simp: not_Some_eq[symmetric] simp del: not_Some_eq\<close>)
next
  case (6 w s xs k v)
  from 6(1,2) show ?case by (rule fwd_page_cases) (use 6(3-) prefix_covers[of "(<)" _ xs "(k, v)"] in auto)
next
  case (7 w s xs)
  from 7(1,2) show ?case
  proof (rule fwd_page_cases)
    fix L assume "prefix xs L" and L: "\<And>k v. (k, v) \<in> set L \<longleftrightarrow> inside_range w k \<and> snap_rows R s k = Some v"
    with 7(3) have "last xs \<in> set L" using set_mono_prefix by fastforce
    with L[of "fst (last xs)" "snd (last xs)"] show ?thesis
      by (cases "snd w") (auto simp: bounds_ok_def fwd_move_def inside_range_def succ_key_le)
  qed
next
  case (8 w s xs k)
  from 8(1,2) show ?case
  proof (rule fwd_page_cases)
    fix L assume "prefix xs L" and L: "\<And>k v. (k, v) \<in> set L \<longleftrightarrow> inside_range w k \<and> snap_rows R s k = Some v"
    with 8(3) have "last xs \<in> set L" using set_mono_prefix by fastforce
    with L[of "fst (last xs)" "snd (last xs)"] show ?thesis by (auto simp: fwd_move_def inside_range_def succ_key_le)
  qed
qed auto

sublocale redb_contract \<subseteq> bwd: page_cursor "bwd_page R" bwd_move bounds_ok inside_range "(>)" "snap_rows R"
proof (unfold_locales, goal_cases)
  case (3 w s xs)
  then show ?case by (rule bwd_page_cases) (auto simp: prefix_def sorted_wrt_append)
next
  case (4 w s xs k v)
  from 4(1,2) show ?case by (rule bwd_page_cases) (use 4(3) set_mono_prefix in blast)
next
  case (5 w s k)
  from 5(1,2) show ?case by (rule bwd_page_cases) (use 5(3) in \<open>fastforce simp: not_Some_eq[symmetric] simp del: not_Some_eq\<close>)
next
  case (6 w s xs k v)
  from 6(1,2) show ?case by (rule bwd_page_cases) (use 6(3-) prefix_covers[of "(>)" _ xs "(k, v)"] in auto)
next
  case (7 w s xs)
  from 7(1,2) show ?case
  proof (rule bwd_page_cases)
    fix L assume "prefix xs L" and L: "\<And>k v. (k, v) \<in> set L \<longleftrightarrow> inside_range w k \<and> snap_rows R s k = Some v"
    with 7(3) have "last xs \<in> set L" using set_mono_prefix by fastforce
    with L[of "fst (last xs)" "snd (last xs)"] show ?thesis by (auto simp: bounds_ok_def bwd_move_def inside_range_def)
  qed
next
  case (8 w s xs k)
  from 8(1,2) show ?case
  proof (rule bwd_page_cases)
    fix L assume "prefix xs L" and L: "\<And>k v. (k, v) \<in> set L \<longleftrightarrow> inside_range w k \<and> snap_rows R s k = Some v"
    with 8(3) have "last xs \<in> set L" using set_mono_prefix by fastforce
    with L[of "fst (last xs)" "snd (last xs)"] show ?thesis
      by (cases "snd w") (auto simp: bwd_move_def inside_range_def)
  qed
qed auto

text \<open>The records of the code are the cursors of the locale.\<close>

definition cursor_of :: "lazy_scan \<Rightarrow> (bytes \<times> bytes option) cursor" where
  "cursor_of sc = (ls_tree sc, (next_start sc, ls_end sc), ls_buf sc)"

definition cursor_of_rev :: "lazy_scan_rev \<Rightarrow> (bytes \<times> bytes option) cursor" where
  "cursor_of_rev sc = (lr_tree sc, (lr_start sc, next_end sc), lr_buf sc)"

lemma lazy_next_cursor:
  "fst (lazy_next R snap sc) = fst (cursor_next (fwd_page R) fwd_move snap (cursor_of sc))"
  "cursor_of (snd (lazy_next R snap sc)) = snd (cursor_next (fwd_page R) fwd_move snap (cursor_of sc))"
  by (simp_all add: lazy_next_def cursor_next_def cursor_of_def fwd_page_def fwd_move_def split: list.splits sum.splits)

lemma lazy_next_rev_cursor:
  "fst (lazy_next_rev R snap sc) = fst (cursor_next (bwd_page R) bwd_move snap (cursor_of_rev sc))"
  "cursor_of_rev (snd (lazy_next_rev R snap sc)) = snd (cursor_next (bwd_page R) bwd_move snap (cursor_of_rev sc))"
  by (simp_all add: lazy_next_rev_def cursor_next_def cursor_of_rev_def bwd_page_def bwd_move_def split: list.splits sum.splits)

lemma run_lazy: "run_next (lazy_next R) snaps sc = run_next (cursor_next (fwd_page R) fwd_move) snaps (cursor_of sc)"
  by (induction snaps arbitrary: sc) (simp_all add: lazy_next_cursor)

lemma run_lazy_rev:
  "run_next (lazy_next_rev R) snaps sc = run_next (cursor_next (bwd_page R) bwd_move) snaps (cursor_of_rev sc)"
  by (induction snaps arbitrary: sc) (simp_all add: lazy_next_rev_cursor)

end
