(* ===== verification/A9_Store_Theorems.thy ===== *)
theory A9_Store_Theorems
  imports A9_Store_Props
begin

text \<open>
  The theorems about the store: prefix scans are exact, scans under concurrent writes are weakly
  consistent, and the trees with their durability refine a family of maps with a visible and
  a durable copy.
\<close>

section \<open>Scans\<close>

lemma faultless_page: "\<exists>xs. fwd_page R w (Some t, None) = Inr xs" "\<exists>xs. bwd_page R w (Some t, None) = Inr xs"
  by (simp_all add: fwd_page_def bwd_page_def range_page_def range_page_rev_def page_total take_map)

context redb_contract
begin

lemma scan_still:
  assumes "range_ok s e" and "length snaps = Suc (length (rd_range R t s e))" and "set snaps \<subseteq> {(Some t, None)}"
  shows "run_next (lazy_next R) snaps (new_scan s e) = map (\<lambda>x. Some (Inr x)) (rd_range R t s e) @ [None]"
    and "run_next (lazy_next_rev R) snaps (rev_scan (new_scan s e)) = map (\<lambda>x. Some (Inr x)) (rev (rd_range R t s e)) @ [None]"
proof -
  have ok: "bounds_ok (s, e)" using assms(1) by (simp add: bounds_ok_def)
  have rows: "snap = (Some t, None)" if "snap \<in> set snaps" for snap using assms(3) that by auto
  have still: "snap_rows R snap = rd_get R t" "\<exists>xs. fwd_page R w snap = Inr xs" "\<exists>xs. bwd_page R w snap = Inr xs"
    if "snap \<in> set snaps" for snap w
    using rows[OF that] faultless_page[of R w t] by (auto simp: snap_rows_def fun_eq_iff)
  show "run_next (lazy_next R) snaps (new_scan s e) = map (\<lambda>x. Some (Inr x)) (rd_range R t s e) @ [None]"
    unfolding run_lazy cursor_of_def new_scan_def lazy_scan.simps
    by (rule fwd.scan_exact[OF ok still(1,2)])
      (auto simp: assms(2) range_ordered[OF assms(1)] range_exact[OF assms(1)] inside_range_def)
  show "run_next (lazy_next_rev R) snaps (rev_scan (new_scan s e)) = map (\<lambda>x. Some (Inr x)) (rev (rd_range R t s e)) @ [None]"
    unfolding run_lazy_rev rev_scan_def cursor_of_rev_def new_scan_def lazy_scan.simps lazy_scan_rev.simps
    by (rule bwd.scan_exact[OF ok still(1,3)])
      (auto simp: assms(2) range_ordered[OF assms(1)] range_exact[OF assms(1)] inside_range_def sorted_wrt_rev simp flip: rev_map)
qed

lemma scan_moving:
  assumes "range_ok s e" and items_def: "items = run_next (lazy_next R) snaps (new_scan s e)"
  shows "sorted_wrt (<) (map fst (entries_of items))"
    and "(k, v) \<in> set (entries_of items) \<Longrightarrow> s \<le> k \<and> below e k \<and> (\<exists>snap \<in> set snaps. snap_rows R snap k = Some v)"
    and "None \<in> set items \<Longrightarrow> no_error items \<Longrightarrow> s \<le> k \<Longrightarrow> below e k \<Longrightarrow> \<forall>snap \<in> set snaps. snap_rows R snap k \<noteq> None
      \<Longrightarrow> k \<in> fst ` set (entries_of items)"
proof -
  have ok: "bounds_ok (s, e)" using assms(1) by (simp add: bounds_ok_def)
  have run: "items = run_next (cursor_next (fwd_page R) fwd_move) snaps (True, (s, e), [])"
    by (simp add: items_def run_lazy cursor_of_def new_scan_def)
  obtain c where "fwd.scan_inv (s, e) (set snaps) (entries_of items) c"
    using fwd.scan_inv_run[OF fwd.scan_inv_start[OF ok], of snaps] run by auto
  then show "sorted_wrt (<) (map fst (entries_of items))"
    and "(k, v) \<in> set (entries_of items) \<Longrightarrow> s \<le> k \<and> below e k \<and> (\<exists>snap \<in> set snaps. snap_rows R snap k = Some v)"
    by (cases c; fastforce simp: fwd.scan_inv_def sorted_wrt_append inside_range_def)+
  show "None \<in> set items \<Longrightarrow> no_error items \<Longrightarrow> s \<le> k \<Longrightarrow> below e k \<Longrightarrow> \<forall>snap \<in> set snaps. snap_rows R snap k \<noteq> None
      \<Longrightarrow> k \<in> fst ` set (entries_of items)"
    using fwd.scan_complete[OF fwd.scan_inv_start[OF ok], of snaps k] run by (simp add: inside_range_def)
qed

lemma walk_all: "walk (\<lambda>k v acc. (True, acc @ [(k, v)])) (map Inr xs) acc = (Inr (), acc @ xs)"
  by (induction xs arbitrary: acc) auto

end

text \<open>The tables of the other components, association lists, satisfy the contract.\<close>

definition hm_redb :: "(bytes, bytes) hmap redb" where
  "hm_redb = \<lparr>rd_empty = [], rd_get = hm_get, rd_insert = hm_insert, rd_remove = hm_remove,
     rd_range = (\<lambda>t s e. map (\<lambda>k. (k, the (hm_get t k))) (filter (\<lambda>k. s \<le> k \<and> below e k) (sort (remdups (hm_keys t))))),
     rd_len = (\<lambda>t. length (remdups (hm_keys t))),
     rd_first = (\<lambda>t. case sort (remdups (hm_keys t)) of [] \<Rightarrow> None | k # _ \<Rightarrow> Some (k, the (hm_get t k))),
     rd_last = (\<lambda>t. case rev (sort (remdups (hm_keys t))) of [] \<Rightarrow> None | k # _ \<Rightarrow> Some (k, the (hm_get t k)))\<rparr>"

interpretation hmr: redb_contract hm_redb
proof (unfold_locales, goal_cases)
  case (4 s e t)
  have "sorted_wrt (<) (sort (remdups (hm_keys t)))" by (simp add: strict_sorted_iff)
  then show ?case by (simp add: hm_redb_def comp_def sorted_wrt_filter)
next
  case (5 s e k v t)
  show ?case by (auto simp: hm_redb_def hm_keys_iff)
next
  case (7 t)
  then show ?case by (simp add: hm_redb_def split: list.splits)
next
  case (8 t)
  then show ?case by (simp add: hm_redb_def rev_map split: list.splits)
qed (auto simp: hm_redb_def hm_simps)

section \<open>The trees refine maps\<close>

text \<open>The operations that a client sends to the store, and the restart after a crash.\<close>

datatype store_op =
    OpGet string bytes
  | OpInsert string bytes bytes
  | OpRemove string bytes
  | OpBatch string batch
  | OpUpdate string bytes "bytes option \<Rightarrow> bytes option"
  | OpClear string
  | OpFlush
  | OpCrash

datatype reply = Value "store_error + bytes option" | Done "store_error + unit"

fun store_step :: "'t redb \<Rightarrow> store_op \<times> store_error option \<Rightarrow> 't store \<Rightarrow> reply \<times> 't store" where
  "store_step R (OpGet n k, fault) s = (Value (tree_get R n k fault s), s)"
| "store_step R (OpInsert n k v, fault) s = map_prod Value id (tree_insert R n k v fault s)"
| "store_step R (OpRemove n k, fault) s = map_prod Value id (tree_remove R n k fault s)"
| "store_step R (OpBatch n b, fault) s = map_prod Done id (apply_batch R n b fault s)"
| "store_step R (OpUpdate n k f, fault) s = map_prod Value id (update_and_fetch R n k f fault s)"
| "store_step R (OpClear n, fault) s = map_prod Done id (tree_clear R n fault s)"
| "store_step R (OpFlush, fault) s = map_prod Done id (store_flush fault s)"
| "store_step R (OpCrash, fault) s = (Done (Inr ()), crash s)"

text \<open>The specification: a family of maps.  A failed operation replies its error and changes
  nothing; a batch is one step.\<close>

type_synonym maps = "string \<Rightarrow> bytes \<Rightarrow> bytes option"

definition put :: "string \<Rightarrow> bytes \<Rightarrow> bytes option \<Rightarrow> maps \<Rightarrow> maps" where
  "put n k v m = m(n := (m n)(k := v))"

fun spec_op :: "store_op \<Rightarrow> maps db \<Rightarrow> reply \<times> maps db" where
  "spec_op (OpGet n k) s = (Value (Inr (visible s n k)), s)"
| "spec_op (OpInsert n k v) s = (Value (Inr (visible s n k)), s\<lparr>visible := put n k (Some v) (visible s)\<rparr>)"
| "spec_op (OpRemove n k) s = (Value (Inr (visible s n k)), s\<lparr>visible := put n k None (visible s)\<rparr>)"
| "spec_op (OpBatch n b) s = (Done (Inr ()), s\<lparr>visible := fold (\<lambda>(k, v). put n k v) (batch_ops b) (visible s)\<rparr>)"
| "spec_op (OpUpdate n k f) s = (Value (Inr (f (visible s n k))), s\<lparr>visible := put n k (f (visible s n k)) (visible s)\<rparr>)"
| "spec_op (OpClear n) s = (Done (Inr ()), s\<lparr>visible := (visible s)(n := Map.empty)\<rparr>)"
| "spec_op OpFlush s = (Done (Inr ()), s\<lparr>durable := visible s\<rparr>)"
| "spec_op OpCrash s = (Done (Inr ()), s\<lparr>visible := durable s\<rparr>)"

fun failed :: "store_op \<Rightarrow> store_error \<Rightarrow> reply" where
  "failed (OpBatch n b) e = Done (Inl e)"
| "failed (OpClear n) e = Done (Inl e)"
| "failed OpFlush e = Done (Inl e)"
| "failed _ e = Value (Inl e)"

definition spec_step :: "store_op \<times> store_error option \<Rightarrow> maps db \<Rightarrow> reply \<times> maps db" where
  "spec_step cmd s = (case cmd of
      (OpCrash, _) \<Rightarrow> spec_op OpCrash s
    | (op, None) \<Rightarrow> spec_op op s
    | (op, Some e) \<Rightarrow> (failed op e, s))"

fun run_ops :: "('c \<Rightarrow> 's \<Rightarrow> 'r \<times> 's) \<Rightarrow> 'c list \<Rightarrow> 's \<Rightarrow> 'r list \<times> 's" where
  "run_ops f [] s = ([], s)"
| "run_ops f (c # cs) s = (case f c s of (r, s') \<Rightarrow> case run_ops f cs s' of (rs, s'') \<Rightarrow> (r # rs, s''))"

definition maps_of :: "'t redb \<Rightarrow> 't tables \<Rightarrow> maps" where
  "maps_of R tabs n k = (case hm_get tabs n of None \<Rightarrow> None | Some t \<Rightarrow> rd_get R t k)"

definition abs_db :: "'t redb \<Rightarrow> 't store \<Rightarrow> maps db" where
  "abs_db R s = \<lparr>visible = maps_of R (visible s), durable = maps_of R (durable s)\<rparr>"

context redb_contract
begin

lemma with_table_reply: "fst (with_table R n f tabs) = fst (f (case hm_get tabs n of Some t \<Rightarrow> t | None \<Rightarrow> rd_empty R))"
  by (simp add: with_table_def Let_def)

lemma maps_of_with_table:
  "maps_of R (snd (with_table R n f tabs)) n'
     = (if n' = n then rd_get R (snd (f (case hm_get tabs n of Some t \<Rightarrow> t | None \<Rightarrow> rd_empty R))) else maps_of R tabs n')"
  by (auto simp: with_table_def Let_def maps_of_def hm_simps fun_eq_iff)

lemma table_get: "rd_get R (case hm_get tabs n of Some t \<Rightarrow> t | None \<Rightarrow> rd_empty R) k = maps_of R tabs n k"
  by (simp add: maps_of_def get_empty split: option.splits)

lemma batch_maps:
  "rd_get R t = m n \<Longrightarrow> rd_get R (fold (batch_op R) ops t) = fold (\<lambda>(k, v). put n k v) ops m n"
  "n' \<noteq> n \<Longrightarrow> fold (\<lambda>(k, v). put n k v) ops m n' = m n'"
proof (induction ops arbitrary: t m)
  case (Cons op ops)
  { case 1
    have "rd_get R (batch_op R op t) = (case op of (k, v) \<Rightarrow> put n k v m) n"
      using 1 by (auto simp: batch_op_def put_def get_insert get_remove fun_eq_iff split: prod.splits option.splits)
    with Cons.IH(1)[of "batch_op R op t" "case op of (k, v) \<Rightarrow> put n k v m"] show ?case by (simp add: case_prod_unfold) }
  { case 2
    with Cons.IH(2) show ?case by (auto simp: put_def split: prod.splits) }
qed simp_all

lemma write_refines:
  assumes "\<And>tabs. fst (body tabs) = res (maps_of R tabs)" and "\<And>tabs. maps_of R (snd (body tabs)) = step (maps_of R tabs)"
  shows "map_prod K (abs_db R) (write_txn fault body s) = (case fault of
      Some e \<Rightarrow> (K (Inl e), abs_db R s)
    | None \<Rightarrow> (K (Inr (res (maps_of R (visible s)))), (abs_db R s)\<lparr>visible := step (maps_of R (visible s))\<rparr>))"
  using assms by (simp add: write_txn_def abs_db_def split: option.splits)

lemma insert_refines:
  "map_prod K (abs_db R) (tree_insert R n k v fault s) = (case fault of
      Some e \<Rightarrow> (K (Inl e), abs_db R s)
    | None \<Rightarrow> (K (Inr (maps_of R (visible s) n k)), (abs_db R s)\<lparr>visible := put n k (Some v) (maps_of R (visible s))\<rparr>))"
  unfolding tree_insert_def
  by (rule write_refines) (auto simp: with_table_reply maps_of_with_table table_get put_def get_insert fun_eq_iff)

lemma remove_refines:
  "map_prod K (abs_db R) (tree_remove R n k fault s) = (case fault of
      Some e \<Rightarrow> (K (Inl e), abs_db R s)
    | None \<Rightarrow> (K (Inr (maps_of R (visible s) n k)), (abs_db R s)\<lparr>visible := put n k None (maps_of R (visible s))\<rparr>))"
  unfolding tree_remove_def
  by (rule write_refines) (auto simp: with_table_reply maps_of_with_table table_get put_def get_remove fun_eq_iff)

lemma update_refines:
  "map_prod K (abs_db R) (update_and_fetch R n k f fault s) = (case fault of
      Some e \<Rightarrow> (K (Inl e), abs_db R s)
    | None \<Rightarrow> (K (Inr (f (maps_of R (visible s) n k))),
        (abs_db R s)\<lparr>visible := put n k (f (maps_of R (visible s) n k)) (maps_of R (visible s))\<rparr>))"
  unfolding update_and_fetch_def
  by (rule write_refines)
    (auto simp: with_table_reply maps_of_with_table table_get put_def get_insert get_remove fun_eq_iff Let_def split: option.splits)

lemma batch_refines:
  "map_prod K (abs_db R) (apply_batch R n b fault s) = (case fault of
      Some e \<Rightarrow> (K (Inl e), abs_db R s)
    | None \<Rightarrow> (K (Inr ()), (abs_db R s)\<lparr>visible := fold (\<lambda>(k, v). put n k v) (batch_ops b) (maps_of R (visible s))\<rparr>))"
  unfolding apply_batch_def
proof (rule write_refines)
  fix tabs
  have "rd_get R (case hm_get tabs n of Some t \<Rightarrow> t | None \<Rightarrow> rd_empty R) = maps_of R tabs n" by (rule ext) (rule table_get)
  from batch_maps(1)[of _ "maps_of R tabs" n, OF this]
  show "maps_of R (snd (with_table R n (\<lambda>t. ((), fold (batch_op R) (batch_ops b) t)) tabs))
      = fold (\<lambda>(k, v). put n k v) (batch_ops b) (maps_of R tabs)"
    by (intro ext) (simp add: maps_of_with_table batch_maps(2))
qed simp

lemma clear_refines:
  "map_prod K (abs_db R) (tree_clear R n fault s) = (case fault of
      Some e \<Rightarrow> (K (Inl e), abs_db R s)
    | None \<Rightarrow> (K (Inr ()), (abs_db R s)\<lparr>visible := (maps_of R (visible s))(n := Map.empty)\<rparr>))"
  unfolding tree_clear_def
  by (rule write_refines) (auto simp: with_table_def maps_of_def hm_simps get_empty fun_eq_iff)

lemma step_refines: "spec_step cmd (abs_db R s) = map_prod id (abs_db R) (store_step R cmd s)"
proof -
  obtain op fault where cmd: "cmd = (op, fault)" by (cases cmd)
  have k: "map_prod id (abs_db R) (map_prod K id x) = map_prod K (abs_db R) x" for K :: "'a \<Rightarrow> reply" and x
    by (cases x) simp
  have v: "visible (abs_db R s) = maps_of R (visible s)" by (simp add: abs_db_def)
  show ?thesis
  proof (cases op)
    case (OpGet n k)
    with cmd show ?thesis by (auto simp: spec_step_def tree_get_def read_table_def abs_db_def maps_of_def split: option.splits)
  next
    case OpFlush
    with cmd show ?thesis by (auto simp: spec_step_def store_flush_def abs_db_def split: option.splits)
  next
    case OpCrash
    with cmd show ?thesis by (simp add: spec_step_def crash_def abs_db_def)
  qed (use cmd v in \<open>auto simp: spec_step_def k insert_refines remove_refines update_refines batch_refines clear_refines split: option.splits\<close>)
qed

lemma run_refines: "run_ops spec_step cmds (abs_db R s) = map_prod id (abs_db R) (run_ops (store_step R) cmds s)"
  by (induction cmds arbitrary: s) (simp_all add: step_refines case_prod_unfold)

end

text \<open>After a crash the store is what it was at the last durable commit, however much was written since.\<close>

lemma unflushed_durable:
  "(OpFlush, None) \<notin> set cmds \<Longrightarrow> durable (snd (run_ops spec_step cmds s)) = durable s"
proof (induction cmds arbitrary: s)
  case (Cons cmd cmds)
  have "durable (snd (spec_step cmd s)) = durable s"
    using Cons.prems by (cases cmd; cases "fst cmd"; cases "snd cmd") (auto simp: spec_step_def)
  with Cons show ?case by (simp add: case_prod_unfold)
qed simp

lemma run_ops_append:
  "run_ops f (xs @ ys) s = (let (rs, s') = run_ops f xs s; (rs', s'') = run_ops f ys s' in (rs @ rs', s''))"
  by (induction xs arbitrary: s) (simp_all add: case_prod_unfold Let_def)

section \<open>Theorems\<close>

text \<open>C3. The trees of the store are maps with a visible and a durable copy: whatever sequence of reads,
  inserts, removals, batches, atomic updates, clears, flushes and crashes is sent, and whichever of
  them the engine fails, every reply and the state that is left are those of a family of maps where a
  failed operation changes nothing and a batch is one step.  A crash gives back the state of the
  last successful flush.\<close>

theorem store_refines_maps:
  assumes "redb_contract R"
  shows "map_prod id (abs_db R) (run_ops (store_step R) cmds s) = run_ops spec_step cmds (abs_db R s)
    \<and> ((OpFlush, None) \<notin> set later \<longrightarrow>
        visible (abs_db R (snd (run_ops (store_step R) (cmds @ [(OpFlush, None)] @ later @ [(OpCrash, None)]) s)))
          = visible (abs_db R (snd (run_ops (store_step R) cmds s))))"
proof -
  note ref = redb_contract.run_refines[OF assms]
  have abs: "abs_db R (snd (run_ops (store_step R) cs s)) = snd (run_ops spec_step cs (abs_db R s))" for cs
    by (simp add: ref)
  have "visible (snd (run_ops spec_step (cmds @ [(OpFlush, None)] @ later @ [(OpCrash, None)]) a))
      = visible (snd (run_ops spec_step cmds a))" if "(OpFlush, None) \<notin> set later" for a
    using unflushed_durable[OF that] by (simp add: run_ops_append case_prod_unfold Let_def spec_step_def)
  then show ?thesis unfolding abs using ref[of cmds s] by simp
qed

theorem store_refines_maps_witness:
  "visible (abs_db hm_redb (snd (run_ops (store_step hm_redb)
      ([(OpInsert ''meta'' ''tip'' ''7'', None)] @ [(OpFlush, None)]
        @ [(OpBatch ''meta'' \<lparr>batch_ops = [(''tip'', None), (''x'', Some ''1'')]\<rparr>, None)] @ [(OpCrash, None)])
      \<lparr>visible = [], durable = []\<rparr>))) ''meta'' ''tip'' = Some ''7''"
  using store_refines_maps[OF hmr.redb_contract_axioms, of "[(OpInsert ''meta'' ''tip'' ''7'', None)]" "\<lparr>visible = [], durable = []\<rparr>"
      "[(OpBatch ''meta'' \<lparr>batch_ops = [(''tip'', None), (''x'', Some ''1'')]\<rparr>, None)]"]
  by (simp add: tree_insert_def write_txn_def with_table_def abs_db_def maps_of_def hm_redb_def hm_simps Let_def)

text \<open>C12. A prefix scan yields exactly the entries whose key has the prefix: on a table that stands still the
  forward scan gives them in ascending order and then ends, the backward scan gives them in
  descending order, and the streaming walk visits the same entries, for every prefix, including those of
  bytes \<open>0xff\<close> where the range has no upper bound.\<close>

theorem prefix_scan_exact:
  assumes "redb_contract R"
  shows "\<exists>es. sorted_wrt (<) (map fst es) \<and> (\<forall>k v. (k, v) \<in> set es \<longleftrightarrow> prefix p k \<and> rd_get R t k = Some v)
    \<and> run_next (lazy_next R) (replicate (Suc (length es)) (Some t, None)) (scan_prefix p) = map (\<lambda>x. Some (Inr x)) es @ [None]
    \<and> run_next (lazy_next_rev R) (replicate (Suc (length es)) (Some t, None)) (rev_scan (scan_prefix p))
        = map (\<lambda>x. Some (Inr x)) (rev es) @ [None]
    \<and> for_each_prefix R (Some t, None) p (\<lambda>k v acc. (True, acc @ [(k, v)])) [] = (Inr (), es)"
proof -
  let ?es = "rd_range R t p (prefix_end p)"
  note ok = prefix_range_ok[of p]
  have "set (replicate (Suc (length ?es)) (Some t, None)) \<subseteq> {(Some t, None)}" by auto
  note still = redb_contract.scan_still[OF assms ok _ this]
  show ?thesis
    using still redb_contract.range_ordered[OF assms ok, of t] redb_contract.range_exact[OF assms ok, of _ _ t]
    by (intro exI[of _ ?es]) (auto simp: scan_prefix_def prefix_end_exact for_each_prefix_def redb_contract.walk_all[OF assms])
qed

theorem prefix_scan_exact_witness:
  "run_next (lazy_next hm_redb) [(Some [(''b1'', ''y''), (''a2'', ''z''), (''a1'', ''x'')], None), (Some [(''b1'', ''y''), (''a2'', ''z''), (''a1'', ''x'')], None),
      (Some [(''b1'', ''y''), (''a2'', ''z''), (''a1'', ''x'')], None)] (scan_prefix ''a'')
    = [Some (Inr (''a1'', ''x'')), Some (Inr (''a2'', ''z'')), None]"
proof -
  let ?t = "[(''b1'', ''y''), (''a2'', ''z''), (''a1'', ''x'')]"
  obtain es where es: "sorted_wrt (<) (map fst es)" "\<And>k v. (k, v) \<in> set es \<longleftrightarrow> prefix ''a'' k \<and> rd_get hm_redb ?t k = Some v"
    "run_next (lazy_next hm_redb) (replicate (Suc (length es)) (Some ?t, None)) (scan_prefix ''a'') = map (\<lambda>x. Some (Inr x)) es @ [None]"
    using prefix_scan_exact[OF hmr.redb_contract_axioms, of "''a''" ?t] by blast
  have get: "rd_get hm_redb ?t k = Some v \<longleftrightarrow> (k, v) \<in> set ?t" for k v
    unfolding hm_redb_def hm_get_def redb.simps by (rule map_of_eq_Some_iff) simp
  have "x \<in> set es \<longleftrightarrow> x \<in> set (filter (\<lambda>x. prefix ''a'' (fst x)) ?t)" for x
    using es(2)[of "fst x" "snd x"] unfolding get set_filter mem_Collect_eq by (simp only: prod.collapse conj_commute)
  then have "set es = set (filter (\<lambda>x. prefix ''a'' (fst x)) ?t)" by (rule set_eqI)
  then have all: "set es = {(''a1'', ''x''), (''a2'', ''z'')}" by (simp add: insert_commute)
  then have "set (map fst es) = set [''a1'', ''a2'']" by auto
  then have keys: "map fst es = [''a1'', ''a2'']"
    by (intro sorted_wrt_unique[where lt = "(<)", OF _ _ es(1)]) (auto simp: less_char_def)
  have "map (\<lambda>k. (k, the (rd_get hm_redb ?t k))) (map fst es) = es"
    unfolding map_map by (rule map_idI) (use es(2) in force)
  then have "es = [(''a1'', ''x''), (''a2'', ''z'')]" unfolding keys by (simp add: hm_redb_def hm_get_def)
  with es(3) show ?thesis by (simp add: numeral_eq_Suc)
qed

text \<open>A scan under concurrent writes is weakly consistent: when every page reads another state of the
  table, and pages may fail, the entries still come in strictly ascending order, each lies in
  the range and was in one of the states read, and a scan that ends without an error has passed every
  key of the range that was there in all of them.\<close>

theorem lazy_scan_weakly_consistent:
  assumes "redb_contract R" and "range_ok start stop"
  shows "let items = run_next (lazy_next R) snaps (new_scan start stop); out = entries_of items in
    sorted_wrt (<) (map fst out)
    \<and> (\<forall>k v. (k, v) \<in> set out \<longrightarrow> start \<le> k \<and> below stop k \<and> (\<exists>snap \<in> set snaps. snap_rows R snap k = Some v))
    \<and> (None \<in> set items \<and> no_error items \<longrightarrow>
        (\<forall>k. start \<le> k \<and> below stop k \<and> (\<forall>snap \<in> set snaps. snap_rows R snap k \<noteq> None) \<longrightarrow> k \<in> fst ` set out))"
  using redb_contract.scan_moving[OF assms refl, where snaps = snaps] unfolding Let_def by blast

theorem lazy_scan_weakly_consistent_witness:
  "''a'' \<in> fst ` set (entries_of (run_next (lazy_next hm_redb)
     [(Some [(''a'', ''1''), (''b'', ''2'')], None), (Some [(''a'', ''1'')], None), (Some [(''a'', ''3'')], None)] (new_scan [] None)))"
proof -
  let ?s = "[(Some [(''a'', ''1''), (''b'', ''2'')], None), (Some [(''a'', ''1'')], None), (Some [(''a'', ''3'')], None)]
    :: (bytes, bytes) hmap snapshot list"
  have "run_next (lazy_next hm_redb) ?s (new_scan [] None) = [Some (Inr (''a'', ''1'')), Some (Inr (''b'', ''2'')), None]"
    by (simp add: lazy_next_def range_page_def hm_redb_def hm_keys_def hm_get_def new_scan_def PAGE_def PAGE_BYTE_BUDGET_def Let_def
        succ_key_def less_char_def insort_key_def)
  with lazy_scan_weakly_consistent[OF hmr.redb_contract_axioms, of "[]" None ?s]
  show ?thesis by (simp add: Let_def snap_rows_def hm_redb_def hm_get_def)
qed

end
