(* ===== verification/A9_Fork_Choice.thy ===== *)
theory A9_Fork_Choice
  imports A9_Balances A9_Selection
begin

text \<open>
  Fork choice (\<^verbatim>\<open>src/a9/blockchain.rs\<close>): the work of a difficulty, the two verdicts on a branch that
  arrives from outside, the enumeration of the branches in the orphan pool, and the selection
  and ranking of the branches that a reorganisation tries.  \<open>get_block\<close> reads the canonical chain
  (\<open>None\<close>: unreadable); the pool is its two trees, with their keys decoded.
\<close>

section \<open>Work\<close>

definition ORPHAN_REORG_DEPTH :: u32 where
  "ORPHAN_REORG_DEPTH = 1024"

definition ORPHAN_BRANCH_SEARCH_LIMIT :: usize where
  "ORPHAN_BRANCH_SEARCH_LIMIT = 4096"

definition MAX_REORG_BRANCHES_EVALUATED :: usize where
  "MAX_REORG_BRANCHES_EVALUATED = 8192"

definition MAX_REORG_ADOPT_ATTEMPTS :: usize where
  "MAX_REORG_ADOPT_ATTEMPTS = 16"

definition work_units_for_difficulty :: "u64 \<Rightarrow> nat" where
  "work_units_for_difficulty d = 2 ^ min (d div 16) 255"

fun work_of_heights :: "(u32 \<Rightarrow> block option) \<Rightarrow> u32 list \<Rightarrow> nat \<Rightarrow> nat option" where
  "work_of_heights get_block [] work = Some work"
| "work_of_heights get_block (h # hs) work =
     (case get_block h of
        None \<Rightarrow> None
      | Some b \<Rightarrow> work_of_heights get_block hs (work + work_units_for_difficulty (difficulty b)))"

definition canonical_work_range :: "(u32 \<Rightarrow> block option) \<Rightarrow> u32 \<Rightarrow> u32 \<Rightarrow> nat option" where
  "canonical_work_range get_block start stop =
     (if stop < start then Some 0 else work_of_heights get_block [start..<stop + 1] 0)"

definition branch_work_to_height :: "block list \<Rightarrow> u32 \<Rightarrow> nat" where
  "branch_work_to_height branch max_height =
     fold (\<lambda>b acc. acc + work_units_for_difficulty (difficulty b)) (filter (\<lambda>b. index b \<le> max_height) branch) 0"

definition u32_saturating_add :: "u32 \<Rightarrow> u32 \<Rightarrow> u32" where
  "u32_saturating_add x y = min (x + y) u32_max"

definition external_branch_is_heavier :: "(u32 \<Rightarrow> block option) \<Rightarrow> block list \<Rightarrow> u32 \<Rightarrow> u32 \<Rightarrow> bool" where
  "external_branch_is_heavier get_block branch ancestor tip =
     (if branch = [] then False
      else case canonical_work_range get_block (u32_saturating_add ancestor 1) tip of
             None \<Rightarrow> False
           | Some canonical_work \<Rightarrow> branch_work_to_height branch (index (last branch)) > canonical_work)"

definition external_branch_wins_fork_choice :: "(u32 \<Rightarrow> block option) \<Rightarrow> block list \<Rightarrow> u32 \<Rightarrow> u32 \<Rightarrow> bool" where
  "external_branch_wins_fork_choice get_block branch ancestor tip =
     (if branch = [] then False
      else case canonical_work_range get_block (u32_saturating_add ancestor 1) tip of
             None \<Rightarrow> False
           | Some canonical_work \<Rightarrow>
               (let branch_work = branch_work_to_height branch (index (last branch)) in
                if branch_work > canonical_work then True
                else if branch_work = canonical_work then
                  (case get_block tip of
                     None \<Rightarrow> False
                   | Some local_tip \<Rightarrow> index (last branch) = tip \<and> hash (last branch) < hash local_tip)
                else False))"

definition compare_work_delta :: "nat \<Rightarrow> nat \<Rightarrow> nat \<Rightarrow> nat \<Rightarrow> ordering" where
  "compare_work_delta branch_work canonical_work other_branch_work other_canonical_work =
     cmp_of (branch_work + other_canonical_work) (other_branch_work + canonical_work)"

section \<open>Branches of the orphan pool\<close>

record orphan_pool =
  orphan_blocks :: "(string, block) hmap"
  orphan_index :: "(string \<times> u32 \<times> string) list"

definition child_cmp :: "block \<Rightarrow> block \<Rightarrow> ordering" where
  "child_cmp a b =
     then_with (cmp_of (index a) (index b))
    (then_with (cmp_of (difficulty b) (difficulty a))
    (then_with (cmp_of (block_timestamp a) (block_timestamp b))
               (cmp_of (hash a) (hash b))))"

definition orphan_children_of :: "orphan_pool \<Rightarrow> string \<Rightarrow> block list" where
  "orphan_children_of pool parent_hash =
     sort_by_cmp child_cmp
       (filter (\<lambda>b. previous_hash b = parent_hash)
         (List.map_filter (\<lambda>(_, _, h). hm_get (orphan_blocks pool) h)
           (filter (\<lambda>(prev, _, _). prev = parent_hash) (orphan_index pool))))"

definition next_children :: "orphan_pool \<Rightarrow> block \<Rightarrow> block list" where
  "next_children pool current =
     filter (\<lambda>c. index c = u32_saturating_add (index current) 1 \<and> previous_hash c = hash current)
       (orphan_children_of pool (hash current))"

text \<open>The stack of partial branches, last pushed first; \<open>break\<close> leaves what is on the stack.\<close>

definition branch_weight :: "usize \<Rightarrow> usize \<Rightarrow> block list \<Rightarrow> nat" where
  "branch_weight max_depth max_branches branch = Suc max_branches ^ (max_depth - length branch)"

lemma sum_list_replicate_bound: "\<forall>x \<in> set xs. f x = (c::nat) \<Longrightarrow> sum_list (map f xs) = length xs * c"
  by (induction xs) auto

lemma pushed_weight:
  assumes "length branch < max_depth"
  shows "sum_list (map (branch_weight max_depth m) (map (\<lambda>c. branch @ [c]) (take (m - k) cs))) < branch_weight max_depth m branch"
proof -
  let ?w = "Suc m ^ (max_depth - Suc (length branch))"
  have "sum_list (map (branch_weight max_depth m) (map (\<lambda>c. branch @ [c]) (take (m - k) cs))) = min (length cs) (m - k) * ?w"
    by (subst sum_list_replicate_bound[where c = ?w]) (auto simp: branch_weight_def)
  also have "\<dots> \<le> m * ?w" by simp
  also have "\<dots> < Suc m * ?w" by simp
  also have "\<dots> = branch_weight max_depth m branch"
    using assms by (simp add: branch_weight_def Suc_diff_Suc flip: power_Suc)
  finally show ?thesis .
qed

function collect_branches :: "orphan_pool \<Rightarrow> usize \<Rightarrow> usize \<Rightarrow> block list list \<Rightarrow> block list list \<Rightarrow> block list list" where
  "collect_branches pool max_depth max_branches finished [] = finished"
| "collect_branches pool max_depth max_branches finished (branch # stack) =
     (if branch = [] then collect_branches pool max_depth max_branches finished stack
      else if length branch \<ge> max_depth then collect_branches pool max_depth max_branches (finished @ [branch]) stack
      else
        let children = next_children pool (last branch) in
        if children = [] then collect_branches pool max_depth max_branches (finished @ [branch]) stack
        else
          let remaining_slots = saturating_sub max_branches (length finished + length stack) in
          if remaining_slots = 0 then finished @ [branch]
          else collect_branches pool max_depth max_branches finished
                 (map (\<lambda>c. branch @ [c]) (take remaining_slots children) @ stack))"
  by pat_completeness auto

termination
proof (relation "measure (\<lambda>(_, d, m, _, stack). sum_list (map (branch_weight d m) stack))", goal_cases)
  case 5
  then show ?case using pushed_weight by (simp add: saturating_sub_def del: map_map)
qed (simp_all add: branch_weight_def)

definition collect_orphan_branches_from :: "orphan_pool \<Rightarrow> block \<Rightarrow> usize \<Rightarrow> usize \<Rightarrow> block list list" where
  "collect_orphan_branches_from pool start max_depth max_branches =
     collect_branches pool max_depth max_branches [] [[start]]"

section \<open>The branches that a reorganisation tries\<close>

definition reorg_candidate :: "(u32 \<Rightarrow> block option) \<Rightarrow> block \<Rightarrow> block \<Rightarrow> bool" where
  "reorg_candidate get_block tip b =
     (if index b > index tip then False
      else if (if index b = 0 then previous_hash b \<noteq> zero_hash
               else case get_block (saturating_sub (index b) 1) of
                      None \<Rightarrow> True
                    | Some parent \<Rightarrow> hash parent \<noteq> previous_hash b) then False
      else case get_block (index b) of
             None \<Rightarrow> False
           | Some existing \<Rightarrow> hash existing \<noteq> hash b)"

definition candidate_order :: "block \<Rightarrow> block \<Rightarrow> ordering" where
  "candidate_order a b =
     then_with (cmp_of (index b) (index a))
    (then_with (cmp_of (difficulty b) (difficulty a))
               (cmp_of (hash a) (hash b)))"

text \<open>The memo of canonical work from each fork height to the tip, filled from the tip downwards.\<close>

fun canonical_suffix :: "(u32 \<Rightarrow> block option) \<Rightarrow> u32 list \<Rightarrow> nat \<Rightarrow> (u32, nat) hmap \<Rightarrow> (u32, nat) hmap option" where
  "canonical_suffix get_block [] running memo = Some memo"
| "canonical_suffix get_block (h # hs) running memo =
     (case get_block h of
        None \<Rightarrow> None
      | Some b \<Rightarrow>
          let running' = running + work_units_for_difficulty (difficulty b)
          in canonical_suffix get_block hs running' (hm_insert h running' memo))"

definition branch_eligible :: "block \<Rightarrow> block list \<Rightarrow> nat \<Rightarrow> bool" where
  "branch_eligible tip branch canonical_work =
     (let branch_work = branch_work_to_height branch (index (last branch)) in
      if branch_work < canonical_work then False
      else if branch_work = canonical_work \<and> (index (last branch) \<noteq> index tip \<or> hash (last branch) \<ge> hash tip) then False
      else True)"

record ranked_branch =
  rk_branch :: "block list"
  rk_work :: nat
  rk_canonical :: nat
  rk_hash :: string

definition rank_cmp :: "ranked_branch \<Rightarrow> ranked_branch \<Rightarrow> ordering" where
  "rank_cmp a b =
     (case compare_work_delta (rk_work a) (rk_canonical a) (rk_work b) (rk_canonical b) of
        Greater \<Rightarrow> Less
      | Less \<Rightarrow> Greater
      | Equal \<Rightarrow> cmp_of (rk_hash a) (rk_hash b))"

definition score_branch :: "(u32, nat) hmap \<Rightarrow> block list \<Rightarrow> ranked_branch" where
  "score_branch memo branch =
     \<lparr>rk_branch = branch, rk_work = branch_work_to_height branch (index (last branch)),
      rk_canonical = (case hm_get memo (index (hd branch)) of Some w \<Rightarrow> w | None \<Rightarrow> 0),
      rk_hash = hash (last branch)\<rparr>"

text \<open>The branches of all candidates in turn, as many as the budget of one attempt allows.\<close>

definition evaluated_branches :: "orphan_pool \<Rightarrow> u32 \<Rightarrow> block list \<Rightarrow> block list list" where
  "evaluated_branches pool checkpoint candidates =
     take MAX_REORG_BRANCHES_EVALUATED
       (concat (map (\<lambda>c. collect_orphan_branches_from pool c ORPHAN_REORG_DEPTH ORPHAN_BRANCH_SEARCH_LIMIT)
         (filter (\<lambda>c. \<not> index c \<le> checkpoint) candidates)))"

text \<open>What \<open>try_adopt_orphan_branch\<close> hands to \<open>adopt_branch_if_valid\<close>, in this order, until one is adopted;
  \<open>None\<close> when a canonical block cannot be read.\<close>

definition reorg_attempts :: "(u32 \<Rightarrow> block option) \<Rightarrow> orphan_pool \<Rightarrow> u32 \<Rightarrow> block \<Rightarrow> block list list option" where
  "reorg_attempts get_block pool checkpoint tip =
     (let candidates = sort_by_cmp candidate_order (filter (reorg_candidate get_block tip) (hm_values (orphan_blocks pool))) in
      if candidates = [] then Some []
      else case canonical_suffix get_block (rev [Min (index ` set candidates)..<index tip + 1]) 0 [] of
             None \<Rightarrow> None
           | Some memo \<Rightarrow>
               let scored = map (score_branch memo) (evaluated_branches pool checkpoint candidates);
                   ranked = filter (\<lambda>r. branch_eligible tip (rk_branch r) (rk_canonical r)) scored
               in Some (map rk_branch (take MAX_REORG_ADOPT_ATTEMPTS (sort_by_cmp rank_cmp ranked))))"

end
