(* ===== verification/A9_Node.thy ===== *)
theory A9_Node
  imports A9_Apply_Window A9_Fork_Choice
begin

text \<open>
  The state that the chain operations of \<^verbatim>\<open>src/a9/blockchain.rs\<close> share, the pending payments with
  their reservations, and the reading of balances.  Trees hold decoded values; a row that does not
  decode is an absent row.  Faults of the store are the subject of \<^verbatim>\<open>A9_Apply_Window\<close>: here a write
  succeeds, and \<open>ns_dirty\<close> is the marker outside a catch-up window.  An operation holds the state
  lock; what other tasks do before it is taken is an argument where it matters.
\<close>

section \<open>State\<close>

text \<open>The four trees of pending payments: the compact rows, the full signatures, and the sums reserved per
  sender and announced per recipient.\<close>

record pending_store =
  pending_rows :: "(string, transaction) hmap"
  full_sigs :: "(string, string) hmap"
  pending_debits :: balances
  pending_credits :: balances

record witness_store =
  confirmed_witnesses :: "(string, transaction) hmap"
  witness_index :: "(u64 \<times> string) list"

record orphan_store =
  orphan_bodies :: "(string, block \<times> u64) hmap"
  orphan_keys :: "(string \<times> u32 \<times> string, u64 option) hmap"
  orphan_index_reconciled :: bool

record block_verification =
  verifiers :: "string list"
  integrity_confirmed :: bool
  bv_seq :: u64

record chain_sentinel =
  verified_blocks :: "(string, block_verification) hmap"
  integrity_score :: u64
  last_verification :: u64
  verification_seq :: u64

record witness_blocked_branch =
  retry_after :: u64
  attempts :: u32
  needed :: "(u32 \<times> string) list"
  recorded_at :: u64

record node_state =
  ns_chain :: chain_content
  ns_dirty :: bool
  ns_pending :: pending_store
  ns_pool :: mempool
  ns_witnesses :: witness_store
  ns_orphans :: orphan_store
  ns_sentinel :: chain_sentinel
  ns_checkpoint :: "u32 option"
  ns_known_checkpoint :: u32
  ns_blocked :: "(string, witness_blocked_branch) hmap"
  ns_signatures :: "string list"
  ns_limiter :: rate_limiter
  ns_difficulty :: u64
  ns_rules_complete :: bool

text \<open>The libraries, the settings and the clock of one operation.\<close>

record node_env =
  ne_crypto :: crypto
  ne_serialize :: "transaction \<Rightarrow> string"
  ne_codec :: "transaction \<Rightarrow> string option"
  ne_evict :: "string list \<Rightarrow> string list"
  ne_genesis_ts :: "blockchain_error + u64"
  ne_now :: u64
  ne_clock :: "u64 \<times> u64 \<times> u64"
  ne_limiter_now :: nat
  ne_ttl :: "u64 option"
  ne_pending_ttl :: "u64 option"
  ne_auto_rebuild :: bool

definition get_block :: "node_state \<Rightarrow> u32 \<Rightarrow> block option" where
  "get_block ns h = hm_get (cc_rows (ns_chain ns)) h"

definition highest :: "node_state \<Rightarrow> u32 option" where
  "highest ns = highest_block_index (ns_chain ns)"

definition get_last_block :: "node_state \<Rightarrow> block option" where
  "get_last_block ns = Option.bind (highest ns) (get_block ns)"

definition view_of :: "node_env \<Rightarrow> node_state \<Rightarrow> chain_view" where
  "view_of E ns = \<lparr>cv_crypto = ne_crypto E, cv_serialize = ne_serialize E, cv_evict = ne_evict E, cv_get_block = get_block ns,
     cv_orphans = hm_map_values fst (orphan_bodies (ns_orphans ns)), cv_genesis_ts = ne_genesis_ts E, cv_now = ne_now E\<rparr>"

definition set_chain :: "(chain_content \<Rightarrow> chain_content) \<Rightarrow> node_state \<Rightarrow> node_state" where
  "set_chain f ns = ns\<lparr>ns_chain := f (ns_chain ns)\<rparr>"

section \<open>Confirmed balances\<close>

text \<open>The slow path sums over the stored blocks.\<close>

definition scanned_balance :: "(u32, block) hmap \<Rightarrow> string \<Rightarrow> i128" where
  "scanned_balance rows a =
     sum_list (map (\<lambda>b. sum_list (map (\<lambda>tx. (if recipient tx = a then amount_units tx else 0)
        - (if sender tx = a then total_debit_units tx else 0)) (transactions b))) (hm_values rows))"

definition get_confirmed_balance_units :: "node_env \<Rightarrow> string \<Rightarrow> node_state \<Rightarrow> (blockchain_error + i128) \<times> node_state" where
  "get_confirmed_balance_units E a ns =
     (let idx = cc_index (ns_chain ns);
          index_height = (case marker idx of Some h \<Rightarrow> h | None \<Rightarrow> 0);
          tip = get_latest_block_index (highest ns);
          (r, idx1, index_height1) =
            (if ne_auto_rebuild E \<and> index_height < tip then
               (case ensure_balances_index_with_force (ne_crypto E) (ne_serialize E) (get_block ns) (highest ns)
                       (ns_dirty ns) False idx of
                  (Inl e, idx') \<Rightarrow> (Inl e, idx', index_height)
                | (Inr _, idx') \<Rightarrow> (Inr (), idx', case marker idx' of Some h \<Rightarrow> h | None \<Rightarrow> tip))
             else (Inr (), idx, index_height));
          ns1 = set_chain (\<lambda>cc. cc\<lparr>cc_index := idx1\<rparr>) ns
      in case r of
           Inl e \<Rightarrow> (Inl e, ns1)
         | Inr _ \<Rightarrow>
             (case hm_get (tree idx1) a of
                Some units \<Rightarrow> (Inr units, ns1)
              | None \<Rightarrow>
                  if ne_auto_rebuild E \<and> index_height1 \<ge> tip then (Inr 0, ns1)
                  else (Inr (scanned_balance (cc_rows (ns_chain ns)) a), ns1)))"

fun load_balances :: "node_env \<Rightarrow> string list \<Rightarrow> balances \<Rightarrow> node_state \<Rightarrow> (blockchain_error + balances) \<times> node_state" where
  "load_balances E [] current ns = (Inr current, ns)"
| "load_balances E (a # as) current ns =
     (if hm_contains current a then load_balances E as current ns
      else case get_confirmed_balance_units E a ns of
             (Inl e, ns') \<Rightarrow> (Inl e, ns')
           | (Inr units, ns') \<Rightarrow> load_balances E as (hm_insert a units current) ns')"

section \<open>Reservations\<close>

definition get_pending_units :: "balances \<Rightarrow> string \<Rightarrow> i128" where
  "get_pending_units reserved a = max (bal reserved a) 0"

definition set_pending_for :: "string \<Rightarrow> i128 \<Rightarrow> balances \<Rightarrow> balances" where
  "set_pending_for a units reserved =
     (let normalized = max units 0 in if normalized \<le> 0 then hm_remove a reserved else hm_insert a normalized reserved)"

definition counted :: "transaction \<Rightarrow> bool" where
  "counted tx \<longleftrightarrow> \<not> is_coinbase tx \<and> has_valid_regular_amounts tx"

definition positive_only :: "balances \<Rightarrow> balances" where
  "positive_only totals = hm_retain (\<lambda>_ units. max units 0 > 0) totals"

definition rebuild_pending_debits_index :: "pending_store \<Rightarrow> pending_store" where
  "rebuild_pending_debits_index p =
     (let txs = filter counted (hm_values (pending_rows p)) in
      p\<lparr>pending_debits := positive_only (fold (\<lambda>tx. credit (sender tx) (total_debit_units tx)) txs []),
        pending_credits := positive_only (fold (\<lambda>tx. credit (recipient tx) (amount_units tx)) txs [])\<rparr>)"

definition release_debit :: "transaction \<Rightarrow> pending_store \<Rightarrow> pending_store" where
  "release_debit tx p = p\<lparr>pending_debits := set_pending_for (sender tx)
     (i128_saturating_sub (get_pending_units (pending_debits p) (sender tx)) (total_debit_units tx)) (pending_debits p)\<rparr>"

definition release_credit :: "transaction \<Rightarrow> pending_store \<Rightarrow> pending_store" where
  "release_credit tx p = p\<lparr>pending_credits := set_pending_for (recipient tx)
     (i128_saturating_sub (get_pending_units (pending_credits p) (recipient tx)) (amount_units tx)) (pending_credits p)\<rparr>"

definition remove_pending :: "string \<Rightarrow> pending_store \<Rightarrow> pending_store" where
  "remove_pending tx_id p = p\<lparr>pending_rows := hm_remove tx_id (pending_rows p), full_sigs := hm_remove tx_id (full_sigs p)\<rparr>"

text \<open>The pending side of one confirmed transaction.\<close>

definition confirm_pending :: "transaction \<Rightarrow> pending_store \<Rightarrow> pending_store" where
  "confirm_pending tx p = (if is_coinbase tx then p else release_credit tx (release_debit tx (remove_pending (get_tx_id tx) p)))"

definition clear_processed_transactions :: "transaction list \<Rightarrow> node_state \<Rightarrow> node_state" where
  "clear_processed_transactions txs ns =
     (let p = fold (\<lambda>tx p. release_credit tx (if is_coinbase tx then p else release_debit tx p)) txs (ns_pending ns) in
      ns\<lparr>ns_pending := fold (\<lambda>tx. remove_pending (get_tx_id tx)) txs p, ns_pool := fold clear_transaction txs (ns_pool ns)\<rparr>)"

definition prune_pending_transactions :: "node_env \<Rightarrow> pending_store \<Rightarrow> pending_store" where
  "prune_pending_transactions E p =
     (case ne_pending_ttl E of
        None \<Rightarrow> p
      | Some ttl_secs \<Rightarrow>
          fold remove_pending
            (map fst (filter (\<lambda>(_, tx). saturating_sub (ne_now E) (timestamp tx) > ttl_secs) (pending_rows p))) p)"

definition persist_readmitted_pending_tx :: "crypto \<Rightarrow> transaction \<Rightarrow> pending_store \<Rightarrow> (blockchain_error + unit) \<times> pending_store" where
  "persist_readmitted_pending_tx c full p =
     (case Option.bind (signature full) (hex_decode c) of
        None \<Rightarrow> (Inl InvalidTransactionSignature, p)
      | Some sig_bytes \<Rightarrow>
          (Inr (), p\<lparr>full_sigs := hm_insert (get_tx_id full) sig_bytes (full_sigs p),
             pending_rows := hm_insert (get_tx_id full) (with_truncated_signature c full (signature_hash_hex c sig_bytes))
               (pending_rows p)\<rparr>))"

datatype presence = Confirmed u32 | Pending | Absent

definition transaction_presence :: "string \<Rightarrow> node_state \<Rightarrow> blockchain_error + presence" where
  "transaction_presence tx_id ns =
     (case confirmed_tx_index_checked (cc_registry (ns_chain ns)) tx_id of
        Inl e \<Rightarrow> Inl e
      | Inr (Some height) \<Rightarrow> Inr (Confirmed height)
      | Inr None \<Rightarrow>
          Inr (if hm_contains (pending_rows (ns_pending ns)) tx_id \<or> find_transaction_by_id tx_id (ns_pool ns) \<noteq> None
               then Pending else Absent))"

section \<open>The mempool and its store\<close>

text \<open>A row of the pending tree with its full signature, if it may enter the mempool: \<open>Inr None\<close> says that the row
  is stale.\<close>

definition restore_pending :: "node_env \<Rightarrow> u32 \<Rightarrow> pending_store \<Rightarrow> transaction \<Rightarrow> string list
    \<Rightarrow> (blockchain_error + transaction option) \<times> string list" where
  "restore_pending E candidate p tx0 cache =
     (let stale = (Inr None, cache); c = ne_crypto E in
      if is_coinbase tx0 \<or> \<not> has_valid_regular_amounts tx0 then stale
      else if pub_key tx0 = None \<or> sig_hash tx0 = None then stale
      else case Option.bind (signature tx0) (hex_decode c) of
             None \<Rightarrow> stale
           | Some sig_bytes \<Rightarrow>
               (case (if length sig_bytes \<le> 64 then
                        (case hm_get (full_sigs p) (get_tx_id tx0) of
                           None \<Rightarrow> None
                         | Some full_sig \<Rightarrow>
                             if sig_hash tx0 \<noteq> Some (signature_hash_hex c full_sig) then None
                             else Some (tx0\<lparr>signature := Some (hex_encode c full_sig)\<rparr>))
                      else Some tx0) of
                  None \<Rightarrow> stale
                | Some tx \<Rightarrow>
                    (case verify_transaction_signature c (ne_evict E) tx cache of
                       (Inl _, cache') \<Rightarrow> (Inr None, cache')
                     | (Inr _, cache') \<Rightarrow>
                         (case pending_transaction_is_admissible_at (ne_genesis_ts E) candidate (ne_now E) tx
                                 FEE_SYSTEM_ACTIVATION_HEIGHT of
                            Inr True \<Rightarrow> (Inr (Some tx), cache')
                          | Inr False \<Rightarrow> (Inr None, cache')
                          | Inl e \<Rightarrow> if e = NonCanonicalTransaction then (Inr None, cache') else (Inl e, cache')))))"

fun restore_rows :: "node_env \<Rightarrow> u32 \<Rightarrow> pending_store \<Rightarrow> (string \<times> transaction) list \<Rightarrow> string list
    \<Rightarrow> (blockchain_error + transaction list \<times> string list) \<times> string list" where
  "restore_rows E candidate p [] cache = (Inr ([], []), cache)"
| "restore_rows E candidate p ((key, tx) # rows) cache =
     (case restore_pending E candidate p tx cache of
        (Inl e, cache1) \<Rightarrow> (Inl e, cache1)
      | (Inr r, cache1) \<Rightarrow>
          (case restore_rows E candidate p rows cache1 of
             (Inl e, cache2) \<Rightarrow> (Inl e, cache2)
           | (Inr (txs, invalid), cache2) \<Rightarrow>
               (Inr (case r of Some tx' \<Rightarrow> (tx' # txs, invalid) | None \<Rightarrow> (txs, key # invalid)), cache2)))"

definition next_block_index :: "node_state \<Rightarrow> u32" where
  "next_block_index ns = u32_saturating_add (get_latest_block_index (highest ns)) 1"

definition sync_mempool_with_store :: "node_env \<Rightarrow> node_state \<Rightarrow> (blockchain_error + unit) \<times> node_state" where
  "sync_mempool_with_store E ns =
     (let p = prune_pending_transactions E (ns_pending ns); ns1 = ns\<lparr>ns_pending := p\<rparr> in
      case restore_rows E (next_block_index ns) p (pending_rows p) (ns_signatures ns) of
        (Inl e, cache) \<Rightarrow> (Inl e, ns1\<lparr>ns_signatures := cache\<rparr>)
      | (Inr (txs, invalid), cache) \<Rightarrow>
          (Inr (), ns1\<lparr>ns_signatures := cache,
             ns_pending := rebuild_pending_debits_index (fold remove_pending invalid p),
             ns_pool := fold (\<lambda>tx m. snd (add_transaction (ne_codec E) (ne_ttl E) (ne_clock E) tx m)) txs new_mempool\<rparr>))"

definition ensure_pending_rules_for_next_block :: "node_env \<Rightarrow> node_state \<Rightarrow> (blockchain_error + unit) \<times> node_state" where
  "ensure_pending_rules_for_next_block E ns =
     (if next_block_index ns < FEE_SYSTEM_ACTIVATION_HEIGHT then (Inr (), ns\<lparr>ns_rules_complete := False\<rparr>)
      else if ns_rules_complete ns then (Inr (), ns)
      else case sync_mempool_with_store E ns of
             (Inl e, ns') \<Rightarrow> (Inl e, ns')
           | (Inr _, ns') \<Rightarrow> (Inr (), ns'\<lparr>ns_rules_complete := (next_block_index ns' \<ge> FEE_SYSTEM_ACTIVATION_HEIGHT)\<rparr>))"

end
