(* ===== verification/A9_Admission.thy ===== *)
theory A9_Admission
  imports A9_Node
begin

text \<open>
  Admission of a payment (\<open>admit_transaction\<close> in \<^verbatim>\<open>src/a9/blockchain.rs\<close>): the checks before the state lock
  is taken, what other tasks do until it is, and the part under the lock that reserves the
  sender's funds.
\<close>

datatype admission_outcome = Inserted | AlreadyPending | AlreadyConfirmed u32

text \<open>The checks before the lock: an outcome that is already decided, or the transaction for the mempool with
  its signature and the hash of that.\<close>

definition admission_checks :: "node_env \<Rightarrow> transaction \<Rightarrow> node_state
    \<Rightarrow> (blockchain_error + (admission_outcome + transaction \<times> string \<times> string)) \<times> node_state" where
  "admission_checks E tx ns0 =
     (let c = ne_crypto E; bad = InvalidTransactionSignature in
      if is_coinbase tx then (Inl InvalidTransaction, ns0)
      else case confirmed_tx_index_checked (cc_registry (ns_chain ns0)) (get_tx_id tx) of
        Inl e \<Rightarrow> (Inl e, ns0)
      | Inr (Some height) \<Rightarrow> (Inr (Inl (AlreadyConfirmed height)), ns0)
      | Inr None \<Rightarrow>
          (case check_limit (sender tx) (ne_limiter_now E) (ns_limiter ns0) of
             (free, limiter) \<Rightarrow>
               let ns = ns0\<lparr>ns_limiter := limiter\<rparr> in
               if \<not> free then (Inl (RateLimitExceeded ''Too many requests''), ns)
               else if \<not> has_valid_regular_amounts tx then (Inl InvalidTransactionAmount, ns)
               else if fee_units tx < MIN_RELAY_FEE_UNITS then (Inl FeeBelowRelayFloor, ns)
               else if sender tx = recipient tx then (Inl SelfTransferNotAllowed, ns)
               else if \<not> is_canonical_user_address (recipient tx) then (Inl NonCanonicalTransaction, ns)
               else if take 2 (sender tx) = ''__'' \<or> take 2 (recipient tx) = ''__'' then (Inl InvalidTransaction, ns)
               else case pub_key tx of None \<Rightarrow> (Inl bad, ns) | Some pk \<Rightarrow>
                 (case Option.bind (signature tx) (hex_decode c) of None \<Rightarrow> (Inl bad, ns) | Some sig_bytes \<Rightarrow>
                  if sig_bytes = [] then (Inl bad, ns)
                  else if \<not> is_valid c tx pk then (Inl bad, ns)
                  else case hex_decode c pk of None \<Rightarrow> (Inl bad, ns) | Some pub_key_bytes \<Rightarrow>
                    if derived_address c pub_key_bytes \<noteq> sender tx then (Inl bad, ns)
                    else
                      let h = signature_hash_hex c sig_bytes in
                      (case ensure_pending_rules_for_next_block E ns of
                         (Inl e, ns1) \<Rightarrow> (Inl e, ns1)
                       | (Inr _, ns1) \<Rightarrow> (Inr (Inr (tx\<lparr>sig_hash := Some h\<rparr>, sig_bytes, h)), ns1)))))"

definition add_to_mempool :: "node_env \<Rightarrow> transaction \<Rightarrow> node_state \<Rightarrow> (blockchain_error + unit) \<times> node_state" where
  "add_to_mempool E tx ns =
     (case add_transaction (ne_codec E) (ne_ttl E) (ne_clock E) tx (ns_pool ns) of (r, pool) \<Rightarrow> (r, ns\<lparr>ns_pool := pool\<rparr>))"

text \<open>The rules of the next block, read under the lock.\<close>

definition next_block_rules :: "node_env \<Rightarrow> transaction \<Rightarrow> transaction \<Rightarrow> string \<Rightarrow> node_state \<Rightarrow> (blockchain_error + unit) \<times> node_state" where
  "next_block_rules E tx mempool_tx h ns =
     (let candidate_index = next_block_index ns in
      if candidate_index < FEE_SYSTEM_ACTIVATION_HEIGHT then (Inr (), ns\<lparr>ns_rules_complete := False\<rparr>)
      else if (case sig_hash tx of Some claimed \<Rightarrow> claimed \<noteq> h | None \<Rightarrow> False) then (Inl NonCanonicalTransaction, ns)
      else case pending_transaction_is_admissible_at (ne_genesis_ts E) candidate_index (ne_now E) mempool_tx
                  FEE_SYSTEM_ACTIVATION_HEIGHT of
             Inl e \<Rightarrow> (Inl e, ns)
           | Inr ok \<Rightarrow> if ok then (Inr (), ns) else (Inl FeeAccountingLimitExceeded, ns))"

definition reserve :: "transaction \<Rightarrow> transaction \<Rightarrow> string \<Rightarrow> pending_store \<Rightarrow> pending_store" where
  "reserve tx storage_tx sig_bytes p =
     p\<lparr>full_sigs := hm_insert (get_tx_id storage_tx) sig_bytes (full_sigs p),
       pending_rows := hm_insert (get_tx_id storage_tx) storage_tx (pending_rows p),
       pending_debits := set_pending_for (sender tx)
         (get_pending_units (pending_debits p) (sender tx) + total_debit_units storage_tx) (pending_debits p),
       pending_credits := set_pending_for (recipient tx)
         (get_pending_units (pending_credits p) (recipient tx) + amount_units storage_tx) (pending_credits p)\<rparr>"

definition admit_locked :: "node_env \<Rightarrow> transaction \<Rightarrow> transaction \<Rightarrow> string \<Rightarrow> string \<Rightarrow> node_state
    \<Rightarrow> (blockchain_error + admission_outcome) \<times> node_state" where
  "admit_locked E tx mempool_tx sig_bytes h ns0 =
     (case next_block_rules E tx mempool_tx h ns0 of
        (Inl e, ns) \<Rightarrow> (Inl e, ns)
      | (Inr _, ns) \<Rightarrow>
          let storage_tx = with_truncated_signature (ne_crypto E) mempool_tx h; tx_id = get_tx_id storage_tx in
          (case confirmed_tx_index_checked (cc_registry (ns_chain ns)) tx_id of
             Inl e \<Rightarrow> (Inl e, ns)
           | Inr (Some height) \<Rightarrow> (Inr (AlreadyConfirmed height), ns)
           | Inr None \<Rightarrow>
               if hm_contains (pending_rows (ns_pending ns)) tx_id then
                 let p = ns_pending ns;
                     ns1 = (if hm_contains (full_sigs p) tx_id then ns
                            else ns\<lparr>ns_pending := p\<lparr>full_sigs := hm_insert tx_id sig_bytes (full_sigs p)\<rparr>\<rparr>)
                 in (case add_to_mempool E mempool_tx ns1 of
                       (Inl e, ns2) \<Rightarrow> (Inl e, ns2)
                     | (Inr _, ns2) \<Rightarrow> (Inr AlreadyPending, ns2))
               else
                 (case get_confirmed_balance_units E (sender tx) ns of
                    (Inl e, ns1) \<Rightarrow> (Inl e, ns1)
                  | (Inr confirmed, ns1) \<Rightarrow>
                      let pending = get_pending_units (pending_debits (ns_pending ns1)) (sender tx);
                          required = total_debit_units tx in
                      if confirmed - pending < required then (Inl InsufficientFunds, ns1)
                      else
                        let immature = immature_reward_units_scan (get_block ns1) (sender tx) (get_latest_block_index (highest ns1) + 1) [] in
                        if confirmed - pending - immature < required then (Inl InsufficientFunds, ns1)
                        else
                          (case add_to_mempool E mempool_tx ns1 of
                             (Inl e, ns2) \<Rightarrow> (Inl e, ns2)
                           | (Inr _, ns2) \<Rightarrow> (Inr Inserted, ns2\<lparr>ns_pending := reserve tx storage_tx sig_bytes (ns_pending ns2)\<rparr>)))))"

text \<open>\<open>meanwhile\<close> is what other tasks do between the checks and the lock.\<close>

definition admit_transaction :: "node_env \<Rightarrow> (node_state \<Rightarrow> node_state) \<Rightarrow> transaction \<Rightarrow> node_state
    \<Rightarrow> (blockchain_error + admission_outcome) \<times> node_state" where
  "admit_transaction E meanwhile tx ns =
     (case admission_checks E tx ns of
        (Inl e, ns1) \<Rightarrow> (Inl e, ns1)
      | (Inr (Inl outcome), ns1) \<Rightarrow> (Inr outcome, ns1)
      | (Inr (Inr (mempool_tx, sig_bytes, h)), ns1) \<Rightarrow> admit_locked E tx mempool_tx sig_bytes h (meanwhile ns1))"

definition add_transaction_to_chain :: "node_env \<Rightarrow> (node_state \<Rightarrow> node_state) \<Rightarrow> transaction \<Rightarrow> node_state
    \<Rightarrow> (blockchain_error + unit) \<times> node_state" where
  "add_transaction_to_chain E meanwhile tx ns =
     (case admit_transaction E meanwhile tx ns of
        (Inl e, ns') \<Rightarrow> (Inl e, ns')
      | (Inr (AlreadyConfirmed _), ns') \<Rightarrow> (Inl InvalidTransaction, ns')
      | (Inr _, ns') \<Rightarrow> (Inr (), ns'))"

text \<open>The sweep of transactions that are already confirmed, memory and store.\<close>

definition drop_confirmed_mempool_txs :: "node_state \<Rightarrow> nat \<times> node_state" where
  "drop_confirmed_mempool_txs ns =
     (let confirmed = (\<lambda>tx. confirmed_tx_index (cc_registry (ns_chain ns)) (get_tx_id tx) \<noteq> None);
          stale = filter confirmed (get_all_transactions (ns_pool ns));
          tree_stale = filter confirmed (hm_values (pending_rows (ns_pending ns))) in
      if stale = [] \<and> tree_stale = [] then (0, ns)
      else
        let ns1 = ns\<lparr>ns_pool := fold clear_transaction (stale @ tree_stale) (ns_pool ns)\<rparr>;
            all = fold (\<lambda>tx acc. if get_tx_id tx \<in> set (map get_tx_id acc) then acc else acc @ [tx]) (stale @ tree_stale) []
        in (length all, clear_processed_transactions all ns1))"

end
