(* ===== verification/A9_Admission_Props.thy ===== *)
theory A9_Admission_Props
  imports A9_Admission
begin

text \<open>
  Reservations are exact: along admission and synchronisation the reserved sum of every sender is
  the sum of the debits of its pending rows, so an admitted payment never commits more than the
  confirmed balance less the immature rewards.
\<close>

section \<open>Exact reservations\<close>

definition reserved_units :: "pending_store \<Rightarrow> string \<Rightarrow> i128" where
  "reserved_units p a = sum_list (map total_debit_units (filter (\<lambda>tx. sender tx = a) (hm_values (pending_rows p))))"

definition pending_keyed :: "pending_store \<Rightarrow> bool" where
  "pending_keyed p \<longleftrightarrow> hm_wf (pending_rows p) \<and> (\<forall>(k, tx) \<in> set (pending_rows p). k = get_tx_id tx \<and> counted tx)"

definition pending_covered :: "pending_store \<Rightarrow> bool" where
  "pending_covered p \<longleftrightarrow> pending_keyed p \<and> (\<forall>a. reserved_units p a \<le> get_pending_units (pending_debits p) a)"

lemma counted_debit: "counted tx \<Longrightarrow> 0 < total_debit_units tx \<and> total_debit_units tx \<le> i128_max"
  by (auto simp: counted_def has_valid_regular_amounts_def total_debit_units_def rust_arith MIN_TRANSACTION_AMOUNT_UNITS_def
      split: if_splits)

lemma get_pending_set:
  "get_pending_units (set_pending_for a x m) b = (if b = a then max x 0 else get_pending_units m b)"
  by (simp add: get_pending_units_def set_pending_for_def Let_def bal_def hm_get_remove hm_get_insert)

lemma bal_fold_credit:
  "bal (fold (\<lambda>tx. credit (f tx) (g tx)) txs m) a = bal m a + sum_list (map g (filter (\<lambda>tx. f tx = a) txs))"
  by (induction txs arbitrary: m) (auto simp: bal_credit)

lemma hm_wf_fold_credit: "hm_wf m \<Longrightarrow> hm_wf (fold (\<lambda>tx. credit (f tx) (g tx)) txs m)"
  by (induction txs arbitrary: m) (auto simp: credit_def hm_simps)

lemma bal_positive_only: "hm_wf m \<Longrightarrow> get_pending_units (positive_only m) a = max (bal m a) 0"
  by (simp add: positive_only_def get_pending_units_def bal_def hm_get_retain split: option.splits)

lemma keyed_counted: "pending_keyed p \<Longrightarrow> filter counted (hm_values (pending_rows p)) = hm_values (pending_rows p)"
  by (auto simp: pending_keyed_def hm_values_def filter_id_conv)

lemma reserved_nonneg: "pending_keyed p \<Longrightarrow> 0 \<le> reserved_units p a"
  unfolding reserved_units_def pending_keyed_def hm_values_def
  by (intro sum_list_nonneg) (auto dest!: counted_debit bspec)

lemma rebuild_covered: "pending_keyed p \<Longrightarrow> pending_covered (rebuild_pending_debits_index p)"
proof -
  assume k: "pending_keyed p"
  let ?m = "fold (\<lambda>tx. credit (sender tx) (total_debit_units tx)) (hm_values (pending_rows p)) []"
  have "get_pending_units (positive_only ?m) a = reserved_units p a" for a
    using reserved_nonneg[OF k, of a] hm_wf_fold_credit[of "[]" sender total_debit_units "hm_values (pending_rows p)"]
    by (simp add: bal_positive_only bal_fold_credit hm_simps reserved_units_def) (simp add: bal_def hm_simps)
  with k show ?thesis
    by (simp add: pending_covered_def rebuild_pending_debits_index_def Let_def keyed_counted pending_keyed_def reserved_units_def)
qed

lemma keyed_remove: "pending_keyed p \<Longrightarrow> pending_keyed (remove_pending k p)"
  by (auto simp: pending_keyed_def remove_pending_def hm_simps hm_ball split: if_splits)

lemma reserved_remove: "pending_keyed p \<Longrightarrow> reserved_units (remove_pending k p) a \<le> reserved_units p a"
proof -
  assume k: "pending_keyed p"
  have "\<forall>(k, tx) \<in> set m. 0 \<le> total_debit_units tx \<Longrightarrow>
      sum_list (map total_debit_units (filter (\<lambda>tx. sender tx = a) (map snd (filter Q m))))
      \<le> sum_list (map total_debit_units (filter (\<lambda>tx. sender tx = a) (map snd m)))" for m :: "(string, transaction) hmap" and Q
    by (induction m) auto
  moreover have "\<forall>(k, tx) \<in> set (pending_rows p). 0 \<le> total_debit_units tx"
    using k by (fastforce simp: pending_keyed_def dest: counted_debit)
  ultimately show ?thesis
    by (simp add: reserved_units_def remove_pending_def hm_values_def hm_remove_def AList.delete_eq)
qed

lemma covered_remove: "pending_covered p \<Longrightarrow> pending_covered (remove_pending k p)"
  by (auto simp: pending_covered_def keyed_remove remove_pending_def[of k p]
      intro: order_trans[OF reserved_remove[of p k, unfolded remove_pending_def]]
      dest: keyed_remove[of p k, unfolded remove_pending_def])

text \<open>Removing rows keeps what is reserved covered, and reserves no more for anybody.\<close>

definition shrinks :: "pending_store \<Rightarrow> pending_store \<Rightarrow> bool" where
  "shrinks p q \<longleftrightarrow> pending_covered q \<and> (\<forall>a. reserved_units q a \<le> reserved_units p a)"

lemma shrinks_fold: "pending_covered p \<Longrightarrow> shrinks p (fold remove_pending ks p)"
proof (induction ks arbitrary: p)
  case (Cons k ks)
  then have "shrinks (remove_pending k p) (fold remove_pending ks (remove_pending k p))"
    by (simp add: covered_remove)
  with Cons.prems show ?case
    by (auto simp: shrinks_def pending_covered_def intro: order_trans[OF _ reserved_remove])
qed (simp add: shrinks_def)

lemma shrinks_prune: "pending_covered p \<Longrightarrow> shrinks p (prune_pending_transactions E p)"
  by (auto simp: prune_pending_transactions_def shrinks_fold split: option.split) (simp add: shrinks_def)

lemma shrinks_rebuild: "shrinks p q \<Longrightarrow> shrinks p (rebuild_pending_debits_index q)"
  by (auto simp: shrinks_def intro!: rebuild_covered)
    (auto simp: pending_covered_def rebuild_pending_debits_index_def Let_def reserved_units_def)

lemma shrinks_trans: "shrinks p q \<Longrightarrow> shrinks q r \<Longrightarrow> shrinks p r"
  by (auto simp: shrinks_def intro: order_trans)

lemma shrinks_covered: "shrinks p q \<Longrightarrow> pending_covered q"
  by (simp add: shrinks_def)

section \<open>Solvent reservations\<close>

text \<open>What a sender may commit: its confirmed balance less the rewards that are immature at the next height.\<close>

definition spendable_units :: "node_state \<Rightarrow> string \<Rightarrow> i128" where
  "spendable_units ns a = bal (tree (cc_index (ns_chain ns))) a
     - immature_reward_units_scan (get_block ns) a (get_latest_block_index (highest ns) + 1) []"

definition settled :: "node_state \<Rightarrow> bool" where
  "settled ns \<longleftrightarrow> marker (cc_index (ns_chain ns)) = Some (get_latest_block_index (highest ns))"

definition node_solvent :: "node_state \<Rightarrow> bool" where
  "node_solvent ns \<longleftrightarrow> settled ns \<and> pending_covered (ns_pending ns)
     \<and> (\<forall>a. reserved_units (ns_pending ns) a \<le> max 0 (spendable_units ns a))"

lemma solvent_shrinks:
  assumes "node_solvent ns" "ns_chain ns' = ns_chain ns" "shrinks (ns_pending ns) (ns_pending ns')"
  shows "node_solvent ns'"
proof -
  have "get_block ns' = get_block ns" "highest ns' = highest ns"
    using assms(2) by (auto simp: get_block_def highest_def)
  with assms show ?thesis
    by (auto simp: node_solvent_def settled_def spendable_units_def shrinks_def intro: order_trans)
qed

lemma solvent_frame:
  assumes "node_solvent ns" "ns_chain ns' = ns_chain ns" "pending_rows (ns_pending ns') = pending_rows (ns_pending ns)"
    "pending_debits (ns_pending ns') = pending_debits (ns_pending ns)"
  shows "node_solvent ns'"
proof (rule solvent_shrinks[OF assms(1,2)])
  have "reserved_units (ns_pending ns') a = reserved_units (ns_pending ns) a" for a
    using assms(3) by (simp add: reserved_units_def)
  with assms show "shrinks (ns_pending ns) (ns_pending ns')"
    by (simp add: shrinks_def node_solvent_def pending_covered_def pending_keyed_def)
qed

lemma sync_solvent:
  assumes "node_solvent ns" "sync_mempool_with_store E ns = (r, ns')"
  shows "node_solvent ns'"
proof -
  let ?p = "prune_pending_transactions E (ns_pending ns)"
  have a: "shrinks (ns_pending ns) ?p"
    using assms(1) by (simp add: node_solvent_def shrinks_prune)
  have b: "shrinks (ns_pending ns) (rebuild_pending_debits_index (fold remove_pending ks ?p))" for ks
    by (rule shrinks_rebuild, rule shrinks_trans[OF a shrinks_fold], rule shrinks_covered[OF a])
  obtain q cache where q: "restore_rows E (next_block_index ns) ?p (pending_rows ?p) (ns_signatures ns) = (q, cache)"
    by fastforce
  have "ns_chain ns' = ns_chain ns \<and> shrinks (ns_pending ns) (ns_pending ns')"
    using assms(2) q a b by (cases q) (auto simp: sync_mempool_with_store_def Let_def split: prod.splits)
  then show ?thesis
    using solvent_shrinks[OF assms(1)] by blast
qed

lemma rules_solvent: "node_solvent ns \<Longrightarrow> ensure_pending_rules_for_next_block E ns = (r, ns') \<Longrightarrow> node_solvent ns'"
  by (auto simp: ensure_pending_rules_for_next_block_def split: if_splits prod.splits sum.splits
      intro: solvent_frame dest: sync_solvent)

lemma checks_solvent:
  assumes "node_solvent ns" "admission_checks E tx ns = (r, ns')"
  shows "node_solvent ns'"
proof -
  have free: "node_solvent (ns\<lparr>ns_limiter := l\<rparr>)" for l
    by (rule solvent_frame[OF assms(1)]) simp_all
  show ?thesis
    using assms free by (auto simp: admission_checks_def Let_def split: if_splits sum.splits option.splits prod.splits
        dest!: rules_solvent[rotated])
qed

text \<open>A transaction that passed the checks, waiting for the lock.\<close>

definition in_flight :: "transaction \<times> transaction \<times> string \<times> string \<Rightarrow> bool" where
  "in_flight = (\<lambda>(tx, mempool_tx, _, h). counted tx \<and> mempool_tx = tx\<lparr>sig_hash := Some h\<rparr>)"

lemma checks_in_flight:
  "admission_checks E tx ns = (Inr (Inr (m, s, h)), ns') \<Longrightarrow> in_flight (tx, m, s, h)"
  by (auto simp: admission_checks_def Let_def in_flight_def counted_def split: if_splits sum.splits option.splits prod.splits)

lemma compact_fields:
  "sender (with_truncated_signature c tx h) = sender tx" "recipient (with_truncated_signature c tx h) = recipient tx"
  "total_debit_units (with_truncated_signature c tx h) = total_debit_units tx"
  "counted (with_truncated_signature c tx h) = counted tx"
  by (simp_all add: with_truncated_signature_def total_debit_units_def counted_def is_coinbase_def has_valid_regular_amounts_def)

lemma sig_hash_fields:
  "sender (tx\<lparr>sig_hash := x\<rparr>) = sender tx" "total_debit_units (tx\<lparr>sig_hash := x\<rparr>) = total_debit_units tx"
  "counted (tx\<lparr>sig_hash := x\<rparr>) = counted tx"
  by (simp_all add: total_debit_units_def counted_def is_coinbase_def has_valid_regular_amounts_def)

lemma reserved_reserve:
  "hm_get (pending_rows p) (get_tx_id t) = None \<Longrightarrow>
   reserved_units (reserve tx t s p) a = reserved_units p a + (if sender t = a then total_debit_units t else 0)"
  by (simp add: reserved_units_def reserve_def hm_values_insert_new)

lemma covered_reserve:
  assumes "pending_covered p" "hm_get (pending_rows p) (get_tx_id t) = None" "counted t" "sender t = sender tx"
  shows "pending_covered (reserve tx t s p)"
proof -
  have "pending_keyed (reserve tx t s p)"
    using assms by (auto simp: pending_covered_def pending_keyed_def reserve_def hm_simps hm_ball split: if_splits)
  moreover have "reserved_units (reserve tx t s p) a \<le> get_pending_units (pending_debits (reserve tx t s p)) a" for a
    using assms counted_debit[OF assms(3)] spec[of _ a, OF conjunct2[OF assms(1)[unfolded pending_covered_def]]]
    by (simp add: reserved_reserve) (auto simp: reserve_def get_pending_set)
  ultimately show ?thesis
    by (simp add: pending_covered_def)
qed

lemma settled_balance:
  "settled ns \<Longrightarrow> ne_auto_rebuild E \<Longrightarrow> get_confirmed_balance_units E a ns = (Inr (bal (tree (cc_index (ns_chain ns))) a), ns)"
  by (simp add: get_confirmed_balance_units_def settled_def set_chain_def bal_def split: option.splits)

lemma add_to_mempool_frame: "add_to_mempool E tx ns = (r, ns') \<Longrightarrow> \<exists>pool. ns' = ns\<lparr>ns_pool := pool\<rparr>"
  by (auto simp: add_to_mempool_def split: prod.splits)

lemma next_block_rules_frame:
  "next_block_rules E tx m h ns = (r, ns') \<Longrightarrow> ns_chain ns' = ns_chain ns \<and> ns_pending ns' = ns_pending ns"
  by (auto simp: next_block_rules_def Let_def split: if_splits sum.splits)

text \<open>The reservation of an admitted payment.\<close>

lemma reserve_solvent:
  assumes ok: "node_solvent ns" and new: "\<not> hm_contains (pending_rows (ns_pending ns)) (get_tx_id t)" and t: "counted t" "sender t = sender tx"
    and funds: "total_debit_units t \<le> spendable_units ns (sender tx) - get_pending_units (pending_debits (ns_pending ns)) (sender tx)"
    and ns': "ns' = ns\<lparr>ns_pool := pool, ns_pending := reserve tx t s (ns_pending ns)\<rparr>"
  shows "node_solvent ns'"
proof -
  have [simp]: "get_block ns' = get_block ns" "highest ns' = highest ns" "ns_chain ns' = ns_chain ns"
    by (auto simp: get_block_def[abs_def] highest_def ns')
  have fresh: "hm_get (pending_rows (ns_pending ns)) (get_tx_id t) = None"
    using new by (simp add: hm_contains_def)
  have "reserved_units (ns_pending ns) (sender tx) \<le> get_pending_units (pending_debits (ns_pending ns)) (sender tx)"
    using ok by (simp add: node_solvent_def pending_covered_def)
  with ok funds have "reserved_units (ns_pending ns') a \<le> max 0 (spendable_units ns a)" for a
    by (auto simp: ns' reserved_reserve[OF fresh] t node_solvent_def)
  with ok show ?thesis
    by (auto simp: node_solvent_def settled_def spendable_units_def) (simp add: ns' covered_reserve fresh t)
qed

lemma locked_solvent:
  assumes ok: "node_solvent ns" and E: "ne_auto_rebuild E" and fl: "in_flight (tx, m, s, h)"
    and run: "admit_locked E tx m s h ns = (r, ns')"
  shows "node_solvent ns'"
proof -
  obtain q ns1 where q: "next_block_rules E tx m h ns = (q, ns1)"
    by fastforce
  have ok1: "node_solvent ns1"
    using next_block_rules_frame[OF q] by (intro solvent_frame[OF ok]) auto
  let ?t = "with_truncated_signature (ne_crypto E) m h" and ?p = "ns_pending ns1"
  have m: "m = tx\<lparr>sig_hash := Some h\<rparr>" and t: "counted ?t" "sender ?t = sender tx" "total_debit_units ?t = total_debit_units tx"
    using fl by (auto simp: in_flight_def compact_fields sig_hash_fields)
  have keep: "node_solvent (ns1\<lparr>ns_pool := pool\<rparr>)" "node_solvent (ns1\<lparr>ns_pending := ?p\<lparr>full_sigs := f\<rparr>, ns_pool := pool\<rparr>)" for pool f
    by (rule solvent_frame[OF ok1]; simp)+
  have bal: "get_confirmed_balance_units E (sender tx) ns1 = (Inr (bal (tree (cc_index (ns_chain ns1))) (sender tx)), ns1)"
    using ok1 E by (simp add: settled_balance node_solvent_def)
  have res: "\<not> hm_contains (pending_rows ?p) (get_tx_id ?t) \<Longrightarrow>
      total_debit_units tx \<le> spendable_units ns1 (sender tx) - get_pending_units (pending_debits ?p) (sender tx) \<Longrightarrow>
      node_solvent (ns1\<lparr>ns_pool := pool, ns_pending := reserve tx ?t s ?p\<rparr>)" for pool
    by (rule reserve_solvent[OF ok1 _ t(1,2)]) (simp_all add: t)
  show ?thesis
    using run ok1 keep res bal unfolding admit_locked_def Let_def q
    by (auto simp: spendable_units_def add_to_mempool_def split: sum.splits option.splits if_splits prod.splits)
qed

end
