(* ===== verification/A9_Admission_Theorems.thy ===== *)
theory A9_Admission_Theorems
  imports A9_Admission_Props A9_Rules_Theorems
begin

text \<open>
  Concurrent admissions as a step relation: tasks pass the checks, wait, and take the state lock in
  any order; synchronisations come between.  The chain does not change, that is, these are the
  steps between two blocks.
\<close>

section \<open>Interleaved admissions\<close>

inductive admission_step :: "node_state \<times> (transaction \<times> transaction \<times> string \<times> string) list
    \<Rightarrow> node_state \<times> (transaction \<times> transaction \<times> string \<times> string) list \<Rightarrow> bool" where
  checked: "admission_checks E tx ns = (Inr (Inr (m, s, h)), ns') \<Longrightarrow> admission_step (ns, waiting) (ns', (tx, m, s, h) # waiting)"
| decided: "admission_checks E tx ns = (Inl e, ns') \<or> admission_checks E tx ns = (Inr (Inl outcome), ns')
    \<Longrightarrow> admission_step (ns, waiting) (ns', waiting)"
| locked: "ne_auto_rebuild E \<Longrightarrow> (tx, m, s, h) \<in> set waiting \<Longrightarrow> admit_locked E tx m s h ns = (r, ns')
    \<Longrightarrow> admission_step (ns, waiting) (ns', remove1 (tx, m, s, h) waiting)"
| synced: "sync_mempool_with_store E ns = (r, ns') \<Longrightarrow> admission_step (ns, waiting) (ns', waiting)"

inductive_cases admission_stepE: "admission_step (ns, waiting) (ns', waiting')"

definition admission_inv :: "node_state \<times> (transaction \<times> transaction \<times> string \<times> string) list \<Rightarrow> bool" where
  "admission_inv = (\<lambda>(ns, waiting). node_solvent ns \<and> list_all in_flight waiting)"

lemma admission_step_inv: "admission_step x y \<Longrightarrow> admission_inv x \<Longrightarrow> admission_inv y"
proof (induction rule: admission_step.induct)
  case (checked E tx ns m s h ns' waiting)
  then show ?case
    using checks_in_flight[OF checked(1)] checks_solvent[of ns E tx] by (auto simp: admission_inv_def)
next
  case (decided E tx ns e ns' outcome waiting)
  then show ?case
    using checks_solvent[of ns E tx] by (auto simp: admission_inv_def)
next
  case (locked E tx m s h waiting ns r ns')
  then have "in_flight (tx, m, s, h)"
    by (auto simp: admission_inv_def list_all_iff)
  with locked show ?case
    using locked_solvent[OF _ locked(1) _ locked(3)] set_remove1_subset[of "(tx, m, s, h)" waiting]
    by (auto simp: admission_inv_def list_all_iff)
next
  case (synced E ns r ns' waiting)
  then show ?case
    by (auto simp: admission_inv_def dest: sync_solvent)
qed

lemma admission_run_inv: "admission_step\<^sup>*\<^sup>* x y \<Longrightarrow> admission_inv x \<Longrightarrow> admission_inv y"
  by (induction rule: rtranclp_induct) (auto intro: admission_step_inv)

text \<open>One admission, with other admissions in between, is a run of such steps.\<close>

lemma admit_is_run:
  assumes "ne_auto_rebuild E" "\<And>ns1 w. admission_step\<^sup>*\<^sup>* (ns1, w) (meanwhile ns1, w)"
    and "admit_transaction E meanwhile tx ns = (r, ns')"
  shows "admission_step\<^sup>*\<^sup>* (ns, []) (ns', [])"
proof -
  obtain q ns1 where q: "admission_checks E tx ns = (q, ns1)"
    by fastforce
  show ?thesis
  proof (cases "\<exists>m s h. q = Inr (Inr (m, s, h))")
    case True
    then obtain m s h where h: "q = Inr (Inr (m, s, h))"
      by blast
    have a: "admission_step (ns, []) (ns1, [(tx, m, s, h)])"
      using q h by (auto intro: checked)
    have "admit_locked E tx m s h (meanwhile ns1) = (r, ns')"
      using assms(3) q h by (simp add: admit_transaction_def)
    from locked[OF assms(1) _ this, of "[(tx, m, s, h)]"] have b: "admission_step (meanwhile ns1, [(tx, m, s, h)]) (ns', [])"
      by simp
    show ?thesis
      using a b assms(2)[of ns1 "[(tx, m, s, h)]"] by (meson converse_rtranclp_into_rtranclp rtranclp.rtrancl_into_rtrancl)
  next
    case False
    then have "ns' = ns1" "(\<exists>e. q = Inl e) \<or> (\<exists>out. q = Inr (Inl out))"
      using assms(3) q by (auto simp: admit_transaction_def split: sum.splits prod.splits)
    with q have "admission_step (ns, []) (ns', [])"
      by (blast intro: decided)
    then show ?thesis
      by (rule r_into_rtranclp)
  qed
qed


definition paying_tx :: transaction where
  "paying_tx = \<lparr>sender = sample_addr, recipient = hex_enc (replicate 20 (CHR ''r'')), fee_units = MIN_RELAY_FEE_UNITS,
     amount_units = 100000000, timestamp = 0, signature = Some (hex_enc (replicate 65 (CHR ''s''))),
     pub_key = Some (hex_enc (replicate PUBLIC_KEY_BYTES (CHR ''k''))), sig_hash = None\<rparr>"

definition paying_env :: node_env where
  "paying_env = \<lparr>ne_crypto = hexed_crypto, ne_serialize = (\<lambda>_. []), ne_codec = (\<lambda>_. Some []), ne_evict = (\<lambda>_. []),
     ne_genesis_ts = Inr 0, ne_now = 0, ne_clock = (0, 0, 0), ne_limiter_now = 0, ne_ttl = None, ne_pending_ttl = None,
     ne_auto_rebuild = True\<rparr>"

definition paying_state :: node_state where
  "paying_state = \<lparr>ns_chain = \<lparr>cc_rows = [], cc_tip = None, cc_index = \<lparr>tree = [(sample_addr, 200000000)], marker = Some 0\<rparr>,
       cc_registry = \<lparr>reg_tree = [], reg_index = [], reg_built = True\<rparr>\<rparr>,
     ns_dirty = False, ns_pending = \<lparr>pending_rows = [], full_sigs = [], pending_debits = [], pending_credits = []\<rparr>,
     ns_pool = new_mempool, ns_witnesses = \<lparr>confirmed_witnesses = [], witness_index = []\<rparr>,
     ns_orphans = \<lparr>orphan_bodies = [], orphan_keys = [], orphan_index_reconciled = True\<rparr>,
     ns_sentinel = \<lparr>verified_blocks = [], integrity_score = 100, last_verification = 0, verification_seq = 0\<rparr>,
     ns_checkpoint = None, ns_known_checkpoint = 0, ns_blocked = [], ns_signatures = [],
     ns_limiter = \<lparr>windows = [], window_size = 60, max_requests = 10, calls_since_sweep = 0\<rparr>,
     ns_difficulty = 0, ns_rules_complete = False\<rparr>"

lemma hex_enc_canonical: "length x = 20 \<Longrightarrow> is_canonical_user_address (hex_enc x)"
  using hex_enc_text[of x] by (simp add: is_canonical_user_address_def hex_enc_length hex_field_text_def)

lemma canonical_not_reserved: "is_canonical_user_address a \<Longrightarrow> take 2 a \<noteq> ''__''"
  by (cases a) (auto simp: is_canonical_user_address_def less_eq_char_def numeral_2_eq_2)

lemma sample_addr_canonical: "is_canonical_user_address sample_addr"
  by (simp add: sample_addr_def hex_enc_canonical zero_hash_def)

lemma paying_parts:
  "sender paying_tx = sample_addr" "recipient paying_tx \<noteq> sample_addr" "\<not> is_coinbase paying_tx" "has_valid_regular_amounts paying_tx"
  "fee_units paying_tx = MIN_RELAY_FEE_UNITS" "is_canonical_user_address (recipient paying_tx)"
  "take 2 sample_addr \<noteq> ''__''" "take 2 (recipient paying_tx) \<noteq> ''__''" "total_debit_units paying_tx = 100010000"
proof -
  show "\<not> is_coinbase paying_tx"
    using sample_addr_regular(2) by (simp add: is_coinbase_def paying_tx_def)
  have "hex_dec (recipient paying_tx) \<noteq> hex_dec sample_addr"
    unfolding paying_tx_def sample_addr_def transaction.simps hex_dec_enc by (simp add: zero_hash_def numeral_eq_Suc)
  then show "recipient paying_tx \<noteq> sample_addr" by metis
  show c: "is_canonical_user_address (recipient paying_tx)"
    by (simp add: paying_tx_def hex_enc_canonical)
  show "take 2 sample_addr \<noteq> ''__''" "take 2 (recipient paying_tx) \<noteq> ''__''"
    by (rule canonical_not_reserved, rule sample_addr_canonical c)+
qed (simp_all add: paying_tx_def has_valid_regular_amounts_def total_debit_units_def rust_arith MIN_RELAY_FEE_UNITS_def
    MIN_TRANSACTION_AMOUNT_UNITS_def i128_min_def i128_max_def)

lemma paying_signature:
  "is_valid hexed_crypto paying_tx (hex_enc (replicate PUBLIC_KEY_BYTES (CHR ''k'')))"
  "derived_address hexed_crypto x = sample_addr" "signature_hash_hex hexed_crypto x = hex_enc zero_hash"
  using sample_addr_regular(2)
  by (simp_all add: is_valid_def paying_tx_def hexed_crypto_def hex_dec_enc derived_address_def sample_addr_def signature_hash_hex_def
      SYSTEM_ADDRESSES_def)

lemma paying_next: "next_block_index (paying_state\<lparr>ns_limiter := l\<rparr>) = 1" "highest (paying_state\<lparr>ns_limiter := l\<rparr>) = None"
  "ns_rules_complete paying_state = False"
  by (simp_all add: next_block_index_def highest_def highest_block_index_def paying_state_def highest_block_index_scan_def
      get_latest_block_index_def u32_saturating_add_def u32_max_def)

lemma paying_checks:
  "\<exists>l. admission_checks paying_env paying_tx paying_state =
    (Inr (Inr (paying_tx\<lparr>sig_hash := Some (hex_enc zero_hash)\<rparr>, replicate 65 (CHR ''s''), hex_enc zero_hash)),
     paying_state\<lparr>ns_limiter := l\<rparr>)"
proof -
  have sig: "signature paying_tx = Some (hex_enc (replicate 65 (CHR ''s'')))"
    "pub_key paying_tx = Some (hex_enc (replicate PUBLIC_KEY_BYTES (CHR ''k'')))"
    by (simp_all add: paying_tx_def)
  have dec: "hex_decode hexed_crypto (hex_enc x) = Some x" for x
    by (simp add: hexed_crypto_def hex_dec_enc)
  have reg: "confirmed_tx_index_checked (cc_registry (ns_chain paying_state)) k = Inr None" for k
    by (simp add: paying_state_def confirmed_tx_index_checked_def hm_simps)
  have lim: "\<exists>l. check_limit sample_addr 0 (ns_limiter paying_state) = (True, l)"
    by (simp add: check_limit_def paying_state_def admit_in_window_def hm_simps)
  have nxt: "ensure_pending_rules_for_next_block paying_env (paying_state\<lparr>ns_limiter := l\<rparr>) = (Inr (), paying_state\<lparr>ns_limiter := l\<rparr>)" for l
    using paying_next(3) by (simp add: ensure_pending_rules_for_next_block_def paying_next FEE_SYSTEM_ACTIVATION_HEIGHT_def)
  have env: "ne_crypto paying_env = hexed_crypto" "ne_limiter_now paying_env = 0"
    by (simp_all add: paying_env_def)
  from lim obtain l where "check_limit sample_addr 0 (ns_limiter paying_state) = (True, l)"
    by blast
  then show ?thesis
    using paying_parts(2)[symmetric] by (auto simp: admission_checks_def Let_def paying_parts reg env sig dec paying_signature nxt)
qed

lemma paying_admitted: "fst (admit_transaction paying_env (\<lambda>ns. ns) paying_tx paying_state) = Inr Inserted"
proof -
  obtain l where l: "admission_checks paying_env paying_tx paying_state =
    (Inr (Inr (paying_tx\<lparr>sig_hash := Some (hex_enc zero_hash)\<rparr>, replicate 65 (CHR ''s''), hex_enc zero_hash)),
     paying_state\<lparr>ns_limiter := l\<rparr>)"
    using paying_checks by blast
  note hi = paying_next(2)[of l]
  have rules: "next_block_rules paying_env paying_tx m h (paying_state\<lparr>ns_limiter := l\<rparr>) = (Inr (), paying_state\<lparr>ns_limiter := l\<rparr>)" for m h
    using paying_next(3) by (simp add: next_block_rules_def paying_next FEE_SYSTEM_ACTIVATION_HEIGHT_def)
  have reg: "confirmed_tx_index_checked (cc_registry (ns_chain paying_state)) k = Inr None" for k
    by (simp add: paying_state_def confirmed_tx_index_checked_def hm_simps)
  have bal: "get_confirmed_balance_units paying_env sample_addr (paying_state\<lparr>ns_limiter := l\<rparr>)
      = (Inr 200000000, paying_state\<lparr>ns_limiter := l\<rparr>)"
    using hi by (subst settled_balance) (auto simp: settled_def get_latest_block_index_def paying_env_def bal_def paying_state_def hm_get_def)
  have pool: "\<exists>m. add_to_mempool paying_env tx (paying_state\<lparr>ns_limiter := l\<rparr>) = (Inr (), m)" if "fee_units tx = MIN_RELAY_FEE_UNITS" for tx
    using that by (simp add: add_to_mempool_def add_transaction_def admit_def paying_env_def paying_state_def new_mempool_def
        hm_simps admit_sized_def Let_def MEMPOOL_MAX_BYTES_def MEMPOOL_MAX_TRANSACTIONS_def rust_arith prune_expired_def PRUNE_INTERVAL_SECS_def)
  have none: "\<not> hm_contains (pending_rows (ns_pending paying_state)) k" "get_pending_units (pending_debits (ns_pending paying_state)) a = 0" for k a
    by (simp_all add: paying_state_def hm_contains_def hm_simps get_pending_units_def bal_def)
  have imm: "immature_reward_units_scan g a (Suc 0) [] = 0" for g a
    by (simp add: immature_reward_units_scan_def immature_coinbase_details_def MATURITY_ACTIVATION_HEIGHT_def as_u32_def)
  obtain m where m: "add_to_mempool paying_env (paying_tx\<lparr>sig_hash := Some (hex_enc zero_hash)\<rparr>) (paying_state\<lparr>ns_limiter := l\<rparr>) = (Inr (), m)"
    using pool[of "paying_tx\<lparr>sig_hash := Some (hex_enc zero_hash)\<rparr>"] paying_parts by auto
  show ?thesis
    by (simp add: admit_transaction_def l admit_locked_def rules Let_def reg none bal paying_parts hi m imm get_latest_block_index_def)
qed


section \<open>Confirmation\<close>

lemma i128_sub_nonneg: "0 \<le> x \<Longrightarrow> x \<le> i128_max \<Longrightarrow> 0 \<le> d \<Longrightarrow> max (i128_saturating_sub x d) 0 = max (x - d) 0"
  by (auto simp: i128_saturating_sub_def i128_clamp_def i128_min_def)

lemma confirm_fields:
  "\<not> is_coinbase tx \<Longrightarrow> pending_rows (confirm_pending tx p) = hm_remove (get_tx_id tx) (pending_rows p)"
  "\<not> is_coinbase tx \<Longrightarrow> get_pending_units (pending_debits (confirm_pending tx p)) a =
     (if a = sender tx then max (i128_saturating_sub (get_pending_units (pending_debits p) a) (total_debit_units tx)) 0
      else get_pending_units (pending_debits p) a)"
  by (simp_all add: confirm_pending_def release_credit_def release_debit_def remove_pending_def get_pending_set)

text \<open>Confirming a pending payment releases its own reservation.\<close>

lemma confirm_covered:
  assumes p: "pending_covered p" and t: "hm_get (pending_rows p) (get_tx_id tx) = Some t"
    and same: "counted tx" "sender t = sender tx" "total_debit_units t = total_debit_units tx"
    and small: "get_pending_units (pending_debits p) (sender tx) \<le> i128_max"
  shows "pending_covered (confirm_pending tx p)"
proof -
  have nc: "\<not> is_coinbase tx" and d: "0 \<le> total_debit_units tx"
    using same(1) counted_debit[OF same(1)] by (auto simp: counted_def)
  have wf: "hm_wf (pending_rows p)"
    using p by (simp add: pending_covered_def pending_keyed_def)
  let ?f = "\<lambda>a t. if sender t = a then total_debit_units t else 0"
  have flat: "reserved_units q a = sum_list (map (?f a) (hm_values (pending_rows q)))" for q a
    unfolding reserved_units_def by (simp add: sum_list_map_filter')
  have res: "reserved_units (confirm_pending tx p) a + ?f a t = reserved_units p a" for a
    using sum_list_hm_remove[OF wf t, of "?f a"] by (simp add: flat confirm_fields nc)
  have pos: "0 \<le> get_pending_units (pending_debits p) a" for a
    by (simp add: get_pending_units_def)
  have "pending_keyed (confirm_pending tx p)"
    using p keyed_remove[of p "get_tx_id tx"] by (simp add: pending_covered_def pending_keyed_def confirm_fields nc remove_pending_def)
  moreover have "reserved_units (confirm_pending tx p) a \<le> get_pending_units (pending_debits (confirm_pending tx p)) a" for a
    using res[of a] p spec[of _ a, OF conjunct2[OF p[unfolded pending_covered_def]]] same
      i128_sub_nonneg[OF pos small d] by (auto simp: confirm_fields nc)
  ultimately show ?thesis
    by (simp add: pending_covered_def)
qed

text \<open>C29. Confirming a payment that was never pending here releases the reservation of the sender's other payments:
  those rows stay, and less than their sum is reserved.\<close>

theorem unseen_payment_erodes_reservation:
  assumes "counted tx" and "hm_get (pending_rows p) (get_tx_id tx) = None"
    and "get_pending_units (pending_debits p) (sender tx) = reserved_units p (sender tx)"
    and "0 < reserved_units p (sender tx)" and "reserved_units p (sender tx) \<le> i128_max"
  shows "get_pending_units (pending_debits (confirm_pending tx p)) (sender tx) < reserved_units (confirm_pending tx p) (sender tx)"
proof -
  have nc: "\<not> is_coinbase tx" and d: "0 < total_debit_units tx"
    using assms(1) counted_debit[OF assms(1)] by (auto simp: counted_def)
  have "reserved_units (confirm_pending tx p) (sender tx) = reserved_units p (sender tx)"
    using assms(2) nc by (simp add: reserved_units_def confirm_fields hm_remove_absent)
  then show ?thesis
    using assms d i128_sub_nonneg[of "reserved_units p (sender tx)" "total_debit_units tx"] by (simp add: confirm_fields nc)
qed

definition other_tx :: transaction where
  "other_tx = paying_tx\<lparr>recipient := ''bob''\<rparr>"

definition one_pending :: pending_store where
  "one_pending = \<lparr>pending_rows = [(get_tx_id paying_tx, paying_tx)], full_sigs = [], pending_debits = [(sample_addr, 100010000)],
     pending_credits = []\<rparr>"

theorem unseen_payment_erodes_reservation_witness:
  "get_pending_units (pending_debits (confirm_pending other_tx one_pending)) sample_addr
     < reserved_units (confirm_pending other_tx one_pending) sample_addr"
proof -
  have s: "sender other_tx = sample_addr" and r: "reserved_units one_pending sample_addr = 100010000"
    by (simp_all add: other_tx_def one_pending_def reserved_units_def hm_values_def paying_parts)
  have "counted other_tx"
    using paying_parts(3,4) by (simp add: counted_def other_tx_def is_coinbase_def has_valid_regular_amounts_def)
  moreover have "recipient paying_tx @ x \<noteq> ''bob'' @ '':'' @ y" for x y
  proof
    assume "recipient paying_tx @ x = ''bob'' @ '':'' @ y"
    then have "(recipient paying_tx @ x) ! 1 = CHR ''o''" by simp
    then have "recipient paying_tx ! 1 = CHR ''o''" "1 < length (recipient paying_tx)"
      using paying_parts(6) by (simp_all add: is_canonical_user_address_def nth_append)
    then show False
      using paying_parts(6) unfolding is_canonical_user_address_def list_all_length by (auto simp: less_eq_char_def dest!: spec[of _ "Suc 0"])
  qed
  then have "get_tx_id other_tx \<noteq> get_tx_id paying_tx"
    by (auto simp: get_tx_id_def other_tx_def dest: sym)
  ultimately show ?thesis
    using unseen_payment_erodes_reservation[of other_tx one_pending] s r
    by (simp add: one_pending_def hm_get_def get_pending_units_def bal_def i128_max_def)
qed

end
