(* ===== verification/A9_Witness.thy ===== *)
theory A9_Witness
  imports A9_Node
begin

text \<open>
  The full signatures a node keeps for recently confirmed payments, and the trusted checkpoint with the gate
  that rests on both (\<^verbatim>\<open>src/a9/blockchain.rs\<close>).  A witness object is shared by the heights
  that confirm its transaction; the index holds one row for each height, and only unpinned
  objects are swept.  Index keys are a height and an id; a key too short to hold an id is one
  with the empty id.
\<close>

section \<open>Retention\<close>

definition WITNESS_RETENTION_BLOCKS :: u64 where
  "WITNESS_RETENTION_BLOCKS = 256"

definition witness_binds :: "crypto \<Rightarrow> transaction \<Rightarrow> string \<Rightarrow> bool" where
  "witness_binds c tx sig \<longleftrightarrow> length sig > 64 \<and> sig_hash tx = Some (signature_hash_hex c sig)"

definition witness_to_retain :: "crypto \<Rightarrow> transaction \<Rightarrow> string option \<Rightarrow> bool \<Rightarrow> string option" where
  "witness_to_retain c tx sidecar_sig is_block_validation =
     (let keep = (\<lambda>s. Option.bind s (\<lambda>sig. if witness_binds c tx sig then Some sig else None)) in
      case keep sidecar_sig of
        Some sig \<Rightarrow> Some sig
      | None \<Rightarrow> if is_block_validation then keep (Option.bind (signature tx) (hex_decode c)) else None)"

definition retain_witness :: "crypto \<Rightarrow> u64 \<Rightarrow> bool \<Rightarrow> (string, string) hmap \<Rightarrow> transaction \<Rightarrow> witness_store \<Rightarrow> witness_store" where
  "retain_witness c confirm_height is_block_validation sigs tx w =
     (if is_coinbase tx then w
      else case witness_to_retain c tx (hm_get sigs (get_tx_id tx)) is_block_validation of
             None \<Rightarrow> w
           | Some sig \<Rightarrow>
               w\<lparr>confirmed_witnesses := hm_insert (get_tx_id tx) (tx\<lparr>signature := Some (hex_encode c sig)\<rparr>) (confirmed_witnesses w),
                 witness_index := List.insert (confirm_height, get_tx_id tx) (witness_index w)\<rparr>)"

definition retain_confirmed_witnesses :: "crypto \<Rightarrow> transaction list \<Rightarrow> u64 \<Rightarrow> bool \<Rightarrow> (string, string) hmap \<Rightarrow> witness_store \<Rightarrow> witness_store" where
  "retain_confirmed_witnesses c txs confirm_height is_block_validation sigs w =
     fold (retain_witness c confirm_height is_block_validation sigs) txs w"

definition stale_pin :: "u64 \<Rightarrow> u64 \<times> string \<Rightarrow> bool" where
  "stale_pin height_of_tip row \<longleftrightarrow>
     snd row = [] \<or> height_of_tip > WITNESS_RETENTION_BLOCKS \<and> fst row \<le> saturating_sub height_of_tip WITNESS_RETENTION_BLOCKS"

definition prune_confirmed_witnesses :: "u64 \<Rightarrow> witness_store \<Rightarrow> witness_store" where
  "prune_confirmed_witnesses height_of_tip w =
     (let kept = filter (\<lambda>row. \<not> stale_pin height_of_tip row) (witness_index w) in
      w\<lparr>witness_index := kept, confirmed_witnesses := hm_retain (\<lambda>tx_id _. tx_id \<in> set (map snd kept)) (confirmed_witnesses w)\<rparr>)"

definition is_system_tx :: "transaction \<Rightarrow> bool" where
  "is_system_tx tx \<longleftrightarrow> sender tx \<in> set SYSTEM_ADDRESSES"

definition get_block_count :: "node_state \<Rightarrow> usize" where
  "get_block_count ns = (case get_last_block ns of Some tip \<Rightarrow> index tip + 1 | None \<Rightarrow> 0)"

definition reconcile_confirmed_witness_index :: "node_state \<Rightarrow> node_state" where
  "reconcile_confirmed_witness_index ns =
     (let height_of_tip = max (get_block_count ns) 1 - 1;
          start = saturating_sub height_of_tip (saturating_sub WITNESS_RETENTION_BLOCKS 1);
          w = ns_witnesses ns;
          pins = concat (map (\<lambda>height. case get_block ns (as_u32 height) of
                   None \<Rightarrow> []
                 | Some b \<Rightarrow> map (\<lambda>tx. (height, get_tx_id tx))
                     (filter (\<lambda>tx. \<not> is_system_tx tx \<and> hm_contains (confirmed_witnesses w) (get_tx_id tx)) (transactions b)))
                 [start..<height_of_tip + 1])
      in ns\<lparr>ns_witnesses := w\<lparr>witness_index := fold List.insert pins (witness_index w)\<rparr>\<rparr>)"

section \<open>Serving\<close>

definition get_confirmed_witness_tx :: "witness_store \<Rightarrow> string \<Rightarrow> transaction option" where
  "get_confirmed_witness_tx w tx_id = hm_get (confirmed_witnesses w) tx_id"

definition full_witness_tx :: "witness_store \<Rightarrow> transaction \<Rightarrow> transaction" where
  "full_witness_tx w tx =
     (if is_system_tx tx then tx
      else case get_confirmed_witness_tx w (get_tx_id tx) of
             None \<Rightarrow> tx
           | Some full \<Rightarrow> if signature full = None then tx else tx\<lparr>signature := signature full\<rparr>)"

definition block_with_full_witnesses :: "witness_store \<Rightarrow> block \<Rightarrow> block" where
  "block_with_full_witnesses w b = b\<lparr>transactions := map (full_witness_tx w) (transactions b)\<rparr>"

definition full_sig_present :: "crypto \<Rightarrow> transaction \<Rightarrow> bool" where
  "full_sig_present c tx \<longleftrightarrow> (case Option.bind (signature tx) (hex_decode c) of Some sig \<Rightarrow> length sig > 64 | None \<Rightarrow> False)"

definition block_witnesses_are_complete :: "crypto \<Rightarrow> block \<Rightarrow> bool" where
  "block_witnesses_are_complete c b \<longleftrightarrow> list_all (\<lambda>tx. is_system_tx tx \<or> full_sig_present c tx) (transactions b)"

fun signatures_verified :: "crypto \<Rightarrow> (string list \<Rightarrow> string list) \<Rightarrow> transaction list \<Rightarrow> string list \<Rightarrow> bool \<times> string list" where
  "signatures_verified c evict [] cache = (True, cache)"
| "signatures_verified c evict (tx # txs) cache =
     (if is_system_tx tx then signatures_verified c evict txs cache
      else if \<not> full_sig_present c tx then (False, cache)
      else case verify_transaction_signature c evict tx cache of
             (Inl _, cache') \<Rightarrow> (False, cache')
           | (Inr _, cache') \<Rightarrow> signatures_verified c evict txs cache')"

definition block_signatures_fully_verified :: "node_env \<Rightarrow> block \<Rightarrow> node_state \<Rightarrow> bool \<times> node_state" where
  "block_signatures_fully_verified E b ns =
     (case signatures_verified (ne_crypto E) (ne_evict E) (transactions b) (ns_signatures ns) of
        (ok, cache) \<Rightarrow> (ok, ns\<lparr>ns_signatures := cache\<rparr>))"

definition rehydrate_reverted_tx :: "crypto \<Rightarrow> witness_store \<Rightarrow> transaction \<Rightarrow> transaction option" where
  "rehydrate_reverted_tx c w tx =
     Option.bind (get_confirmed_witness_tx w (get_tx_id tx)) (\<lambda>full. if full_sig_present c full then Some full else None)"

section \<open>The trusted checkpoint\<close>

definition CHECKPOINT_REORG_MARGIN :: u32 where
  "CHECKPOINT_REORG_MARGIN = 64"

definition WITNESS_LOSS_FLOOR :: u32 where
  "WITNESS_LOSS_FLOOR = 35"

text \<open>A row that cannot be read is an absent one: the last height read is used.\<close>

definition trusted_checkpoint_height :: "node_state \<Rightarrow> u32 \<times> node_state" where
  "trusted_checkpoint_height ns =
     (case ns_checkpoint ns of
        Some height \<Rightarrow> (height, ns\<lparr>ns_known_checkpoint := height\<rparr>)
      | None \<Rightarrow> (ns_known_checkpoint ns, ns))"

definition verification_floor :: "node_state \<Rightarrow> u32 \<times> node_state" where
  "verification_floor ns = (case trusted_checkpoint_height ns of (h, ns') \<Rightarrow> (max h WITNESS_LOSS_FLOOR, ns'))"

definition raise_trusted_checkpoint :: "u32 \<Rightarrow> node_state \<Rightarrow> node_state" where
  "raise_trusted_checkpoint height0 ns =
     (let height = min height0 (saturating_sub (as_u32 (get_latest_block_index (highest ns))) CHECKPOINT_REORG_MARGIN);
          current = (case ns_checkpoint ns of Some h \<Rightarrow> h | None \<Rightarrow> 0)
      in ns\<lparr>ns_checkpoint := (if height > current then Some height else ns_checkpoint ns)\<rparr>)"

definition seed_trusted_checkpoint_if_unset :: "node_state \<Rightarrow> node_state" where
  "seed_trusted_checkpoint_if_unset ns =
     (case ns_checkpoint ns of
        Some _ \<Rightarrow> ns
      | None \<Rightarrow> ns\<lparr>ns_checkpoint :=
          Some (saturating_sub (as_u32 (get_latest_block_index (highest ns))) CHECKPOINT_REORG_MARGIN)\<rparr>)"

definition advance_checkpoint_behind :: "u32 \<Rightarrow> node_state \<Rightarrow> node_state" where
  "advance_checkpoint_behind verified_height ns =
     raise_trusted_checkpoint (saturating_sub verified_height CHECKPOINT_REORG_MARGIN) ns"

section \<open>Branches deferred for their witnesses\<close>

definition ORPHAN_TTL_SECS :: u64 where
  "ORPHAN_TTL_SECS = 6 * 60 * 60"

definition WITNESS_BLOCKED_BACKOFF_SECS :: u64 where
  "WITNESS_BLOCKED_BACKOFF_SECS = 45"

definition WITNESS_BLOCKED_TTL_SECS :: u64 where
  "WITNESS_BLOCKED_TTL_SECS = ORPHAN_TTL_SECS"

definition witness_branch_backoff_active :: "u64 \<Rightarrow> string \<Rightarrow> (string, witness_blocked_branch) hmap \<Rightarrow> bool" where
  "witness_branch_backoff_active now branch_hash blocked \<longleftrightarrow>
     (case hm_get blocked branch_hash of Some e \<Rightarrow> now < retry_after e | None \<Rightarrow> False)"

definition unexpired_blocked :: "u64 \<Rightarrow> (string, witness_blocked_branch) hmap \<Rightarrow> (string, witness_blocked_branch) hmap" where
  "unexpired_blocked now blocked = hm_retain (\<lambda>_ e. saturating_sub now (recorded_at e) \<le> WITNESS_BLOCKED_TTL_SECS) blocked"

definition record_witness_blocked :: "u64 \<Rightarrow> string \<Rightarrow> (u32 \<times> string) list \<Rightarrow> (string, witness_blocked_branch) hmap
    \<Rightarrow> (string, witness_blocked_branch) hmap" where
  "record_witness_blocked now branch_hash lacking blocked0 =
     (let blocked = unexpired_blocked now blocked0;
          tried = (case hm_get blocked branch_hash of Some e \<Rightarrow> attempts e | None \<Rightarrow> 0)
      in hm_insert branch_hash \<lparr>retry_after = saturating_add now WITNESS_BLOCKED_BACKOFF_SECS,
           attempts = u32_saturating_add tried 1, needed = lacking, recorded_at = now\<rparr> blocked)"

definition clear_witness_blocked :: "string \<Rightarrow> (string, witness_blocked_branch) hmap \<Rightarrow> (string, witness_blocked_branch) hmap" where
  "clear_witness_blocked branch_hash blocked = hm_remove branch_hash blocked"

definition witness_blocked_snapshot :: "u64 \<Rightarrow> (string, witness_blocked_branch) hmap
    \<Rightarrow> (string \<times> u32 \<times> (u32 \<times> string) list) list \<times> (string, witness_blocked_branch) hmap" where
  "witness_blocked_snapshot now blocked0 =
     (let blocked = unexpired_blocked now blocked0 in
      (map (\<lambda>(tip, e). (tip, attempts e, needed e)) blocked, blocked))"

end
