(* ===== verification/A9_Apply.thy ===== *)
theory A9_Apply
  imports A9_Witness
begin

text \<open>
  Extending the tip: the pool of orphans, the chain sentinel, the ledger writer
  (\<open>process_transactions_batch\<close>) and the two ways a block becomes the new tip
  (\<open>persist_validated_block_with_mode\<close>, \<open>finalize_block\<close>) in \<^verbatim>\<open>src/a9/blockchain.rs\<close>.
  Tip signals and log lines are left out.
\<close>

section \<open>Orphans\<close>

definition ORPHAN_MAX_COUNT :: usize where
  "ORPHAN_MAX_COUNT = 10000"

definition orphan_index_key :: "block \<Rightarrow> string \<times> u32 \<times> string" where
  "orphan_index_key b = (previous_hash b, index b, hash b)"

definition pool_of :: "orphan_store \<Rightarrow> orphan_pool" where
  "pool_of o1 = \<lparr>orphan_blocks = hm_map_values fst (orphan_bodies o1), orphan_index = hm_keys (orphan_keys o1)\<rparr>"

definition remove_orphan_by_hash :: "string \<Rightarrow> orphan_store \<Rightarrow> orphan_store" where
  "remove_orphan_by_hash h o1 =
     (case hm_get (orphan_bodies o1) h of
        None \<Rightarrow> o1
      | Some (b, _) \<Rightarrow> o1\<lparr>orphan_bodies := hm_remove h (orphan_bodies o1), orphan_keys := hm_remove (orphan_index_key b) (orphan_keys o1)\<rparr>)"

text \<open>The arrival time of an index row: its value, or that of the body for a row without one.\<close>

definition received_at :: "orphan_store \<Rightarrow> (string \<times> u32 \<times> string) \<times> u64 option \<Rightarrow> u64 option" where
  "received_at o1 = (\<lambda>((_, _, h), v). case v of Some t \<Rightarrow> Some t | None \<Rightarrow> map_option snd (hm_get (orphan_bodies o1) h))"

definition dead_orphan :: "u64 \<Rightarrow> u32 option \<Rightarrow> u32 \<Rightarrow> u32 \<Rightarrow> u64 \<Rightarrow> bool" where
  "dead_orphan now tip checkpoint height arrived \<longleftrightarrow>
     saturating_sub now arrived > ORPHAN_TTL_SECS
     \<or> (case tip of Some t \<Rightarrow> u32_saturating_add height ORPHAN_REORG_DEPTH < t | None \<Rightarrow> False)
     \<or> checkpoint > 0 \<and> height \<le> checkpoint"

text \<open>The rows that have an age, dead or retained; of more than \<open>ORPHAN_MAX_COUNT\<close> retained ones the oldest go.\<close>

definition condemned_orphans :: "u64 \<Rightarrow> u32 option \<Rightarrow> u32 \<Rightarrow> orphan_store \<Rightarrow> string list" where
  "condemned_orphans now tip checkpoint o1 =
     (let rows = concat (map (\<lambda>row. case received_at o1 row of None \<Rightarrow> [] | Some t \<Rightarrow> [(fst (snd (fst row)), snd (snd (fst row)), t)]) (orphan_keys o1));
          dead = (\<lambda>(height, _, t). dead_orphan now tip checkpoint height t);
          retained = map (\<lambda>(_, h, t). (t, h)) (filter (\<lambda>r. \<not> dead r) rows);
          overflow = length retained - ORPHAN_MAX_COUNT
      in map (\<lambda>(_, h, _). h) (filter dead rows) @ map snd (take overflow (sort_key fst retained)))"

definition prune_orphans :: "node_env \<Rightarrow> node_state \<Rightarrow> node_state" where
  "prune_orphans E ns0 =
     (let o0 = ns_orphans ns0 in
      if orphan_bodies o0 = [] \<and> orphan_keys o0 = [] then ns0
      else case trusted_checkpoint_height ns0 of (checkpoint, ns) \<Rightarrow>
        let o1 = o0\<lparr>orphan_keys := map (\<lambda>row. (fst row, case received_at o0 row of Some t \<Rightarrow> Some t | None \<Rightarrow> snd row)) (orphan_keys o0)\<rparr>;
            o2 = fold remove_orphan_by_hash (condemned_orphans (ne_now E) (highest ns) checkpoint o0) o1;
            o3 = o2\<lparr>orphan_keys := filter (\<lambda>((_, _, h), _). hm_contains (orphan_bodies o2) h) (orphan_keys o2)\<rparr>;
            o4 = (if orphan_index_reconciled o3 then o3
                  else o3\<lparr>orphan_index_reconciled := True,
                    orphan_keys := fold (\<lambda>(b, t) keys. if hm_contains keys (orphan_index_key b) then keys
                        else hm_insert (orphan_index_key b) (Some t) keys) (hm_values (orphan_bodies o3)) (orphan_keys o3)\<rparr>)
        in ns\<lparr>ns_orphans := o4\<rparr>)"

definition store_orphan_block :: "node_env \<Rightarrow> block \<Rightarrow> node_state \<Rightarrow> node_state" where
  "store_orphan_block E b ns0 =
     (case trusted_checkpoint_height ns0 of (checkpoint, ns) \<Rightarrow>
        if checkpoint > 0 \<and> index b \<le> checkpoint then ns
        else if (case highest ns of Some tip \<Rightarrow> index b > u32_saturating_add tip ORPHAN_REORG_DEPTH | None \<Rightarrow> False) then ns
        else if hm_contains (orphan_bodies (ns_orphans ns)) (hash b) then ns
        else
          let o1 = ns_orphans ns in
          prune_orphans E (ns\<lparr>ns_orphans := o1\<lparr>orphan_keys := hm_insert (orphan_index_key b) (Some (ne_now E)) (orphan_keys o1),
            orphan_bodies := hm_insert (hash b) (b, ne_now E) (orphan_bodies o1)\<rparr>\<rparr>))"

section \<open>The chain sentinel\<close>

definition MAX_TRACKED_VERIFICATIONS :: usize where
  "MAX_TRACKED_VERIFICATIONS = 1024"

definition INTEGRITY_FRONTIER_WINDOW :: u32 where
  "INTEGRITY_FRONTIER_WINDOW = 256"

definition evict_oldest_verifications :: "chain_sentinel \<Rightarrow> chain_sentinel" where
  "evict_oldest_verifications s =
     (let len = length (verified_blocks s) in
      if len \<le> MAX_TRACKED_VERIFICATIONS then s
      else
        let to_remove = saturating_sub len (MAX_TRACKED_VERIFICATIONS * 3 div 4);
            by_seq = sort_key fst (map (\<lambda>(h, v). (bv_seq v, h)) (verified_blocks s))
        in s\<lparr>verified_blocks := fold hm_remove (map snd (take to_remove by_seq)) (verified_blocks s)\<rparr>)"

definition add_block_verification :: "block \<Rightarrow> string \<Rightarrow> chain_sentinel \<Rightarrow> chain_sentinel" where
  "add_block_verification b verifier s =
     (let stamp = verification_seq s;
          v = (case hm_get (verified_blocks s) (hash b) of
                 Some v \<Rightarrow>
                   let vs = List.insert verifier (verifiers v) in
                   v\<lparr>verifiers := vs, integrity_confirmed := (integrity_confirmed v \<or> length vs \<ge> 3)\<rparr>
               | None \<Rightarrow> \<lparr>verifiers = [verifier], integrity_confirmed = False, bv_seq = stamp\<rparr>)
      in evict_oldest_verifications
           (s\<lparr>verification_seq := wrapping_add stamp 1, verified_blocks := hm_insert (hash b) v (verified_blocks s)\<rparr>))"

definition is_block_verified :: "chain_sentinel \<Rightarrow> block \<Rightarrow> bool" where
  "is_block_verified s b \<longleftrightarrow> (case hm_get (verified_blocks s) (hash b) of Some v \<Rightarrow> integrity_confirmed v | None \<Rightarrow> False)"

definition get_verification_count :: "chain_sentinel \<Rightarrow> block \<Rightarrow> u32" where
  "get_verification_count s b = (case hm_get (verified_blocks s) (hash b) of Some v \<Rightarrow> as_u32 (length (verifiers v)) | None \<Rightarrow> 0)"

text \<open>The walk over the stored heights; the points it takes off the score on a failure.\<close>

fun integrity_walk :: "(u32 \<Rightarrow> block option) \<Rightarrow> u32 list \<Rightarrow> (string \<times> u64 \<times> u64) option \<Rightarrow> u64 option" where
  "integrity_walk get [] prev = None"
| "integrity_walk get (h # hs) prev =
     (case get h of
        None \<Rightarrow> integrity_walk get hs prev
      | Some b \<Rightarrow>
          (case prev of
             None \<Rightarrow> integrity_walk get hs (Some (hash b, block_timestamp b, difficulty b))
           | Some (prev_hash, prev_timestamp, prev_difficulty) \<Rightarrow>
               if previous_hash b \<noteq> prev_hash then Some 10
               else if block_timestamp b < prev_timestamp then Some 5
               else if difficulty b \<noteq> consensus_next_difficulty prev_difficulty (saturating_sub (block_timestamp b) prev_timestamp) (index b)
               then Some 5
               else integrity_walk get hs (Some (hash b, block_timestamp b, difficulty b))))"

definition verify_chain_integrity_from :: "u32 \<Rightarrow> node_state \<Rightarrow> bool \<times> node_state" where
  "verify_chain_integrity_from start ns =
     (case highest ns of
        None \<Rightarrow> (True, ns)
      | Some tip \<Rightarrow>
          (case integrity_walk (get_block ns) [start..<tip + 1] None of
             None \<Rightarrow> (True, ns)
           | Some points \<Rightarrow> (False, ns\<lparr>ns_sentinel := (ns_sentinel ns)\<lparr>integrity_score := wrapping_sub (integrity_score (ns_sentinel ns)) points\<rparr>\<rparr>)))"

definition verify_recent_chain_integrity :: "u32 \<Rightarrow> node_state \<Rightarrow> bool \<times> node_state" where
  "verify_recent_chain_integrity frontier ns =
     (case highest ns of None \<Rightarrow> (True, ns) | Some tip \<Rightarrow> verify_chain_integrity_from (saturating_sub tip frontier) ns)"

section \<open>The ledger writer\<close>

datatype transaction_context = BlockValidation | ReceiptValidation

definition batch_overlay :: "(u32 \<Rightarrow> block option) \<Rightarrow> transaction list \<Rightarrow> u64 \<Rightarrow> balances" where
  "batch_overlay get txs confirm_height =
     (if list_ex (\<lambda>tx. \<not> is_coinbase tx) txs \<and> as_u32 confirm_height \<ge> MATURITY_ACTIVATION_HEIGHT then
        let rewards = fold (\<lambda>tx m. if is_coinbase tx then credit (recipient tx) (amount_units tx) m else m);
            low = saturating_add (saturating_sub confirm_height MINING_REWARD_MATURITY) 1
        in fold (\<lambda>rh m. case get (as_u32 rh) of None \<Rightarrow> m | Some b \<Rightarrow> rewards (transactions b) m) [low..<confirm_height] (rewards txs [])
      else [])"

text \<open>The check of a payment in its context.\<close>

definition context_check :: "node_env \<Rightarrow> transaction_context \<Rightarrow> transaction \<Rightarrow> string list \<Rightarrow> (blockchain_error + unit) \<times> string list" where
  "context_check E context tx cache =
     (case context of
        BlockValidation \<Rightarrow> verify_transaction_signature (ne_crypto E) (ne_evict E) tx cache
      | ReceiptValidation \<Rightarrow> (verify_transaction_receipt_fields (ne_crypto E) tx, cache))"

text \<open>The second pass.\<close>

fun batch_changes :: "node_env \<Rightarrow> transaction_context \<Rightarrow> balances \<Rightarrow> balances \<Rightarrow> transaction list \<Rightarrow> balances \<Rightarrow> string list
    \<Rightarrow> (blockchain_error + balances) \<times> string list" where
  "batch_changes E context current immature [] changes cache = (Inr changes, cache)"
| "batch_changes E context current immature (tx # txs) changes cache =
     (if is_coinbase tx then batch_changes E context current immature txs (credit (recipient tx) (amount_units tx) changes) cache
      else case context_check E context tx cache of
             (Inl e, cache') \<Rightarrow> (Inl e, cache')
           | (Inr _, cache') \<Rightarrow>
               if bal current (sender tx) + bal changes (sender tx) - bal immature (sender tx) < total_debit_units tx
               then (Inl InsufficientFunds, cache')
               else batch_changes E context current immature txs
                      (credit (recipient tx) (amount_units tx) (credit (sender tx) (- total_debit_units tx) changes)) cache')"

definition process_transactions_batch :: "node_env \<Rightarrow> transaction list \<Rightarrow> transaction_context \<Rightarrow> u64 \<Rightarrow> node_state
    \<Rightarrow> (blockchain_error + unit) \<times> node_state" where
  "process_transactions_batch E txs context confirm_height ns0 =
     (case load_balances E (touched_by txs) [] ns0 of
        (Inl e, ns) \<Rightarrow> (Inl e, ns)
      | (Inr current, ns) \<Rightarrow>
          (case batch_changes E context current (batch_overlay (get_block ns) txs confirm_height) txs [] (ns_signatures ns) of
             (Inl e, cache) \<Rightarrow> (Inl e, ns\<lparr>ns_signatures := cache\<rparr>)
           | (Inr changes, cache) \<Rightarrow>
               let idx = cc_index (ns_chain ns);
                   idx' = idx\<lparr>tree := fold (\<lambda>(a, change). hm_insert a (bal current a + change)) changes (tree idx),
                              marker := Some confirm_height\<rparr>;
                   p = ns_pending ns;
                   w = retain_confirmed_witnesses (ne_crypto E) txs confirm_height (context = BlockValidation) (full_sigs p) (ns_witnesses ns)
               in (Inr (), (set_chain (\<lambda>cc. cc\<lparr>cc_index := idx'\<rparr>) ns)\<lparr>ns_signatures := cache,
                     ns_pending := fold confirm_pending txs p,
                     ns_witnesses := prune_confirmed_witnesses confirm_height w\<rparr>)))"

section \<open>Applying a block\<close>

text \<open>The reconcile outside a catch-up window, when no write fails.\<close>

definition no_faults :: rebuild_faults where
  "no_faults = \<lparr>tip_write_fault = None, tip_flush_fault = None, index_fault = None, registry_fault = None\<rparr>"

definition reconcile_if_dirty :: "node_env \<Rightarrow> node_state \<Rightarrow> (blockchain_error + unit) \<times> node_state" where
  "reconcile_if_dirty E ns =
     (if \<not> ns_dirty ns then (Inr (), ns)
      else case rebuild_chain_state (ne_crypto E) (ne_serialize E) no_faults (ns_chain ns) of
             (Inl e, cc) \<Rightarrow> (Inl e, ns\<lparr>ns_chain := cc\<rparr>)
           | (Inr _, cc) \<Rightarrow> (Inr (), ns\<lparr>ns_chain := cc, ns_dirty := False\<rparr>))"

definition write_chain_tip_metadata :: "block \<Rightarrow> node_state \<Rightarrow> node_state" where
  "write_chain_tip_metadata b = set_chain (\<lambda>cc. cc\<lparr>cc_tip := Some \<lparr>tip_height = index b, tip_hash = hash b\<rparr>\<rparr>)"

definition store_block :: "node_env \<Rightarrow> block \<Rightarrow> node_state \<Rightarrow> node_state" where
  "store_block E b = set_chain (\<lambda>cc. cc\<lparr>cc_rows := hm_insert (index b) (to_storage_block (ne_crypto E) b) (cc_rows cc)\<rparr>)"

definition register_block :: "block \<Rightarrow> node_state \<Rightarrow> node_state" where
  "register_block b = set_chain (\<lambda>cc. cc\<lparr>cc_registry := prune_confirmed_txs (block_timestamp b) (record_confirmed_txs b (cc_registry cc))\<rparr>)"

definition evict_confirmed :: "block \<Rightarrow> node_state \<Rightarrow> node_state" where
  "evict_confirmed b ns = ns\<lparr>ns_pool := fold clear_transaction (transactions b) (ns_pool ns)\<rparr>"

definition validated :: "node_env \<Rightarrow> signature_validation_mode \<Rightarrow> block \<Rightarrow> node_state \<Rightarrow> (blockchain_error + unit) \<times> node_state" where
  "validated E mode b ns =
     (case validate_block_internal (view_of E ns) mode b (ns_signatures ns) of (r, cache) \<Rightarrow> (r, ns\<lparr>ns_signatures := cache\<rparr>))"

text \<open>The periodic check of the frontier.\<close>

definition frontier_check :: "node_env \<Rightarrow> block \<Rightarrow> node_state \<Rightarrow> (blockchain_error + unit) \<times> node_state" where
  "frontier_check E b ns =
     (let s = ns_sentinel ns in
      if index b mod 128 = 0 \<or> saturating_sub (ne_now E) (last_verification s) \<ge> 60 then
        (case verify_recent_chain_integrity INTEGRITY_FRONTIER_WINDOW ns of
           (False, ns1) \<Rightarrow> (Inl InvalidBlockHeader, ns1)
         | (True, ns1) \<Rightarrow> (Inr (), ns1\<lparr>ns_sentinel := (ns_sentinel ns1)\<lparr>last_verification := ne_now E\<rparr>\<rparr>))
      else (Inr (), ns))"

definition system_position_ok :: "transaction list \<Rightarrow> bool" where
  "system_position_ok txs \<longleftrightarrow>
     (let system_txs = filter (\<lambda>(_, tx). is_system_tx tx) (enumerate 0 txs) in
      (case find (\<lambda>(_, tx). is_coinbase tx) system_txs of Some (i, _) \<Rightarrow> i = 0 | None \<Rightarrow> True)
      \<and> distinct (map (\<lambda>(_, tx). sender tx) system_txs))"

text \<open>The part of an apply that writes, under the dirty marker.\<close>

definition persist_body :: "node_env \<Rightarrow> signature_validation_mode \<Rightarrow> block \<Rightarrow> node_state \<Rightarrow> (blockchain_error + unit) \<times> node_state" where
  "persist_body E mode b ns0 =
     (case process_transactions_batch E (transactions b)
             (case mode of RequireFull \<Rightarrow> BlockValidation | AllowTruncatedStored \<Rightarrow> ReceiptValidation) (index b) (ns0\<lparr>ns_dirty := True\<rparr>) of
        (Inl e, ns) \<Rightarrow> (Inl e, ns)
      | (Inr _, ns) \<Rightarrow>
          let ns1 = store_block E b (register_block b (evict_confirmed b ns));
              ns2 = ns1\<lparr>ns_orphans := remove_orphan_by_hash (hash b) (ns_orphans ns1), ns_difficulty := difficulty b\<rparr>
          in (Inr (), (write_chain_tip_metadata b ns2)\<lparr>ns_dirty := False\<rparr>))"

definition persist_checks :: "node_env \<Rightarrow> signature_validation_mode \<Rightarrow> block \<Rightarrow> node_state \<Rightarrow> (blockchain_error + unit) \<times> node_state" where
  "persist_checks E mode b ns0 =
     (case validated E mode b ns0 of
        (Inl e, ns) \<Rightarrow> (Inl e, ns)
      | (Inr _, ns) \<Rightarrow>
          if block_has_replayed_tx (cc_registry (ns_chain ns)) b then (Inl InvalidTransaction, ns)
          else case frontier_check E b ns of
            (Inl e, ns1) \<Rightarrow> (Inl e, ns1)
          | (Inr _, ns1) \<Rightarrow>
              if \<not> system_position_ok (transactions b) then (Inl InvalidSystemTransaction, ns1)
              else
                let verifier = (case transactions b of tx # _ \<Rightarrow> if is_coinbase tx then recipient tx else ''network'' | [] \<Rightarrow> ''network'');
                    ns2 = ns1\<lparr>ns_sentinel := add_block_verification b verifier (ns_sentinel ns1)\<rparr>
                in if get_verification_count (ns_sentinel ns2) b = 0 then (Inl InvalidBlockHeader, ns2) else (Inr (), ns2))"

definition persist_validated_block_with_mode :: "node_env \<Rightarrow> signature_validation_mode \<Rightarrow> block \<Rightarrow> node_state
    \<Rightarrow> (blockchain_error + unit) \<times> node_state" where
  "persist_validated_block_with_mode E mode b ns0 =
     (case reconcile_if_dirty E ns0 of
        (Inl e, ns) \<Rightarrow> (Inl e, ns)
      | (Inr _, ns) \<Rightarrow>
          (case persist_checks E mode b ns of
             (Inl e, ns1) \<Rightarrow> (Inl e, ns1)
           | (Inr _, ns1) \<Rightarrow> persist_body E mode b ns1))"

definition persist_validated_block :: "node_env \<Rightarrow> block \<Rightarrow> node_state \<Rightarrow> (blockchain_error + unit) \<times> node_state" where
  "persist_validated_block E b ns = persist_validated_block_with_mode E RequireFull b ns"

text \<open>Children of the tip from the pool: the first that attaches ends a round, one that fails is dropped.\<close>

fun try_children :: "node_env \<Rightarrow> block \<Rightarrow> block list \<Rightarrow> node_state \<Rightarrow> bool \<times> node_state" where
  "try_children E tip [] ns = (False, ns)"
| "try_children E tip (candidate # rest) ns =
     (if index candidate \<noteq> u32_saturating_add (index tip) 1 \<or> previous_hash candidate \<noteq> hash tip then try_children E tip rest ns
      else case persist_validated_block E candidate ns of
             (Inr _, ns1) \<Rightarrow> (True, ns1)
           | (Inl _, ns1) \<Rightarrow> try_children E tip rest (ns1\<lparr>ns_orphans := remove_orphan_by_hash (hash candidate) (ns_orphans ns1)\<rparr>))"

fun promote_rounds :: "nat \<Rightarrow> node_env \<Rightarrow> usize \<Rightarrow> node_state \<Rightarrow> usize \<times> node_state" where
  "promote_rounds 0 E attached ns = (attached, ns)"
| "promote_rounds (Suc n) E attached ns =
     (case get_last_block ns of
        None \<Rightarrow> (attached, ns)
      | Some tip \<Rightarrow>
          (case try_children E tip (orphan_children_of (pool_of (ns_orphans ns)) (hash tip)) ns of
             (True, ns1) \<Rightarrow> promote_rounds n E (saturating_add attached 1) ns1
           | (False, ns1) \<Rightarrow> (attached, ns1)))"

definition promote_orphans_from_tip :: "node_env \<Rightarrow> node_state \<Rightarrow> usize \<times> node_state" where
  "promote_orphans_from_tip E ns = (case promote_rounds 256 E 0 ns of (attached, ns1) \<Rightarrow> (attached, prune_orphans E ns1))"

section \<open>Finalizing a mined block\<close>

definition extends_tip :: "block \<Rightarrow> node_state \<Rightarrow> blockchain_error + unit" where
  "extends_tip b ns =
     (case highest ns of
        None \<Rightarrow> guard_err (index b \<noteq> 0 \<or> previous_hash b \<noteq> zero_hash) InvalidBlockHeader (Inr ())
      | Some tip_index \<Rightarrow>
          guard_err (index b \<noteq> u32_saturating_add tip_index 1) InvalidBlockHeader
            (case get_block ns tip_index of
               None \<Rightarrow> Inl InvalidTransaction
             | Some prev \<Rightarrow> guard_err (previous_hash b \<noteq> hash prev) InvalidBlockHeader (Inr ())))"

fun finalize_gate :: "balances \<Rightarrow> balances \<Rightarrow> transaction list \<Rightarrow> balances \<Rightarrow> blockchain_error + unit" where
  "finalize_gate confirmed immature [] pending = Inr ()"
| "finalize_gate confirmed immature (tx # txs) pending =
     (if is_coinbase tx then finalize_gate confirmed immature txs pending
      else
        let required = total_debit_units tx in
        if bal confirmed (sender tx) - bal pending (sender tx) - bal immature (sender tx) < required then Inl InsufficientFunds
        else finalize_gate confirmed immature txs (credit (recipient tx) (- amount_units tx) (credit (sender tx) required pending)))"

definition finalize_block :: "node_env \<Rightarrow> block \<Rightarrow> node_state \<Rightarrow> (blockchain_error + unit) \<times> node_state" where
  "finalize_block E b ns0 =
     (case reconcile_if_dirty E ns0 of
        (Inl e, ns) \<Rightarrow> (Inl e, ns)
      | (Inr _, ns) \<Rightarrow>
          (case (case extends_tip b ns of Inl e \<Rightarrow> (Inl e, ns) | Inr _ \<Rightarrow> validated E RequireFull b ns) of
            (Inl e, ns1) \<Rightarrow> (Inl e, ns1)
          | (Inr _, ns1) \<Rightarrow>
              if block_has_replayed_tx (cc_registry (ns_chain ns1)) b then (Inl InvalidTransaction, ns1)
              else case load_balances E (map sender (filter (\<lambda>tx. \<not> is_coinbase tx) (transactions b))) [] ns1 of
                (Inl e, ns2) \<Rightarrow> (Inl e, ns2)
              | (Inr confirmed, ns2) \<Rightarrow>
                  (case finalize_gate confirmed (immature_rewards_by_recipient (get_block ns2) (transactions b) (index b)) (transactions b) [] of
                     Inl e \<Rightarrow> (Inl e, ns2)
                   | Inr _ \<Rightarrow>
                       (case process_transactions_batch E (transactions b) BlockValidation (index b) (ns2\<lparr>ns_dirty := True\<rparr>) of
                          (Inl e, ns3) \<Rightarrow> (Inl e, ns3)
                        | (Inr _, ns3) \<Rightarrow>
                            let ns4 = write_chain_tip_metadata b (store_block E b ns3);
                                ns5 = register_block b (evict_confirmed b ns4)
                            in (Inr (), snd (promote_orphans_from_tip E (ns5\<lparr>ns_dirty := False\<rparr>)))))))"

end
