(* ===== verification/A9_Reorg.thy ===== *)
theory A9_Reorg
  imports A9_Apply
begin

text \<open>
  Changing branches: the gates of a reorganisation, the writes of an adoption with the return of the
  reverted payments, the attempts in the order of fork choice, and the entry points that
  receive a block (\<open>save_block\<close>, \<open>save_receipt_verified_block\<close>, \<open>adopt_external_branch\<close>) in
  \<^verbatim>\<open>src/a9/blockchain.rs\<close>.  The checks that \<open>save_block\<close> makes before it takes the lock read
  nothing but the block and the signature cache.
\<close>

section \<open>Gates\<close>

fun validate_branch :: "node_env \<Rightarrow> block list \<Rightarrow> node_state \<Rightarrow> bool \<times> node_state" where
  "validate_branch E [] ns = (True, ns)"
| "validate_branch E (b # bs) ns =
     (case validated E AllowTruncatedStored b ns of
        (Inl _, ns') \<Rightarrow> (False, ns')
      | (Inr _, ns') \<Rightarrow> validate_branch E bs ns')"

fun lacking_witnesses :: "node_env \<Rightarrow> u32 \<Rightarrow> block list \<Rightarrow> node_state \<Rightarrow> (u32 \<times> string) list \<times> node_state" where
  "lacking_witnesses E level [] ns = ([], ns)"
| "lacking_witnesses E level (b # bs) ns =
     (case (if index b > level then block_signatures_fully_verified E b ns else (True, ns)) of
        (ok, ns1) \<Rightarrow>
          (case lacking_witnesses E level bs ns1 of (rest, ns2) \<Rightarrow> (if ok then rest else (index b, hash b) # rest, ns2)))"

text \<open>The dry run, from the state at the fork when the index vouches for the tip, else from the launch block.\<close>

definition branch_balance_valid :: "node_env \<Rightarrow> block list \<Rightarrow> (balances \<times> recent_rewards) option \<Rightarrow> node_state \<Rightarrow> blockchain_error + bool" where
  "branch_balance_valid E branch fork_state ns =
     (case fork_state of
        Some st \<Rightarrow> Inr (is_ok (replay_blocks branch st))
      | None \<Rightarrow> branch_is_balance_valid (ne_crypto E) (ne_serialize E) (get_block ns) (index (hd branch)) branch)"

text \<open>\<open>Inr None\<close> says that a gate rejects the branch; otherwise the result has the state at the fork.\<close>

definition adopt_gates :: "node_env \<Rightarrow> block list \<Rightarrow> block \<Rightarrow> node_state
    \<Rightarrow> (blockchain_error + (balances \<times> recent_rewards) option option) \<times> node_state" where
  "adopt_gates E branch tip ns0 =
     (case validate_branch E branch ns0 of
        (False, ns) \<Rightarrow> (Inr None, ns)
      | (True, ns) \<Rightarrow>
          (case trusted_checkpoint_height ns of (checkpoint, ns1) \<Rightarrow>
             if index (hd branch) \<le> checkpoint then (Inr None, ns1)
             else
               let tip_of_branch = hash (last branch) in
               if witness_branch_backoff_active (ne_now E) tip_of_branch (ns_blocked ns1) then (Inr None, ns1)
               else case verification_floor ns1 of (level, ns2) \<Rightarrow>
                 (case lacking_witnesses E level branch ns2 of (lacking, ns3) \<Rightarrow>
                    if lacking \<noteq> [] then
                      (Inr None, ns3\<lparr>ns_blocked := record_witness_blocked (ne_now E) tip_of_branch lacking (ns_blocked ns3)\<rparr>)
                    else
                      let idx = cc_index (ns_chain ns3);
                          fork_state = balances_at_fork_state (get_block ns3) (tree idx) (marker idx) (index (hd branch)) (index tip) branch
                      in (case branch_balance_valid E branch fork_state ns3 of
                            Inl e \<Rightarrow> (Inl e, ns3)
                          | Inr False \<Rightarrow> (Inr None, ns3)
                          | Inr True \<Rightarrow>
                              if branch_replays_below (cc_registry (ns_chain ns3)) (index (hd branch)) branch then (Inr None, ns3)
                              else (Inr (Some fork_state), ns3)))))"

section \<open>Adoption\<close>

definition reverted_blocks :: "block list \<Rightarrow> block \<Rightarrow> node_state \<Rightarrow> block list" where
  "reverted_blocks branch tip ns = List.map_filter (get_block ns) [index (hd branch)..<index tip + 1]"

definition reverted_txs :: "block list \<Rightarrow> block list \<Rightarrow> transaction list" where
  "reverted_txs branch reverted =
     filter (\<lambda>tx. \<not> is_system_tx tx \<and> get_tx_id tx \<notin> set (concat (map confirmed_ids branch))) (concat (map transactions reverted))"

text \<open>The canonical slots: the branch is written and higher slots are dropped, in one batch.\<close>

definition slot_batch :: "crypto \<Rightarrow> block list \<Rightarrow> block \<Rightarrow> (u32, block) hmap \<Rightarrow> (u32, block) hmap" where
  "slot_batch c branch tip rows =
     fold hm_remove [u32_saturating_add (index (last branch)) 1..<index tip + 1]
       (fold (\<lambda>b. hm_insert (index b) (to_storage_block c b)) branch rows)"

text \<open>The balances index after the slots are rewritten.\<close>

definition adopt_index :: "node_env \<Rightarrow> block list \<Rightarrow> (balances \<times> recent_rewards) option \<Rightarrow> chain_content
    \<Rightarrow> (blockchain_error + unit) \<times> balances_index" where
  "adopt_index E branch fork_state cc =
     (let c = ne_crypto E; ser = ne_serialize E; get = hm_get (cc_rows cc); hi = highest_block_index cc; idx = cc_index cc in
      case fork_state of
        Some (reverted, _) \<Rightarrow>
          let fork_base = saturating_sub (index (hd branch)) 1 in
          catch_up_balances_index c ser get hi fork_base (index (last branch))
            (idx\<lparr>tree := fold (\<lambda>(a, v). hm_insert a v) reverted (tree idx), marker := Some fork_base\<rparr>)
      | None \<Rightarrow> rebuild_balances_index c ser get hi idx)"

text \<open>One reverted payment returns to the pending rows and to the mempool, if its full signature is held.\<close>

definition readmit_tx :: "node_env \<Rightarrow> transaction \<Rightarrow> nat \<times> node_state \<Rightarrow> nat \<times> node_state" where
  "readmit_tx E tx = (\<lambda>(n, ns).
     (case rehydrate_reverted_tx (ne_crypto E) (ns_witnesses ns) tx of
        None \<Rightarrow> (n, ns)
      | Some full \<Rightarrow>
          (n + 1, ns\<lparr>ns_pending := snd (persist_readmitted_pending_tx (ne_crypto E) full (ns_pending ns)),
             ns_pool := snd (readmit_reverted (ne_codec E) (ne_ttl E) (ne_clock E) full (ns_pool ns))\<rparr>)))"

text \<open>The mempool side of an adoption.\<close>

definition reconcile_mempool :: "node_env \<Rightarrow> block list \<Rightarrow> transaction list \<Rightarrow> node_state \<Rightarrow> node_state" where
  "reconcile_mempool E branch lost ns =
     (case fold (readmit_tx E) lost (0, ns\<lparr>ns_pool := fold clear_transaction (concat (map transactions branch)) (ns_pool ns)\<rparr>) of
        (readmitted, ns1) \<Rightarrow> if readmitted > 0 then ns1\<lparr>ns_pending := rebuild_pending_debits_index (ns_pending ns1)\<rparr> else ns1)"

definition adopt_writes :: "node_env \<Rightarrow> block list \<Rightarrow> block \<Rightarrow> (balances \<times> recent_rewards) option \<Rightarrow> node_state
    \<Rightarrow> (blockchain_error + unit) \<times> node_state" where
  "adopt_writes E branch tip fork_state ns0 =
     (let ns = ns0\<lparr>ns_dirty := True\<rparr>;
          reverted = reverted_blocks branch tip ns;
          ns1 = set_chain (\<lambda>cc. cc\<lparr>cc_rows := slot_batch (ne_crypto E) branch tip (cc_rows cc)\<rparr>) ns;
          ns2 = prune_orphans E (ns1\<lparr>ns_orphans := fold (\<lambda>b. remove_orphan_by_hash (hash b)) branch (ns_orphans ns1)\<rparr>);
          ns3 = set_chain (\<lambda>cc. cc\<lparr>cc_registry := reorg_registry reverted branch (cc_registry cc)\<rparr>) ns2
      in case adopt_index E branch fork_state (ns_chain ns3) of
           (Inl e, idx) \<Rightarrow> (Inl e, set_chain (\<lambda>cc. cc\<lparr>cc_index := idx\<rparr>) ns3)
         | (Inr _, idx) \<Rightarrow>
             let ns4 = write_chain_tip_metadata (last branch) (set_chain (\<lambda>cc. cc\<lparr>cc_index := idx\<rparr>) ns3);
                 ns5 = ns4\<lparr>ns_difficulty := (case get_last_block ns4 of Some b \<Rightarrow> difficulty b | None \<Rightarrow> ns_difficulty ns4),
                    ns_witnesses := fold (\<lambda>b. retain_confirmed_witnesses (ne_crypto E) (transactions b) (index b) True (full_sigs (ns_pending ns4)))
                      branch (ns_witnesses ns4),
                    ns_dirty := False\<rparr>
             in (Inr (), reconcile_mempool E branch (reverted_txs branch reverted) ns5))"

definition adopt_branch_if_valid :: "node_env \<Rightarrow> block list \<Rightarrow> block \<Rightarrow> node_state \<Rightarrow> (blockchain_error + bool) \<times> node_state" where
  "adopt_branch_if_valid E branch tip ns =
     (case adopt_gates E branch tip ns of
        (Inl e, ns1) \<Rightarrow> (Inl e, ns1)
      | (Inr None, ns1) \<Rightarrow> (Inr False, ns1)
      | (Inr (Some fork_state), ns1) \<Rightarrow>
          (case adopt_writes E branch tip fork_state ns1 of (Inl e, ns2) \<Rightarrow> (Inl e, ns2) | (Inr _, ns2) \<Rightarrow> (Inr True, ns2)))"

fun adopt_first :: "node_env \<Rightarrow> block \<Rightarrow> block list list \<Rightarrow> node_state \<Rightarrow> (blockchain_error + bool) \<times> node_state" where
  "adopt_first E tip [] ns = (Inr False, ns)"
| "adopt_first E tip (branch # rest) ns =
     (case adopt_branch_if_valid E branch tip ns of
        (Inl e, ns1) \<Rightarrow> (Inl e, ns1)
      | (Inr True, ns1) \<Rightarrow> (Inr True, ns1)
      | (Inr False, ns1) \<Rightarrow> adopt_first E tip rest ns1)"

definition try_adopt_orphan_branch :: "node_env \<Rightarrow> node_state \<Rightarrow> (blockchain_error + bool) \<times> node_state" where
  "try_adopt_orphan_branch E ns0 =
     (case reconcile_if_dirty E ns0 of
        (Inl e, ns) \<Rightarrow> (Inl e, ns)
      | (Inr _, ns) \<Rightarrow>
          (case get_last_block ns of
             None \<Rightarrow> (Inr False, ns)
           | Some tip \<Rightarrow>
               let pool = pool_of (ns_orphans ns) in
               if list_all (\<lambda>b. \<not> reorg_candidate (get_block ns) tip b) (hm_values (orphan_blocks pool)) then (Inr False, ns)
               else case trusted_checkpoint_height ns of (checkpoint, ns1) \<Rightarrow>
                 (case reorg_attempts (get_block ns) pool checkpoint tip of
                    None \<Rightarrow> (Inl InvalidTransaction, ns)
                  | Some branches \<Rightarrow> adopt_first E tip branches ns1)))"

section \<open>Receiving a block\<close>

definition adopt_external_branch :: "node_env \<Rightarrow> block list \<Rightarrow> node_state \<Rightarrow> (blockchain_error + bool) \<times> node_state" where
  "adopt_external_branch E blocks ns =
     (if blocks = [] then (Inr False, ns) else try_adopt_orphan_branch E (fold (store_orphan_block E) blocks ns))"

definition adopt_quietly :: "node_env \<Rightarrow> node_state \<Rightarrow> (blockchain_error + unit) \<times> node_state" where
  "adopt_quietly E ns = (case try_adopt_orphan_branch E ns of (Inl e, ns') \<Rightarrow> (Inl e, ns') | (Inr _, ns') \<Rightarrow> (Inr (), ns'))"

definition extend_tip :: "node_env \<Rightarrow> signature_validation_mode \<Rightarrow> block \<Rightarrow> node_state \<Rightarrow> (blockchain_error + unit) \<times> node_state" where
  "extend_tip E mode b ns =
     (case persist_validated_block_with_mode E mode b ns of
        (Inl e, ns1) \<Rightarrow> (Inl e, ns1)
      | (Inr _, ns1) \<Rightarrow> adopt_quietly E (snd (promote_orphans_from_tip E ns1)))"

definition save_block_with_mode :: "node_env \<Rightarrow> signature_validation_mode \<Rightarrow> block \<Rightarrow> node_state \<Rightarrow> (blockchain_error + unit) \<times> node_state" where
  "save_block_with_mode E mode b ns0 =
     (case prevalidate_unattached_block (view_of E ns0) mode b (ns_signatures ns0) of
        (Inl e, cache) \<Rightarrow> (Inl e, ns0\<lparr>ns_signatures := cache\<rparr>)
      | (Inr _, cache) \<Rightarrow>
          (case reconcile_if_dirty E (ns0\<lparr>ns_signatures := cache\<rparr>) of
             (Inl e, ns) \<Rightarrow> (Inl e, ns)
           | (Inr _, ns) \<Rightarrow>
               let park = adopt_quietly E (store_orphan_block E b ns) in
               (case highest ns of
                  None \<Rightarrow> if index b \<noteq> 0 \<or> previous_hash b \<noteq> zero_hash then park else extend_tip E mode b ns
                | Some tip_index \<Rightarrow>
                    if index b \<le> tip_index then
                      (case get_block ns (index b) of
                         Some existing \<Rightarrow> if hash existing = hash b then (Inr (), ns) else park
                       | None \<Rightarrow> park)
                    else if index b \<noteq> u32_saturating_add tip_index 1 then park
                    else (case get_block ns tip_index of
                            None \<Rightarrow> (Inl InvalidTransaction, ns)
                          | Some prev \<Rightarrow> if previous_hash b \<noteq> hash prev then park else extend_tip E mode b ns))))"

definition save_block :: "node_env \<Rightarrow> block \<Rightarrow> node_state \<Rightarrow> (blockchain_error + unit) \<times> node_state" where
  "save_block E b ns = save_block_with_mode E RequireFull b ns"

definition save_receipt_verified_block :: "node_env \<Rightarrow> block \<Rightarrow> node_state \<Rightarrow> (blockchain_error + unit) \<times> node_state" where
  "save_receipt_verified_block E b ns = save_block_with_mode E AllowTruncatedStored b ns"

end
