(* ===== verification/A9_Apply_Props.thy ===== *)
theory A9_Apply_Props
  imports A9_Apply A9_Apply_Window_Theorems
begin

text \<open>
  The ledger writer agrees with the replay: on an exact index the batch of a block whose rewards come
  first succeeds when the replay of the block does, and writes the replay's balances.  With the block
  rules, the stored form and the registry this gives that extending the tip keeps the derived
  state that of the chain.
\<close>

section \<open>Loading balances\<close>

lemma load_balances_settled:
  assumes "marker (cc_index (ns_chain ns)) = Some (get_latest_block_index (highest ns))" "ne_auto_rebuild E"
  shows "\<exists>cur'. load_balances E as cur ns = (Inr cur', ns)
    \<and> (\<forall>a. hm_get cur' a = (if hm_contains cur a then hm_get cur a else if a \<in> set as then Some (bal (tree (cc_index (ns_chain ns))) a) else None))"
proof (induction as arbitrary: cur)
  case Nil
  show ?case by (auto simp: hm_contains_def)
next
  case (Cons a as)
  have one: "get_confirmed_balance_units E a ns = (Inr (bal (tree (cc_index (ns_chain ns))) a), ns)"
    using assms by (simp add: get_confirmed_balance_units_def set_chain_def bal_def split: option.splits)
  show ?case
  proof (cases "hm_contains cur a")
    case True
    with Cons.IH[of cur] show ?thesis by auto
  next
    case False
    with Cons.IH[of "hm_insert a (bal (tree (cc_index (ns_chain ns))) a) cur"] one show ?thesis
      by (auto simp: hm_simps hm_contains_def)
  qed
qed

section \<open>The second pass\<close>

abbreviation reward_credits :: "transaction list \<Rightarrow> balances \<Rightarrow> balances" where
  "reward_credits cbs m \<equiv> fold (\<lambda>tx. credit (recipient tx) (amount_units tx)) cbs m"

lemma batch_coinbases:
  "list_all is_coinbase cbs \<Longrightarrow> batch_changes E ctx cur imm (cbs @ regs) ch cache = batch_changes E ctx cur imm regs (reward_credits cbs ch) cache"
  by (induction cbs arbitrary: ch) auto

lemma replay_coinbases:
  "list_all is_coinbase cbs \<Longrightarrow> try_fold (replay_tx n) (m, r) (cbs @ regs)
     = try_fold (replay_tx n) (reward_credits cbs m, r @ map (\<lambda>tx. (n, recipient tx, amount_units tx)) cbs) regs"
  by (induction cbs arbitrary: m r) (auto simp: replay_tx_def)

lemma bal_reward_credits:
  "bal (reward_credits cbs m) a = bal m a + sum_list (map amount_units (filter (\<lambda>tx. recipient tx = a) cbs))"
  by (induction cbs arbitrary: m) (auto simp: bal_credit)

definition tracks :: "(string \<Rightarrow> int) \<Rightarrow> balances \<Rightarrow> balances \<Rightarrow> bool" where
  "tracks base ch m \<longleftrightarrow> (\<forall>a. bal m a = base a + bal ch a)"

lemma batch_regulars:
  assumes "list_all (\<lambda>tx. \<not> is_coinbase tx) regs" "tracks base ch m" "\<forall>a. bal imm a = overlay n a r"
    and "\<forall>tx \<in> set regs. bal cur (sender tx) = base (sender tx)"
    and "batch_changes E ctx cur imm regs ch cache = (Inr ch', cache')"
  shows "\<exists>m'. try_fold (replay_tx n) (m, r) regs = Inr (m', r) \<and> tracks base ch' m'"
  using assms
proof (induction regs arbitrary: ch m cache)
  case (Cons tx txs)
  let ?ch = "credit (recipient tx) (amount_units tx) (credit (sender tx) (- total_debit_units tx) ch)"
  let ?m = "credit (recipient tx) (amount_units tx) (credit (sender tx) (- total_debit_units tx) m)"
  have nc [simp]: "\<not> is_coinbase tx" using Cons.prems(1) by simp
  obtain c1 where ok: "\<not> bal cur (sender tx) + bal ch (sender tx) - bal imm (sender tx) < total_debit_units tx"
    and rest: "batch_changes E ctx cur imm txs ?ch c1 = (Inr ch', cache')"
    using Cons.prems(5) by (auto simp: nc split: prod.splits sum.splits if_splits)
  have "replay_tx n (m, r) tx = Inr (?m, r)"
    using ok nc Cons.prems(2-4) by (auto simp: replay_tx_def Let_def tracks_def overlay_def)
  moreover have "tracks base ?ch ?m"
    using Cons.prems(2) by (auto simp: tracks_def bal_credit)
  ultimately show ?case
    using Cons.IH[OF _ _ Cons.prems(3) _ rest, of ?m] Cons.prems(1,4) by auto
qed auto

lemma replay_regulars:
  assumes "list_all (\<lambda>tx. \<not> is_coinbase tx) regs" "tracks base ch m" "\<forall>a. bal imm a = overlay n a r"
    and "\<forall>tx \<in> set regs. bal cur (sender tx) = base (sender tx) \<and> (\<forall>cache. fst (context_check E ctx tx cache) = Inr ())"
  shows "case try_fold (replay_tx n) (m, r) regs of
      Inl e \<Rightarrow> fst (batch_changes E ctx cur imm regs ch cache) = Inl e
    | Inr (m', _) \<Rightarrow> \<exists>ch'. fst (batch_changes E ctx cur imm regs ch cache) = Inr ch'"
  using assms
proof (induction regs arbitrary: ch m cache)
  case (Cons tx txs)
  let ?ch = "credit (recipient tx) (amount_units tx) (credit (sender tx) (- total_debit_units tx) ch)"
  let ?m = "credit (recipient tx) (amount_units tx) (credit (sender tx) (- total_debit_units tx) m)"
  have nc [simp]: "\<not> is_coinbase tx" using Cons.prems(1) by simp
  obtain c1 where c1: "context_check E ctx tx cache = (Inr (), c1)"
    using Cons.prems(4) by (metis list.set_intros(1) prod.collapse)
  have tr: "tracks base ?ch ?m"
    using Cons.prems(2) by (auto simp: tracks_def bal_credit)
  have eq: "bal m (sender tx) - overlay n (sender tx) r = bal cur (sender tx) + bal ch (sender tx) - bal imm (sender tx)"
    using Cons.prems(2-4) by (simp add: tracks_def)
  show ?case
  proof (cases "bal m (sender tx) - overlay n (sender tx) r < total_debit_units tx")
    case True
    then have "replay_tx n (m, r) tx = Inl InsufficientFunds"
      using nc by (simp add: replay_tx_def Let_def overlay_def)
    with True eq c1 show ?thesis by (simp add: nc)
  next
    case False
    then have replayed: "replay_tx n (m, r) tx = Inr (?m, r)"
      using nc by (simp add: replay_tx_def Let_def overlay_def)
    have step: "batch_changes E ctx cur imm (tx # txs) ch cache = batch_changes E ctx cur imm txs ?ch c1"
      using False eq c1 by simp
    show ?thesis
      unfolding step using Cons.IH[OF _ tr Cons.prems(3), of c1] Cons.prems(1,4) replayed by simp
  qed
qed auto

section \<open>The overlay\<close>

lemma batch_overlay_scan:
  assumes "list_ex (\<lambda>tx. \<not> is_coinbase tx) txs" "MATURITY_ACTIVATION_HEIGHT \<le> n" "n \<le> u32_max"
  shows "bal (batch_overlay get txs n) a = immature_reward_units_scan get a n txs"
proof -
  have "bal (fold (\<lambda>rh m. case get (as_u32 rh) of None \<Rightarrow> m
        | Some b \<Rightarrow> fold (\<lambda>tx m. if is_coinbase tx then credit (recipient tx) (amount_units tx) m else m)
            (transactions b) m) hs m) a
    = bal m a + sum_list (map snd (concat (map (\<lambda>rh. case get (as_u32 rh) of None \<Rightarrow> []
        | Some b \<Rightarrow> map (\<lambda>tx. (as_u32 rh, amount_units tx))
            (filter (\<lambda>tx. is_coinbase tx \<and> recipient tx = a) (transactions b))) hs)))" for hs m
    by (induction hs arbitrary: m) (auto simp: credit_rewards_bal comp_def split: option.splits)
  moreover have "bal [] a = 0" by (simp add: bal_def hm_simps)
  moreover have "as_u32 n = n" using assms(3) by (simp add: as_u32_def)
  ultimately show ?thesis
    using assms(1,2) by (simp add: batch_overlay_def immature_reward_units_scan_def immature_coinbase_details_def Let_def
        credit_rewards_bal comp_def)
qed

lemma overlay_rewards:
  "overlay n a (r @ map (\<lambda>tx. (n, recipient tx, amount_units tx)) cbs)
    = overlay n a r + (if n \<ge> MATURITY_ACTIVATION_HEIGHT then sum_list (map amount_units (filter (\<lambda>tx. recipient tx = a) cbs)) else 0)"
  by (simp add: overlay_def immature_of_append) (simp add: immature_of_def filter_map comp_def)

text \<open>Rewards come first.\<close>

definition rewards_first :: "transaction list \<Rightarrow> bool" where
  "rewards_first txs \<longleftrightarrow> list_all (\<lambda>tx. \<not> is_coinbase tx) (dropWhile is_coinbase txs)"

lemma rewards_first_split:
  assumes "rewards_first txs"
  obtains cbs regs where "txs = cbs @ regs" "list_all is_coinbase cbs" "list_all (\<lambda>tx. \<not> is_coinbase tx) regs"
proof (rule that[of "takeWhile is_coinbase txs" "dropWhile is_coinbase txs"])
  show "list_all is_coinbase (takeWhile is_coinbase txs)"
    by (auto simp: list_all_iff dest: set_takeWhileD)
qed (use assms in \<open>simp_all add: rewards_first_def\<close>)

lemma batch_overlay_window:
  assumes au: "authentic c ser get n = Inr bs" and small: "n < u32_max" and txs: "txs = cbs @ regs" "list_all is_coinbase cbs"
    "list_all (\<lambda>tx. \<not> is_coinbase tx) regs" "regs \<noteq> []"
  shows "bal (batch_overlay get txs n) a = overlay n a (drop_mature n (reward_window bs) @ map (\<lambda>tx. (n, recipient tx, amount_units tx)) cbs)"
proof (cases "MATURITY_ACTIVATION_HEIGHT \<le> n")
  case True
  have "list_ex (\<lambda>tx. \<not> is_coinbase tx) txs"
    using txs by (auto simp: list_ex_iff list_all_iff neq_Nil_conv)
  moreover have "filter is_coinbase txs = cbs"
    using txs by (auto simp: list_all_iff filter_id_conv filter_empty_conv)
  then have "coinbase_rewards (blk\<lparr>index := n, transactions := txs\<rparr>) = map (\<lambda>tx. (n, recipient tx, amount_units tx)) cbs" for blk :: block
    by (simp add: coinbase_rewards_def)
  ultimately show ?thesis
    using batch_overlay_scan[of txs n get a] scan_is_window[OF au small True, of a txs] True small by (simp add: overlay_def)
next
  case False
  with small show ?thesis by (simp add: batch_overlay_def overlay_def as_u32_def bal_def hm_simps)
qed

section \<open>The batch\<close>

lemma wf_credit: "hm_wf m \<Longrightarrow> hm_wf (credit a x m)"
  by (simp add: credit_def hm_simps)

lemma touched_by_Cons:
  "set (touched_by (tx # txs)) = (if is_coinbase tx then {} else {sender tx}) \<union> {recipient tx} \<union> set (touched_by txs)"
  by (auto simp: touched_by_def)

definition keyed_in :: "string set \<Rightarrow> balances \<Rightarrow> bool" where
  "keyed_in A m \<longleftrightarrow> hm_wf m \<and> (\<forall>a. hm_contains m a \<longrightarrow> a \<in> A)"

lemma keyed_in_credit: "keyed_in A m \<Longrightarrow> a \<in> A \<Longrightarrow> keyed_in A (credit a x m)"
  by (auto simp: keyed_in_def wf_credit hm_contains_credit)

lemma batch_changes_keys:
  assumes "batch_changes E ctx cur imm txs ch cache = (Inr ch', cache')" "keyed_in A ch" "set (touched_by txs) \<subseteq> A"
  shows "keyed_in A ch'"
  using assms
proof (induction txs arbitrary: ch cache)
  case (Cons tx txs)
  show ?case
  proof (cases "is_coinbase tx")
    case True
    with Cons.prems show ?thesis
      using Cons.IH[of "credit (recipient tx) (amount_units tx) ch" cache] by (simp add: touched_by_Cons keyed_in_credit)
  next
    case False
    let ?ch = "credit (recipient tx) (amount_units tx) (credit (sender tx) (- total_debit_units tx) ch)"
    obtain c1 where "batch_changes E ctx cur imm txs ?ch c1 = (Inr ch', cache')"
      using Cons.prems(1) False by (auto split: prod.splits sum.splits if_splits)
    from Cons.IH[OF this] Cons.prems False show ?thesis by (simp add: touched_by_Cons keyed_in_credit)
  qed
qed simp

lemma wf_fold_insert: "hm_wf t \<Longrightarrow> hm_wf (fold (\<lambda>(a, v). hm_insert a (f a v)) rows t)"
  by (induction rows arbitrary: t) (auto simp: hm_simps)

lemma bal_written:
  assumes "keyed_in A ch" "\<forall>a \<in> A. bal cur a = bal t a"
  shows "bal (fold (\<lambda>(a, change). hm_insert a (bal cur a + change)) ch t) a = bal t a + bal ch a"
proof -
  have get: "hm_wf ch \<Longrightarrow> hm_get (fold (\<lambda>(a, change). hm_insert a (bal cur a + change)) ch t) a =
      (case hm_get ch a of Some x \<Rightarrow> Some (bal cur a + x) | None \<Rightarrow> hm_get t a)"
  proof (induction ch arbitrary: t)
    case (Cons row ch)
    obtain k x where row: "row = (k, x)" by fastforce
    have wf: "hm_wf ch" and new: "hm_get ch k = None"
      using Cons.prems by (auto simp: row hm_wf_def hm_get_def map_of_eq_None_iff)
    show ?case
      using Cons.IH[OF wf, of "hm_insert k (bal cur k + x) t"] new by (auto simp: row hm_get_Cons hm_simps split: option.splits)
  qed (simp add: hm_simps)
  with assms show ?thesis
    by (auto simp: keyed_in_def bal_def hm_contains_def split: option.splits)
qed

lemma process_is_replay:
  assumes settled: "marker (cc_index (ns_chain ns)) = Some (get_latest_block_index (highest ns))" "ne_auto_rebuild E"
    and au: "authentic c ser (get_block ns) n = Inr bs" "n < u32_max" and rp: "replay_blocks bs ([], []) = Inr (m, r)"
    and exact: "\<forall>a. bal (tree (cc_index (ns_chain ns))) a = bal m a" and first: "rewards_first txs"
    and run: "process_transactions_batch E txs ctx n ns = (Inr (), ns')"
  shows "\<exists>m' r' t'. replay_apply_block_checked n txs (m, r) = Inr (m', r')
    \<and> ns_chain ns' = (ns_chain ns)\<lparr>cc_index := (cc_index (ns_chain ns))\<lparr>tree := t', marker := Some n\<rparr>\<rparr> \<and> (\<forall>a. bal t' a = bal m' a)
    \<and> (hm_wf (tree (cc_index (ns_chain ns))) \<longrightarrow> hm_wf t')"
proof -
  let ?t = "tree (cc_index (ns_chain ns))"
  obtain cur where cur: "load_balances E (touched_by txs) [] ns = (Inr cur, ns)"
    "\<forall>a. hm_get cur a = (if a \<in> set (touched_by txs) then Some (bal ?t a) else None)"
    using load_balances_settled[OF settled, of "touched_by txs" "[]"] by (auto simp: hm_contains_def hm_simps)
  let ?imm = "batch_overlay (get_block ns) txs n"
  obtain ch cache where ch: "batch_changes E ctx cur ?imm txs [] (ns_signatures ns) = (Inr ch, cache)"
    using run cur(1) by (auto simp: process_transactions_batch_def split: prod.splits sum.splits)
  let ?t' = "fold (\<lambda>(a, change). hm_insert a (bal cur a + change)) ch ?t"
  have ns': "ns_chain ns' = (ns_chain ns)\<lparr>cc_index := (cc_index (ns_chain ns))\<lparr>tree := ?t', marker := Some n\<rparr>\<rparr>"
    using run cur(1) ch by (auto simp: process_transactions_batch_def Let_def set_chain_def)
  have known: "\<forall>a \<in> set (touched_by txs). bal cur a = bal ?t a"
    using cur(2) by (simp add: bal_def[of cur])
  have keys: "keyed_in (set (touched_by txs)) ch"
    by (rule batch_changes_keys[OF ch]) (simp_all add: keyed_in_def hm_simps hm_contains_def)
  obtain cbs regs where split: "txs = cbs @ regs" "list_all is_coinbase cbs" "list_all (\<lambda>tx. \<not> is_coinbase tx) regs"
    using rewards_first_split[OF first] .
  let ?r = "drop_mature n r @ map (\<lambda>tx. (n, recipient tx, amount_units tx)) cbs"
  have win: "r = reward_window bs"
    using replay_window[OF authentic_chain_ok[OF au(1)] rp] au(2) by simp
  have "tracks (bal m) (reward_credits cbs []) (reward_credits cbs m)"
    by (simp add: tracks_def bal_reward_credits) (simp add: bal_def hm_simps)
  moreover have "batch_changes E ctx cur ?imm regs (reward_credits cbs []) (ns_signatures ns) = (Inr ch, cache)"
    using ch split batch_coinbases by metis
  moreover have "\<forall>tx \<in> set regs. bal cur (sender tx) = bal m (sender tx)"
    using known exact split by (auto simp: touched_by_def list_all_iff)
  ultimately have "\<exists>m'. try_fold (replay_tx n) (reward_credits cbs m, ?r) regs = Inr (m', ?r) \<and> tracks (bal m) ch m'"
    if "regs \<noteq> []"
    using batch_regulars[OF split(3), of "bal m" "reward_credits cbs []" "reward_credits cbs m" ?imm n ?r cur E ctx "ns_signatures ns" ch cache]
      batch_overlay_window[OF au split that] by (simp add: win)
  moreover have "tracks (bal m) ch (reward_credits cbs m)" if "regs = []"
    using that ch split batch_coinbases[of cbs E ctx cur ?imm "[]" "[]"] \<open>tracks (bal m) (reward_credits cbs []) (reward_credits cbs m)\<close> by simp
  ultimately obtain m' where m': "try_fold (replay_tx n) (reward_credits cbs m, ?r) regs = Inr (m', ?r)" "tracks (bal m) ch m'"
    by (cases "regs = []") auto
  have "replay_apply_block_checked n txs (m, r) = Inr (m', ?r)"
    using m'(1) split replay_coinbases[OF split(2), of n m "drop_mature n r" regs] by (simp add: replay_apply_block_checked_def)
  moreover have "\<forall>a. bal ?t' a = bal m' a"
    using bal_written[OF keys known] m'(2) exact by (simp add: tracks_def)
  moreover have "hm_wf ?t \<longrightarrow> hm_wf ?t'"
    by (simp add: wf_fold_insert[where f = "\<lambda>a change. bal cur a + change"])
  ultimately show ?thesis
    using ns' by blast
qed

text \<open>The converse: payments whose signatures hold are refused exactly where the replay refuses them.\<close>

lemma process_follows_replay:
  assumes settled: "marker (cc_index (ns_chain ns)) = Some (get_latest_block_index (highest ns))" "ne_auto_rebuild E"
    and au: "authentic c ser (get_block ns) n = Inr bs" "n < u32_max" and rp: "replay_blocks bs ([], []) = Inr (m, r)"
    and exact: "\<forall>a. bal (tree (cc_index (ns_chain ns))) a = bal m a" and first: "rewards_first txs"
    and signed: "\<forall>tx \<in> set txs. \<not> is_coinbase tx \<longrightarrow> (\<forall>cache. fst (context_check E ctx tx cache) = Inr ())"
  shows "fst (process_transactions_batch E txs ctx n ns) = (case replay_apply_block_checked n txs (m, r) of Inl e \<Rightarrow> Inl e | Inr _ \<Rightarrow> Inr ())"
proof -
  let ?t = "tree (cc_index (ns_chain ns))" and ?imm = "batch_overlay (get_block ns) txs n"
  obtain cur where cur: "load_balances E (touched_by txs) [] ns = (Inr cur, ns)"
    "\<forall>a. hm_get cur a = (if a \<in> set (touched_by txs) then Some (bal ?t a) else None)"
    using load_balances_settled[OF settled, of "touched_by txs" "[]"] by (auto simp: hm_contains_def hm_simps)
  obtain cbs regs where split: "txs = cbs @ regs" "list_all is_coinbase cbs" "list_all (\<lambda>tx. \<not> is_coinbase tx) regs"
    using rewards_first_split[OF first] .
  let ?r = "drop_mature n r @ map (\<lambda>tx. (n, recipient tx, amount_units tx)) cbs" and ?ch = "reward_credits cbs []"
  have win: "r = reward_window bs"
    using replay_window[OF authentic_chain_ok[OF au(1)] rp] au(2) by simp
  have replay: "replay_apply_block_checked n txs (m, r) = try_fold (replay_tx n) (reward_credits cbs m, ?r) regs"
    using split replay_coinbases[OF split(2), of n m "drop_mature n r" regs] by (simp add: replay_apply_block_checked_def)
  have "bal cur a = bal ?t a" if "a \<in> set (touched_by txs)" for a
    using cur(2) that by (simp add: bal_def[of cur])
  then have regs: "\<forall>tx \<in> set regs. bal cur (sender tx) = bal m (sender tx) \<and> (\<forall>cache. fst (context_check E ctx tx cache) = Inr ())"
    using exact split signed by (auto simp: touched_by_def list_all_iff)
  have tr: "tracks (bal m) ?ch (reward_credits cbs m)"
    by (simp add: tracks_def bal_reward_credits) (simp add: bal_def hm_simps)
  have "case try_fold (replay_tx n) (reward_credits cbs m, ?r) regs of
      Inl e \<Rightarrow> fst (batch_changes E ctx cur ?imm regs ?ch (ns_signatures ns)) = Inl e
    | Inr _ \<Rightarrow> \<exists>ch'. fst (batch_changes E ctx cur ?imm regs ?ch (ns_signatures ns)) = Inr ch'"
  proof (cases "regs = []")
    case False
    with replay_regulars[OF split(3) tr _ regs, of ?imm n ?r "ns_signatures ns"] batch_overlay_window[OF au split False] show ?thesis
      by (auto simp: win split: sum.splits prod.splits)
  qed simp
  then show ?thesis
    unfolding replay using cur(1) split(1) batch_coinbases[OF split(2), of E ctx cur ?imm regs "[]" "ns_signatures ns"]
    by (auto simp: process_transactions_batch_def Let_def split: sum.splits prod.splits)
qed

end
