(* ===== verification/A9_Tip_Props.thy ===== *)
theory A9_Tip_Props
  imports A9_Apply_Props
begin

text \<open>
  A block that is accepted, applied and stored after the tip leaves a consistent chain: its stored form
  authenticates, its batch is its replay, and its payments are in the registry.
\<close>

section \<open>One more row\<close>

lemma load_chain_cong:
  "\<forall>h \<in> set hs. get' h = get h \<Longrightarrow>
    load_chain (load_structurally_valid_canonical_block c ser get') hs prev = load_chain (load_structurally_valid_canonical_block c ser get) hs prev"
proof (induction hs arbitrary: prev)
  case (Cons h hs)
  then have "load_structurally_valid_canonical_block c ser get' h prev = load_structurally_valid_canonical_block c ser get h prev"
    by (simp add: load_structurally_valid_canonical_block_def)
  with Cons show ?case by simp
qed simp

lemma load_chain_snoc:
  "load_chain load hs prev = Inr bs \<Longrightarrow> load h (if bs = [] then prev else Some (last bs)) = Inr b
    \<Longrightarrow> load_chain load (hs @ [h]) prev = Inr (bs @ [b])"
proof (induction hs arbitrary: prev bs)
  case (Cons k hs)
  then obtain b0 rest where "load k prev = Inr b0" "load_chain load hs (Some b0) = Inr rest" "bs = b0 # rest"
    by (auto simp: result_simps)
  with Cons.IH[of "Some b0" rest] Cons.prems(2) show ?case by (auto simp: result_simps split: if_splits)
qed (simp add: result_simps)

lemma authentic_snoc:
  assumes "authentic c ser get n = Inr bs" "0 < n" "\<forall>h < n. get' h = get h"
    and "load_structurally_valid_canonical_block c ser get' n (Some (last bs)) = Inr b"
  shows "authentic c ser get' (n + 1) = Inr (bs @ [b])"
proof -
  have "authentic c ser get' n = Inr bs"
    using assms(1,3) load_chain_cong[of "[0..<n]" get' get] by simp
  moreover have "bs \<noteq> []"
    using authentic_length[OF assms(1)] assms(2) by auto
  ultimately show ?thesis
    using load_chain_snoc[of _ "[0..<n]" None bs n b] assms(4) by simp
qed

section \<open>Accepted blocks\<close>

lemma accepted_head: "fst (validate_block_internal cv mode b cache) = Inr () \<Longrightarrow> validate_block_head cv mode b = Inr ()"
  by (auto simp: validate_block_internal_def split: sum.splits)

lemma accepted_rewards_first:
  assumes "validate_block_head cv mode b = Inr ()"
  shows "rewards_first (transactions b)"
proof -
  have "validate_block_reward_rules_at (cv_genesis_ts cv) b FEE_SYSTEM_ACTIVATION_HEIGHT = Inr ()"
    using assms by (auto simp: validate_block_head_def result_simps)
  then obtain tx txs where "transactions b = tx # txs" "is_coinbase tx" "length (filter is_coinbase (transactions b)) = 1"
    by (auto simp: validate_block_reward_rules_at_def Let_def guard_err_def split: if_splits list.splits)
  then show ?thesis
    by (auto simp: rewards_first_def list_all_iff filter_empty_conv dest!: set_dropWhileD)
qed

lemma accepted_signed:
  assumes "fst (validate_block_internal cv mode b cache) = Inr ()" "tx \<in> set (transactions b)" "\<not> is_coinbase tx"
  shows "\<exists>h sg sb. sig_hash tx = Some h \<and> signature tx = Some sg \<and> hex_decode (cv_crypto cv) sg = Some sb"
proof -
  have "fst (check_txs (check_block_tx cv mode b) (transactions b) cache) = Inr ()"
    using assms(1) by (auto simp: validate_block_internal_def split: sum.splits)
  from check_txs_each[OF this assms(2,3)] obtain k where "fst (check_block_tx cv mode b tx k) = Inr ()"
    by blast
  then show ?thesis
    by (auto simp: check_block_tx_def check_witness_def Let_def split: if_splits option.splits)
qed

lemma accepted_loads_after:
  assumes ok: "fst (validate_block_internal cv mode b cache) = Inr ()" and cv: "cv_crypto cv = c" "cv_serialize cv = ser"
    and hx: "hex_faithful c" and p: "previous_hash b = hash p" "block_timestamp p \<le> block_timestamp b"
    and get': "get' (index b) = Some (to_storage_block c b)"
  shows "load_structurally_valid_canonical_block c ser get' (index b) (Some p) = Inr (to_storage_block c b)"
proof -
  have head: "validate_block_head cv mode b = Inr ()"
    by (rule accepted_head[OF ok])
  have "calculate_merkle_root c ser (map (stored_transaction c) (transactions b)) = calculate_merkle_root c ser (transactions b)"
    using accepted_signed[OF ok] cv by (intro storage_merkle[OF hx]) simp
  moreover have "calculate_merkle_root c ser (transactions b) = merkle_root b" "validate_header c (cv_now cv) b = Inr ()"
    using head cv by (auto simp: validate_block_head_def result_simps)
  moreover have "calculate_hash_for_block c (to_storage_block c b) = calculate_hash_for_block c b"
    by (simp add: calculate_hash_for_block_def header_data_def)
  ultimately show ?thesis
    using p get' by (auto simp: load_structurally_valid_canonical_block_def guard_err_def validate_header_def result_simps split: if_splits)
qed

lemma accepted_loads:
  assumes "fst (validate_block_internal cv mode b cache) = Inr ()" "cv_crypto cv = c" "cv_serialize cv = ser" "cv_get_block cv = chain_get bs"
    and "hex_faithful c" "bs \<noteq> []" "index b = length bs" "previous_hash b = hash (last bs)" "get' (length bs) = Some (to_storage_block c b)"
  shows "load_structurally_valid_canonical_block c ser get' (length bs) (Some (last bs)) = Inr (to_storage_block c b)"
  using accepted_loads_after[OF assms(1-3,5,8), of get'] accepted_after_tip[OF accepted_head[OF assms(1)] assms(4,6-8)] assms(7,9) by simp

section \<open>Consistent chains\<close>

lemma scan_none_above: "highest_block_index_scan rows = Some tip \<Longrightarrow> tip < h \<Longrightarrow> hm_get rows h = None"
proof -
  assume s: "highest_block_index_scan rows = Some tip" "tip < h"
  then have "tip = Max (set (hm_keys rows))"
    by (simp add: highest_block_index_scan_def split: if_splits)
  with s(2) have "h \<notin> set (hm_keys rows)"
    by (metis List.finite_set Max_ge leD)
  then show ?thesis by (simp add: hm_keys_iff)
qed

lemma scan_insert: "highest_block_index_scan rows = Some tip \<Longrightarrow> highest_block_index_scan (hm_insert (tip + 1) b rows) = Some (tip + 1)"
proof -
  assume s: "highest_block_index_scan rows = Some tip"
  have keys: "set (hm_keys (hm_insert (tip + 1) b rows)) = insert (tip + 1) (set (hm_keys rows))"
    by (auto simp: hm_keys_iff hm_simps set_eq_iff)
  then have "hm_insert (tip + 1) b rows \<noteq> []"
    by (auto simp: hm_keys_def)
  moreover have "Max (insert (tip + 1) (set (hm_keys rows))) = tip + 1"
    using s by (intro Max_eqI) (auto simp: highest_block_index_scan_def le_SucI split: if_splits)
  ultimately show ?thesis
    using keys by (simp add: highest_block_index_scan_def)
qed

lemma consistent_chain:
  assumes "chain_consistent c ser cc" "highest_block_index_scan (cc_rows cc) = Some tip"
  obtains bs m r where "authentic c ser (hm_get (cc_rows cc)) (tip + 1) = Inr bs" "replay_blocks bs ([], []) = Inr (m, r)"
    "cc_tip cc = Some \<lparr>tip_height = tip, tip_hash = hash (last bs)\<rparr>" "marker (cc_index cc) = Some tip"
    "\<forall>a. bal (tree (cc_index cc)) a = bal m a" "chain_facts bs \<longrightarrow> reg_covers bs (cc_registry cc) (block_timestamp (last bs))"
    "length bs = tip + 1" "hm_get (cc_rows cc) = chain_get bs" "highest_block_index cc = Some tip"
proof -
  from assms obtain bs m r where b: "authentic c ser (hm_get (cc_rows cc)) (tip + 1) = Inr bs" "replay_blocks bs ([], []) = Inr (m, r)"
    "cc_tip cc = Some \<lparr>tip_height = tip, tip_hash = hash (last bs)\<rparr>" "marker (cc_index cc) = Some tip"
    "\<forall>a. bal (tree (cc_index cc)) a = bal m a" "chain_facts bs \<longrightarrow> reg_covers bs (cc_registry cc) (block_timestamp (last bs))"
    by (auto simp: chain_consistent_def)
  have len: "length bs = tip + 1"
    using authentic_length[OF b(1)] .
  have "hm_get (cc_rows cc) h = chain_get bs h" for h
    using authentic_get[OF b(1), of h] scan_none_above[OF assms(2), of h] len by (auto simp: chain_get_def)
  then have get: "hm_get (cc_rows cc) = chain_get bs" by blast
  have "last bs = bs ! tip"
    using len by (cases bs rule: rev_cases) (auto simp: nth_append)
  then have "highest_block_index cc = Some tip"
    using b(3) get len by (simp add: highest_block_index_def chain_get_def)
  with that b len get show thesis by blast
qed

lemma chain_facts_prefix:
  assumes "chain_facts (bs @ [b])"
  shows "chain_facts bs"
proof -
  have "index (bs ! i) = i \<and> i \<le> u32_max \<and> block_timestamp (bs ! i) \<le> u64_max" if "i < length bs" for i
    using assms that by (auto simp: chain_facts_def nth_append dest: spec[of _ i])
  with assms show ?thesis
    by (simp add: chain_facts_def sorted_append)
qed

lemma tip_extended:
  assumes cc: "chain_consistent c ser cc" "highest_block_index_scan (cc_rows cc) = Some tip" and bs: "hm_get (cc_rows cc) = chain_get bs" "length bs = tip + 1"
    and ok: "fst (validate_block_internal cv mode b cache) = Inr ()" and cv: "cv_crypto cv = c" "cv_serialize cv = ser" "cv_get_block cv = chain_get bs"
    and hx: "hex_faithful c" and b: "index b = tip + 1" "previous_hash b = hash (last bs)"
    and st: "replay_blocks bs ([], []) = Inr st" "replay_apply_block_checked (tip + 1) (transactions b) st = Inr (m', r')"
    and t': "\<forall>a. bal t' a = bal m' a"
  shows "chain_consistent c ser (cc\<lparr>cc_rows := hm_insert (tip + 1) (to_storage_block c b) (cc_rows cc),
     cc_tip := Some \<lparr>tip_height = tip + 1, tip_hash = hash b\<rparr>, cc_index := idx\<lparr>tree := t', marker := Some (tip + 1)\<rparr>,
     cc_registry := prune_confirmed_txs (block_timestamp b) (record_confirmed_txs b (cc_registry cc))\<rparr>)"
proof -
  let ?sb = "to_storage_block c b" and ?rows = "hm_insert (tip + 1) (to_storage_block c b) (cc_rows cc)"
  let ?reg = "prune_confirmed_txs (block_timestamp b) (record_confirmed_txs b (cc_registry cc))"
  obtain bs0 where au0: "authentic c ser (hm_get (cc_rows cc)) (tip + 1) = Inr bs0"
    and cov0: "chain_facts bs0 \<longrightarrow> reg_covers bs0 (cc_registry cc) (block_timestamp (last bs0))" and bs0: "hm_get (cc_rows cc) = chain_get bs0" "length bs0 = tip + 1"
    using consistent_chain[OF cc] by metis
  have "bs0 = bs"
    using bs bs0 by (intro nth_equalityI) (auto simp: chain_get_def fun_eq_iff, metis option.inject)
  with au0 cov0 have au: "authentic c ser (hm_get (cc_rows cc)) (tip + 1) = Inr bs"
    and cov: "chain_facts bs \<longrightarrow> reg_covers bs (cc_registry cc) (block_timestamp (last bs))" by simp_all
  have ne: "bs \<noteq> []" using bs(2) by auto
  have load: "load_structurally_valid_canonical_block c ser (hm_get ?rows) (tip + 1) (Some (last bs)) = Inr ?sb"
    using accepted_loads[OF ok cv hx ne _ b(2), of "hm_get ?rows"] b(1) bs(2) by (simp add: hm_simps)
  have au': "authentic c ser (hm_get ?rows) (tip + 1 + 1) = Inr (bs @ [?sb])"
    by (rule authentic_snoc[OF au _ _ load]) (simp_all add: hm_simps)
  have "replay_tx h s (stored_transaction c tx) = replay_tx h s tx" for h s tx
    by (cases s) (simp add: replay_tx_def Let_def total_debit_units_def)
  then have "replay_apply_block_checked h (map (stored_transaction c) txs) s = replay_apply_block_checked h txs s" for h txs s
    by (simp add: replay_apply_block_checked_def try_fold_map case_prod_beta)
  then have rp: "replay_blocks (bs @ [?sb]) ([], []) = Inr (m', r')"
    using st b(1) by (simp add: replay_blocks_snoc result_simps)
  have after: "block_timestamp (last bs) \<le> block_timestamp b"
    using accepted_after_tip[OF accepted_head[OF ok] cv(3) ne] b bs(2) by simp
  have "reg_covers (bs @ [?sb]) ?reg (block_timestamp b)" if ch: "chain_facts (bs @ [?sb])"
  proof -
    have "reg_covers (bs @ [?sb]) (record_confirmed_txs ?sb (cc_registry cc)) (block_timestamp (last bs))"
      using cov chain_facts_prefix[OF ch] ch by (intro reg_covers_record) (auto simp: chain_facts_def)
    moreover have "block_timestamp b \<le> u64_max"
      using ch by (auto simp: chain_facts_def nth_append dest: spec[of _ "length bs"])
    ultimately show ?thesis
      using reg_covers_prune[OF _ after _ ch] by (simp add: record_stored)
  qed
  with au' rp t' scan_insert[OF cc(2), of ?sb] show ?thesis
    by (auto simp: chain_consistent_def)
qed

section \<open>Applying a block\<close>

lemma rebuild_keeps_rows: "cc_rows (snd (rebuild_chain_state c ser f cc)) = cc_rows cc"
proof -
  have "cc_rows (snd (rebuild_chain_tip_metadata f cc)) = cc_rows cc"
    by (auto simp: rebuild_chain_tip_metadata_def split: option.splits)
  then show ?thesis
    by (auto simp: rebuild_chain_state_def Let_def split: prod.splits sum.splits)
qed

lemma rebuild_keeps_wf:
  assumes "hm_wf (tree (cc_index cc))"
  shows "hm_wf (tree (cc_index (snd (rebuild_chain_state c ser f cc))))"
proof -
  have idx: "hm_wf (tree i) \<Longrightarrow> hm_wf (tree (snd (rebuild_balances_index c ser get h i)))" for i get h
    by (auto simp: rebuild_balances_index_def Let_def hm_simps split: sum.splits intro!: wf_fold_insert[where f = "\<lambda>_ v. v"])
  have ens: "snd (ensure_balances_index_with_force c ser get h True True i) = snd (rebuild_balances_index c ser get h i)" for i get h
    by (auto simp: ensure_balances_index_with_force_def Let_def split: option.splits)
  obtain q cc1 where q: "rebuild_chain_tip_metadata f cc = (q, cc1)" by fastforce
  have "cc_index cc1 = cc_index cc"
    using q by (auto simp: rebuild_chain_tip_metadata_def split: option.splits)
  with assms have wf: "hm_wf (tree (cc_index cc1))" by simp
  obtain p i where p: "(case index_fault f of Some e \<Rightarrow> (Inl e, cc_index cc1)
      | None \<Rightarrow> ensure_balances_index_with_force c ser (hm_get (cc_rows cc1)) (highest_block_index cc1) True True (cc_index cc1)) = (p, i)"
    by fastforce
  have "hm_wf (tree i)"
    using p idx[OF wf] ens[of "hm_get (cc_rows cc1)" "highest_block_index cc1" "cc_index cc1"] wf by (auto split: option.splits)
  with q p wf show ?thesis
    by (cases q; cases p) (auto simp: rebuild_chain_state_def Let_def split: prod.splits)
qed

lemma reconcile_consistent:
  assumes "chain_consistent (ne_crypto E) (ne_serialize E) (ns_chain ns)" "highest_block_index_scan (cc_rows (ns_chain ns)) = Some tip"
  obtains ns1 where "reconcile_if_dirty E ns = (Inr (), ns1)" "chain_consistent (ne_crypto E) (ne_serialize E) (ns_chain ns1)"
    "cc_rows (ns_chain ns1) = cc_rows (ns_chain ns)" "hm_wf (tree (cc_index (ns_chain ns))) \<longrightarrow> hm_wf (tree (cc_index (ns_chain ns1)))"
proof (cases "ns_dirty ns")
  case True
  let ?r = "rebuild_chain_state (ne_crypto E) (ne_serialize E) no_faults (ns_chain ns)"
  obtain bs m r where "authentic (ne_crypto E) (ne_serialize E) (hm_get (cc_rows (ns_chain ns))) (tip + 1) = Inr bs" "replay_blocks bs ([], []) = Inr (m, r)"
    using consistent_chain[OF assms] by metis
  from rebuild_chain_state_total[OF assms(2) this] have "fst ?r = Inr ()"
    by (simp add: no_faults_def)
  then obtain cc where ok: "?r = (Inr (), cc)"
    by (metis prod.collapse)
  have "cc_rows cc = cc_rows (ns_chain ns)"
    using rebuild_keeps_rows[of "ne_crypto E" "ne_serialize E" no_faults "ns_chain ns"] ok by simp
  moreover have "hm_wf (tree (cc_index (ns_chain ns))) \<longrightarrow> hm_wf (tree (cc_index cc))"
    using rebuild_keeps_wf[of "ns_chain ns" "ne_crypto E" "ne_serialize E" no_faults] ok by simp
  ultimately show thesis
    using that[of "ns\<lparr>ns_chain := cc, ns_dirty := False\<rparr>"] True ok rebuild_chain_state_sound[OF ok]
    by (simp add: reconcile_if_dirty_def)
next
  case False
  with assms that show thesis by (simp add: reconcile_if_dirty_def)
qed

lemma chain_fields: "ns_chain ns1 = ns_chain ns \<Longrightarrow> get_block ns1 = get_block ns \<and> highest ns1 = highest ns"
  by (auto simp: get_block_def[abs_def] highest_def)

lemma validated_frame: "validated E mode b ns = (r, ns') \<Longrightarrow> ns_chain ns' = ns_chain ns"
  by (auto simp: validated_def split: prod.splits)

lemma integrity_frame: "verify_recent_chain_integrity w ns = (r, ns') \<Longrightarrow> ns_chain ns' = ns_chain ns"
  by (auto simp: verify_recent_chain_integrity_def verify_chain_integrity_from_def split: option.splits)

lemma frontier_frame: "frontier_check E b ns = (r, ns') \<Longrightarrow> ns_chain ns' = ns_chain ns"
  by (auto simp: frontier_check_def Let_def split: if_splits prod.splits bool.splits dest!: integrity_frame)

lemma persist_checks_frame: "persist_checks E mode b ns = (r, ns') \<Longrightarrow> ns_chain ns' = ns_chain ns"
  by (auto simp: persist_checks_def Let_def split: prod.splits sum.splits if_splits dest!: validated_frame frontier_frame)

lemma persist_checks_ok:
  "persist_checks E mode b ns = (Inr (), ns') \<Longrightarrow> fst (validate_block_internal (view_of E ns) mode b (ns_signatures ns)) = Inr ()"
  by (auto simp: persist_checks_def validated_def Let_def split: prod.splits sum.splits if_splits)

lemma process_error_frame:
  assumes "marker (cc_index (ns_chain ns)) = Some (get_latest_block_index (highest ns))" "ne_auto_rebuild E"
    and "process_transactions_batch E txs ctx n ns = (Inl e, ns')"
  shows "ns_chain ns' = ns_chain ns"
  using load_balances_settled[OF assms(1,2), of "touched_by txs" "[]"] assms(3)
  by (auto simp: process_transactions_batch_def Let_def split: prod.splits sum.splits)

text \<open>The writes of an apply, in either order of its two paths.\<close>

lemma apply_consistent:
  assumes cc: "chain_consistent (ne_crypto E) (ne_serialize E) (ns_chain ns)" "highest_block_index_scan (cc_rows (ns_chain ns)) = Some tip"
    and env: "ne_auto_rebuild E" "hex_faithful (ne_crypto E)" "tip + 1 < u32_max"
    and ok: "fst (validate_block_internal (view_of E ns0) mode b cache) = Inr ()" "get_block ns0 = get_block ns"
    and b: "index b = tip + 1" "hm_get (cc_rows (ns_chain ns)) tip = Some parent" "previous_hash b = hash parent"
    and run: "process_transactions_batch E (transactions b) ctx (index b) ns = (Inr (), ns1)"
  shows "chain_consistent (ne_crypto E) (ne_serialize E)
      (ns_chain (write_chain_tip_metadata b (store_block E b (register_block b ns1))))
    \<and> (hm_wf (tree (cc_index (ns_chain ns))) \<longrightarrow> hm_wf (tree (cc_index (ns_chain ns1))))"
proof -
  let ?c = "ne_crypto E" and ?ser = "ne_serialize E" and ?cc = "ns_chain ns"
  obtain bs m r where k: "authentic ?c ?ser (hm_get (cc_rows ?cc)) (tip + 1) = Inr bs" "replay_blocks bs ([], []) = Inr (m, r)"
    "marker (cc_index ?cc) = Some tip" "\<forall>a. bal (tree (cc_index ?cc)) a = bal m a" "length bs = tip + 1"
    "hm_get (cc_rows ?cc) = chain_get bs" "highest_block_index ?cc = Some tip"
    using consistent_chain[OF cc] by metis
  have get: "get_block ns = hm_get (cc_rows ?cc)"
    by (simp add: get_block_def[abs_def])
  have "parent = last bs"
    using b(2) k(5,6) by (cases bs rule: rev_cases) (auto simp: chain_get_def nth_append)
  have "marker (cc_index ?cc) = Some (get_latest_block_index (highest ns))"
    using k(3,7) by (simp add: highest_def get_latest_block_index_def)
  from process_is_replay[OF this env(1) k(1)[folded get] env(3) k(2,4) accepted_rewards_first[OF accepted_head[OF ok(1)]] run[unfolded b(1)]]
  obtain m' r' t' where m': "replay_apply_block_checked (tip + 1) (transactions b) (m, r) = Inr (m', r')" "\<forall>a. bal t' a = bal m' a"
    and ns1: "ns_chain ns1 = ?cc\<lparr>cc_index := (cc_index ?cc)\<lparr>tree := t', marker := Some (tip + 1)\<rparr>\<rparr>"
    and wf: "hm_wf (tree (cc_index ?cc)) \<longrightarrow> hm_wf t'"
    by blast
  have cv: "cv_crypto (view_of E ns0) = ?c" "cv_serialize (view_of E ns0) = ?ser" "cv_get_block (view_of E ns0) = chain_get bs"
    using ok(2) get k(6) by (simp_all add: view_of_def)
  have "ns_chain (write_chain_tip_metadata b (store_block E b (register_block b ns1)))
      = ?cc\<lparr>cc_rows := hm_insert (tip + 1) (to_storage_block ?c b) (cc_rows ?cc),
        cc_tip := Some \<lparr>tip_height = tip + 1, tip_hash = hash b\<rparr>, cc_index := (cc_index ?cc)\<lparr>tree := t', marker := Some (tip + 1)\<rparr>,
        cc_registry := prune_confirmed_txs (block_timestamp b) (record_confirmed_txs b (cc_registry ?cc))\<rparr>"
    by (cases "?cc") (simp add: write_chain_tip_metadata_def store_block_def register_block_def set_chain_def ns1 b(1))
  with tip_extended[OF cc k(6,5) ok(1) cv env(2) b(1) _ k(2) m', of "cc_index ?cc"] b(3) \<open>parent = last bs\<close> wf
  show ?thesis by (simp add: ns1)
qed

text \<open>Where the chain stands: consistent, with its highest row at \<open>tip\<close>.\<close>

definition stands_at :: "node_env \<Rightarrow> u32 \<Rightarrow> node_state \<Rightarrow> bool" where
  "stands_at E tip ns \<longleftrightarrow> chain_consistent (ne_crypto E) (ne_serialize E) (ns_chain ns)
     \<and> highest_block_index_scan (cc_rows (ns_chain ns)) = Some tip \<and> hm_wf (tree (cc_index (ns_chain ns)))"

definition attaches :: "block \<Rightarrow> u32 \<Rightarrow> node_state \<Rightarrow> bool" where
  "attaches b tip ns \<longleftrightarrow> index b = tip + 1 \<and> (\<exists>parent. hm_get (cc_rows (ns_chain ns)) tip = Some parent \<and> previous_hash b = hash parent)"

lemma stands_at_cong: "ns_chain ns' = ns_chain ns \<Longrightarrow> stands_at E tip ns' = stands_at E tip ns"
  by (simp add: stands_at_def)

lemma applied_stands:
  assumes at: "stands_at E tip ns" and env: "ne_auto_rebuild E" "hex_faithful (ne_crypto E)" "tip + 1 < u32_max"
    and ok: "fst (validate_block_internal (view_of E ns0) mode b cache) = Inr ()" "get_block ns0 = get_block ns"
    and b: "attaches b tip ns" and run: "process_transactions_batch E (transactions b) ctx (index b) ns = (r, ns1)"
  shows "case r of Inl e \<Rightarrow> ns_chain ns1 = ns_chain ns
    | Inr _ \<Rightarrow> stands_at E (tip + 1) (write_chain_tip_metadata b (store_block E b (register_block b ns1)))
        \<and> cc_rows (ns_chain ns1) = cc_rows (ns_chain ns)"
proof (cases r)
  case (Inl e)
  have "highest_block_index (ns_chain ns) = Some tip" "marker (cc_index (ns_chain ns)) = Some tip"
    using at consistent_chain unfolding stands_at_def by metis+
  then have "marker (cc_index (ns_chain ns)) = Some (get_latest_block_index (highest ns))"
    by (simp add: highest_def get_latest_block_index_def)
  with run Inl env(1) show ?thesis by (auto dest: process_error_frame)
next
  case (Inr u)
  have "cc_rows (ns_chain ns1) = cc_rows (ns_chain ns)"
  proof -
    have "highest_block_index (ns_chain ns) = Some tip" "marker (cc_index (ns_chain ns)) = Some tip"
      using at consistent_chain unfolding stands_at_def by metis+
    then have "marker (cc_index (ns_chain ns)) = Some (get_latest_block_index (highest ns))"
      by (simp add: highest_def get_latest_block_index_def)
    with load_balances_settled[OF this env(1), of "touched_by (transactions b)" "[]"] run Inr show ?thesis
      by (auto simp: process_transactions_batch_def Let_def set_chain_def split: prod.splits sum.splits)
  qed
  moreover from b obtain parent where "index b = tip + 1" "hm_get (cc_rows (ns_chain ns)) tip = Some parent" "previous_hash b = hash parent"
    by (auto simp: attaches_def)
  moreover from this run Inr at have "chain_consistent (ne_crypto E) (ne_serialize E)
      (ns_chain (write_chain_tip_metadata b (store_block E b (register_block b ns1))))
    \<and> (hm_wf (tree (cc_index (ns_chain ns))) \<longrightarrow> hm_wf (tree (cc_index (ns_chain ns1))))"
    by (intro apply_consistent[OF _ _ env ok]) (auto simp: stands_at_def)
  ultimately show ?thesis
    using at Inr scan_insert[of "cc_rows (ns_chain ns)" tip "to_storage_block (ne_crypto E) b"]
    by (simp add: stands_at_def write_chain_tip_metadata_def store_block_def register_block_def set_chain_def)
qed

section \<open>The operations\<close>

lemma persist_stands:
  assumes at: "stands_at E tip ns" and env: "ne_auto_rebuild E" "hex_faithful (ne_crypto E)" "tip + 1 < u32_max" and b: "attaches b tip ns"
    and run: "persist_validated_block_with_mode E mode b ns = (r, ns')"
  shows "case r of Inl e \<Rightarrow> stands_at E tip ns' \<and> cc_rows (ns_chain ns') = cc_rows (ns_chain ns)
    | Inr _ \<Rightarrow> stands_at E (tip + 1) ns' \<and> cc_rows (ns_chain ns') = hm_insert (tip + 1) (to_storage_block (ne_crypto E) b) (cc_rows (ns_chain ns))"
proof -
  obtain ns1 where rec: "reconcile_if_dirty E ns = (Inr (), ns1)" and at1: "stands_at E tip ns1" and rows: "cc_rows (ns_chain ns1) = cc_rows (ns_chain ns)"
    using reconcile_consistent[of E ns tip] at unfolding stands_at_def by metis
  obtain q ns2 where chk: "persist_checks E mode b ns1 = (q, ns2)"
    by fastforce
  have c2: "ns_chain ns2 = ns_chain ns1"
    using persist_checks_frame[OF chk] .
  show ?thesis
  proof (cases q)
    case (Inl e)
    with run rec chk have "r = Inl e" "ns' = ns2"
      by (simp_all add: persist_validated_block_with_mode_def)
    with at1 rows c2 stands_at_cong[OF c2, of E tip] show ?thesis by simp
  next
    case (Inr u)
    let ?ns3 = "ns2\<lparr>ns_dirty := True\<rparr>"
    obtain p ns4 where proc: "process_transactions_batch E (transactions b)
        (case mode of RequireFull \<Rightarrow> BlockValidation | AllowTruncatedStored \<Rightarrow> ReceiptValidation) (index b) ?ns3 = (p, ns4)"
      by fastforce
    have at3: "stands_at E tip ?ns3"
      using at1 c2 by (simp add: stands_at_def)
    have b3: "attaches b tip ?ns3"
      using b rows c2 by (simp add: attaches_def)
    have ok: "fst (validate_block_internal (view_of E ns1) mode b (ns_signatures ns1)) = Inr ()"
      using persist_checks_ok chk Inr by simp
    have get: "get_block ns1 = get_block ?ns3"
      using c2 by (simp add: get_block_def[abs_def])
    note applied = applied_stands[OF at3 env ok get b3 proc]
    show ?thesis
    proof (cases p)
      case (Inl e)
      with run rec chk Inr proc have "ns' = ns4" "r = Inl e"
        by (auto simp: persist_validated_block_with_mode_def persist_body_def)
      with applied Inl at3 rows c2 show ?thesis
        using stands_at_cong[of ns4 ?ns3 E tip] by simp
    next
      case (Inr v)
      with run rec chk \<open>q = Inr u\<close> proc have "ns_chain ns' = ns_chain (write_chain_tip_metadata b (store_block E b (register_block b ns4)))" "r = Inr ()"
        by (auto simp: persist_validated_block_with_mode_def persist_body_def Let_def write_chain_tip_metadata_def store_block_def
            register_block_def set_chain_def evict_confirmed_def)
      moreover from this have "cc_rows (ns_chain ns') = hm_insert (index b) (to_storage_block (ne_crypto E) b) (cc_rows (ns_chain ns4))"
        by (simp add: write_chain_tip_metadata_def store_block_def register_block_def set_chain_def)
      ultimately show ?thesis
        using applied Inr b rows c2 stands_at_cong[of ns' "write_chain_tip_metadata b (store_block E b (register_block b ns4))" E "tip + 1"]
        by (simp add: attaches_def)
    qed
  qed
qed

lemma tip_row:
  assumes "stands_at E tip ns"
  obtains b where "hm_get (cc_rows (ns_chain ns)) tip = Some b" "index b = tip" "highest ns = Some tip" "get_last_block ns = Some b"
proof -
  obtain bs where k: "authentic (ne_crypto E) (ne_serialize E) (hm_get (cc_rows (ns_chain ns))) (tip + 1) = Inr bs"
    "length bs = tip + 1" "hm_get (cc_rows (ns_chain ns)) = chain_get bs" "highest_block_index (ns_chain ns) = Some tip"
    using assms consistent_chain unfolding stands_at_def by metis
  have "index (bs ! tip) = tip"
  proof -
    have "map index bs ! tip = [0..<tip + 1] ! tip"
      using load_chain_rows[OF k(1)] by metis
    with k(2) show ?thesis by (simp add: nth_append)
  qed
  with k that[of "bs ! tip"] show thesis
    by (simp add: chain_get_def highest_def get_last_block_def get_block_def)
qed

lemma try_children_stands:
  assumes "stands_at E tip ns" "ne_auto_rebuild E" "hex_faithful (ne_crypto E)" "tip + 1 < u32_max"
    and "hm_get (cc_rows (ns_chain ns)) tip = Some t" "index t = tip" "try_children E t cands ns = (attached, ns')"
  shows "stands_at E (if attached then tip + 1 else tip) ns' \<and> (\<forall>h \<le> tip. get_block ns' h = get_block ns h)"
  using assms
proof (induction cands arbitrary: ns)
  case (Cons b rest)
  show ?case
  proof (cases "index b \<noteq> u32_saturating_add (index t) 1 \<or> previous_hash b \<noteq> hash t")
    case True
    with Cons show ?thesis by auto
  next
    case False
    with Cons.prems(4-6) have att: "attaches b tip ns"
      by (auto simp: attaches_def u32_saturating_add_def)
    obtain r ns1 where p: "persist_validated_block_with_mode E RequireFull b ns = (r, ns1)"
      by fastforce
    note st = persist_stands[OF Cons.prems(1-4) att p]
    show ?thesis
    proof (cases r)
      case (Inl e)
      let ?ns2 = "ns1\<lparr>ns_orphans := remove_orphan_by_hash (hash b) (ns_orphans ns1)\<rparr>"
      have "try_children E t rest ?ns2 = (attached, ns')"
        using Cons.prems(7) False p Inl by (auto simp: persist_validated_block_def)
      moreover have "stands_at E tip ?ns2" "hm_get (cc_rows (ns_chain ?ns2)) tip = Some t"
        using st Inl Cons.prems(5) stands_at_cong[of ?ns2 ns1 E tip] by simp_all
      moreover have "get_block ?ns2 = get_block ns"
        using st Inl by (simp add: get_block_def[abs_def])
      ultimately show ?thesis
        using Cons.IH[of ?ns2] Cons.prems by metis
    next
      case (Inr u)
      with st Cons.prems(7) False p show ?thesis by (auto simp: persist_validated_block_def get_block_def hm_simps)
    qed
  qed
qed simp

lemma promote_rounds_stands:
  assumes "stands_at E tip ns" "ne_auto_rebuild E" "hex_faithful (ne_crypto E)" "tip + n < u32_max"
    and "promote_rounds n E k ns = (k', ns')"
  shows "\<exists>tip'. tip \<le> tip' \<and> tip' \<le> tip + n \<and> stands_at E tip' ns' \<and> (\<forall>h \<le> tip. get_block ns' h = get_block ns h)"
  using assms
proof (induction n arbitrary: tip ns k)
  case (Suc n)
  obtain b where b: "hm_get (cc_rows (ns_chain ns)) tip = Some b" "index b = tip" "get_last_block ns = Some b"
    using tip_row[OF Suc.prems(1)] by blast
  obtain attached ns1 where t: "try_children E b (orphan_children_of (pool_of (ns_orphans ns)) (hash b)) ns = (attached, ns1)"
    by fastforce
  have st: "stands_at E (if attached then tip + 1 else tip) ns1" and same: "\<forall>h \<le> tip. get_block ns1 h = get_block ns h"
    using try_children_stands[OF Suc.prems(1-3) _ b(1,2) t] Suc.prems(4) by simp_all
  show ?case
  proof (cases attached)
    case True
    with Suc.prems(5) b t have "promote_rounds n E (saturating_add k 1) ns1 = (k', ns')" by simp
    with Suc.IH[of "tip + 1" ns1] st True Suc.prems(2-4) obtain tip' where
      "tip + 1 \<le> tip'" "tip' \<le> tip + 1 + n" "stands_at E tip' ns'" "\<forall>h \<le> tip + 1. get_block ns' h = get_block ns1 h" by fastforce
    with same show ?thesis by (intro exI[of _ tip']) simp
  next
    case False
    with Suc.prems(5) b t st same show ?thesis by (auto intro: exI[of _ tip])
  qed
qed auto

lemma prune_orphans_frame: "ns_chain (prune_orphans E ns) = ns_chain ns"
  by (simp add: prune_orphans_def Let_def trusted_checkpoint_height_def split: option.splits)

lemma promote_stands:
  assumes "stands_at E tip ns" "ne_auto_rebuild E" "hex_faithful (ne_crypto E)" "tip + 256 < u32_max"
    and "promote_orphans_from_tip E ns = (k, ns')"
  shows "\<exists>tip'. tip \<le> tip' \<and> tip' \<le> tip + 256 \<and> stands_at E tip' ns' \<and> (\<forall>h \<le> tip. get_block ns' h = get_block ns h)"
proof -
  obtain k1 ns1 where p: "promote_rounds 256 E 0 ns = (k1, ns1)" by fastforce
  with assms(5) have "ns' = prune_orphans E ns1" by (simp add: promote_orphans_from_tip_def)
  then have "ns_chain ns' = ns_chain ns1" by (simp add: prune_orphans_frame)
  from stands_at_cong[OF this] chain_fields[OF this] promote_rounds_stands[OF assms(1-4) p] show ?thesis by simp
qed

lemma extends_attaches:
  assumes "stands_at E tip ns" "tip + 1 < u32_max" "extends_tip b ns = Inr ()"
  shows "attaches b tip ns"
proof -
  obtain t where "hm_get (cc_rows (ns_chain ns)) tip = Some t" "highest ns = Some tip"
    using tip_row[OF assms(1)] by blast
  with assms(2,3) show ?thesis
    by (auto simp: extends_tip_def attaches_def get_block_def guard_err_def u32_saturating_add_def split: if_splits)
qed

lemma finalize_stands:
  assumes at: "stands_at E tip ns" and env: "ne_auto_rebuild E" "hex_faithful (ne_crypto E)" "tip + 257 < u32_max"
    and run: "finalize_block E b ns = (r, ns')"
  shows "\<exists>tip'. tip \<le> tip' \<and> tip' \<le> tip + 257 \<and> stands_at E tip' ns' \<and> (\<forall>h \<le> tip. get_block ns' h = get_block ns h)
    \<and> (r = Inr () \<longrightarrow> get_block ns' (tip + 1) = Some (to_storage_block (ne_crypto E) b))"
proof -
  obtain ns1 where rec: "reconcile_if_dirty E ns = (Inr (), ns1)" and at1: "stands_at E tip ns1" and rows: "cc_rows (ns_chain ns1) = cc_rows (ns_chain ns)"
    using reconcile_consistent[of E ns tip] at unfolding stands_at_def by metis
  obtain q ns2 where v: "(case extends_tip b ns1 of Inl e \<Rightarrow> (Inl e, ns1) | Inr _ \<Rightarrow> validated E RequireFull b ns1) = (q, ns2)"
    by fastforce
  have c2: "ns_chain ns2 = ns_chain ns1"
    using v by (auto simp: validated_def split: sum.splits prod.splits)
  have at2: "stands_at E tip ns2"
    using at1 c2 stands_at_cong by blast
  obtain t where t: "marker (cc_index (ns_chain ns2)) = Some (get_latest_block_index (highest ns2))"
    using at2 consistent_chain unfolding stands_at_def by (metis get_latest_block_index_def highest_def option.simps(5))
  obtain conf where load: "load_balances E (map sender (filter (\<lambda>tx. \<not> is_coinbase tx) (transactions b))) [] ns2 = (Inr conf, ns2)"
    using load_balances_settled[OF t env(1)] by blast
  let ?ns3 = "ns2\<lparr>ns_dirty := True\<rparr>"
  obtain p ns4 where proc: "process_transactions_batch E (transactions b) BlockValidation (index b) ?ns3 = (p, ns4)"
    by fastforce
  let ?ns5 = "(register_block b (evict_confirmed b (write_chain_tip_metadata b (store_block E b ns4))))\<lparr>ns_dirty := False\<rparr>"
  have run': "(r, ns') = (case q of Inl e \<Rightarrow> (Inl e, ns2) | Inr _ \<Rightarrow>
      if block_has_replayed_tx (cc_registry (ns_chain ns2)) b then (Inl InvalidTransaction, ns2)
      else case finalize_gate conf (immature_rewards_by_recipient (get_block ns2) (transactions b) (index b)) (transactions b) [] of
        Inl e \<Rightarrow> (Inl e, ns2)
      | Inr _ \<Rightarrow> (case p of Inl e \<Rightarrow> (Inl e, ns4) | Inr _ \<Rightarrow> (Inr (), snd (promote_orphans_from_tip E ?ns5))))"
    unfolding run[symmetric] finalize_block_def rec prod.case sum.case v
    by (cases q; cases p) (simp_all add: load proc Let_def split: sum.split)
  have keep: ?thesis if "ns_chain ns' = ns_chain ns2" "r \<noteq> Inr ()"
    using that at2 c2 rows stands_at_cong[OF that(1), of E tip] by (auto simp: get_block_def intro: exI[of _ tip])
  show ?thesis
  proof (cases "r = Inr () \<or> ns_chain ns' \<noteq> ns_chain ns2")
    case False
    with keep show ?thesis by blast
  next
    case True
    with run' obtain u where q: "q = Inr u" by (cases q) auto
    then have ext: "extends_tip b ns1 = Inr ()" and ok: "fst (validate_block_internal (view_of E ns1) RequireFull b (ns_signatures ns1)) = Inr ()"
      using v by (auto simp: validated_def split: sum.splits prod.splits)
    have at3: "stands_at E tip ?ns3" and att: "attaches b tip ?ns3" and get: "get_block ns1 = get_block ?ns3"
      using at2 extends_attaches[OF at1 _ ext] env(3) c2 by (simp_all add: stands_at_def attaches_def get_block_def[abs_def])
    have d: "case p of Inl e \<Rightarrow> ns_chain ns4 = ns_chain ?ns3
        | Inr _ \<Rightarrow> stands_at E (tip + 1) (write_chain_tip_metadata b (store_block E b (register_block b ns4)))
            \<and> cc_rows (ns_chain ns4) = cc_rows (ns_chain ?ns3)"
      using applied_stands[OF at3 env(1,2) _ ok get att proc] env(3) by simp
    with True run' q obtain w where w: "p = Inr w" "r = Inr ()" "ns' = snd (promote_orphans_from_tip E ?ns5)"
      by (cases p) (auto split: if_splits sum.splits)
    have ch: "ns_chain ?ns5 = ns_chain (write_chain_tip_metadata b (store_block E b (register_block b ns4)))"
      by (cases "ns_chain ns4") (simp add: write_chain_tip_metadata_def store_block_def register_block_def set_chain_def evict_confirmed_def)
    with d w have at5: "stands_at E (tip + 1) ?ns5"
      by (simp add: stands_at_def)
    have "cc_rows (ns_chain ?ns5) = hm_insert (tip + 1) (to_storage_block (ne_crypto E) b) (cc_rows (ns_chain ns))"
      using ch d w rows c2 att by (simp add: write_chain_tip_metadata_def store_block_def register_block_def set_chain_def attaches_def)
    then have get5: "get_block ?ns5 h = (if h = tip + 1 then Some (to_storage_block (ne_crypto E) b) else get_block ns h)" for h
      unfolding get_block_def by (simp add: hm_simps)
    obtain tip' where "tip + 1 \<le> tip'" "tip' \<le> tip + 1 + 256" "stands_at E tip' ns'" "\<forall>h \<le> tip + 1. get_block ns' h = get_block ?ns5 h"
      using promote_stands[OF at5 env(1,2) _ prod.collapse[symmetric]] env(3) w(3) by auto
    with get5 show ?thesis by (intro exI[of _ tip']) auto
  qed
qed

end
