(* ===== verification/A9_Fork_Choice_Props.thy ===== *)
theory A9_Fork_Choice_Props
  imports A9_Fork_Choice A9_Balance_Index
begin

text \<open>
  Fork choice over chains given as lists: the verdict on an outside branch is a strict order on the
  competing suffixes, and the orphan scan tries exactly branches that this verdict adopts.
\<close>

section \<open>Work of a chain\<close>

definition total_work :: "block list \<Rightarrow> nat" where
  "total_work bs = sum_list (map (\<lambda>b. work_units_for_difficulty (difficulty b)) bs)"

definition heights_from :: "nat \<Rightarrow> block list \<Rightarrow> bool" where
  "heights_from n bs \<longleftrightarrow> (\<forall>i < length bs. index (bs ! i) = n + i)"

lemma work_of_loaded: "map get hs = map Some bs \<Longrightarrow> work_of_heights get hs w = Some (w + total_work bs)"
proof (induction hs arbitrary: bs w)
  case (Cons h hs)
  then obtain b bs' where "bs = b # bs'" "get h = Some b" "map get hs = map Some bs'" by (cases bs) auto
  with Cons.IH show ?case by (simp add: total_work_def)
qed (simp add: total_work_def)

lemma branch_work_fold: "fold (\<lambda>b acc. acc + work_units_for_difficulty (difficulty b)) bs w = w + total_work bs"
  by (induction bs arbitrary: w) (simp_all add: total_work_def)

lemma branch_work_all: "\<forall>b \<in> set bs. index b \<le> m \<Longrightarrow> branch_work_to_height bs m = total_work bs"
  by (simp add: branch_work_to_height_def branch_work_fold)

lemma chain_get_suffix: "map (chain_get (p @ a)) [length p..<length p + length a] = map Some a"
  by (rule nth_equalityI) (simp_all add: chain_get_def nth_append)

lemma canonical_work_suffix:
  assumes "a \<noteq> []"
  shows "canonical_work_range (chain_get (p @ a)) (length p) (length p + length a - 1) = Some (total_work a)"
proof -
  have "length p + length a - 1 + 1 = length p + length a" using assms by (cases a) auto
  with work_of_loaded[OF chain_get_suffix, of p a 0] assms show ?thesis
    by (cases a) (simp_all add: canonical_work_range_def)
qed

section \<open>The verdict as an order\<close>

text \<open>A node on \<open>p @ a\<close> that is offered the branch \<open>b\<close> after the common part \<open>p\<close>.\<close>

definition adopts :: "block list \<Rightarrow> block list \<Rightarrow> block list \<Rightarrow> bool" where
  "adopts p a b = external_branch_wins_fork_choice (chain_get (p @ a)) b (length p - 1) (length p + length a - 1)"

lemma adopts_iff:
  assumes "p \<noteq> []" "a \<noteq> []" "b \<noteq> []" and "heights_from (length p) b" and "length p \<le> u32_max"
  shows "adopts p a b \<longleftrightarrow> total_work a < total_work b
    \<or> (total_work a = total_work b \<and> length a = length b \<and> hash (last b) < hash (last a))"
proof -
  have anc: "u32_saturating_add (length p - 1) 1 = length p" using assms(1,5) by (cases p) (auto simp: u32_saturating_add_def)
  have len: "length b - 1 < length b" using assms(3) by simp
  have "index (last b) = length p + (length b - 1)"
    using assms(4) len unfolding heights_from_def last_conv_nth[OF assms(3)] by blast
  with len have idx: "index (last b) = length p + length b - 1" by linarith
  have "\<forall>x \<in> set b. index x \<le> index (last b)"
    using assms(4) idx by (fastforce simp: heights_from_def in_set_conv_nth)
  then have wb: "branch_work_to_height b (index (last b)) = total_work b" by (rule branch_work_all)
  have tip: "chain_get (p @ a) (length p + length a - 1) = Some (last a)"
    using assms(2) by (cases a) (auto simp: chain_get_def nth_append last_conv_nth)
  have same: "index (last b) = length p + length a - 1 \<longleftrightarrow> length a = length b"
    using assms(2,3) idx by (cases a; cases b) auto
  show ?thesis
    unfolding adopts_def external_branch_wins_fork_choice_def anc canonical_work_suffix[OF assms(2)] Let_def wb tip option.case
    using assms(3) same by auto
qed

section \<open>The orphan scan\<close>

definition linked :: "block list \<Rightarrow> bool" where
  "linked bs \<longleftrightarrow> (\<forall>i. Suc i < length bs \<longrightarrow> previous_hash (bs ! Suc i) = hash (bs ! i)
     \<and> index (bs ! Suc i) = u32_saturating_add (index (bs ! i)) 1)"

definition branch_ok :: "block \<Rightarrow> usize \<Rightarrow> block list \<Rightarrow> bool" where
  "branch_ok start depth br \<longleftrightarrow> br \<noteq> [] \<and> hd br = start \<and> linked br \<and> length br \<le> depth"

lemma linked_snoc:
  assumes "linked br" "br \<noteq> []" "c \<in> set (next_children pool (last br))"
  shows "linked (br @ [c])"
  using assms unfolding linked_def next_children_def
  by (auto simp: nth_append last_conv_nth less_Suc_eq) (metis One_nat_def diff_Suc_1 length_greater_0_conv Suc_diff_1)+

lemma collect_branches_ok:
  "\<forall>br \<in> set (finished @ stack). branch_ok start max_depth br
    \<Longrightarrow> br \<in> set (collect_branches pool max_depth m finished stack) \<Longrightarrow> branch_ok start max_depth br"
proof (induction pool max_depth m finished stack rule: collect_branches.induct)
  case (1 pool max_depth m finished)
  then show ?case by simp
next
  case (2 pool max_depth m finished branch stack)
  have b: "branch_ok start max_depth branch" "branch \<noteq> []" using "2.prems"(1) by (auto simp: branch_ok_def)
  let ?cs = "next_children pool (last branch)" and ?r = "saturating_sub m (length finished + length stack)"
  consider (deep) "length branch \<ge> max_depth \<or> ?cs = []" | (full) "length branch < max_depth" "?cs \<noteq> []" "?r = 0"
    | (push) "length branch < max_depth" "?cs \<noteq> []" "?r \<noteq> 0" by linarith
  then show ?case
  proof cases
    case deep
    then have "br \<in> set (collect_branches pool max_depth m (finished @ [branch]) stack)" using "2.prems"(2) b(2) by (auto split: if_splits)
    with deep b "2.IH"(2)[OF b(2)] "2.IH"(3)[OF b(2)] "2.prems"(1) show ?thesis by (cases "length branch \<ge> max_depth") auto
  next
    case full
    with "2.prems" b show ?thesis by auto
  next
    case push
    have new: "branch_ok start max_depth (branch @ [c])" if "c \<in> set ?cs" for c
      using b push(1) linked_snoc[OF _ b(2) that] by (auto simp: branch_ok_def hd_append)
    from push b(2) "2.prems"(2) have "br \<in> set (collect_branches pool max_depth m finished (map (\<lambda>c. branch @ [c]) (take ?r ?cs) @ stack))"
      by (simp add: Let_def)
    with "2.IH"(4)[OF b(2) _ refl push(2) refl push(3)] push(1) "2.prems"(1) new show ?thesis by (auto dest: in_set_takeD)
  qed
qed

lemma collected_ok:
  "1 \<le> max_depth \<Longrightarrow> br \<in> set (collect_orphan_branches_from pool start max_depth m) \<Longrightarrow> branch_ok start max_depth br"
  unfolding collect_orphan_branches_from_def
  by (rule collect_branches_ok[of "[]" "[[start]]"]) (auto simp: branch_ok_def linked_def)

text \<open>The memo holds the canonical work from each height up to the tip.\<close>

lemma work_of_interval:
  assumes "\<forall>h < b. get h = Some (blk h)"
  shows "work_of_heights get [a..<b] w = Some (w + (\<Sum>h = a..<b. work_units_for_difficulty (difficulty (blk h))))"
proof -
  have "map get [a..<b] = map Some (map blk [a..<b])" using assms by simp
  from work_of_loaded[OF this, of w] show ?thesis
    by (simp add: total_work_def comp_def sum_list_distinct_conv_sum_set)
qed

lemma canonical_suffix_memo:
  assumes "\<forall>x < h. get x = Some (blk x)" and "lo \<le> h"
  shows "\<exists>memo'. canonical_suffix get (rev [lo..<h]) run memo = Some memo' \<and> (\<forall>x. hm_get memo' x =
    (if lo \<le> x \<and> x < h then Some (run + (\<Sum>i = x..<h. work_units_for_difficulty (difficulty (blk i)))) else hm_get memo x))"
  using assms(2,1)
proof (induction h arbitrary: run memo rule: dec_induct)
  case base
  then show ?case by auto
next
  case (step h)
  let ?w = "work_units_for_difficulty (difficulty (blk h))"
  obtain memo' where m: "canonical_suffix get (rev [lo..<h]) (run + ?w) (hm_insert h (run + ?w) memo) = Some memo'"
    "\<forall>x. hm_get memo' x = (if lo \<le> x \<and> x < h then Some (run + ?w + (\<Sum>i = x..<h. work_units_for_difficulty (difficulty (blk i))))
       else hm_get (hm_insert h (run + ?w) memo) x)"
    using step.IH[of "run + ?w" "hm_insert h (run + ?w) memo"] step.prems by auto
  show ?case
    using m step by (intro exI[of _ memo']) (auto simp: hm_simps Let_def)
qed

lemma sort_by_set: "set (sort_by_cmp f xs) = set xs"
  using mset_sort_by[of f xs] by (metis set_mset_mset)

lemma insert_by_sorted:
  assumes tot: "\<And>x y. R x y \<or> R y x" and tr: "\<And>x y z. R x y \<Longrightarrow> R y z \<Longrightarrow> R x z" and c: "\<And>x y. cmp x y \<noteq> Greater \<longleftrightarrow> R x y"
  shows "sorted_wrt R xs \<Longrightarrow> sorted_wrt R (insert_by cmp x xs)"
proof (induction xs)
  case (Cons y ys)
  have set: "set (insert_by cmp x ys) = insert x (set ys)" using mset_insert_by[of cmp x ys] by (metis set_mset_add_mset_insert set_mset_mset)
  show ?case
  proof (cases "cmp x y = Greater")
    case True
    then have "R y x" using c tot by blast
    with True Cons set show ?thesis by auto
  next
    case False
    then have "R x y" using c by blast
    with False Cons.prems tr show ?thesis by auto
  qed
qed simp

lemma sort_by_sorted:
  assumes "\<And>x y. R x y \<or> R y x" "\<And>x y z. R x y \<Longrightarrow> R y z \<Longrightarrow> R x z" "\<And>x y. cmp x y \<noteq> Greater \<longleftrightarrow> R x y"
  shows "sorted_wrt R (sort_by_cmp cmp xs)"
  using insert_by_sorted[of R cmp, OF assms] by (induction xs) (simp_all add: sort_by_cmp_def)

text \<open>The rank: more surplus work first, then the lower tip hash.\<close>

definition rank_key :: "ranked_branch \<Rightarrow> int \<times> string" where
  "rank_key r = (int (rk_canonical r) - int (rk_work r), rk_hash r)"

definition rank_le :: "ranked_branch \<Rightarrow> ranked_branch \<Rightarrow> bool" where
  "rank_le a b \<longleftrightarrow> fst (rank_key a) < fst (rank_key b) \<or> (fst (rank_key a) = fst (rank_key b) \<and> snd (rank_key a) \<le> snd (rank_key b))"

lemma rank_cmp_le: "rank_cmp a b \<noteq> Greater \<longleftrightarrow> rank_le a b"
  by (auto simp: rank_cmp_def compare_work_delta_def cmp_of_def rank_le_def rank_key_def)

lemma ranked_sorted: "sorted_wrt rank_le (sort_by_cmp rank_cmp rs)"
  by (rule sort_by_sorted[OF _ _ rank_cmp_le]) (auto simp: rank_le_def)

section \<open>What the scan yields\<close>

lemma chain_tip: "bs \<noteq> [] \<Longrightarrow> heights_from 0 bs \<Longrightarrow> index (last bs) = length bs - 1 \<and> length bs - 1 + 1 = length bs"
  by (simp add: heights_from_def last_conv_nth)

lemma candidate_fork:
  assumes "bs \<noteq> []" "heights_from 0 bs" and "reorg_candidate (chain_get bs) (last bs) x"
  shows "index x \<le> length bs - 1" "0 < index x \<Longrightarrow> hash (bs ! (index x - 1)) = previous_hash x"
  using assms(3) chain_tip[OF assms(1,2)]
  by (auto simp: reorg_candidate_def chain_get_def saturating_sub_def split: if_splits)

lemma chain_work:
  assumes "bs \<noteq> []" "x \<le> length bs - 1"
  shows "canonical_work_range (chain_get bs) x (length bs - 1) = Some (\<Sum>i = x..<length bs. work_units_for_difficulty (difficulty (bs ! i)))"
proof -
  have "\<forall>h < length bs. chain_get bs h = Some (bs ! h)" by (simp add: chain_get_def)
  from work_of_interval[OF this, of x 0] assms show ?thesis by (simp add: canonical_work_range_def)
qed

lemma evaluated_ok:
  assumes "br \<in> set (evaluated_branches pool checkpoint cands)"
  shows "branch_ok (hd br) 1024 br \<and> hd br \<in> set cands \<and> checkpoint < index (hd br)"
  using assms collected_ok[of 1024 br pool] unfolding evaluated_branches_def ORPHAN_REORG_DEPTH_def
  by (auto dest!: in_set_takeD simp: branch_ok_def)

definition ranked_ok :: "block list \<Rightarrow> u32 \<Rightarrow> ranked_branch \<Rightarrow> bool" where
  "ranked_ok bs checkpoint r \<longleftrightarrow> (let br = rk_branch r; x = hd br in
     branch_ok x 1024 br \<and> checkpoint < index x \<and> index x \<le> length bs - 1 \<and> hash (bs ! (index x - 1)) = previous_hash x
     \<and> canonical_work_range (chain_get bs) (index x) (length bs - 1) = Some (rk_canonical r)
     \<and> rk_work r = branch_work_to_height br (index (last br)) \<and> rk_hash r = hash (last br)
     \<and> branch_eligible (last bs) br (rk_canonical r))"

lemma scored_ok:
  assumes bs: "bs \<noteq> []" "heights_from 0 bs"
    and memo: "\<forall>x. hm_get memo x = (if lo \<le> x \<and> x < length bs
      then Some (\<Sum>i = x..<length bs. work_units_for_difficulty (difficulty (bs ! i))) else None)"
    and cands: "\<forall>x \<in> set cands. reorg_candidate (chain_get bs) (last bs) x \<and> lo \<le> index x"
    and br: "br \<in> set (evaluated_branches pool checkpoint cands)"
    and el: "branch_eligible (last bs) br (rk_canonical (score_branch memo br))"
  shows "ranked_ok bs checkpoint (score_branch memo br)"
proof -
  have e: "branch_ok (hd br) 1024 br" "hd br \<in> set cands" "checkpoint < index (hd br)" using evaluated_ok[OF br] by auto
  note f = candidate_fork[OF bs, of "hd br"]
  have "lo \<le> index (hd br) \<and> index (hd br) < length bs" using cands e(2) f(1) bs(1) by (cases bs) auto
  with e f cands memo el chain_work[OF bs(1) f(1)] show ?thesis by (auto simp: ranked_ok_def score_branch_def Let_def)
qed

lemma reorg_attempts_ranked:
  fixes bs :: "block list" and pool :: orphan_pool
  assumes bs: "bs \<noteq> []" "heights_from 0 bs"
  shows "\<exists>rs. reorg_attempts (chain_get bs) pool checkpoint (last bs) = Some (map rk_branch rs) \<and> length rs \<le> 16
    \<and> sorted_wrt rank_le rs \<and> (\<forall>r \<in> set rs. ranked_ok bs checkpoint r)"
proof -
  define cands where "cands = sort_by_cmp candidate_order (filter (reorg_candidate (chain_get bs) (last bs)) (hm_values (orphan_blocks pool)))"
  have cand: "\<forall>x \<in> set cands. reorg_candidate (chain_get bs) (last bs) x" by (simp add: cands_def sort_by_set)
  show ?thesis
  proof (cases "cands = []")
    case True
    then show ?thesis by (auto simp: reorg_attempts_def Let_def cands_def)
  next
    case False
    let ?lo = "Min (index ` set cands)"
    have lo: "\<forall>x \<in> set cands. ?lo \<le> index x" by simp
    have mem: "last cands \<in> set cands" using False by simp
    have "?lo \<le> index (last cands)" using lo mem by blast
    also have "\<dots> \<le> length bs - 1" using candidate_fork(1)[OF bs] cand mem by blast
    finally have le: "?lo \<le> length bs" by simp
    have get: "\<forall>h < length bs. chain_get bs h = Some (bs ! h)" by (simp add: chain_get_def)
    obtain memo where memo: "canonical_suffix (chain_get bs) (rev [?lo..<length bs]) 0 [] = Some memo"
      "\<forall>x. hm_get memo x = (if ?lo \<le> x \<and> x < length bs
        then Some (\<Sum>i = x..<length bs. work_units_for_difficulty (difficulty (bs ! i))) else None)"
      using canonical_suffix_memo[OF get le, of 0 "[]"] by (auto simp: hm_simps)
    define rs where "rs = take MAX_REORG_ADOPT_ATTEMPTS (sort_by_cmp rank_cmp
      (filter (\<lambda>r. branch_eligible (last bs) (rk_branch r) (rk_canonical r))
        (map (score_branch memo) (evaluated_branches pool checkpoint cands))))"
    have "reorg_attempts (chain_get bs) pool checkpoint (last bs) = Some (map rk_branch rs)"
      using False memo(1) chain_tip[OF bs] unfolding reorg_attempts_def cands_def[symmetric] Let_def by (simp add: rs_def)
    moreover have "ranked_ok bs checkpoint r" if "r \<in> set rs" for r
    proof -
      from in_set_takeD[OF that[unfolded rs_def]] obtain br where br: "br \<in> set (evaluated_branches pool checkpoint cands)" "r = score_branch memo br"
        "branch_eligible (last bs) br (rk_canonical (score_branch memo br))"
        by (auto simp: sort_by_set score_branch_def)
      have "\<forall>x \<in> set cands. reorg_candidate (chain_get bs) (last bs) x \<and> ?lo \<le> index x" using cand lo by blast
      from scored_ok[OF bs memo(2) this br(1,3)] br(2) show ?thesis by simp
    qed
    moreover have "sorted_wrt rank_le rs" unfolding rs_def by (intro sorted_wrt_take ranked_sorted)
    ultimately show ?thesis by (intro exI[of _ rs]) (simp add: rs_def MAX_REORG_ADOPT_ATTEMPTS_def)
  qed
qed

lemma ranked_wins:
  assumes bs: "bs \<noteq> []" "heights_from 0 bs" "length bs \<le> u32_max" and r: "ranked_ok bs checkpoint r"
  shows "external_branch_wins_fork_choice (chain_get bs) (rk_branch r) (index (hd (rk_branch r)) - 1) (length bs - 1)"
proof -
  let ?x = "hd (rk_branch r)"
  have x: "checkpoint < index ?x" "index ?x \<le> length bs - 1" "rk_branch r \<noteq> []"
    "canonical_work_range (chain_get bs) (index ?x) (length bs - 1) = Some (rk_canonical r)"
    "branch_eligible (last bs) (rk_branch r) (rk_canonical r)"
    using r by (auto simp: ranked_ok_def Let_def branch_ok_def)
  have anc: "u32_saturating_add (index ?x - 1) 1 = index ?x" using x(1,2) bs(3) by (auto simp: u32_saturating_add_def)
  have tip: "chain_get bs (length bs - 1) = Some (last bs)" using bs(1) by (simp add: chain_get_def last_conv_nth)
  show ?thesis
    unfolding external_branch_wins_fork_choice_def anc x(4) tip using x(3,5) chain_tip[OF bs(1,2)]
    by (auto simp: branch_eligible_def Let_def split: if_splits)
qed

section \<open>Theorems\<close>

text \<open>C40. Nodes on competing forks converge: between suffixes of a common chain the verdict of
  \<open>external_branch_wins_fork_choice\<close> is a strict order.  Two nodes never adopt each other's branch,
  a node never comes back to a branch it left through others, and when the work differs, or the
  tips have one height and different hashes, one of the two nodes adopts the other's branch.\<close>

theorem fork_choice_converges:
  assumes "p \<noteq> []" "length p \<le> u32_max" and "a \<noteq> []" "b \<noteq> []" "c \<noteq> []"
    and "heights_from (length p) a" "heights_from (length p) b" "heights_from (length p) c"
  shows "\<not> (adopts p a b \<and> adopts p b a)
    \<and> (adopts p a b \<and> adopts p b c \<longrightarrow> adopts p a c)
    \<and> (total_work a \<noteq> total_work b \<or> (length a = length b \<and> hash (last a) \<noteq> hash (last b)) \<longrightarrow> adopts p a b \<or> adopts p b a)"
  using assms by (auto simp: adopts_iff)

definition sized_block :: "u32 \<Rightarrow> u64 \<Rightarrow> string \<Rightarrow> block" where
  "sized_block i d h = \<lparr>index = i, previous_hash = zero_hash, block_timestamp = 0, transactions = [], nonce = 0, difficulty = d,
     hash = h, merkle_root = zero_hash\<rparr>"

theorem fork_choice_converges_witness:
  "adopts [sized_block 0 464 ''g''] [sized_block 1 464 ''b''] [sized_block 1 464 ''a'']
    \<and> \<not> adopts [sized_block 0 464 ''g''] [sized_block 1 464 ''a''] [sized_block 1 464 ''b'']"
proof -
  let ?p = "[sized_block 0 464 ''g'']" and ?a = "[sized_block 1 464 ''a'']" and ?b = "[sized_block 1 464 ''b'']"
  have h: "heights_from (length ?p) ?a" "heights_from (length ?p) ?b" by (simp_all add: heights_from_def sized_block_def)
  have l: "length ?p \<le> u32_max" by (simp add: u32_max_def)
  have "adopts ?p ?b ?a"
    using h l by (subst adopts_iff) (simp_all add: total_work_def sized_block_def less_char_def)
  with fork_choice_converges[OF _ l _ _ _ h(1,2,1)] show ?thesis by simp
qed

text \<open>C20. The orphan scan agrees with the verdict on outside branches and tries the best first: on a
  readable chain it yields at most sixteen branches; each forks above the checkpoint from the
  canonical block below it, is linked by hash and height, is at most as deep as the limit, and
  wins the fork choice against the current tip; they come in the order of their surplus of work,
  and with equal surplus in the order of their tip hashes.\<close>

theorem reorg_attempts_sound:
  fixes bs :: "block list" and pool :: orphan_pool
  assumes bs: "bs \<noteq> []" "heights_from 0 bs" "length bs \<le> u32_max"
  defines "tip \<equiv> length bs - 1" and "surplus \<equiv> (\<lambda>br. int (branch_work_to_height br (index (last br)))
    - int (the (canonical_work_range (chain_get bs) (index (hd br)) (length bs - 1))))"
  shows "\<exists>brs. reorg_attempts (chain_get bs) pool checkpoint (last bs) = Some brs \<and> length brs \<le> 16
    \<and> (\<forall>br \<in> set brs. br \<noteq> [] \<and> checkpoint < index (hd br) \<and> index (hd br) \<le> tip
        \<and> hash (bs ! (index (hd br) - 1)) = previous_hash (hd br) \<and> linked br \<and> length br \<le> 1024
        \<and> external_branch_wins_fork_choice (chain_get bs) br (index (hd br) - 1) tip)
    \<and> sorted_wrt (\<lambda>x y. surplus y < surplus x \<or> (surplus y = surplus x \<and> hash (last x) \<le> hash (last y))) brs"
proof -
  obtain rs where rs: "reorg_attempts (chain_get bs) pool checkpoint (last bs) = Some (map rk_branch rs)" "length rs \<le> 16"
    "sorted_wrt rank_le rs" "\<forall>r \<in> set rs. ranked_ok bs checkpoint r"
    using reorg_attempts_ranked[OF bs(1,2)] by blast
  have "surplus (rk_branch r) = - fst (rank_key r) \<and> hash (last (rk_branch r)) = snd (rank_key r)" if "r \<in> set rs" for r
    using rs(4) that by (auto simp: surplus_def rank_key_def ranked_ok_def Let_def)
  then have "sorted_wrt (\<lambda>x y. surplus y < surplus x \<or> (surplus y = surplus x \<and> hash (last x) \<le> hash (last y))) (map rk_branch rs)"
    unfolding sorted_wrt_map by (intro sorted_wrt_mono_rel[OF _ rs(3)]) (auto simp: rank_le_def)
  then show ?thesis
    using rs ranked_wins[OF bs] unfolding tip_def by (intro exI[of _ "map rk_branch rs"]) (auto simp: ranked_ok_def Let_def branch_ok_def)
qed

definition fork_chain :: "block list" where
  "fork_chain = [sized_block 0 464 ''g'', (sized_block 1 464 ''b'')\<lparr>previous_hash := ''g''\<rparr>]"

definition fork_orphan :: block where
  "fork_orphan = (sized_block 1 464 ''a'')\<lparr>previous_hash := ''g''\<rparr>"

definition fork_pool :: orphan_pool where
  "fork_pool = \<lparr>orphan_blocks = [(''a'', fork_orphan)], orphan_index = [(''g'', 1, ''a'')]\<rparr>"

theorem reorg_attempts_sound_witness:
  "reorg_attempts (chain_get fork_chain) fork_pool 0 (last fork_chain) = Some [[fork_orphan]]
    \<and> external_branch_wins_fork_choice (chain_get fork_chain) [fork_orphan] 0 1"
proof -
  have h: "fork_chain \<noteq> []" "heights_from 0 fork_chain" "length fork_chain \<le> u32_max"
    by (auto simp: fork_chain_def heights_from_def sized_block_def u32_max_def less_Suc_eq)
  have f: "index fork_orphan = 1" "previous_hash fork_orphan = ''g''" "hash fork_orphan = ''a''" "difficulty fork_orphan = 464"
    by (simp_all add: fork_orphan_def sized_block_def)
  have cand: "reorg_candidate (chain_get fork_chain) (last fork_chain) fork_orphan"
    by (simp add: reorg_candidate_def f fork_chain_def sized_block_def chain_get_def saturating_sub_def)
  have "next_children fork_pool fork_orphan = []"
    by (simp add: next_children_def orphan_children_of_def fork_pool_def f sort_by_cmp_def map_filter_def)
  then have coll: "collect_orphan_branches_from fork_pool fork_orphan d m = [[fork_orphan]]" for d m
    by (simp add: collect_orphan_branches_from_def)
  have cands: "sort_by_cmp candidate_order (filter (reorg_candidate (chain_get fork_chain) (last fork_chain))
      (hm_values (orphan_blocks fork_pool))) = [fork_orphan]"
    using cand by (simp add: fork_pool_def hm_values_def sort_by_cmp_def)
  have ev: "evaluated_branches fork_pool 0 [fork_orphan] = [[fork_orphan]]"
    by (simp add: evaluated_branches_def f coll MAX_REORG_BRANCHES_EVALUATED_def)
  have tip: "index (last fork_chain) = 1" by (simp add: fork_chain_def sized_block_def)
  have "chain_get fork_chain 1 = Some (last fork_chain)" "difficulty (last fork_chain) = 464"
    by (simp_all add: fork_chain_def sized_block_def chain_get_def)
  then have suffix: "canonical_suffix (chain_get fork_chain) (rev [Min (index ` set [fork_orphan])..<index (last fork_chain) + 1]) 0 []
      = Some [(1, work_units_for_difficulty 464)]"
    by (simp add: tip f hm_insert_def)
  have score: "score_branch [(1, work_units_for_difficulty 464)] [fork_orphan]
      = \<lparr>rk_branch = [fork_orphan], rk_work = work_units_for_difficulty 464, rk_canonical = work_units_for_difficulty 464, rk_hash = ''a''\<rparr>"
    by (simp add: score_branch_def f branch_work_to_height_def hm_get_def)
  have el: "branch_eligible (last fork_chain) [fork_orphan] (work_units_for_difficulty 464)"
    by (simp add: branch_eligible_def branch_work_to_height_def f fork_chain_def sized_block_def less_char_def)
  have att: "reorg_attempts (chain_get fork_chain) fork_pool 0 (last fork_chain) = Some [[fork_orphan]]"
    unfolding reorg_attempts_def cands suffix Let_def ev option.case
    by (simp add: score[unfolded One_nat_def] el sort_by_cmp_def MAX_REORG_ADOPT_ATTEMPTS_def)
  with reorg_attempts_sound[OF h, of fork_pool 0] have "external_branch_wins_fork_choice (chain_get fork_chain) [fork_orphan]
      (index fork_orphan - 1) (length fork_chain - 1)" by simp
  then have "external_branch_wins_fork_choice (chain_get fork_chain) [fork_orphan] 0 1" by (simp add: f) (simp add: fork_chain_def)
  with att show ?thesis by simp
qed

end
