(* ===== verification/A9_Reorg_Props.thy ===== *)
theory A9_Reorg_Props
  imports A9_Reorg A9_Tip_Props A9_Fork_Choice_Props
begin

text \<open>
  An adopted branch leaves a consistent chain: its stored blocks authenticate on the rows below the fork,
  the index is taken back to the fork and caught up, and the registry follows when the time of
  the tip does not go back.
\<close>

section \<open>Branches\<close>

text \<open>A branch of the pool that leaves the canonical chain \<open>bs\<close> above its first block.\<close>

definition forks_from :: "block list \<Rightarrow> (string, block) hmap \<Rightarrow> block list \<Rightarrow> bool" where
  "forks_from bs pool branch \<longleftrightarrow> branch \<noteq> [] \<and> 0 < index (hd branch) \<and> index (hd branch) < length bs
     \<and> previous_hash (hd branch) = hash (bs ! (index (hd branch) - 1)) \<and> linked branch
     \<and> index (hd branch) + length branch \<le> u32_max \<and> (\<forall>b \<in> set branch. hm_get pool (hash b) = Some b)"

text \<open>Two blocks with the same header hash and different times.\<close>

definition header_collision :: "crypto \<Rightarrow> block list \<Rightarrow> block list \<Rightarrow> bool" where
  "header_collision c bs branch \<longleftrightarrow>
     (\<exists>z \<in> set bs. \<exists>y \<in> set branch. calculate_hash_for_block c z = calculate_hash_for_block c y \<and> block_timestamp z \<noteq> block_timestamp y)"

lemma linked_heights:
  assumes "linked branch" "branch \<noteq> []" "index (hd branch) + length branch \<le> u32_max"
  shows "i < length branch \<Longrightarrow> index (branch ! i) = index (hd branch) + i"
proof (induction i)
  case 0
  with assms show ?case by (simp add: hd_conv_nth)
next
  case (Suc i)
  then have "index (branch ! Suc i) = u32_saturating_add (index (branch ! i)) 1"
    using assms(1) by (simp add: linked_def)
  with Suc assms(3) show ?case by (simp add: u32_saturating_add_def)
qed

lemma validate_branch_ok:
  assumes "validate_branch E branch ns = (True, ns')"
  shows "(\<forall>b \<in> set branch. \<exists>cache. fst (validate_block_internal (view_of E ns) AllowTruncatedStored b cache) = Inr ())
    \<and> (\<exists>cache. ns' = ns\<lparr>ns_signatures := cache\<rparr>)"
  using assms
proof (induction branch arbitrary: ns)
  case Nil
  then show ?case by (auto intro: exI[of _ "ns_signatures ns'"])
next
  case (Cons b rest)
  obtain r cache where v: "validate_block_internal (view_of E ns) AllowTruncatedStored b (ns_signatures ns) = (r, cache)" by fastforce
  with Cons.prems have r: "r = Inr ()" "validate_branch E rest (ns\<lparr>ns_signatures := cache\<rparr>) = (True, ns')"
    by (cases r; simp add: validated_def)+
  have "view_of E (ns\<lparr>ns_signatures := cache\<rparr>) = view_of E ns"
    by (simp add: view_of_def get_block_def[abs_def])
  with Cons.IH[OF r(2)] v r(1) show ?case by (auto intro: exI[of _ "ns_signatures ns"])
qed

lemma accepted_hash: "fst (validate_block_internal cv mode b cache) = Inr () \<Longrightarrow> calculate_hash_for_block (cv_crypto cv) b = hash b"
  using accepted_head[of cv mode b cache] by (auto simp: validate_block_head_def validate_header_def result_simps guard_err_def split: if_splits)

lemma authentic_hash:
  assumes "authentic c ser get n = Inr bs" "i < n"
  shows "calculate_hash_for_block c (bs ! i) = hash (bs ! i)"
proof -
  have "\<forall>b \<in> set xs. calculate_hash_for_block c b = hash b"
    if "load_chain (load_structurally_valid_canonical_block c ser get) hs prev = Inr xs" for hs prev xs
    using that by (induction hs arbitrary: prev xs)
      (auto simp: result_simps load_structurally_valid_canonical_block_def guard_err_def split: if_splits option.splits)
  with assms authentic_length[OF assms(1)] show ?thesis by (metis nth_mem)
qed

text \<open>A branch block is not older than its predecessor.\<close>

lemma branch_times:
  assumes au: "authentic c ser (cv_get_block cv) (length bs) = Inr bs" and cv: "cv_get_block cv = chain_get bs" "cv_crypto cv = c" "cv_orphans cv = pool"
    and fk: "forks_from bs pool branch" and ok: "\<forall>b \<in> set branch. \<exists>cache. fst (validate_block_internal cv mode b cache) = Inr ()"
    and no: "\<not> header_collision c bs branch" and i: "Suc i < length branch"
  shows "block_timestamp (branch ! i) \<le> block_timestamp (branch ! Suc i)"
proof -
  let ?y = "branch ! i" and ?b = "branch ! Suc i"
  have ix: "index ?b = index (hd branch) + Suc i" and prev: "previous_hash ?b = hash ?y"
    using fk i linked_heights[of branch "Suc i"] by (auto simp: forks_from_def linked_def)
  obtain k where "fst (validate_block_internal cv mode ?b k) = Inr ()"
    using ok i by (meson nth_mem)
  then have "validate_linkage cv ?b = Inr ()"
    using accepted_head by (fastforce simp: validate_block_head_def result_simps)
  then obtain p where p: "get_parent_block_for cv ?b = Some p" "hash p = previous_hash ?b" "block_timestamp p \<le> block_timestamp ?b"
    using ix by (auto simp: validate_linkage_def validate_parent_timestamp_def result_simps guard_err_def split: if_splits option.splits)
  have "block_timestamp p = block_timestamp ?y"
  proof (cases "\<exists>j < length bs. p = bs ! j")
    case True
    then obtain j where j: "j < length bs" "p = bs ! j" by blast
    obtain k' where "fst (validate_block_internal cv mode ?y k') = Inr ()"
      using ok i by (meson Suc_lessD nth_mem)
    then have "calculate_hash_for_block c ?y = hash ?y"
      using accepted_hash cv(2) by blast
    moreover have "calculate_hash_for_block c p = hash p"
      using authentic_hash[OF au j(1)] j(2) by simp
    ultimately show ?thesis
      using no p(2) prev i j by (force simp: header_collision_def)
  next
    case False
    then have "hm_get pool (previous_hash ?b) = Some p"
      using p(1) ix cv by (auto simp: get_parent_block_for_def chain_get_def split: option.splits if_splits)
    moreover have "hm_get pool (hash ?y) = Some ?y"
      using fk i by (simp add: forks_from_def)
    ultimately show ?thesis using prev by simp
  qed
  with p(3) show ?thesis by simp
qed

section \<open>The rewritten rows\<close>

lemma get_fold_branch:
  assumes "\<forall>i < length branch. index (branch ! i) = k + i"
  shows "hm_get (fold (\<lambda>b. hm_insert (index b) (f b)) branch rows) h =
    (if k \<le> h \<and> h < k + length branch then Some (f (branch ! (h - k))) else hm_get rows h)"
  using assms
proof (induction branch rule: rev_induct)
  case (snoc b bs)
  have "\<forall>i < length bs. index (bs ! i) = k + i" "index b = k + length bs"
    using snoc.prems by (auto simp: nth_append dest: spec[of _ "length bs"]) (metis less_SucI)
  with snoc.IH show ?case by (auto simp: hm_simps nth_append)
qed auto

lemma get_fold_remove: "hm_get (fold hm_remove ks m) k = (if k \<in> set ks then None else hm_get m k)"
  by (induction ks arbitrary: m) (auto simp: hm_simps)

lemma get_slot_batch:
  assumes fk: "forks_from bs pool branch" and rows: "hm_get rows = chain_get bs" and tip: "index tip + 1 = length bs"
  shows "hm_get (slot_batch c branch tip rows) = chain_get (take (index (hd branch)) bs @ map (to_storage_block c) branch)"
proof
  fix h
  let ?k = "index (hd branch)"
  have ix: "\<forall>i < length branch. index (branch ! i) = ?k + i"
    using fk linked_heights[of branch] by (simp add: forks_from_def)
  have ne: "branch \<noteq> []" "?k < length bs" "?k + length branch \<le> u32_max"
    using fk by (auto simp: forks_from_def)
  have "index (last branch) = ?k + (length branch - 1)"
    using ix ne(1) by (simp add: last_conv_nth)
  moreover have "0 < length branch" using ne(1) by simp
  ultimately have up: "u32_saturating_add (index (last branch)) 1 = ?k + length branch"
    using ne(3) by (simp add: u32_saturating_add_def)
  show "hm_get (slot_batch c branch tip rows) h = chain_get (take ?k bs @ map (to_storage_block c) branch) h"
    unfolding slot_batch_def get_fold_remove get_fold_branch[OF ix] up using ne tip
    by (auto simp: rows chain_get_def nth_append)
qed

lemma authentic_branch:
  assumes "authentic c ser get n = Inr xs" "0 < n"
    and "\<forall>i < length ys. load_structurally_valid_canonical_block c ser get (n + i) (Some ((xs @ ys) ! (n + i - 1))) = Inr (ys ! i)"
  shows "authentic c ser get (n + length ys) = Inr (xs @ ys)"
  using assms(3)
proof (induction ys rule: rev_induct)
  case Nil
  show ?case using assms(1) by simp
next
  case (snoc y ys)
  have len: "length xs = n" using authentic_length[OF assms(1)] .
  have "\<forall>i < length ys. load_structurally_valid_canonical_block c ser get (n + i) (Some ((xs @ ys) ! (n + i - 1))) = Inr (ys ! i)"
    using snoc.prems len assms(2) by (auto simp: nth_append less_SucI split: if_splits)
  then have au: "authentic c ser get (n + length ys) = Inr (xs @ ys)"
    by (rule snoc.IH)
  have "(xs @ ys @ [y]) ! (n + length ys - 1) = last (xs @ ys)"
    using len assms(2) by (cases ys rule: rev_cases; cases xs rule: rev_cases) (auto simp: nth_append)
  then have "load_structurally_valid_canonical_block c ser get (n + length ys) (Some (last (xs @ ys))) = Inr y"
    using snoc.prems by (auto dest: spec[of _ "length ys"])
  from authentic_snoc[OF au _ _ this] assms(2) show ?case by simp
qed

lemma adopted_authentic:
  assumes au: "authentic c ser (chain_get bs) (length bs) = Inr bs" and cv: "cv_get_block cv = chain_get bs" "cv_crypto cv = c" "cv_serialize cv = ser" "cv_orphans cv = pool"
    and hx: "hex_faithful c" and fk: "forks_from bs pool branch"
    and ok: "\<forall>b \<in> set branch. \<exists>cache. fst (validate_block_internal cv mode b cache) = Inr ()" and no: "\<not> header_collision c bs branch"
  shows "authentic c ser (chain_get (take (index (hd branch)) bs @ map (to_storage_block c) branch)) (index (hd branch) + length branch)
    = Inr (take (index (hd branch)) bs @ map (to_storage_block c) branch)"
proof -
  let ?k = "index (hd branch)" and ?ys = "map (to_storage_block c) branch"
  let ?xs = "take ?k bs" and ?get = "chain_get (take (index (hd branch)) bs @ map (to_storage_block c) branch)"
  have k: "0 < ?k" "?k < length bs" "branch \<noteq> []" using fk by (auto simp: forks_from_def)
  have ix: "index (branch ! i) = ?k + i" if "i < length branch" for i
    using fk linked_heights[of branch i] that by (simp add: forks_from_def)
  have "authentic c ser ?get ?k = authentic c ser (chain_get bs) ?k"
    using k by (intro load_chain_cong) (auto simp: chain_get_def nth_append)
  then have pre: "authentic c ser ?get ?k = Inr ?xs"
    using authentic_take[OF au, of ?k] k by simp
  have step: "load_structurally_valid_canonical_block c ser ?get (?k + i) (Some ((?xs @ ?ys) ! (?k + i - 1))) = Inr (?ys ! i)"
    if i: "i < length ?ys" for i
  proof -
    let ?b = "branch ! i" and ?p = "(?xs @ ?ys) ! (?k + i - 1)"
    obtain cache where v: "fst (validate_block_internal cv mode ?b cache) = Inr ()"
      using ok i by (metis length_map nth_mem)
    have "previous_hash ?b = hash ?p \<and> block_timestamp ?p \<le> block_timestamp ?b"
    proof (cases i)
      case 0
      have p: "?p = bs ! (?k - 1)" using 0 k by (simp add: nth_append)
      have b: "?b = hd branch" using 0 k(3) by (simp add: hd_conv_nth)
      have ph: "previous_hash (hd branch) = hash (bs ! (?k - 1))" using fk by (simp add: forks_from_def)
      have "?k - 1 < length bs" using k by simp
      then have "get_parent_block_for cv (hd branch) = Some (bs ! (?k - 1))"
        using k ph cv(1) by (simp add: get_parent_block_for_def chain_get_def saturating_sub_def)
      moreover have "validate_linkage cv (hd branch) = Inr ()"
        using accepted_head[OF v] b by (auto simp: validate_block_head_def result_simps)
      ultimately have "block_timestamp (bs ! (?k - 1)) \<le> block_timestamp (hd branch)"
        using k by (auto simp: validate_linkage_def validate_parent_timestamp_def result_simps guard_err_def split: if_splits)
      with p b ph show ?thesis by simp
    next
      case (Suc j)
      then have "?p = to_storage_block c (branch ! j)"
        using i k by (auto simp: nth_append)
      moreover have "previous_hash ?b = hash (branch ! j)"
        using fk Suc i by (simp add: forks_from_def linked_def)
      moreover have "block_timestamp (branch ! j) \<le> block_timestamp ?b"
        using branch_times[of c ser cv bs pool branch mode j] au cv fk ok no Suc i by simp
      ultimately show ?thesis by simp
    qed
    moreover have "?get (index ?b) = Some (to_storage_block c ?b)"
      using ix[of i] i k by (simp add: chain_get_def nth_append)
    ultimately show ?thesis
      using accepted_loads_after[OF v cv(2,3) hx, of ?p ?get] ix[of i] i by simp
  qed
  from authentic_branch[OF pre k(1), of ?ys] step show ?thesis by simp
qed

section \<open>The balances after an adoption\<close>

definition keyed_by :: "string set \<Rightarrow> balances \<Rightarrow> bool" where
  "keyed_by A m \<longleftrightarrow> hm_wf m \<and> (\<forall>a. hm_contains m a \<longleftrightarrow> a \<in> A)"

lemma keyed_by_credit: "keyed_by A m \<Longrightarrow> a \<in> A \<Longrightarrow> keyed_by A (credit a x m)"
  by (auto simp: keyed_by_def wf_credit hm_contains_credit)

lemma keyed_by_revert: "keyed_by A m \<Longrightarrow> set (touched_by txs) \<subseteq> A \<Longrightarrow> keyed_by A (replay_revert_block txs m)"
  unfolding replay_revert_block_def
proof (induction txs arbitrary: m)
  case (Cons tx txs)
  have sub: "set (touched_by txs) \<subseteq> A" "recipient tx \<in> A" "\<not> is_coinbase tx \<Longrightarrow> sender tx \<in> A"
    using Cons.prems(2) by (auto simp: touched_by_Cons split: if_splits)
  have "keyed_by A (revert_tx tx m)"
    using Cons.prems(1) sub by (auto simp: revert_tx_def intro!: keyed_by_credit)
  with Cons.IH sub show ?case by simp
qed simp

lemma keyed_by_fork_state:
  assumes "balances_at_fork_state get t mk fork tip branch = Some (m, r)" "load_blocks get [fork..<tip + 1] = Some old"
  shows "keyed_by (\<Union>b \<in> set (old @ branch). set (touched_by (transactions b))) m"
proof -
  let ?A = "\<Union>b \<in> set (old @ branch). set (touched_by (transactions b))"
  define touched where "touched = remdups (concat (map (\<lambda>b. touched_by (transactions b)) (old @ branch)))"
  have m: "m = fold (\<lambda>b. replay_revert_block (transactions b)) old (map (\<lambda>a. (a, bal t a)) touched)"
    using assms by (auto simp: balances_at_fork_state_def Let_def touched_def simp del: upt_Suc split: if_splits option.splits)
  have "keyed_by ?A (map (\<lambda>a. (a, bal t a)) touched)"
    by (auto simp: keyed_by_def hm_wf_def comp_def touched_def hm_contains_def hm_get_def map_of_map_restrict restrict_map_def split: if_splits)
  moreover have "keyed_by ?A m0 \<Longrightarrow> set bs \<subseteq> set old \<Longrightarrow> keyed_by ?A (fold (\<lambda>b. replay_revert_block (transactions b)) bs m0)" for bs m0
  proof (induction bs arbitrary: m0)
    case (Cons b bs)
    then have "keyed_by ?A (replay_revert_block (transactions b) m0)"
      by (intro keyed_by_revert) auto
    with Cons show ?case by simp
  qed simp
  ultimately show ?thesis unfolding m by blast
qed

lemma fork_written:
  assumes "keyed_by A m" "\<forall>a \<in> A. bal m a = g a" "\<forall>a. a \<notin> A \<longrightarrow> bal t a = g a"
  shows "bal (fold (\<lambda>(a, v). hm_insert a v) m t) a = g a"
proof -
  have "hm_get (fold (\<lambda>(a, v). hm_insert a v) m t) a = (case hm_get m a of Some v \<Rightarrow> Some v | None \<Rightarrow> hm_get t a)"
    using assms(1) hm_get_fold_insert[of m t a] by (simp add: keyed_by_def split: option.splits)
  moreover have "a \<in> A \<longleftrightarrow> hm_get m a \<noteq> None"
    using assms(1) by (simp add: keyed_by_def hm_contains_def)
  ultimately show ?thesis
    using assms(2)[rule_format, of a] assms(3)[rule_format, of a] by (cases "hm_get m a") (simp_all add: bal_def)
qed

lemma replay_stored: "replay_blocks (map (to_storage_block c) branch) s = replay_blocks branch s"
proof -
  have tx: "replay_tx h s (stored_transaction c tx) = replay_tx h s tx" for h s tx
    by (cases s) (simp add: replay_tx_def Let_def total_debit_units_def)
  have "replay_apply_block_checked h (map (stored_transaction c) txs) s = replay_apply_block_checked h txs s" for h txs s
    by (simp add: replay_apply_block_checked_def try_fold_map[where f = "replay_tx h", OF tx] case_prod_beta)
  then show ?thesis by (simp add: replay_blocks_def try_fold_map)
qed

lemma adopted_index:
  assumes au: "authentic c ser (chain_get bs) (tip + 1) = Inr bs" "tip + 1 < u32_max" and rp: "replay_blocks bs ([], []) = Inr st"
    and ex: "index_exact tip (fst st) (cc_index cc)" and fk: "forks_from bs pool branch"
    and gate: "fork_state = balances_at_fork_state (chain_get bs) (tree (cc_index cc)) (marker (cc_index cc)) (index (hd branch)) tip branch"
      "branch_balance_valid E branch fork_state ns = Inr True"
    and bs': "bs' = take (index (hd branch)) bs @ map (to_storage_block c) branch"
      "authentic c ser (hm_get (cc_rows cc)) (index (hd branch) + length branch) = Inr bs'"
    and E: "ne_crypto E = c" "ne_serialize E = ser"
  shows "\<exists>idx' st'. adopt_index E branch fork_state cc = (Inr (), idx') \<and> replay_blocks bs' ([], []) = Inr st'
    \<and> index_exact (index (last branch)) (fst st') idx'"
proof -
  let ?k = "index (hd branch)"
  have len: "length bs = tip + 1" using authentic_length[OF au(1)] .
  have k: "0 < ?k" "?k \<le> tip" "branch \<noteq> []" "?k + length branch \<le> u32_max"
    using fk len by (auto simp: forks_from_def)
  have btip: "index (last branch) + 1 = ?k + length branch"
    using fk linked_heights[of branch "length branch - 1"] by (auto simp: forks_from_def last_conv_nth)
  let ?A = "\<Union>b \<in> set (drop ?k bs @ branch). set (touched_by (transactions b))"
  from fork_state_ok[OF au(1) _ rp ex k(1,2), of branch] au(2) obtain s m where
    s: "replay_blocks (take ?k bs) ([], []) = Inr s" and fs: "fork_state = Some (m, snd s)" and ag: "agree ?A (m, snd s) s"
    using gate(1) by auto
  have rev: "load_blocks (chain_get bs) [?k..<tip + 1] = Some (drop ?k bs)"
    by (subst load_blocks_map[where f = "(!) bs"]) (use map_nth_drop[OF len, of ?k] len in \<open>auto simp: chain_get_def simp del: upt_Suc\<close>)
  have keyed: "keyed_by ?A m"
    using keyed_by_fork_state[OF _ rev] gate(1) fs by metis
  have "is_ok (replay_blocks branch (m, snd s))"
    using gate(2) fs by (simp add: branch_balance_valid_def)
  moreover have "rel_sum (=) (agree ?A) (replay_blocks branch (m, snd s)) (replay_blocks branch s)"
    by (rule replay_blocks_agree[OF ag]) auto
  ultimately have "is_ok (replay_blocks branch s)"
    using rel_sum_is_ok by blast
  then obtain st' where st': "replay_blocks branch s = Inr st'"
    by (cases "replay_blocks branch s") auto
  have rp': "replay_blocks bs' ([], []) = Inr st'"
    using s st' replay_stored[of c branch s] by (simp add: bs'(1) replay_blocks_def try_fold_append result_simps)
  let ?idx = "(cc_index cc)\<lparr>tree := fold (\<lambda>(a, v). hm_insert a v) m (tree (cc_index cc)), marker := Some (?k - 1)\<rparr>"
  obtain s2 where s2: "replay_blocks (drop ?k bs) s = Inr st"
    using replay_blocks_split[OF rp, of ?k] s by auto
  have "bal (tree (cc_index cc)) a = bal (fst s) a" if "a \<notin> ?A" for a
  proof -
    have "\<forall>b \<in> set xs. block_delta b a = 0 \<Longrightarrow> sum_list (map (\<lambda>b. block_delta b a) xs) = 0" for xs
      by (induction xs) auto
    then have "sum_list (map (\<lambda>b. block_delta b a) (drop ?k bs)) = 0"
      using that block_delta_untouched by auto
    with replay_blocks_bal[OF s2, of a] ex show ?thesis by (simp add: index_exact_def)
  qed
  then have "bal (tree ?idx) a = bal (fst s) a" for a
    using fork_written[OF keyed, of "bal (fst s)"] ag by (simp add: agree_def)
  moreover have "hm_wf (tree ?idx)"
    using ex wf_fold_insert[of "tree (cc_index cc)" "\<lambda>_ v. v" m] by (simp add: index_exact_def)
  ultimately have "exact_at bs' (?k - 1) ?idx"
    using k s by (simp add: exact_at_def index_exact_def bs'(1) take_append len)
  moreover have "authentic c ser (hm_get (cc_rows cc)) (index (last branch) + 1) = Inr bs'"
    using bs'(2) unfolding btip .
  moreover have "0 < length branch" using k(3) by simp
  then have "index (last branch) < u32_max" "?k - 1 < index (last branch)"
    using btip k by linarith+
  ultimately
  obtain idx' where "catch_up_balances_index c ser (hm_get (cc_rows cc)) (highest_block_index cc) (?k - 1) (index (last branch)) ?idx = (Inr (), idx')"
    "index_exact (index (last branch)) (fst st') idx'"
    using catch_up_ok[OF _ _ rp'] by meson
  with fs rp' E show ?thesis
    by (auto simp: adopt_index_def Let_def saturating_sub_def)
qed

section \<open>The registry after an adoption\<close>

lemma reg_covers_remove:
  assumes "reg_covers (pre @ b # post) reg t" "distinct (concat (map confirmed_ids (pre @ b # post)))"
  shows "reg_covers (pre @ post) (remove_confirmed_txs b reg) t"
proof -
  have new: "i \<notin> set (confirmed_ids b)" if "b' \<in> set (pre @ post)" "i \<in> set (confirmed_ids b')" for b' i
    using assms(2) that by auto
  let ?reg = "remove_confirmed_txs b reg"
  have idx: "\<exists>b' \<in> set (pre @ post). \<exists>i \<in> set (confirmed_ids b'). k = index_key (block_timestamp b') i" if "hm_get (reg_index ?reg) k \<noteq> None" for k
  proof -
    have k: "hm_get (reg_index reg) k \<noteq> None" "k \<notin> index_key (block_timestamp b) ` set (confirmed_ids b)"
      using that by (auto simp: remove_confirmed_txs_def get_fold_remove split: if_splits)
    have "\<exists>b' \<in> set (pre @ b # post). \<exists>i \<in> set (confirmed_ids b'). k = index_key (block_timestamp b') i"
      using assms(1)[unfolded reg_covers_def, THEN conjunct1, THEN spec[of _ k]] k(1) by (rule mp)
    then obtain b' i where "b' \<in> set (pre @ b # post)" "i \<in> set (confirmed_ids b')" "k = index_key (block_timestamp b') i" by blast
    with k(2) show ?thesis by (cases "b' = b") auto
  qed
  have tree: "\<exists>b' \<in> set (pre @ post). i \<in> set (confirmed_ids b') \<and> v = le_bytes 4 (index b')" if "hm_get (reg_tree ?reg) i = Some v" for i v
  proof -
    have i: "hm_get (reg_tree reg) i = Some v" "i \<notin> set (confirmed_ids b)"
      using that by (auto simp: remove_confirmed_txs_def get_fold_remove split: if_splits)
    have "\<exists>b' \<in> set (pre @ b # post). i \<in> set (confirmed_ids b') \<and> v = le_bytes 4 (index b')"
      using assms(1)[unfolded reg_covers_def, THEN conjunct2, THEN conjunct1, THEN spec, THEN spec] i(1) by (rule mp)
    then obtain b' where "b' \<in> set (pre @ b # post)" "i \<in> set (confirmed_ids b')" "v = le_bytes 4 (index b')" by blast
    with i(2) show ?thesis by (cases "b' = b") auto
  qed
  have cov: "hm_get (reg_tree ?reg) i = Some (le_bytes 4 (index b')) \<or> block_timestamp b' + prune_horizon < t"
    if "b' \<in> set (pre @ post)" "i \<in> set (confirmed_ids b')" for b' i
    using assms(1) that new[OF that] by (auto simp: reg_covers_def remove_confirmed_txs_def get_fold_remove)
  show ?thesis
    using idx tree cov unfolding reg_covers_def by blast
qed

lemma reg_covers_revert:
  "reg_covers (pre @ old) reg t \<Longrightarrow> distinct (concat (map confirmed_ids (pre @ old))) \<Longrightarrow> reg_covers pre (fold remove_confirmed_txs old reg) t"
proof (induction old arbitrary: reg)
  case (Cons b old)
  from reg_covers_remove[OF Cons.prems] Cons.IH[of "remove_confirmed_txs b reg"] Cons.prems(2) show ?case by auto
qed simp

lemma reg_covers_records:
  "reg_covers pre reg t \<Longrightarrow> distinct (concat (map confirmed_ids (pre @ bs))) \<Longrightarrow> reg_covers (pre @ bs) (fold record_confirmed_txs bs reg) t"
proof (induction bs rule: rev_induct)
  case (snoc b bs)
  then have "reg_covers (pre @ bs) (fold record_confirmed_txs bs reg) t" by auto
  from reg_covers_record[OF this, of b] snoc.prems(2) show ?case by simp
qed simp

lemma last_timestamp: "chain_facts xs \<Longrightarrow> xs \<noteq> [] \<Longrightarrow> block_timestamp (last xs) \<le> u64_max"
  by (simp add: chain_facts_def last_conv_nth)

lemma adopted_registry:
  assumes cov: "reg_covers bs reg t" "chain_facts bs" and new: "chain_facts (take k bs @ map (to_storage_block c) branch)"
    and br: "branch \<noteq> []" "t \<le> block_timestamp (last branch)"
  shows "reg_covers (take k bs @ map (to_storage_block c) branch) (reorg_registry (drop k bs) branch reg) (block_timestamp (last branch))"
proof -
  have "reg_covers (take k bs) (fold remove_confirmed_txs (drop k bs) reg) t"
    by (rule reg_covers_revert) (use cov in \<open>simp_all add: chain_facts_def\<close>)
  moreover have "fold record_confirmed_txs (map (to_storage_block c) branch) r = fold record_confirmed_txs branch r" for r
    by (simp add: fold_map comp_def record_stored[abs_def])
  ultimately have "reg_covers (take k bs @ map (to_storage_block c) branch)
      (fold record_confirmed_txs branch (fold remove_confirmed_txs (drop k bs) reg)) t"
    using reg_covers_records[of "take k bs" "fold remove_confirmed_txs (drop k bs) reg" t "map (to_storage_block c) branch"] new
    by (simp add: chain_facts_def)
  moreover have "block_timestamp (last branch) \<le> u64_max"
    using last_timestamp[OF new] br(1) by (simp add: last_map)
  ultimately show ?thesis
    unfolding reorg_registry_def using reg_covers_prune[OF _ br(2) _ new] by blast
qed

section \<open>Adoption\<close>

lemma lacking_frame: "lacking_witnesses E level branch ns = (l, ns') \<Longrightarrow> ns_chain ns' = ns_chain ns \<and> ns_orphans ns' = ns_orphans ns"
  by (induction branch arbitrary: ns l ns')
    (auto simp: block_signatures_fully_verified_def split: prod.splits if_splits; fastforce)+

lemma checkpoint_frame: "trusted_checkpoint_height ns = (h, ns') \<Longrightarrow> ns_chain ns' = ns_chain ns \<and> ns_orphans ns' = ns_orphans ns"
  by (auto simp: trusted_checkpoint_height_def split: option.splits)

lemma floor_frame: "verification_floor ns = (h, ns') \<Longrightarrow> ns_chain ns' = ns_chain ns \<and> ns_orphans ns' = ns_orphans ns"
  by (auto simp: verification_floor_def split: prod.splits dest: checkpoint_frame)

lemma validated_keeps: "validated E mode b ns = (r, ns') \<Longrightarrow> ns_chain ns' = ns_chain ns \<and> ns_orphans ns' = ns_orphans ns"
  by (auto simp: validated_def split: prod.splits)

lemma validate_branch_frame: "validate_branch E branch ns = (ok, ns') \<Longrightarrow> ns_chain ns' = ns_chain ns \<and> ns_orphans ns' = ns_orphans ns"
proof (induction branch arbitrary: ns)
  case (Cons b bs)
  obtain r ns1 where v: "validated E AllowTruncatedStored b ns = (r, ns1)" by fastforce
  from validated_keeps[OF v] v Cons show ?case by (cases r) auto
qed simp

lemma adopt_gates_frame:
  assumes "adopt_gates E branch tip ns = (r, ns')"
  shows "ns_chain ns' = ns_chain ns \<and> ns_orphans ns' = ns_orphans ns"
proof -
  obtain ok ns0 where v: "validate_branch E branch ns = (ok, ns0)" by fastforce
  obtain cp ns1 where c: "trusted_checkpoint_height ns0 = (cp, ns1)" by fastforce
  obtain lv ns2 where f: "verification_floor ns1 = (lv, ns2)" by fastforce
  obtain l ns3 where w: "lacking_witnesses E lv branch ns2 = (l, ns3)" by fastforce
  show ?thesis
    using assms v c f w validate_branch_frame[OF v] checkpoint_frame[OF c] floor_frame[OF f] lacking_frame[OF w]
    by (cases ok) (auto simp: adopt_gates_def Let_def split: if_splits sum.splits bool.splits)
qed

lemma adopt_gates_pass:
  assumes "adopt_gates E branch tip ns = (r, ns')" "\<not> (\<exists>x. r = Inr x \<and> x = None)"
  defines "fork_state \<equiv> balances_at_fork_state (get_block ns) (tree (cc_index (ns_chain ns))) (marker (cc_index (ns_chain ns)))
      (index (hd branch)) (index tip) branch"
  shows "(\<forall>b \<in> set branch. \<exists>cache. fst (validate_block_internal (view_of E ns) AllowTruncatedStored b cache) = Inr ())
    \<and> (case r of Inl e \<Rightarrow> branch_balance_valid E branch fork_state ns' = Inl e
       | Inr x \<Rightarrow> x = Some fork_state \<and> branch_balance_valid E branch fork_state ns' = Inr True)"
proof -
  obtain ok ns0 where v: "validate_branch E branch ns = (ok, ns0)" by fastforce
  obtain cp ns1 where c: "trusted_checkpoint_height ns0 = (cp, ns1)" by fastforce
  obtain lv ns2 where f: "verification_floor ns1 = (lv, ns2)" by fastforce
  obtain l ns3 where w: "lacking_witnesses E lv branch ns2 = (l, ns3)" by fastforce
  have ok: "ok" using assms(1,2) v by (cases ok) (auto simp: adopt_gates_def)
  have "ns_chain ns3 = ns_chain ns"
    using validate_branch_frame[OF v] checkpoint_frame[OF c] floor_frame[OF f] lacking_frame[OF w] by simp
  then have fr: "ns_chain ns3 = ns_chain ns" "get_block ns3 = get_block ns"
    using chain_fields by blast+
  have "case r of Inl e \<Rightarrow> branch_balance_valid E branch fork_state ns' = Inl e
       | Inr x \<Rightarrow> x = Some fork_state \<and> branch_balance_valid E branch fork_state ns' = Inr True"
    using assms(1,2) v ok c f w fr unfolding adopt_gates_def fork_state_def
    by (auto simp: Let_def split: if_splits sum.splits bool.splits)
  with validate_branch_ok[of E branch ns ns0] v ok show ?thesis by simp
qed

lemma chain_get_inj: "chain_get xs = chain_get ys \<Longrightarrow> xs = ys"
proof (rule nth_equalityI)
  assume e: "chain_get xs = chain_get ys"
  have lt: "i < length xs \<longleftrightarrow> i < length ys" for i
    using fun_cong[OF e, of i] by (auto simp: chain_get_def split: if_splits)
  show "length xs = length ys"
    using lt[of "length xs"] lt[of "length ys"] by simp
  show "xs ! i = ys ! i" if "i < length xs" for i
    using fun_cong[OF e, of i] that lt[of i] by (simp add: chain_get_def)
qed

lemma stands_chain:
  assumes "stands_at E tip ns" "get_block ns = chain_get bs"
  obtains m q where "authentic (ne_crypto E) (ne_serialize E) (get_block ns) (tip + 1) = Inr bs" "replay_blocks bs ([], []) = Inr (m, q)"
    "index_exact tip m (cc_index (ns_chain ns))" "highest ns = Some tip" "length bs = tip + 1"
    "chain_facts bs \<longrightarrow> reg_covers bs (cc_registry (ns_chain ns)) (block_timestamp (last bs))"
proof -
  obtain bs0 m q where k: "authentic (ne_crypto E) (ne_serialize E) (hm_get (cc_rows (ns_chain ns))) (tip + 1) = Inr bs0"
    "replay_blocks bs0 ([], []) = Inr (m, q)" "marker (cc_index (ns_chain ns)) = Some tip" "\<forall>a. bal (tree (cc_index (ns_chain ns))) a = bal m a"
    "chain_facts bs0 \<longrightarrow> reg_covers bs0 (cc_registry (ns_chain ns)) (block_timestamp (last bs0))"
    "length bs0 = tip + 1" "hm_get (cc_rows (ns_chain ns)) = chain_get bs0" "highest_block_index (ns_chain ns) = Some tip"
    using consistent_chain[of "ne_crypto E" "ne_serialize E" "ns_chain ns" tip] assms(1) unfolding stands_at_def by metis
  have get: "get_block ns = hm_get (cc_rows (ns_chain ns))" by (simp add: get_block_def[abs_def])
  with k(7) assms(2) have "bs0 = bs" using chain_get_inj by metis
  with k assms(1) get that[of m q] show thesis by (simp add: index_exact_def stands_at_def highest_def)
qed

lemma scan_of_chain: "hm_get rows = chain_get bs \<Longrightarrow> bs \<noteq> [] \<Longrightarrow> highest_block_index_scan rows = Some (length bs - 1)"
proof -
  assume g: "hm_get rows = chain_get bs" "bs \<noteq> []"
  have keys: "set (hm_keys rows) = {..<length bs}"
    by (auto simp: hm_keys_iff g(1) chain_get_def split: if_splits)
  moreover have "Max {..<length bs} = length bs - 1"
    using g(2) by (intro Max_eqI) auto
  moreover have "rows \<noteq> []"
    using keys g(2) by (auto simp: hm_keys_def)
  ultimately show ?thesis by (simp add: highest_block_index_scan_def)
qed

lemma reverted_are:
  assumes "get_block ns = chain_get bs" "index t + 1 = length bs"
  shows "reverted_blocks branch t ns = drop (index (hd branch)) bs"
proof -
  let ?hs = "[index (hd branch)..<length bs]"
  have "filter (\<lambda>h. chain_get bs h \<noteq> None) ?hs = ?hs"
    by (rule filter_True) (simp add: chain_get_def)
  moreover have "map (the \<circ> chain_get bs) ?hs = map ((!) bs) ?hs"
    by (simp add: chain_get_def)
  ultimately show ?thesis
    using assms by (simp add: reverted_blocks_def List.map_filter_def map_nth_drop del: upt_Suc)
qed

lemma reconcile_mempool_frame: "ns_chain (reconcile_mempool E branch lost ns) = ns_chain ns"
proof -
  have one: "ns_chain (snd (readmit_tx E tx s)) = ns_chain (snd s)" for tx s
    by (simp add: readmit_tx_def case_prod_beta split: option.splits)
  have "ns_chain (snd (fold (readmit_tx E) lost s)) = ns_chain (snd s)" for s
    by (induction lost arbitrary: s) (simp_all add: one)
  then show ?thesis by (simp add: reconcile_mempool_def case_prod_beta)
qed

lemma adopt_writes_stands:
  assumes au: "authentic (ne_crypto E) (ne_serialize E) (chain_get bs) (tip + 1) = Inr bs" and rp: "replay_blocks bs ([], []) = Inr st"
    and ex: "index_exact tip (fst st) (cc_index (ns_chain ns))" and cov: "reg_covers bs (cc_registry (ns_chain ns)) (block_timestamp (last bs))"
    and env: "hex_faithful (ne_crypto E)" "tip + 1 < u32_max"
    and bs: "hm_get (cc_rows (ns_chain ns)) = chain_get bs" "index t = tip" and fk: "forks_from bs pool branch"
    and cv: "cv_get_block cv = chain_get bs" "cv_crypto cv = ne_crypto E" "cv_serialize cv = ne_serialize E" "cv_orphans cv = pool"
    and ok: "\<forall>b \<in> set branch. \<exists>cache. fst (validate_block_internal cv mode b cache) = Inr ()" and no: "\<not> header_collision (ne_crypto E) bs branch"
    and fs: "fs = balances_at_fork_state (chain_get bs) (tree (cc_index (ns_chain ns))) (marker (cc_index (ns_chain ns))) (index (hd branch)) tip branch"
      "branch_balance_valid E branch fs ns' = Inr True"
    and time: "chain_facts bs" "block_timestamp (last bs) \<le> block_timestamp (last branch)"
  shows "\<exists>ns2. adopt_writes E branch t fs ns = (Inr (), ns2) \<and> stands_at E (index (last branch)) ns2
    \<and> get_block ns2 = chain_get (take (index (hd branch)) bs @ map (to_storage_block (ne_crypto E)) branch)"
proof -
  let ?c = "ne_crypto E" and ?ser = "ne_serialize E" and ?k = "index (hd branch)" and ?cc = "ns_chain ns"
  define bs' where "bs' = take ?k bs @ map (to_storage_block ?c) branch"
  have len: "length bs = tip + 1" using authentic_length[OF au] .
  have k: "branch \<noteq> []" "?k < length bs" using fk by (auto simp: forks_from_def)
  have "length branch - 1 < length branch" using k(1) by simp
  then have top: "index (last branch) + 1 = length bs'"
    using fk linked_heights[of branch "length branch - 1"] k by (auto simp: forks_from_def last_conv_nth bs'_def)
  let ?rows = "slot_batch ?c branch t (cc_rows ?cc)"
  have rows: "hm_get ?rows = chain_get bs'"
    using get_slot_batch[OF fk bs(1)] bs(2) len by (simp add: bs'_def)
  have au': "authentic ?c ?ser (chain_get bs') (?k + length branch) = Inr bs'"
    using adopted_authentic[OF _ cv env(1) fk ok no] au len unfolding bs'_def by simp
  define cc3 where "cc3 = ?cc\<lparr>cc_rows := ?rows, cc_registry := reorg_registry (drop ?k bs) branch (cc_registry ?cc)\<rparr>"
  have ix3: "cc_index cc3 = cc_index ?cc" "cc_rows cc3 = ?rows" by (simp_all add: cc3_def)
  obtain idx' st' where ai: "adopt_index E branch fs cc3 = (Inr (), idx')" and rp': "replay_blocks bs' ([], []) = Inr st'"
    and ex': "index_exact (index (last branch)) (fst st') idx'"
    using adopted_index[OF au env(2) rp _ fk, of cc3 fs E ns' bs'] ex fs au' rows unfolding ix3 bs'_def by auto
  have rev: "reverted_blocks branch t (ns\<lparr>ns_dirty := True\<rparr>) = drop ?k bs"
    by (rule reverted_are) (use bs len in \<open>simp_all add: get_block_def[abs_def]\<close>)
  obtain ns2 where run: "adopt_writes E branch t fs ns = (Inr (), ns2)"
    and ch: "ns_chain ns2 = cc3\<lparr>cc_index := idx', cc_tip := Some \<lparr>tip_height = index (last branch), tip_hash = hash (last branch)\<rparr>\<rparr>"
    using ai unfolding adopt_writes_def Let_def rev
    by (simp add: set_chain_def prune_orphans_frame cc3_def reconcile_mempool_frame write_chain_tip_metadata_def)
  have "chain_facts bs' \<longrightarrow> reg_covers bs' (cc_registry cc3) (block_timestamp (last bs'))"
    using adopted_registry[OF cov time(1) _ k(1) time(2)] k(1) by (auto simp: bs'_def cc3_def last_map)
  moreover have "highest_block_index_scan ?rows = Some (index (last branch))"
    using scan_of_chain[OF rows] top by (cases bs') auto
  moreover have "hash (last bs') = hash (last branch)" using k(1) by (simp add: bs'_def last_map)
  moreover have "authentic ?c ?ser (chain_get bs') (index (last branch) + 1) = Inr bs'"
    using au' unfolding top by (simp add: bs'_def k less_imp_le min_absorb2)
  ultimately have "stands_at E (index (last branch)) ns2"
    using ch rp' ex' rows ix3(2) unfolding stands_at_def chain_consistent_def
    by (cases st') (simp add: index_exact_def)
  moreover have "get_block ns2 = chain_get bs'"
    using ch rows ix3(2) by (simp add: get_block_def[abs_def])
  ultimately show ?thesis using run bs'_def by blast
qed

lemma adopted_stands:
  assumes at: "stands_at E tip ns" and env: "hex_faithful (ne_crypto E)" "tip + 1 < u32_max"
    and bs: "get_block ns = chain_get bs" "index t = tip" and fk: "forks_from bs (orphan_blocks (pool_of (ns_orphans ns))) branch"
    and time: "chain_facts bs" "block_timestamp (last bs) \<le> block_timestamp (last branch)"
    and no: "\<not> header_collision (ne_crypto E) bs branch" and run: "adopt_branch_if_valid E branch t ns = (r, ns')"
  shows "r = Inr False \<and> ns_chain ns' = ns_chain ns \<and> ns_orphans ns' = ns_orphans ns
    \<or> r = Inr True \<and> stands_at E (index (last branch)) ns'
      \<and> get_block ns' = chain_get (take (index (hd branch)) bs @ map (to_storage_block (ne_crypto E)) branch)"
proof -
  let ?c = "ne_crypto E" and ?ser = "ne_serialize E" and ?k = "index (hd branch)"
  obtain m rc where au: "authentic ?c ?ser (chain_get bs) (tip + 1) = Inr bs" and rp: "replay_blocks bs ([], []) = Inr (m, rc)"
    and len: "length bs = tip + 1" and ex: "index_exact tip (fst (m, rc)) (cc_index (ns_chain ns))"
    and cov: "reg_covers bs (cc_registry (ns_chain ns)) (block_timestamp (last bs))"
    using consistent_chain[of ?c ?ser "ns_chain ns" tip] at bs(1) time(1) chain_get_inj
    unfolding stands_at_def index_exact_def get_block_def[abs_def] fst_conv by metis
  obtain q ns1 where g: "adopt_gates E branch t ns = (q, ns1)" by fastforce
  note fr = adopt_gates_frame[OF g]
  show ?thesis
  proof (cases "\<exists>x. q = Inr x \<and> x = None")
    case True
    with g run fr show ?thesis by (auto simp: adopt_branch_if_valid_def)
  next
    case False
    define fs where "fs = balances_at_fork_state (chain_get bs) (tree (cc_index (ns_chain ns))) (marker (cc_index (ns_chain ns))) ?k tip branch"
    note pass = adopt_gates_pass[OF g False, unfolded bs, folded fs_def]
    have k: "0 < ?k" "?k \<le> tip" using fk len by (auto simp: forks_from_def)
    from fork_state_ok[OF au _ rp ex k, of branch] env(2)
    obtain v where "fs = Some v" by (auto simp: fs_def)
    with pass have q: "q = Inr (Some fs)" and bal: "branch_balance_valid E branch fs ns1 = Inr True"
      by (auto simp: branch_balance_valid_def split: sum.splits)
    have cv: "cv_get_block (view_of E ns) = chain_get bs" "cv_crypto (view_of E ns) = ?c" "cv_serialize (view_of E ns) = ?ser"
      "cv_orphans (view_of E ns) = orphan_blocks (pool_of (ns_orphans ns))"
      using bs(1) by (simp_all add: view_of_def pool_of_def)
    obtain ns2 where "adopt_writes E branch t fs ns1 = (Inr (), ns2)" "stands_at E (index (last branch)) ns2"
      "get_block ns2 = chain_get (take ?k bs @ map (to_storage_block ?c) branch)"
      using adopt_writes_stands[OF au rp _ _ env _ bs(2) fk cv _ no _ bal time, of ns1] ex cov fr bs(1) pass fs_def
      by (auto simp: get_block_def[abs_def])
    with g q run show ?thesis by (simp add: adopt_branch_if_valid_def)
  qed
qed

section \<open>The attempts of one reorganisation\<close>

text \<open>Bodies are stored under the hash of their block, once.\<close>

definition orphans_keyed :: "orphan_store \<Rightarrow> bool" where
  "orphans_keyed o1 \<longleftrightarrow> hm_wf (orphan_bodies o1) \<and> (\<forall>h b t. hm_get (orphan_bodies o1) h = Some (b, t) \<longrightarrow> hash b = h)"

lemma collect_branches_members:
  assumes "\<And>b. set (next_children pool b) \<subseteq> P"
  shows "\<forall>br \<in> set (finished @ stack). set br \<subseteq> P \<Longrightarrow> br \<in> set (collect_branches pool max_depth m finished stack) \<Longrightarrow> set br \<subseteq> P"
  using assms
proof (induction pool max_depth m finished stack rule: collect_branches.induct)
  case (1 pool max_depth m finished)
  then show ?case by simp
next
  case (2 pool max_depth m finished branch stack)
  let ?cs = "next_children pool (last branch)" and ?r = "saturating_sub m (length finished + length stack)"
  have push: "\<forall>br \<in> set (finished @ map (\<lambda>c. branch @ [c]) (take ?r ?cs) @ stack). set br \<subseteq> P"
    using "2.prems"(1,3) by (fastforce dest: in_set_takeD)
  show ?case
    using "2.prems" "2.IH"(1) "2.IH"(2) "2.IH"(3)[OF _ _ refl] "2.IH"(4)[OF _ _ refl _ refl _ push]
    by (auto simp: Let_def split: if_splits)
qed

lemma orphan_member:
  assumes "orphans_keyed o1" "b \<in> set (hm_values (orphan_blocks (pool_of o1)))"
  shows "hm_get (orphan_blocks (pool_of o1)) (hash b) = Some b"
proof -
  have "hm_wf (orphan_blocks (pool_of o1))"
    using assms(1) by (simp add: orphans_keyed_def pool_of_def hm_wf_map_values)
  with assms(2) obtain h where "hm_get (orphan_blocks (pool_of o1)) h = Some b"
    by (auto simp: hm_values_set)
  with assms(1) show ?thesis
    by (auto simp: orphans_keyed_def pool_of_def hm_get_map_values)
qed

lemma next_children_member:
  assumes "c \<in> set (next_children pool b)"
  shows "c \<in> set (hm_values (orphan_blocks pool))"
proof -
  have "y \<in> set (List.map_filter f xs) \<Longrightarrow> \<exists>x \<in> set xs. f x = Some y" for f :: "string \<times> u32 \<times> string \<Rightarrow> block option" and xs y
    by (auto simp: List.map_filter_def)
  then obtain h where "hm_get (orphan_blocks pool) h = Some c"
    using assms by (fastforce simp: next_children_def orphan_children_of_def sort_by_set)
  then show ?thesis
    by (auto simp: hm_values_def hm_get_def dest!: map_of_SomeD intro: rev_image_eqI)
qed

lemma attempts_members:
  assumes "reorg_attempts get pool checkpoint t = Some brs" "br \<in> set brs"
  shows "set br \<subseteq> set (hm_values (orphan_blocks pool))"
proof -
  let ?V = "set (hm_values (orphan_blocks pool))"
  have "set br \<subseteq> ?V" if ev: "br \<in> set (evaluated_branches pool checkpoint cands)" "set cands \<subseteq> ?V" for cands
  proof -
    obtain c where c: "c \<in> set cands" "br \<in> set (collect_orphan_branches_from pool c ORPHAN_REORG_DEPTH ORPHAN_BRANCH_SEARCH_LIMIT)"
      using in_set_takeD[OF ev(1)[unfolded evaluated_branches_def]] by auto
    with ev(2) show ?thesis
      using collect_branches_members[of pool ?V "[]" "[[c]]" br] next_children_member unfolding collect_orphan_branches_from_def by fastforce
  qed
  with assms show ?thesis
    by (fastforce simp: reorg_attempts_def Let_def sort_by_set score_branch_def split: if_splits option.splits dest: in_set_takeD)
qed

lemma attempts_fork:
  assumes o1: "orphans_keyed o1" and bs: "bs \<noteq> []" "heights_from 0 bs" "length bs + 1024 \<le> u32_max"
    and br: "reorg_attempts (chain_get bs) (pool_of o1) checkpoint (last bs) = Some brs" "br \<in> set brs"
  shows "forks_from bs (orphan_blocks (pool_of o1)) br"
proof -
  obtain rs where "brs = map rk_branch rs" "\<forall>r \<in> set rs. ranked_ok bs checkpoint r"
    using reorg_attempts_ranked[OF bs(1,2), of "pool_of o1" checkpoint] br by auto
  with br(2) obtain r where r: "ranked_ok bs checkpoint r" "br = rk_branch r" by auto
  moreover have "\<forall>b \<in> set br. hm_get (orphan_blocks (pool_of o1)) (hash b) = Some b"
    using attempts_members[OF br] orphan_member[OF o1] by blast
  moreover have "index (hd br) < length bs"
    using r bs(1) by (cases bs) (auto simp: ranked_ok_def Let_def)
  ultimately show ?thesis
    using bs(3) by (auto simp: ranked_ok_def Let_def forks_from_def branch_ok_def)
qed

lemma adopt_first_stands:
  assumes at: "stands_at E tip ns" and env: "hex_faithful (ne_crypto E)" "tip + 1 < u32_max" and bs: "get_block ns = chain_get bs" "index t = tip" "chain_facts bs"
    and brs: "\<forall>br \<in> set brs. forks_from bs (orphan_blocks (pool_of (ns_orphans ns))) br \<and> block_timestamp (last bs) \<le> block_timestamp (last br)
      \<and> \<not> header_collision (ne_crypto E) bs br"
    and run: "adopt_first E t brs ns = (r, ns')"
  shows "r = Inr False \<and> ns_chain ns' = ns_chain ns
    \<or> (\<exists>br \<in> set brs. r = Inr True \<and> stands_at E (index (last br)) ns'
        \<and> get_block ns' = chain_get (take (index (hd br)) bs @ map (to_storage_block (ne_crypto E)) br))"
  using at bs brs run
proof (induction brs arbitrary: ns)
  case (Cons br brs)
  obtain q ns1 where q: "adopt_branch_if_valid E br t ns = (q, ns1)" by fastforce
  from adopted_stands[OF Cons.prems(1) env Cons.prems(2,3) _ Cons.prems(4) _ _ q] Cons.prems(5)
  consider "q = Inr False" "ns_chain ns1 = ns_chain ns" "ns_orphans ns1 = ns_orphans ns"
    | "q = Inr True" "stands_at E (index (last br)) ns1" "get_block ns1 = chain_get (take (index (hd br)) bs @ map (to_storage_block (ne_crypto E)) br)"
    by auto
  then show ?case
  proof cases
    case 1
    have "stands_at E tip ns1" "get_block ns1 = chain_get bs"
      using Cons.prems(1,2) stands_at_cong[OF 1(2)] chain_fields[OF 1(2)] by simp_all
    from Cons.IH[OF this Cons.prems(3,4)] Cons.prems(5,6) q 1 show ?thesis by auto
  next
    case 2
    with Cons.prems(6) q show ?thesis by auto
  qed
qed simp

lemma reconcile_fields:
  "reconcile_if_dirty E ns = (r, ns1) \<Longrightarrow> ns_orphans ns1 = ns_orphans ns \<and> fst (trusted_checkpoint_height ns1) = fst (trusted_checkpoint_height ns)"
  by (auto simp: reconcile_if_dirty_def trusted_checkpoint_height_def split: if_splits prod.splits sum.splits option.splits)

lemma try_adopt_stands:
  assumes at: "stands_at E tip ns" and env: "hex_faithful (ne_crypto E)" "tip + 1025 \<le> u32_max"
    and bs: "get_block ns = chain_get bs" "chain_facts bs" and o1: "orphans_keyed (ns_orphans ns)"
    and brs: "\<And>brs br. reorg_attempts (get_block ns) (pool_of (ns_orphans ns)) (fst (trusted_checkpoint_height ns)) (last bs) = Some brs \<Longrightarrow> br \<in> set brs
      \<Longrightarrow> block_timestamp (last bs) \<le> block_timestamp (last br) \<and> \<not> header_collision (ne_crypto E) bs br"
    and run: "try_adopt_orphan_branch E ns = (r, ns')"
  shows "r = Inr False \<and> stands_at E tip ns' \<and> get_block ns' = get_block ns
    \<or> (\<exists>br. r = Inr True \<and> forks_from bs (orphan_blocks (pool_of (ns_orphans ns))) br \<and> stands_at E (index (last br)) ns'
        \<and> get_block ns' = chain_get (take (index (hd br)) bs @ map (to_storage_block (ne_crypto E)) br))"
proof -
  obtain ns1 where rec: "reconcile_if_dirty E ns = (Inr (), ns1)" and at1: "stands_at E tip ns1" and rows: "get_block ns1 = chain_get bs"
    using reconcile_consistent[of E ns tip] at bs(1) unfolding stands_at_def get_block_def[abs_def] by metis
  note f = reconcile_fields[OF rec]
  have hi: "highest ns1 = Some tip" and len: "length bs = tip + 1"
    using consistent_chain[of "ne_crypto E" "ne_serialize E" "ns_chain ns1" tip] at1 rows chain_get_inj
    unfolding stands_at_def get_block_def[abs_def] highest_def by metis+
  have ne: "bs \<noteq> []" using len by auto
  have h: "heights_from 0 bs" using bs(2) by (simp add: heights_from_def chain_facts_def)
  have top: "bs ! tip = last bs" "index (last bs) = tip"
    using chain_tip[OF ne h] ne len by (simp_all add: last_conv_nth)
  then have last: "get_last_block ns1 = Some (last bs)"
    using hi rows len by (simp add: get_last_block_def chain_get_def)
  obtain cp ns2 where cp: "trusted_checkpoint_height ns1 = (cp, ns2)" by fastforce
  have fr: "ns_chain ns2 = ns_chain ns1" "ns_orphans ns2 = ns_orphans ns1" using checkpoint_frame[OF cp] by auto
  have cpe: "fst (trusted_checkpoint_height ns) = cp" using f cp by simp
  obtain brs0 where att: "reorg_attempts (chain_get bs) (pool_of (ns_orphans ns)) cp (last bs) = Some brs0"
    using reorg_attempts_ranked[OF ne h] by blast
  have good: "\<forall>br \<in> set brs0. forks_from bs (orphan_blocks (pool_of (ns_orphans ns))) br \<and> block_timestamp (last bs) \<le> block_timestamp (last br)
      \<and> \<not> header_collision (ne_crypto E) bs br"
    using brs[of brs0] att attempts_fork[OF o1 ne h _ att] env(2) len bs(1) cpe by simp
  have at2: "stands_at E tip ns2" "get_block ns2 = chain_get bs"
    using at1 rows stands_at_cong[OF fr(1)] chain_fields[OF fr(1)] by simp_all
  define idle where "idle = list_all (\<lambda>b. \<not> reorg_candidate (chain_get bs) (last bs) b) (hm_values (orphan_blocks (pool_of (ns_orphans ns))))"
  have "try_adopt_orphan_branch E ns = (if idle then (Inr False, ns1) else adopt_first E (last bs) brs0 ns2)"
    unfolding try_adopt_orphan_branch_def rec last Let_def prod.case sum.case option.case rows f[THEN conjunct1] cp att idle_def ..
  with run consider "r = Inr False" "ns' = ns1" | "adopt_first E (last bs) brs0 ns2 = (r, ns')"
    by (cases idle) auto
  then show ?thesis
  proof cases
    case 1
    with at1 rows bs(1) show ?thesis by simp
  next
    case 2
    from adopt_first_stands[OF at2(1) env(1) _ at2(2) top(2) bs(2) _ 2] good fr f env(2)
    have "r = Inr False \<and> ns_chain ns' = ns_chain ns2
      \<or> (\<exists>br \<in> set brs0. r = Inr True \<and> stands_at E (index (last br)) ns'
          \<and> get_block ns' = chain_get (take (index (hd br)) bs @ map (to_storage_block (ne_crypto E)) br))" by simp
    then show ?thesis
    proof (elim disjE conjE)
      assume u: "r = Inr False" "ns_chain ns' = ns_chain ns2"
      from stands_at_cong[OF u(2), of E tip] chain_fields[OF u(2)] at2 bs(1) u(1) show ?thesis by simp
    qed (use good in blast)
  qed
qed

end
