(* ===== verification/A9_Sample_Chain.thy ===== *)
theory A9_Sample_Chain
  imports A9_Reorg_Props
begin

text \<open>
  A sample node: two rival blocks on the launch block, which differ in their nonce, and a hash whose
  last byte is the low byte of the nonce.  The theorems on tip extension and reorganisation are
  applied to it.
\<close>

section \<open>The blocks\<close>

definition nonce_crypto :: crypto where
  "nonce_crypto = hexed_crypto\<lparr>blake3 := (\<lambda>x. replicate 31 (CHR 0x00) @ [x ! 44])\<rparr>"

definition launch :: block where
  "launch = genesis_launch_block nonce_crypto (\<lambda>_. [])"

definition rival :: "nat \<Rightarrow> block" where
  "rival n = \<lparr>index = 1, previous_hash = hash launch, block_timestamp = launch_time,
     transactions = [pay ''MINING_REWARDS'' ''miner''
       (case block_reward_from_totals (Inr launch_time) 1 launch_time 0 (Fin 0) of Inr r \<Rightarrow> to_units r | Inl _ \<Rightarrow> 0) (to_units NETWORK_FEE)],
     nonce = n, difficulty = consensus_next_difficulty GENESIS_LAUNCH_DIFFICULTY 0 1,
     hash = replicate 31 (CHR 0x00) @ [byte n], merkle_root = zero_hash\<rparr>"

lemma nonce_faithful: "hex_faithful nonce_crypto"
  using hexed_faithful by (simp add: hex_faithful_def nonce_crypto_def)

lemma nonce_merkle: "calculate_merkle_root nonce_crypto ser txs = zero_hash"
  by (auto simp: calculate_merkle_root_def calculate_merkle_root_from_leaf_hashes_def empty_root_def
      nonce_crypto_def hexed_crypto_def calculate_merkle_leaf_hash_def Let_def intro!: flat_merkle_climb)

lemma le_bytes_length: "length (le_bytes w n) = w"
  by (induction w n rule: le_bytes.induct) auto

lemma nonce_hash:
  assumes "length (previous_hash b) = 32"
  shows "calculate_hash_for_block nonce_crypto b = replicate 31 (CHR 0x00) @ [byte (nonce b)]"
proof -
  have "le_bytes 8 x = byte x # le_bytes 7 (x div 256)" for x
    using le_bytes.simps(2)[of 7 x] by simp
  then have "header_data b ! 44 = byte (nonce b)"
    using assms by (simp add: header_data_def nth_append le_bytes_length)
  then show ?thesis
    by (simp add: calculate_hash_for_block_def nonce_crypto_def)
qed

lemma launch_fields': "index launch = 0" "previous_hash launch = zero_hash" "block_timestamp launch = launch_time"
  "difficulty launch = GENESIS_LAUNCH_DIFFICULTY" "merkle_root launch = zero_hash" "confirmed_ids launch = []"
  "hash launch = replicate 31 (CHR 0x00) @ [byte GENESIS_LAUNCH_NONCE]"
  "calculate_hash_for_block nonce_crypto launch = hash launch"
proof -
  show p: "index launch = 0" "previous_hash launch = zero_hash" "block_timestamp launch = launch_time"
    "difficulty launch = GENESIS_LAUNCH_DIFFICULTY" "merkle_root launch = zero_hash" "confirmed_ids launch = []"
    by (simp_all add: launch_def genesis_ids) (simp_all add: genesis_launch_block_def Let_def GENESIS_LAUNCH_TIMESTAMP_def launch_time_def nonce_merkle)
  have "nonce launch = GENESIS_LAUNCH_NONCE" by (simp add: launch_def genesis_launch_block_def Let_def)
  with p nonce_hash[of launch] have c: "calculate_hash_for_block nonce_crypto launch = replicate 31 (CHR 0x00) @ [byte GENESIS_LAUNCH_NONCE]"
    by (simp add: zero_hash_def)
  moreover have "hash launch = calculate_hash_for_block nonce_crypto launch"
    by (simp add: launch_def genesis_launch_block_def Let_def calculate_hash_for_block_def header_data_def)
  ultimately show "hash launch = replicate 31 (CHR 0x00) @ [byte GENESIS_LAUNCH_NONCE]" "calculate_hash_for_block nonce_crypto launch = hash launch"
    by simp_all
qed

lemma launch_coinbase: "list_all is_coinbase (transactions launch)"
  by (simp add: launch_def genesis_launch_block_def Let_def new_transaction_def is_coinbase_def)

lemma rival_fields: "index (rival n) = 1" "previous_hash (rival n) = hash launch" "block_timestamp (rival n) = launch_time"
  "difficulty (rival n) = consensus_next_difficulty GENESIS_LAUNCH_DIFFICULTY 0 1" "merkle_root (rival n) = zero_hash"
  "hash (rival n) = replicate 31 (CHR 0x00) @ [byte n]" "nonce (rival n) = n"
  by (simp_all add: rival_def)

lemma rival_txs:
  "\<exists>x. block_reward_from_totals (Inr launch_time) 1 launch_time 0 (Fin 0) = Inr x
    \<and> transactions (rival n) = [pay ''MINING_REWARDS'' ''miner'' (to_units x) (to_units NETWORK_FEE)]"
  using legacy_reward_total[of 1 launch_time launch_time 0 "Fin 0"]
  by (auto simp: REWARD_CURVE_V2_ACTIVATION_HEIGHT_def rival_def)

lemma rival_difficulty: "consensus_next_difficulty GENESIS_LAUNCH_DIFFICULTY 0 1 = 466"
  by (simp add: consensus_next_difficulty_def GENESIS_LAUNCH_DIFFICULTY_def NETWORK_MIN_DIFFICULTY_def MAX_NETWORK_DIFFICULTY_def Let_def
      TARGET_BLOCK_TIME_def DIFFICULTY_POINTS_PER_HALVING_def DIFFICULTY_RETARGET_HALF_LIFE_SECS_def i128_saturating_mul_def i128_clamp_def
      i128_min_def i128_max_def div_round_away_from_zero_def saturating_add_def u64_max_def trunc_div_def
      i128_saturating_add_def i128_saturating_sub_def)

lemma small_hash: "from_bytes_be (replicate 31 (CHR 0x00) @ [byte n]) \<le> pow_target_from_difficulty 466"
proof -
  have "foldl (\<lambda>acc b. acc * 256 + byte_val b) 0 (replicate k (CHR 0x00)) = 0" for k
    by (induction k) (simp_all add: byte_val_def)
  then have "from_bytes_be (replicate 31 (CHR 0x00) @ [byte n]) = byte_val (byte n)"
    unfolding from_bytes_be_def foldl_append by simp
  moreover have "byte_val (byte n) < 256" by (rule byte_val_less)
  ultimately show ?thesis by (simp add: pow_target_from_difficulty_def MAX_TARGET_def)
qed

lemma rival_rewards: "validate_block_reward_rules_at (Inr launch_time) (rival n) FEE_SYSTEM_ACTIVATION_HEIGHT = Inr ()"
proof -
  obtain x where x: "block_reward_from_totals (Inr launch_time) 1 launch_time 0 (Fin 0) = Inr x"
    "transactions (rival n) = [pay ''MINING_REWARDS'' ''miner'' (to_units x) (to_units NETWORK_FEE)]"
    using rival_txs by blast
  have "calculate_block_reward (Inr launch_time) (rival n) = Inr x"
    using x by (simp add: calculate_block_reward_def rival_fields regular_def REWARD_CURVE_V2_ACTIVATION_HEIGHT_def)
  then show ?thesis
    by (simp add: validate_block_reward_rules_at_def x(2) rival_fields guard_err_def Let_def FEE_SYSTEM_ACTIVATION_HEIGHT_def)
qed

lemma rival_accepted:
  assumes cv: "cv_crypto cv = nonce_crypto" "cv_get_block cv 0 = Some launch" "cv_genesis_ts cv = Inr launch_time" "cv_now cv = launch_time"
  shows "validate_block_internal cv mode (rival n) cache = (Inr (), cache)"
proof -
  have coin: "transactions (rival n) = [pay ''MINING_REWARDS'' ''miner'' x f] \<Longrightarrow> \<not> has_duplicate_regular_tx (transactions (rival n))" for x f
    by (simp add: has_duplicate_regular_tx_def)
  have h: "calculate_hash_for_block nonce_crypto (rival n) = hash (rival n)"
    by (simp add: nonce_hash rival_fields launch_fields')
  have "validate_header nonce_crypto launch_time (rival n) = Inr ()"
    using small_hash[of n] h
    by (simp add: validate_header_def guard_err_def verify_difficulty_proof_def verify_pow_def rival_difficulty[unfolded One_nat_def] rival_fields)
  moreover have "validate_linkage cv (rival n) = Inr ()"
    by (simp add: validate_linkage_def get_parent_block_for_def rival_fields cv launch_fields' saturating_sub_def
        validate_parent_timestamp_def guard_err_def)
  ultimately have "validate_block_head cv mode (rival n) = Inr ()"
    using rival_txs[of n] coin rival_rewards[of n] small_hash[of n]
    by (auto simp: validate_block_head_def cv nonce_merkle guard_err_def MAX_BLOCK_TX_COUNT_def validate_block_shape_rules_at_def
        rival_fields FEE_SYSTEM_ACTIVATION_HEIGHT_def is_valid_hash_with_difficulty_def rival_difficulty[unfolded One_nat_def])
  then show ?thesis
    using rival_txs[of n] by (auto simp: validate_block_internal_def)
qed

section \<open>The node\<close>

definition sample_env :: node_env where
  "sample_env = \<lparr>ne_crypto = nonce_crypto, ne_serialize = (\<lambda>_. []), ne_codec = (\<lambda>_. Some []), ne_evict = (\<lambda>_. []),
     ne_genesis_ts = Inr launch_time, ne_now = launch_time, ne_clock = (0, 0, 0), ne_limiter_now = 0, ne_ttl = None, ne_pending_ttl = None,
     ne_auto_rebuild = True\<rparr>"

text \<open>The content that a rebuild makes of the canonical rows.\<close>

definition sample_content :: "block list \<Rightarrow> chain_content" where
  "sample_content bs = snd (rebuild_chain_state nonce_crypto (\<lambda>_. []) no_faults
     \<lparr>cc_rows = zip [0..<length bs] bs, cc_tip = None, cc_index = \<lparr>tree = [], marker = None\<rparr>,
      cc_registry = \<lparr>reg_tree = [], reg_index = [], reg_built = False\<rparr>\<rparr>)"

definition sample_node :: "block list \<Rightarrow> block list \<Rightarrow> node_state" where
  "sample_node bs orphans = \<lparr>ns_chain = sample_content bs, ns_dirty = False,
     ns_pending = \<lparr>pending_rows = [], full_sigs = [], pending_debits = [], pending_credits = []\<rparr>,
     ns_pool = new_mempool, ns_witnesses = \<lparr>confirmed_witnesses = [], witness_index = []\<rparr>,
     ns_orphans = \<lparr>orphan_bodies = map (\<lambda>b. (hash b, b, launch_time)) orphans, orphan_keys = map (\<lambda>b. (orphan_index_key b, Some launch_time)) orphans,
       orphan_index_reconciled = True\<rparr>,
     ns_sentinel = \<lparr>verified_blocks = [], integrity_score = 100, last_verification = 0, verification_seq = 0\<rparr>,
     ns_checkpoint = None, ns_known_checkpoint = 0, ns_blocked = [], ns_signatures = [],
     ns_limiter = \<lparr>windows = [], window_size = 60, max_requests = 10, calls_since_sweep = 0\<rparr>,
     ns_difficulty = 0, ns_rules_complete = False\<rparr>"

lemma sample_env_fields: "ne_crypto sample_env = nonce_crypto" "ne_serialize sample_env = (\<lambda>_. [])" "ne_auto_rebuild sample_env"
  "ne_genesis_ts sample_env = Inr launch_time" "ne_now sample_env = launch_time"
  by (simp_all add: sample_env_def)

lemma try_fold_total: "\<forall>x \<in> set xs. \<forall>s. \<exists>s'. f s x = Inr s' \<Longrightarrow> \<exists>s'. try_fold f s xs = Inr s'"
proof (induction xs arbitrary: s)
  case (Cons x xs)
  then obtain s1 where "f s x = Inr s1" by (meson list.set_intros(1))
  with Cons show ?case by (simp add: result_simps)
qed (simp add: result_simps)

lemma coinbase_branch_replays:
  assumes "\<forall>b \<in> set bs. list_all is_coinbase (transactions b)"
  shows "\<exists>st'. replay_blocks bs st = Inr st'"
proof -
  have block: "list_all is_coinbase txs \<Longrightarrow> \<exists>st'. try_fold (replay_tx h) st txs = Inr st'" for h txs st
    by (intro try_fold_total) (auto simp: list_all_iff replay_tx_def Let_def)
  have "\<exists>st'. replay_apply_block_checked (index b) (transactions b) st = Inr st'" if "b \<in> set bs" for b st
    using block assms that by (cases st) (simp add: replay_apply_block_checked_def)
  then show ?thesis
    unfolding replay_blocks_def by (intro try_fold_total) blast
qed

lemma launch_authentic: "get 0 = Some launch \<Longrightarrow> authentic nonce_crypto ser get 1 = Inr [launch]"
  by (simp add: load_structurally_valid_canonical_block_def launch_fields' guard_err_def nonce_merkle result_simps)

lemma sample_stands:
  assumes "authentic nonce_crypto (\<lambda>_. []) (chain_get bs) (length bs) = Inr bs" "bs \<noteq> []" "\<forall>b \<in> set bs. list_all is_coinbase (transactions b)"
  shows "stands_at sample_env (length bs - 1) (sample_node bs orphans) \<and> get_block (sample_node bs orphans) = chain_get bs"
proof -
  let ?cc = "\<lparr>cc_rows = zip [0..<length bs] bs, cc_tip = None, cc_index = \<lparr>tree = [], marker = None\<rparr>,
      cc_registry = \<lparr>reg_tree = [], reg_index = [], reg_built = False\<rparr>\<rparr> :: chain_content"
  have rows: "hm_get (cc_rows ?cc) = chain_get bs"
  proof
    fix h
    show "hm_get (cc_rows ?cc) h = chain_get bs h"
      using map_of_zip_nth[of "[0..<length bs]" bs h] map_of_zip_is_None[of "[0..<length bs]" bs h]
      by (cases "h < length bs") (simp_all add: hm_get_def chain_get_def)
  qed
  have n: "length bs - 1 + 1 = length bs" using assms(2) by (cases bs) auto
  have scan: "highest_block_index_scan (cc_rows ?cc) = Some (length bs - 1)"
    using scan_of_chain[OF rows assms(2)] .
  obtain st where st: "replay_blocks bs ([], []) = Inr st" using coinbase_branch_replays[OF assms(3)] by blast
  have au: "authentic nonce_crypto (\<lambda>_. []) (hm_get (cc_rows ?cc)) (length bs - 1 + 1) = Inr bs"
    unfolding n rows by (rule assms(1))
  have "fst (rebuild_chain_state nonce_crypto (\<lambda>_. []) no_faults ?cc) = Inr ()"
    using rebuild_chain_state_total[OF scan au st] by (simp add: no_faults_def)
  then have "rebuild_chain_state nonce_crypto (\<lambda>_. []) no_faults ?cc = (Inr (), sample_content bs)"
    unfolding sample_content_def by (metis prod.collapse)
  then have "chain_consistent nonce_crypto (\<lambda>_. []) (sample_content bs)"
    by (rule rebuild_chain_state_sound)
  moreover have keep: "cc_rows (sample_content bs) = cc_rows ?cc"
    unfolding sample_content_def by (rule rebuild_keeps_rows)
  moreover have "hm_wf (tree (cc_index (sample_content bs)))"
    unfolding sample_content_def by (rule rebuild_keeps_wf) (simp add: hm_wf_def)
  ultimately show ?thesis
    using scan rows by (simp add: stands_at_def sample_env_fields sample_node_def get_block_def[abs_def])
qed

text \<open>The launch block with one block on top.\<close>

lemma rival_coinbase: "list_all is_coinbase (transactions (rival n))"
  using rival_txs[of n] by auto

lemma rival_stored: "to_storage_block c (rival n) = rival n"
  using rival_coinbase[of n] by (cases "rival n") (simp add: to_storage_block_def stored_transaction_def list_all_iff map_idI)

lemma rival_ids: "confirmed_ids (rival n) = []"
  using rival_txs[of n] by (auto simp: confirmed_ids_def system_is_coinbase)

lemma launch_stands: "stands_at sample_env 0 (sample_node [launch] orphans)" "get_block (sample_node [launch] orphans) = chain_get [launch]"
  using sample_stands[of "[launch]" orphans] launch_authentic[of "chain_get [launch]" "\<lambda>_. []"] launch_coinbase
  by (simp_all add: chain_get_def)

lemma two_authentic: "authentic nonce_crypto (\<lambda>_. []) (chain_get [launch, rival n]) 2 = Inr [launch, rival n]"
proof -
  let ?cv = "view_of sample_env (sample_node [launch] [])"
  have "fst (validate_block_internal ?cv RequireFull (rival n) []) = Inr ()"
    using rival_accepted[of ?cv RequireFull n "[]"] launch_stands(2)[of "[]"] by (simp add: view_of_def sample_env_fields chain_get_def)
  then have "load_structurally_valid_canonical_block nonce_crypto (\<lambda>_. []) (chain_get [launch, rival n]) (index (rival n)) (Some launch)
      = Inr (to_storage_block nonce_crypto (rival n))"
    by (rule accepted_loads_after) (simp_all add: view_of_def sample_env_fields nonce_faithful rival_fields launch_fields' chain_get_def rival_stored)
  then have "load_structurally_valid_canonical_block nonce_crypto (\<lambda>_. []) (chain_get [launch, rival n]) 1 (Some (last [launch])) = Inr (rival n)"
    by (simp add: rival_fields rival_stored)
  from authentic_snoc[OF launch_authentic[of "chain_get [launch]" "\<lambda>_. []"] _ _ this] show ?thesis
    by (simp add: chain_get_def numeral_2_eq_2)
qed

lemma two_stands: "stands_at sample_env 1 (sample_node [launch, rival n] orphans)" "get_block (sample_node [launch, rival n] orphans) = chain_get [launch, rival n]"
  using sample_stands[of "[launch, rival n]" orphans] two_authentic[of n] launch_coinbase rival_coinbase[of n]
  by (simp_all add: numeral_2_eq_2)

end
