(* ===== verification/A9_Tip_Theorems.thy ===== *)
theory A9_Tip_Theorems
  imports A9_Sample_Chain
begin

text \<open>The theorems on the ledger writer and on blocks that become the tip, applied to the sample node.\<close>

section \<open>The ledger writer\<close>


definition minting :: "transaction list" where
  "minting = transactions (rival 1)"

lemma minting_coinbase: "list_all is_coinbase minting" "rewards_first minting"
  using rival_txs[of 1] by (auto simp: minting_def rewards_first_def)

lemma minting_replays: "\<exists>st'. replay_apply_block_checked h minting st = Inr st'"
proof -
  have "\<exists>st'. try_fold (replay_tx h) s minting = Inr st'" for s
    by (intro try_fold_total) (use minting_coinbase(1) in \<open>auto simp: list_all_iff replay_tx_def Let_def\<close>)
  then show ?thesis by (cases st) (simp add: replay_apply_block_checked_def)
qed


section \<open>Tip extension\<close>


lemma minting_applies:
  assumes at: "stands_at sample_env 0 ns" "get_block ns = chain_get [launch]"
  shows "fst (process_transactions_batch sample_env minting ctx 1 ns) = Inr ()"
proof -
  obtain m q where k: "authentic (ne_crypto sample_env) (ne_serialize sample_env) (get_block ns) (0 + 1) = Inr [launch]"
    "replay_blocks [launch] ([], []) = Inr (m, q)" "index_exact 0 m (cc_index (ns_chain ns))" "highest ns = Some 0"
    using stands_chain[OF at] .
  have "fst (process_transactions_batch sample_env minting ctx (0 + 1) ns)
      = (case replay_apply_block_checked (0 + 1) minting (m, q) of Inl e \<Rightarrow> Inl e | Inr _ \<Rightarrow> Inr ())"
    by (rule process_follows_replay[OF _ sample_env_fields(3) k(1) _ k(2) _ minting_coinbase(2)])
      (use k(3,4) minting_coinbase(1) in \<open>auto simp: index_exact_def get_latest_block_index_def u32_max_def list_all_iff\<close>)
  then show ?thesis
    using minting_replays[of "0 + 1" "(m, q)"] by auto
qed

lemma minted_finalizes: "fst (finalize_block sample_env (rival 1) (sample_node [launch] orphans)) = Inr ()"
proof -
  let ?ns = "sample_node [launch] orphans"
  define b where "b = rival 1"
  have b: "index b = 1" "previous_hash b = hash launch" "transactions b = minting"
    by (simp_all add: b_def rival_fields minting_def)
  have hi: "highest ?ns = Some 0"
    using stands_chain[OF launch_stands] by metis
  have ext: "extends_tip b ?ns = Inr ()"
    by (simp add: extends_tip_def hi launch_stands(2) chain_get_def guard_err_def u32_saturating_add_def u32_max_def b)
  have val: "validated sample_env RequireFull b ?ns = (Inr (), ?ns)"
    using rival_accepted[of "view_of sample_env ?ns" RequireFull 1 "ns_signatures ?ns", folded b_def] launch_stands(2)[of orphans]
    by (simp add: validated_def view_of_def sample_env_fields chain_get_def)
  have "fst (process_transactions_batch sample_env minting BlockValidation 1 (?ns\<lparr>ns_dirty := True\<rparr>)) = Inr ()"
    by (rule minting_applies) (use launch_stands[of orphans] in \<open>simp_all add: stands_at_def get_block_def[abs_def]\<close>)
  then obtain ns1 where "process_transactions_batch sample_env minting BlockValidation 1 (?ns\<lparr>ns_dirty := True\<rparr>) = (Inr (), ns1)"
    by (metis prod.collapse)
  moreover have "finalize_gate conf imm minting p = Inr ()" for conf imm p
    using rival_txs[of 1] by (auto simp: minting_def)
  moreover have "filter (\<lambda>tx. \<not> is_coinbase tx) minting = []" "ns_dirty ?ns = False" "\<not> block_has_replayed_tx reg b" for reg
    using minting_coinbase(1) rival_ids[of 1, folded b_def] by (auto simp: list_all_iff filter_empty_conv sample_node_def block_has_replayed_tx_def)
  ultimately show ?thesis
    unfolding b_def[symmetric] by (simp add: finalize_block_def reconcile_if_dirty_def ext val b Let_def)
qed


end
