(* ===== verification/A9_Reorg_Theorems.thy ===== *)
theory A9_Reorg_Theorems
  imports A9_Tip_Theorems
begin

text \<open>The theorems on reorganisations, applied to the sample node with a rival of its tip in the pool.\<close>

section \<open>Consistency\<close>


definition rivals :: node_state where
  "rivals = sample_node [launch, rival 1] [rival 0]"

lemma rivals_stand: "stands_at sample_env 1 rivals" "get_block rivals = chain_get [launch, rival 1]"
  using two_stands[of 1 "[rival 0]"] by (simp_all add: rivals_def)

lemma rivals_pool: "orphan_blocks (pool_of (ns_orphans rivals)) = [(hash (rival 0), rival 0)]"
  "orphan_index (pool_of (ns_orphans rivals)) = [(hash launch, 1, hash (rival 0))]" "orphans_keyed (ns_orphans rivals)"
  "trusted_checkpoint_height rivals = (0, rivals)" "ns_blocked rivals = []" "ns_dirty rivals = False"
  by (auto simp: rivals_def sample_node_def pool_of_def hm_map_values_def hm_keys_def orphan_index_key_def rival_fields orphans_keyed_def
      hm_wf_def hm_get_def trusted_checkpoint_height_def split: if_splits)

lemma rivals_facts: "chain_facts [launch, rival 1]"
  using launch_coinbase rival_coinbase[of 1]
  by (auto simp: chain_facts_def less_Suc_eq launch_fields' rival_fields rival_ids u32_max_def u64_max_def launch_time_def list_all_iff
      system_is_coinbase)

lemma rival_hashes: "hash (rival 0) \<noteq> hash (rival 1)" "hash (rival 0) < hash (rival 1)" "hash (rival 0) \<noteq> hash launch"
proof -
  have less: "(xs @ [x] < xs @ [y]) = (x < y)" for xs :: string and x y
    by (induction xs) auto
  show "hash (rival 0) \<noteq> hash (rival 1)" "hash (rival 0) \<noteq> hash launch"
    by (simp_all add: rival_fields launch_fields' byte_def GENESIS_LAUNCH_NONCE_def)
  show "hash (rival 0) < hash (rival 1)"
    unfolding rival_fields less by (simp add: byte_def less_char_def)
qed

lemma rivals_attempts: "reorg_attempts (chain_get [launch, rival 1]) (pool_of (ns_orphans rivals)) 0 (rival 1) = Some [[rival 0]]"
proof -
  define a b where "a = rival 1" and "b = rival 0"
  let ?pool = "pool_of (ns_orphans rivals)" and ?get = "chain_get [launch, a]" and ?w = "work_units_for_difficulty (difficulty b)"
  have f: "index a = 1" "index b = 1" "previous_hash b = hash launch" "difficulty a = difficulty b" "hash b \<noteq> hash a" "hash b < hash a" "hash b \<noteq> hash launch"
    using rival_hashes by (simp_all add: a_def b_def rival_fields)
  have pool: "orphan_blocks ?pool = [(hash b, b)]" "orphan_index ?pool = [(hash launch, 1, hash b)]"
    by (simp_all add: rivals_pool b_def)
  have cand: "reorg_candidate ?get a b"
    using f(5)[symmetric] by (simp add: reorg_candidate_def f chain_get_def saturating_sub_def)
  have "next_children ?pool b = []"
    using f(7)[symmetric] by (auto simp: next_children_def orphan_children_of_def pool f sort_by_cmp_def List.map_filter_def)
  then have coll: "collect_orphan_branches_from ?pool b d m = [[b]]" for d m
    by (simp add: collect_orphan_branches_from_def)
  have cands: "sort_by_cmp candidate_order (filter (reorg_candidate ?get a) (hm_values (orphan_blocks ?pool))) = [b]"
    using cand by (simp add: pool hm_values_def sort_by_cmp_def)
  have ev: "evaluated_branches ?pool 0 [b] = [[b]]"
    by (simp add: evaluated_branches_def f coll MAX_REORG_BRANCHES_EVALUATED_def)
  have suffix: "canonical_suffix ?get (rev [Min (index ` set [b])..<index a + 1]) 0 [] = Some [(1, ?w)]"
    by (simp add: f chain_get_def hm_insert_def)
  have score: "score_branch [(1, ?w)] [b] = \<lparr>rk_branch = [b], rk_work = ?w, rk_canonical = ?w, rk_hash = hash b\<rparr>"
    by (simp add: score_branch_def f branch_work_to_height_def hm_get_def)
  have el: "branch_eligible a [b] ?w"
    using f(6) by (simp add: branch_eligible_def branch_work_to_height_def f not_le)
  have "reorg_attempts ?get ?pool 0 a = Some [[b]]"
    unfolding reorg_attempts_def cands suffix Let_def ev option.case
    by (simp add: score[unfolded One_nat_def] el sort_by_cmp_def MAX_REORG_ADOPT_ATTEMPTS_def)
  then show ?thesis by (simp add: a_def b_def)
qed

lemma rivals_gates: "\<exists>fs. adopt_gates sample_env [rival 0] (rival 1) rivals = (Inr (Some fs), rivals)"
proof -
  have val: "validate_branch sample_env [rival 0] rivals = (True, rivals)"
    using rival_accepted[of "view_of sample_env rivals" AllowTruncatedStored 0 "ns_signatures rivals"] rivals_stand(2)
    by (simp add: validated_def view_of_def sample_env_fields chain_get_def)
  have level: "verification_floor rivals = (35, rivals)"
    by (simp add: verification_floor_def rivals_pool WITNESS_LOSS_FLOOR_def)
  obtain m q where k: "authentic (ne_crypto sample_env) (ne_serialize sample_env) (get_block rivals) (1 + 1) = Inr [launch, rival 1]"
    "replay_blocks [launch, rival 1] ([], []) = Inr (m, q)" "index_exact 1 m (cc_index (ns_chain rivals))"
    using stands_chain[OF rivals_stand] .
  obtain fs where fs: "balances_at_fork_state (get_block rivals) (tree (cc_index (ns_chain rivals))) (marker (cc_index (ns_chain rivals))) 1 1 [rival 0] = Some fs"
    using fork_state_ok[OF k(1) _ k(2), of "cc_index (ns_chain rivals)" 1 "[rival 0]"] k(3) by (auto simp: u32_max_def)
  have "is_ok (replay_blocks [rival 0] fs)"
    using coinbase_branch_replays[of "[rival 0]" fs] rival_coinbase[of 0] by auto
  moreover have "\<not> branch_replays_below reg 1 [rival 0]" for reg
    using rival_ids[of 0] by (simp add: branch_replays_below_def)
  ultimately show ?thesis
    using fs unfolding adopt_gates_def val by (simp add: rivals_pool level witness_branch_backoff_active_def hm_simps rival_fields branch_balance_valid_def Let_def)
qed

lemma rivals_tries: "try_adopt_orphan_branch sample_env rivals = adopt_first sample_env (rival 1) [[rival 0]] rivals"
proof -
  have rec: "reconcile_if_dirty sample_env rivals = (Inr (), rivals)"
    by (simp add: reconcile_if_dirty_def rivals_pool)
  have "highest rivals = Some 1"
    using stands_chain[OF rivals_stand] by metis
  then have tip: "get_last_block rivals = Some (rival 1)"
    by (simp add: get_last_block_def rivals_stand(2) chain_get_def)
  have "reorg_candidate (chain_get [launch, rival 1]) (rival 1) (rival 0)"
    using rival_hashes(1)[symmetric] by (simp add: reorg_candidate_def rival_fields chain_get_def saturating_sub_def)
  then show ?thesis
    using rivals_attempts unfolding try_adopt_orphan_branch_def rec tip Let_def prod.case sum.case option.case
    by (simp add: rivals_pool rivals_stand(2) hm_values_def)
qed


section \<open>The replay registry across an abandoned tip\<close>

lemma prune_drops:
  assumes "hm_get (reg_index reg) (index_key ts i) \<noteq> None" "ts + prune_horizon < t" "t \<le> u64_max" "i \<noteq> []"
  shows "hm_get (reg_tree (prune_confirmed_txs t reg)) i = None"
proof -
  have "index_key ts i < be_bytes 8 (t - prune_horizon)"
    using assms(2,3) index_key_stale[of ts "t - prune_horizon" i] by simp
  with assms(1) have "index_key ts i \<in> set (stale_keys (t - prune_horizon) reg)"
    by (simp add: stale_keys_def hm_keys_iff)
  then have "i \<in> set (filter (\<lambda>i. i \<noteq> []) (map (\<lambda>k. if length k > 8 then drop 8 k else []) (stale_keys (t - prune_horizon) reg)))"
    using assms(4) by (force simp: image_iff)
  then show ?thesis
    using assms(2) by (simp add: prune_confirmed_txs_def Let_def hm.get_fold_del del: set_filter set_map)
qed

lemma prune_keeps_fresh_row:
  "ts \<le> t \<Longrightarrow> t \<le> u64_max \<Longrightarrow> hm_get (reg_index reg) (index_key t i) \<noteq> None
    \<Longrightarrow> hm_get (reg_index (prune_confirmed_txs ts reg)) (index_key t i) \<noteq> None"
  using index_key_stale[of t "ts - prune_horizon" i]
  by (auto simp: prune_confirmed_txs_def Let_def hm.get_fold_del stale_keys_def)

lemma reorg_forgets:
  assumes "hm_get (reg_tree reg) i = None" "i \<notin> set (concat (map confirmed_ids branch))"
  shows "hm_get (reg_tree (reorg_registry reverted branch reg)) i = None"
proof -
  have "hm_get (reg_tree (fold remove_confirmed_txs reverted reg)) i = None"
    using assms(1) by (induction reverted arbitrary: reg) (auto simp: remove_confirmed_txs_def get_fold_remove)
  moreover have "hm_get (reg_tree (fold record_confirmed_txs branch reg')) i = hm_get (reg_tree reg') i" for reg'
    using assms(2) by (induction branch arbitrary: reg') (auto simp: get_record_tree)
  ultimately show ?thesis
    by (auto simp: reorg_registry_def prune_confirmed_txs_def Let_def hm.get_fold_del)
qed

text \<open>C32. A reorganisation does not bring back what the abandoned tip pruned: take a payment confirmed in
  the newest block below the fork, a tip \<open>o1\<close> dated past the prune horizon of that block, and a
  sibling \<open>n1\<close> of \<open>o1\<close> dated so that the payment is still fresh.  A node that only saw \<open>n1\<close> refuses the
  payment in the next block as a replay; a node that saw \<open>o1\<close> first and then adopted \<open>n1\<close> has lost the
  registry entry and lets it through, although the block satisfies the freshness rule.\<close>

theorem reorganisation_reopens_replay:
  assumes run: "confirmed_run c ser (bs @ [to_storage_block c b]) reg" "reg = prune_confirmed_txs (block_timestamp b) (record_confirmed_txs b reg0)"
    and tx: "get_tx_id tx \<in> set (confirmed_ids b)" "\<not> is_system tx"
    and o1: "block_timestamp b + prune_horizon < block_timestamp o1" "block_timestamp o1 \<le> u64_max" "get_tx_id tx \<notin> set (confirmed_ids o1)"
    and n1: "chain_facts (bs @ [to_storage_block c b, n1])"
    and nb: "transactions nb = [r, tx]" "is_coinbase r" "index nb = length bs + 2" "block_timestamp n1 \<le> block_timestamp nb"
      "block_timestamp nb \<le> timestamp tx + MAX_TX_AGE_SECS"
  shows "block_has_replayed_tx (prune_confirmed_txs (block_timestamp n1) (record_confirmed_txs n1 reg)) nb
    \<and> \<not> block_has_replayed_tx (reorg_registry [o1] [n1] (prune_confirmed_txs (block_timestamp o1) (record_confirmed_txs o1 reg))) nb"
proof
  let ?b = "to_storage_block c b" and ?i = "get_tx_id tx"
  let ?chain = "bs @ [?b, n1]"
  have cov: "reg_covers (bs @ [?b]) reg (block_timestamp b)"
    using confirmed_run_ok[OF run(1)] by (simp add: run_ok_def)
  have facts: "distinct (concat (map confirmed_ids ?chain))" "block_timestamp b \<le> block_timestamp n1" "block_timestamp n1 \<le> u64_max"
    "block_timestamp b \<le> u64_max"
    using n1 o1 unfolding chain_facts_def by (auto simp: sorted_append nth_append dest: spec[of _ "length bs + 1"])
  have "reg_covers ((bs @ [?b]) @ [n1]) (record_confirmed_txs n1 reg) (block_timestamp b)"
    using facts(1) by (intro reg_covers_record[OF cov]) simp
  then have "reg_covers ?chain (prune_confirmed_txs (block_timestamp n1) (record_confirmed_txs n1 reg)) (block_timestamp n1)"
    using reg_covers_prune[OF _ facts(2,3) n1] by simp
  moreover have "?i \<in> set (confirmed_ids ?b)" using tx(1) by simp
  then obtain tx' where "tx' \<in> set (transactions ?b)" "\<not> is_system tx'" "?i = get_tx_id tx'"
    unfolding confirmed_ids_def[of ?b] set_map set_filter by blast
  ultimately show "block_has_replayed_tx (prune_confirmed_txs (block_timestamp n1) (record_confirmed_txs n1 reg)) nb"
    using n1 nb tx(2) by (intro fresh_payment_is_guarded[of ?chain _ "block_timestamp n1" ?b tx' tx]) simp_all
  have "hm_get (reg_index reg) (index_key (block_timestamp b) ?i) \<noteq> None"
    unfolding run(2) using tx(1) facts(4) by (intro prune_keeps_fresh_row) (simp_all add: get_record_index)
  then have "hm_get (reg_tree (prune_confirmed_txs (block_timestamp o1) (record_confirmed_txs o1 reg))) ?i = None"
    using o1 tx_id_nonempty[of tx] by (intro prune_drops[of _ "block_timestamp b"]) (auto simp: get_record_index)
  moreover have "?i \<notin> set (confirmed_ids n1)"
    using facts(1) tx(1) by auto
  ultimately have "hm_get (reg_tree (reorg_registry [o1] [n1] (prune_confirmed_txs (block_timestamp o1) (record_confirmed_txs o1 reg)))) ?i = None"
    by (intro reorg_forgets) auto
  then show "\<not> block_has_replayed_tx (reorg_registry [o1] [n1] (prune_confirmed_txs (block_timestamp o1) (record_confirmed_txs o1 reg))) nb"
    using nb(1,2) by (simp add: block_has_replayed_tx_def confirmed_ids_def system_is_coinbase confirmed_tx_index_def confirmed_tx_index_checked_def)
qed

definition empty_tip :: "u64 \<Rightarrow> block" where
  "empty_tip t = (flat_block [pay ''MINING_REWARDS'' ''miner'' 1 0] 2)\<lparr>block_timestamp := t\<rparr>"

definition replaying_block :: block where
  "replaying_block = (flat_block [pay ''MINING_REWARDS'' ''miner'' 1 0, dated_signed] 3)\<lparr>block_timestamp := launch_time\<rparr>"

theorem reorganisation_reopens_replay_witness:
  "\<exists>reg. confirmed_run hexed_crypto (\<lambda>_. '''') (launch_chain @ [to_storage_block hexed_crypto second_block]) reg
    \<and> block_has_replayed_tx (prune_confirmed_txs launch_time (record_confirmed_txs (empty_tip launch_time) reg)) replaying_block
    \<and> \<not> block_has_replayed_tx (reorg_registry [empty_tip (launch_time + prune_horizon + 1)] [empty_tip launch_time]
          (prune_confirmed_txs (launch_time + prune_horizon + 1) (record_confirmed_txs (empty_tip (launch_time + prune_horizon + 1)) reg))) replaying_block"
proof -
  let ?reg = "prune_confirmed_txs launch_time (record_confirmed_txs second_block launch_registry)"
  let ?o = "empty_tip (launch_time + prune_horizon + 1)" and ?n = "empty_tip launch_time"
  have tip: "block_timestamp (empty_tip t) = t" "index (empty_tip t) = 2" "confirmed_ids (empty_tip t) = []"
    "transactions (empty_tip t) = [pay ''MINING_REWARDS'' ''miner'' 1 0]" for t
    by (simp_all add: empty_tip_def flat_block_def confirmed_ids_def system_is_coinbase pay_def is_coinbase_def)
  have nb: "transactions replaying_block = [pay ''MINING_REWARDS'' ''miner'' 1 0, dated_signed]" "index replaying_block = 3"
    "block_timestamp replaying_block = launch_time" "is_coinbase (pay ''MINING_REWARDS'' ''miner'' 1 0)"
    by (simp_all add: replaying_block_def flat_block_def pay_def is_coinbase_def)
  have ch: "chain_facts (launch_chain @ [to_storage_block hexed_crypto second_block])"
    using confirmed_run_ok[OF launch_second_run] by (simp add: run_ok_def)
  have facts: "chain_facts (launch_chain @ [to_storage_block hexed_crypto second_block, ?n])"
    using ch by (auto simp: chain_facts_def launch_chain_def less_Suc_eq tip second_fields nb genesis_fields launch_time_def u32_max_def u64_max_def
        system_is_coinbase)
  have small: "timestamp dated_signed = launch_time" "launch_time + prune_horizon + 1 \<le> u64_max"
    by (simp_all add: dated_signed_def prune_horizon_value MAX_TX_AGE_SECS_def MAX_BLOCK_FUTURE_TIME_def launch_time_def u64_max_def)
  have "block_has_replayed_tx (prune_confirmed_txs (block_timestamp ?n) (record_confirmed_txs ?n ?reg)) replaying_block
    \<and> \<not> block_has_replayed_tx (reorg_registry [?o] [?n] (prune_confirmed_txs (block_timestamp ?o) (record_confirmed_txs ?o ?reg))) replaying_block"
    by (rule reorganisation_reopens_replay[OF launch_second_run _ _ _ _ _ _ facts nb(1,4)])
      (use second_ids dated_regular(1) small in \<open>simp_all add: tip nb second_fields system_is_coinbase launch_chain_def\<close>)
  with launch_second_run show ?thesis unfolding tip by blast
qed

end
