(* ===== verification/A9_Shards.thy ===== *)
theory A9_Shards
  imports A9_Registry_Props A9_Reward
begin

text \<open>
  The envelope of every encoded value (\<^verbatim>\<open>src/a9/codec.rs\<close>) and the erasure coding of
  \<^verbatim>\<open>src/a9/velocity.rs\<close>: framing, splitting into shards, encoding and decoding.  The
  MessagePack serializer and the Reed-Solomon code are parameters.
\<close>

section \<open>The envelope\<close>

definition CODEC_MAGIC :: string where
  "CODEC_MAGIC = ''A9MSG2'' @ [CHR 0x00, CHR 0x00]"

definition CODEC_VERSION :: nat where
  "CODEC_VERSION = 2"

definition HEADER_LEN :: usize where
  "HEADER_LEN = length CODEC_MAGIC + 2"

datatype codec_error = Encode string | Decode string | MissingEnvelope | UnsupportedVersion nat | TrailingBytes usize usize

fun codec_text :: "codec_error \<Rightarrow> string" where
  "codec_text (Encode e) = ''codec encode error: '' @ e"
| "codec_text (Decode e) = ''codec decode error: '' @ e"
| "codec_text MissingEnvelope = ''missing alphanumeric codec envelope''"
| "codec_text (UnsupportedVersion v) = ''unsupported alphanumeric codec version: '' @ show_nat v"
| "codec_text (TrailingBytes d t) = ''codec trailing bytes: decoded '' @ show_nat d @ '' of '' @ show_nat t"

text \<open>MessagePack: a decoder answers the value and the number of bytes it has read.\<close>

record 'a msgpack =
  mp_encode :: "'a \<Rightarrow> string + string"
  mp_decode :: "string \<Rightarrow> string + 'a \<times> usize"

definition codec_serialize :: "'a msgpack \<Rightarrow> 'a \<Rightarrow> codec_error + string" where
  "codec_serialize P v =
     (case mp_encode P v of Inl e \<Rightarrow> Inl (Encode e) | Inr payload \<Rightarrow> Inr (CODEC_MAGIC @ le_bytes 2 CODEC_VERSION @ payload))"

definition codec_deserialize :: "'a msgpack \<Rightarrow> string \<Rightarrow> codec_error + 'a" where
  "codec_deserialize P bs =
     (if length bs < HEADER_LEN \<or> take (length CODEC_MAGIC) bs \<noteq> CODEC_MAGIC then Inl MissingEnvelope
      else
        let version = from_le_bytes (take 2 (drop (length CODEC_MAGIC) bs)) in
        if version \<noteq> CODEC_VERSION then Inl (UnsupportedVersion version)
        else
          let payload = drop HEADER_LEN bs in
          (case mp_decode P payload of
             Inl e \<Rightarrow> Inl (Decode e)
           | Inr (v, decoded) \<Rightarrow>
               if decoded \<noteq> length payload then Inl (TrailingBytes decoded (length payload)) else Inr v))"

section \<open>Erasure coding\<close>

definition ERASURE_SHARD_COUNT :: usize where
  "ERASURE_SHARD_COUNT = 16"

definition ERASURE_PARITY_SHARD_COUNT :: usize where
  "ERASURE_PARITY_SHARD_COUNT = 4"

definition ERASURE_TOTAL_SHARD_COUNT :: usize where
  "ERASURE_TOTAL_SHARD_COUNT = ERASURE_SHARD_COUNT + ERASURE_PARITY_SHARD_COUNT"

definition ERASURE_FRAME_MAGIC :: string where
  "ERASURE_FRAME_MAGIC = ''A9E1''"

definition ERASURE_FRAME_HEADER_LEN :: usize where
  "ERASURE_FRAME_HEADER_LEN = length ERASURE_FRAME_MAGIC + 8"

datatype velocity_error =
    ShredValidation string
  | Network string
  | BlockReconstruction string
  | Encoding string
  | RateLimit
  | NoShredsFound
  | HashMismatch
  | DeserializationError string
  | ReconstructionError string

fun velocity_text :: "velocity_error \<Rightarrow> string" where
  "velocity_text (ShredValidation e) = ''Shred validation failed: '' @ e"
| "velocity_text (Network e) = ''Network error: '' @ e"
| "velocity_text (BlockReconstruction e) = ''Block reconstruction failed: '' @ e"
| "velocity_text (Encoding e) = ''Encoding error: '' @ e"
| "velocity_text RateLimit = ''Rate limit exceeded''"
| "velocity_text NoShredsFound = ''No shreds found''"
| "velocity_text HashMismatch = ''Hash mismatch''"
| "velocity_text (DeserializationError e) = ''Deserialization error: '' @ e"
| "velocity_text (ReconstructionError e) = ''Reconstruction error: '' @ e"

text \<open>The code: parity from the data shards, and all shards from those that are left.\<close>

record reed_solomon =
  encode_sep :: "string list \<Rightarrow> string + string list"
  rs_reconstruct :: "string option list \<Rightarrow> string + string option list"

definition frame_payload :: "string \<Rightarrow> string" where
  "frame_payload data = ERASURE_FRAME_MAGIC @ le_bytes 8 (length data) @ data"

definition unframe_payload :: "string \<Rightarrow> velocity_error + string" where
  "unframe_payload data =
     (if length data < ERASURE_FRAME_HEADER_LEN \<or> take (length ERASURE_FRAME_MAGIC) data \<noteq> ERASURE_FRAME_MAGIC then Inr data
      else
        let payload_len = from_le_bytes (take 8 (drop (length ERASURE_FRAME_MAGIC) data)) in
        (case checked_add ERASURE_FRAME_HEADER_LEN payload_len of
           None \<Rightarrow> Inl (Encoding ''framed payload length overflow'')
         | Some payload_end \<Rightarrow>
             if payload_end > length data then Inl (Encoding ''framed payload length exceeds decoded data'')
             else Inr (take payload_len (drop ERASURE_FRAME_HEADER_LEN data))))"

function chunks :: "nat \<Rightarrow> 'a list \<Rightarrow> 'a list list" where
  "chunks n xs = (if xs = [] \<or> n = 0 then [] else take n xs # chunks n (drop n xs))"
  by pat_completeness auto
termination by (relation "measure (\<lambda>(n, xs). length xs)") auto

declare chunks.simps [simp del]

definition div_ceil :: "nat \<Rightarrow> nat \<Rightarrow> nat" where
  "div_ceil a b = (a + b - 1) div b"

definition zero_shard :: "nat \<Rightarrow> string" where
  "zero_shard n = replicate n (CHR 0x00)"

definition data_shards :: "string \<Rightarrow> string list" where
  "data_shards payload =
     (let shard_size = max (div_ceil (length payload) ERASURE_SHARD_COUNT) 1;
          shards = map (\<lambda>chunk. chunk @ zero_shard (shard_size - length chunk)) (chunks shard_size payload)
      in shards @ replicate (ERASURE_SHARD_COUNT - length shards) (zero_shard shard_size))"

definition erasure_encode :: "reed_solomon \<Rightarrow> string \<Rightarrow> velocity_error + string list" where
  "erasure_encode R data =
     (let shards = data_shards (frame_payload data) in
      case encode_sep R shards of
        Inl e \<Rightarrow> Inl (Encoding e)
      | Inr parity \<Rightarrow> Inr (shards @ parity))"

definition erasure_decode :: "reed_solomon \<Rightarrow> string option list \<Rightarrow> velocity_error + string" where
  "erasure_decode R shards =
     (if length shards \<noteq> ERASURE_TOTAL_SHARD_COUNT then
        Inl (Encoding (''expected '' @ show_nat ERASURE_TOTAL_SHARD_COUNT @ '' shards, got '' @ show_nat (length shards)))
      else
        let available = length (filter (\<lambda>s. s \<noteq> None) shards) in
        if available < ERASURE_SHARD_COUNT then
          Inl (Encoding (''need at least '' @ show_nat ERASURE_SHARD_COUNT @ '' shards, got '' @ show_nat available))
        else
          (case rs_reconstruct R shards of
             Inl e \<Rightarrow> Inl (Encoding e)
           | Inr full \<Rightarrow> unframe_payload (concat (List.map_filter id (take ERASURE_SHARD_COUNT full)))))"

end
