(* ===== verification/A9_Velocity.thy ===== *)
theory A9_Velocity
  imports A9_Shards
begin

text \<open>
  Block propagation by shreds (\<^verbatim>\<open>src/a9/velocity.rs\<close>): the Bloom filter, the map of covered
  subnets, the cache of shreds, the reconstruction of blocks, the queue of requests and the two ways
  a block is sent.  Parameters are the LRU container, the Reed-Solomon code, the serializers, the hash
  and the network, which answers every frame that is written.  Metrics and log lines are left out.
\<close>

definition DIRECT_BLOCK_SHRED_COUNT :: u32 where
  "DIRECT_BLOCK_SHRED_COUNT = 1"

definition MAX_SUBNET_PEERS :: usize where
  "MAX_SUBNET_PEERS = 3"

definition REQUEST_TIMEOUT :: u64 where
  "REQUEST_TIMEOUT = 30"

definition MAX_MESSAGE_SIZE :: usize where
  "MAX_MESSAGE_SIZE = 4 * 1024 * 1024"

section \<open>The Bloom filter\<close>

text \<open>The number of hashes and the capacity come from logarithms; they are fields here.\<close>

record bloom_filter =
  bits :: "bool list"
  num_hashes :: usize
  max_items_before_reset :: usize
  items_count :: u64

definition bloom_hash :: "crypto \<Rightarrow> string \<Rightarrow> usize \<Rightarrow> u64" where
  "bloom_hash c data seed = from_le_bytes (take 8 (blake3 c (byte seed # data)))"

definition bloom_slot :: "crypto \<Rightarrow> bloom_filter \<Rightarrow> string \<Rightarrow> usize \<Rightarrow> usize" where
  "bloom_slot c f item i = bloom_hash c item i mod length (bits f)"

definition bloom_check :: "crypto \<Rightarrow> bloom_filter \<Rightarrow> string \<Rightarrow> bool" where
  "bloom_check c f item = list_all (\<lambda>i. bits f ! bloom_slot c f item i) [0..<num_hashes f]"

definition bloom_clear :: "bloom_filter \<Rightarrow> bloom_filter" where
  "bloom_clear f = f\<lparr>bits := map (\<lambda>_. False) (bits f), items_count := 0\<rparr>"

definition rotate_if_needed :: "bloom_filter \<Rightarrow> bloom_filter" where
  "rotate_if_needed f = (if items_count f \<ge> max_items_before_reset f then bloom_clear f else f)"

definition bloom_set :: "crypto \<Rightarrow> string \<Rightarrow> usize \<Rightarrow> bool \<times> bloom_filter \<Rightarrow> bool \<times> bloom_filter" where
  "bloom_set c item i st = (case st of (was_new, f) \<Rightarrow>
     let idx = bloom_slot c f item i in (was_new \<or> \<not> bits f ! idx, f\<lparr>bits := (bits f)[idx := True]\<rparr>))"

definition bloom_add :: "crypto \<Rightarrow> string \<Rightarrow> bloom_filter \<Rightarrow> bool \<times> bloom_filter" where
  "bloom_add c item f =
     (case fold (bloom_set c item) [0..<num_hashes f] (False, rotate_if_needed f) of
        (was_new, f') \<Rightarrow> (was_new, if was_new then f'\<lparr>items_count := wrapping_add (items_count f') 1\<rparr> else f'))"

section \<open>Subnets\<close>

text \<open>Addresses and their text: a V6 address prints its first longest run of at least two zero segments
  as two colons, and a mapped V4 address in dotted form.\<close>

datatype ip_addr = V4 "nat list" | V6 "nat list"

type_synonym socket_addr = "ip_addr \<times> nat"

fun hex_nat :: "nat \<Rightarrow> string" where
  "hex_nat n = (if n < 16 then [''0123456789abcdef'' ! n] else hex_nat (n div 16) @ [''0123456789abcdef'' ! (n mod 16)])"

declare hex_nat.simps [simp del]

fun join_with :: "string \<Rightarrow> string list \<Rightarrow> string" where
  "join_with sep [] = []"
| "join_with sep [x] = x"
| "join_with sep (x # y # ys) = x @ sep @ join_with sep (y # ys)"

fun zero_span :: "nat \<Rightarrow> nat \<times> nat \<Rightarrow> nat \<times> nat \<Rightarrow> nat list \<Rightarrow> nat \<times> nat" where
  "zero_span i longest current [] = longest"
| "zero_span i longest current (x # xs) =
     (if x = 0 then
        let start = (if snd current = 0 then i else fst current);
            cur = (start, Suc (snd current));
            long = (if snd cur > snd longest then cur else longest)
        in zero_span (Suc i) long cur xs
      else zero_span (Suc i) longest (0, 0) xs)"

fun ip_text :: "ip_addr \<Rightarrow> string" where
  "ip_text (V4 octets) = join_with ''.'' (map show_nat octets)"
| "ip_text (V6 segs) =
     (if length segs = 8 \<and> take 6 segs = [0, 0, 0, 0, 0, 65535] then
        ''::ffff:'' @ join_with ''.'' (map show_nat
          [segs ! 6 div 256, segs ! 6 mod 256, segs ! 7 div 256, segs ! 7 mod 256])
      else
        case zero_span 0 (0, 0) (0, 0) segs of
          (start, len) \<Rightarrow>
            if len > 1 then
              join_with '':'' (map hex_nat (take start segs)) @ ''::'' @ join_with '':'' (map hex_nat (drop (start + len) segs))
            else join_with '':'' (map hex_nat segs))"

record subnet_manager =
  coverage :: "bool list"
  sn_bloom :: bloom_filter
  last_update :: u64

definition ip_to_index :: "crypto \<Rightarrow> subnet_manager \<Rightarrow> ip_addr \<Rightarrow> usize" where
  "ip_to_index c sn ip = from_le_bytes (take 2 (blake3 c (ip_text ip))) mod length (coverage sn)"

definition lookup_coverage :: "crypto \<Rightarrow> ip_addr \<Rightarrow> subnet_manager \<Rightarrow> bool" where
  "lookup_coverage c ip sn =
     (let idx = ip_to_index c sn ip in bloom_check c (sn_bloom sn) (le_bytes 8 idx) \<and> coverage sn ! idx)"

definition update_coverage :: "crypto \<Rightarrow> u64 \<Rightarrow> ip_addr \<Rightarrow> bool \<Rightarrow> subnet_manager \<Rightarrow> subnet_manager" where
  "update_coverage c now ip has_coverage sn =
     (let idx = ip_to_index c sn ip;
          sn1 = (if has_coverage then sn\<lparr>sn_bloom := snd (bloom_add c (le_bytes 8 idx) (sn_bloom sn))\<rparr> else sn)
      in sn1\<lparr>coverage := (coverage sn1)[idx := has_coverage], last_update := now\<rparr>)"

section \<open>The cache of shreds\<close>

record shred =
  s_block_hash :: string
  s_index :: u32
  s_total_shreds :: u32
  s_data :: string
  s_subnet_hint :: "string option"
  s_timestamp :: u64
  s_nonce :: u64

text \<open>The container: \<open>peek\<close> reads without touching the order, \<open>get_mut\<close> makes the key the most
  recent, \<open>put\<close> inserts and may evict, and a write through the reference of \<open>get_mut\<close> replaces
  the value of a key that is there.\<close>

record ('k, 'v, 'c) lru =
  lru_peek :: "'c \<Rightarrow> 'k \<Rightarrow> 'v option"
  lru_get_mut :: "'k \<Rightarrow> 'c \<Rightarrow> 'c"
  lru_put :: "'k \<Rightarrow> 'v \<Rightarrow> 'c \<Rightarrow> 'c"
  lru_write :: "'k \<Rightarrow> 'v \<Rightarrow> 'c \<Rightarrow> 'c"

type_synonym 'c shred_lru = "(string, shred option list, 'c) lru"

record 'c shred_cache =
  sc_cache :: 'c
  sc_bloom :: bloom_filter

definition is_erasure_shred_shape :: "shred \<Rightarrow> bool" where
  "is_erasure_shred_shape s \<longleftrightarrow>
     s_total_shreds s = ERASURE_TOTAL_SHARD_COUNT \<and> s_index s < ERASURE_TOTAL_SHARD_COUNT \<and> s_data s \<noteq> []"

definition create_shred_key :: "crypto \<Rightarrow> shred \<Rightarrow> string" where
  "create_shred_key c s = blake3 c (s_block_hash s @ le_bytes 4 (s_index s) @ le_bytes 8 (s_nonce s))"

definition add_shred :: "crypto \<Rightarrow> 'c shred_lru \<Rightarrow> shred \<Rightarrow> 'c shred_cache \<Rightarrow> bool \<times> 'c shred_cache" where
  "add_shred c L s sc =
     (if \<not> is_erasure_shred_shape s then (False, sc)
      else
        let key = create_shred_key c s in
        if bloom_check c (sc_bloom sc) key then (False, sc)
        else
          let cache0 = lru_get_mut L (s_block_hash s) (sc_cache sc);
              cache = (case lru_peek L (sc_cache sc) (s_block_hash s) of
                  Some existing \<Rightarrow> cache0
                | None \<Rightarrow> lru_get_mut L (s_block_hash s) (lru_put L (s_block_hash s) (replicate (s_total_shreds s) None) cache0));
              sc1 = sc\<lparr>sc_cache := cache\<rparr>
          in case lru_peek L cache (s_block_hash s) of
               None \<Rightarrow> (False, sc1)
             | Some shreds \<Rightarrow>
                 let slot = s_index s in
                 if slot \<ge> length shreds then (False, sc1)
                 else if shreds ! slot \<noteq> None then (False, sc1)
                 else (True, sc1\<lparr>sc_cache := lru_write L (s_block_hash s) (shreds[slot := Some s]) cache,
                                 sc_bloom := snd (bloom_add c key (sc_bloom sc))\<rparr>))"

section \<open>The manager\<close>

record shred_request =
  rq_block_hash :: string
  rq_indices :: "u32 list"
  rq_from :: socket_addr

record 'c velocity_manager =
  vm_cache :: "'c shred_cache"
  vm_subnets :: subnet_manager
  pending_requests :: "(string, u64) hmap"
  request_queue :: "shred_request list"

datatype network_message = Shred shred | ShredResponse string "shred list"

text \<open>What the manager runs on.  \<open>ve_net\<close> answers the connection to a peer and the write of one frame,
  time-outs included; \<open>ve_permit\<close>: a slot of the limiter came free within a second; \<open>ve_alive\<close>: the queue
  has a receiver.\<close>

record 'c velocity_env =
  ve_crypto :: crypto
  ve_rs :: reed_solomon
  ve_lru :: "'c shred_lru"
  ve_block :: "block msgpack"
  ve_wire :: "network_message msgpack"
  ve_net :: "socket_addr \<Rightarrow> string \<Rightarrow> velocity_error + unit"
  ve_permit :: bool
  ve_alive :: bool

definition cover :: "'c velocity_env \<Rightarrow> u64 \<Rightarrow> socket_addr \<Rightarrow> 'c velocity_manager \<Rightarrow> 'c velocity_manager" where
  "cover E now peer v = v\<lparr>vm_subnets := update_coverage (ve_crypto E) now (fst peer) True (vm_subnets v)\<rparr>"

section \<open>Reconstruction\<close>

definition has_enough_erasure_shards :: "shred option list \<Rightarrow> bool" where
  "has_enough_erasure_shards shreds \<longleftrightarrow>
     length shreds = ERASURE_TOTAL_SHARD_COUNT \<and> length (filter (\<lambda>s. s \<noteq> None) shreds) \<ge> ERASURE_SHARD_COUNT"

definition cached :: "'c velocity_env \<Rightarrow> 'c velocity_manager \<Rightarrow> string \<Rightarrow> shred option list option" where
  "cached E v block_hash = lru_peek (ve_lru E) (sc_cache (vm_cache v)) block_hash"

definition is_block_complete :: "'c velocity_env \<Rightarrow> string \<Rightarrow> 'c velocity_manager \<Rightarrow> bool" where
  "is_block_complete E block_hash v =
     (case cached E v block_hash of None \<Rightarrow> False | Some shreds \<Rightarrow> has_enough_erasure_shards shreds)"

definition reconstruct_block :: "'c velocity_env \<Rightarrow> string \<Rightarrow> 'c velocity_manager \<Rightarrow> velocity_error + block" where
  "reconstruct_block E block_hash v =
     (case cached E v block_hash of
        None \<Rightarrow> Inl NoShredsFound
      | Some shreds \<Rightarrow>
          if \<not> has_enough_erasure_shards shreds then Inl NoShredsFound
          else
            (case erasure_decode (ve_rs E) (map (map_option s_data) shreds) of
               Inl e \<Rightarrow> Inl e
             | Inr data \<Rightarrow>
                 (case codec_deserialize (ve_block E) data of
                    Inl e \<Rightarrow> Inl (DeserializationError (codec_text e))
                  | Inr b \<Rightarrow>
                      if calculate_hash_for_block (ve_crypto E) b \<noteq> block_hash \<or> hash b \<noteq> block_hash then Inl HashMismatch
                      else Inr b)))"

definition try_reconstruct_block :: "'c velocity_env \<Rightarrow> string \<Rightarrow> 'c velocity_manager \<Rightarrow> velocity_error + block option" where
  "try_reconstruct_block E block_hash v =
     (if \<not> is_block_complete E block_hash v then Inr None
      else case reconstruct_block E block_hash v of Inl e \<Rightarrow> Inl e | Inr b \<Rightarrow> Inr (Some b))"

definition cache_shred :: "'c velocity_env \<Rightarrow> shred \<Rightarrow> 'c velocity_manager \<Rightarrow> bool \<times> 'c velocity_manager" where
  "cache_shred E s v =
     (case add_shred (ve_crypto E) (ve_lru E) s (vm_cache v) of (added, sc) \<Rightarrow> (added, v\<lparr>vm_cache := sc\<rparr>))"

definition process_shreds :: "'c velocity_env \<Rightarrow> string \<Rightarrow> shred list \<Rightarrow> 'c velocity_manager
    \<Rightarrow> (velocity_error + block option) \<times> 'c velocity_manager" where
  "process_shreds E block_hash shreds v0 =
     (let v = fold (\<lambda>s v. snd (cache_shred E s v)) shreds v0 in
      (if is_block_complete E block_hash v then try_reconstruct_block E block_hash v else Inr None, v))"

definition get_block_shreds :: "'c velocity_env \<Rightarrow> string \<Rightarrow> 'c velocity_manager \<Rightarrow> velocity_error + shred list" where
  "get_block_shreds E block_hash v =
     (case cached E v block_hash of Some shreds \<Rightarrow> Inr (List.map_filter id shreds) | None \<Rightarrow> Inr [])"

definition handle_direct_block_shred :: "'c velocity_env \<Rightarrow> u64 \<Rightarrow> shred \<Rightarrow> socket_addr \<Rightarrow> 'c velocity_manager
    \<Rightarrow> (velocity_error + block option) \<times> 'c velocity_manager" where
  "handle_direct_block_shred E now s from v =
     (if s_index s \<noteq> 0 then (Inl (ShredValidation ''direct block shred index must be zero''), v)
      else case codec_deserialize (ve_block E) (s_data s) of
             Inl e \<Rightarrow> (Inl (DeserializationError (codec_text e)), v)
           | Inr b \<Rightarrow>
               if calculate_hash_for_block (ve_crypto E) b \<noteq> hash b \<or> hash b \<noteq> s_block_hash s then (Inl HashMismatch, v)
               else (Inr (Some b), cover E now from v))"

section \<open>Requests\<close>

definition should_request_shreds :: "u64 \<Rightarrow> string \<Rightarrow> 'c velocity_manager \<Rightarrow> bool" where
  "should_request_shreds now block_hash v =
     (case hm_get (pending_requests v) block_hash of
        Some last_request \<Rightarrow> saturating_sub now last_request \<ge> REQUEST_TIMEOUT
      | None \<Rightarrow> True)"

definition missing_indices :: "'c velocity_env \<Rightarrow> string \<Rightarrow> 'c velocity_manager \<Rightarrow> u32 list" where
  "missing_indices E block_hash v =
     (case cached E v block_hash of
        Some shreds \<Rightarrow> map fst (filter (\<lambda>(_, s). s = None) (enumerate 0 shreds))
      | None \<Rightarrow> [])"

text \<open>\<open>None\<close>: the call does not return.  The reference that \<open>pending_requests.get\<close> answered holds the lock
  of its part of the map, and \<open>remove\<close> waits for that lock while the reference is alive.\<close>

definition request_missing_shreds :: "'c velocity_env \<Rightarrow> u64 \<Rightarrow> string \<Rightarrow> socket_addr \<Rightarrow> 'c velocity_manager
    \<Rightarrow> ((velocity_error + unit) \<times> 'c velocity_manager) option" where
  "request_missing_shreds E now block_hash from v =
     (if \<not> should_request_shreds now block_hash v then Some (Inr (), v)
      else
        let missing = missing_indices E block_hash v in
        if missing = [] then Some (Inr (), v)
        else
          case hm_get (pending_requests v) block_hash of
            Some last_request \<Rightarrow> if saturating_sub now last_request < REQUEST_TIMEOUT then Some (Inr (), v) else None
          | None \<Rightarrow>
              if \<not> ve_permit E then Some (Inl RateLimit, v)
              else if \<not> ve_alive E then Some (Inl (Network ''Failed to send shred request''), v)
              else Some (Inr (), v\<lparr>
                request_queue := request_queue v @ [\<lparr>rq_block_hash = block_hash, rq_indices = missing, rq_from = from\<rparr>],
                pending_requests := hm_insert block_hash now (pending_requests v)\<rparr>))"

definition send_message :: "'c velocity_env \<Rightarrow> u64 \<Rightarrow> string \<Rightarrow> socket_addr \<Rightarrow> network_message \<Rightarrow> 'c velocity_manager
    \<Rightarrow> (velocity_error + unit) \<times> 'c velocity_manager" where
  "send_message E now too_large peer message v =
     (case codec_serialize (ve_wire E) message of
        Inl e \<Rightarrow> (Inl (Encoding (codec_text e)), v)
      | Inr data \<Rightarrow>
          if length data > MAX_MESSAGE_SIZE then (Inl (Network too_large), v)
          else case ve_net E peer (rev (le_bytes 4 (length data)) @ data) of
                 Inl e \<Rightarrow> (Inl e, v)
               | Inr _ \<Rightarrow> (Inr (), cover E now peer v))"

definition send_shred :: "'c velocity_env \<Rightarrow> u64 \<Rightarrow> socket_addr \<Rightarrow> shred \<Rightarrow> 'c velocity_manager
    \<Rightarrow> (velocity_error + unit) \<times> 'c velocity_manager" where
  "send_shred E now peer s = send_message E now ''Shred too large'' peer (Shred s)"

definition send_shred_response :: "'c velocity_env \<Rightarrow> u64 \<Rightarrow> socket_addr \<Rightarrow> string \<Rightarrow> shred list \<Rightarrow> 'c velocity_manager
    \<Rightarrow> (velocity_error + unit) \<times> 'c velocity_manager" where
  "send_shred_response E now peer block_hash shreds =
     send_message E now ''Response too large'' peer (ShredResponse block_hash shreds)"

definition available_shreds :: "'c velocity_env \<Rightarrow> string \<Rightarrow> u32 list \<Rightarrow> 'c velocity_manager \<Rightarrow> shred list" where
  "available_shreds E block_hash indices v =
     (case cached E v block_hash of
        Some shreds \<Rightarrow> List.map_filter (\<lambda>i. if i < length shreds then shreds ! i else None) indices
      | None \<Rightarrow> [])"

definition process_shred_request :: "'c velocity_env \<Rightarrow> u64 \<Rightarrow> shred_request \<Rightarrow> 'c velocity_manager
    \<Rightarrow> (velocity_error + unit) \<times> 'c velocity_manager" where
  "process_shred_request E now rq v =
     (let available = available_shreds E (rq_block_hash rq) (rq_indices rq) v in
      if available \<noteq> [] then send_shred_response E now (rq_from rq) (rq_block_hash rq) available v else (Inr (), v))"

definition handle_shred_request :: "'c velocity_env \<Rightarrow> u64 \<Rightarrow> shred_request \<Rightarrow> 'c velocity_manager
    \<Rightarrow> (velocity_error + unit) \<times> 'c velocity_manager" where
  "handle_shred_request E now rq v =
     (let idx = take ERASURE_TOTAL_SHARD_COUNT (remdups_adj (sort (rq_indices rq)));
          available = available_shreds E (rq_block_hash rq) idx v in
      if available \<noteq> [] then send_shred_response E now (rq_from rq) (rq_block_hash rq) available v else (Inr (), v))"

text \<open>One turn of the request processor.\<close>

definition request_processor :: "'c velocity_env \<Rightarrow> u64 \<Rightarrow> 'c velocity_manager \<Rightarrow> 'c velocity_manager" where
  "request_processor E now v =
     (case request_queue v of
        [] \<Rightarrow> v
      | rq # rest \<Rightarrow> snd (process_shred_request E now rq (v\<lparr>request_queue := rest\<rparr>)))"

definition handle_shred :: "'c velocity_env \<Rightarrow> u64 \<Rightarrow> shred \<Rightarrow> socket_addr \<Rightarrow> 'c velocity_manager
    \<Rightarrow> ((velocity_error + block option) \<times> 'c velocity_manager) option" where
  "handle_shred E now s from v0 =
     (if s_total_shreds s = DIRECT_BLOCK_SHRED_COUNT then Some (handle_direct_block_shred E now s from v0)
      else
        case cache_shred E s v0 of
          (False, v) \<Rightarrow> Some (Inr None, v)
        | (True, v) \<Rightarrow>
            let v1 = cover E now from v in
            (case try_reconstruct_block E (s_block_hash s) v1 of
               Inl e \<Rightarrow> Some (Inl e, v1)
             | Inr (Some b) \<Rightarrow>
                 Some (Inr (Some b), v1\<lparr>pending_requests := hm_remove (s_block_hash s) (pending_requests v1)\<rparr>)
             | Inr None \<Rightarrow>
                 (case request_missing_shreds E now (s_block_hash s) from v1 of
                    None \<Rightarrow> None
                  | Some (Inl e, v2) \<Rightarrow> Some (Inl e, v2)
                  | Some (Inr _, v2) \<Rightarrow> Some (Inr None, v2))))"

section \<open>Sending a block\<close>

definition FAST_PATH_SIZE :: usize where
  "FAST_PATH_SIZE = 150000"

definition MAX_PARALLEL_SENDS :: usize where
  "MAX_PARALLEL_SENDS = 24"

definition MIN_LATENCY :: u64 where
  "MIN_LATENCY = 100"

definition MIN_SUCCESS_RATIO :: f64 where
  "MIN_SUCCESS_RATIO = f64_of_rat (60 / 100)"

text \<open>The peers with their latency, in the iteration order of the map.\<close>

type_synonym peers = "(socket_addr \<times> u64) list"

definition fast_peers :: "'c velocity_env \<Rightarrow> peers \<Rightarrow> 'c velocity_manager \<Rightarrow> peers" where
  "fast_peers E ps v =
     (let low = filter (\<lambda>(_, latency). latency < MIN_LATENCY) ps;
          covered = filter (\<lambda>(addr, _). lookup_coverage (ve_crypto E) (fst addr) (vm_subnets v)) low
      in take MAX_PARALLEL_SENDS (sort_key snd (if covered = [] then low else covered)))"

definition direct_shred :: "block \<Rightarrow> string \<Rightarrow> shred" where
  "direct_shred b block_bytes = \<lparr>s_block_hash = hash b, s_index = 0, s_total_shreds = 1, s_data = block_bytes,
     s_subnet_hint = None, s_timestamp = block_timestamp b, s_nonce = 0\<rparr>"

definition erasure_shred :: "block \<Rightarrow> nat \<Rightarrow> nat \<times> string \<Rightarrow> shred" where
  "erasure_shred b shred_count ish = \<lparr>s_block_hash = hash b, s_index = fst ish, s_total_shreds = shred_count, s_data = snd ish,
     s_subnet_hint = None, s_timestamp = block_timestamp b, s_nonce = fst ish\<rparr>"

fun subnet_key :: "ip_addr \<Rightarrow> ip_addr" where
  "subnet_key (V4 octets) = V4 (take 3 octets @ [0])"
| "subnet_key (V6 segs) = V6 (take 4 segs @ [0, 0, 0, 0])"

definition subnet_peers :: "peers \<Rightarrow> (ip_addr, peers) hmap" where
  "subnet_peers ps = fold (\<lambda>(addr, latency) m.
     let subnet = subnet_key (fst addr);
         group = (case hm_get m subnet of Some g \<Rightarrow> g | None \<Rightarrow> [])
     in hm_insert subnet (group @ [(addr, latency)]) m) ps []"

definition group_sends :: "block \<Rightarrow> string list \<Rightarrow> peers \<Rightarrow> (socket_addr \<times> shred) list" where
  "group_sends b shards peer_group =
     (let peer_count = min (length peer_group) MAX_SUBNET_PEERS;
          selected = take peer_count (sort_key snd peer_group) in
      if peer_count = 0 then []
      else map (\<lambda>ish. (fst (selected ! (fst ish mod length selected)), erasure_shred b (length shards) ish)) (enumerate 0 shards))"

definition erasure_sends :: "block \<Rightarrow> string list \<Rightarrow> peers \<Rightarrow> (socket_addr \<times> shred) list" where
  "erasure_sends b shards ps = concat (map (\<lambda>(_, group). group_sends b shards group) (subnet_peers ps))"

text \<open>The sends run concurrently; here they run one after the other and only the number of answers is used.\<close>

fun send_all :: "'c velocity_env \<Rightarrow> u64 \<Rightarrow> (socket_addr \<times> shred) list \<Rightarrow> 'c velocity_manager \<Rightarrow> nat \<times> 'c velocity_manager" where
  "send_all E now [] v = (0, v)"
| "send_all E now ((peer, s) # sends) v =
     (case send_shred E now peer s v of
        (r, v1) \<Rightarrow> (case send_all E now sends v1 of (n, v2) \<Rightarrow> ((case r of Inr _ \<Rightarrow> Suc n | Inl _ \<Rightarrow> n), v2)))"

definition success_ratio :: "nat \<Rightarrow> nat \<Rightarrow> f64" where
  "success_ratio successes n = f64_div_fin (f64_of_rat (of_nat successes)) (of_nat (max n 1))"

fun format_1 :: "f64 \<Rightarrow> string" where
  "format_1 (Fin q) =
     (let scaled = nat (round_half_even (\<bar>q\<bar> * 10))
      in (if q < 0 then ''-'' else []) @ show_nat (scaled div 10) @ ''.'' @ show_nat (scaled mod 10))"
| "format_1 PosInf = ''inf''"
| "format_1 NegInf = ''-inf''"
| "format_1 NaN = ''NaN''"

definition fast_path :: "'c velocity_env \<Rightarrow> u64 \<Rightarrow> block \<Rightarrow> string \<Rightarrow> peers \<Rightarrow> 'c velocity_manager \<Rightarrow> bool \<times> 'c velocity_manager" where
  "fast_path E now b block_bytes ps v =
     (let selected = fast_peers E ps v in
      if length block_bytes < FAST_PATH_SIZE \<and> selected \<noteq> [] then
        let min_confirmations = max ((length selected * 3) div 4) 1 in
        (case send_all E now (map (\<lambda>(addr, _). (addr, direct_shred b block_bytes)) selected) v of
           (successes, v') \<Rightarrow> (successes \<ge> min_confirmations, v'))
      else (False, v))"

definition process_block :: "'c velocity_env \<Rightarrow> u64 \<Rightarrow> block \<Rightarrow> peers \<Rightarrow> 'c velocity_manager
    \<Rightarrow> (velocity_error + unit) \<times> 'c velocity_manager" where
  "process_block E now b ps v =
     (case codec_serialize (ve_block E) b of
        Inl e \<Rightarrow> (Inl (Encoding (codec_text e)), v)
      | Inr block_bytes \<Rightarrow>
          (case fast_path E now b block_bytes ps v of
             (True, v1) \<Rightarrow> (Inr (), v1)
           | (False, v1) \<Rightarrow>
               (case erasure_encode (ve_rs E) block_bytes of
                  Inl e \<Rightarrow> (Inl (Encoding (velocity_text e)), v1)
                | Inr shards \<Rightarrow>
                    let sends = erasure_sends b shards ps in
                    (case send_all E now sends v1 of
                       (successes, v2) \<Rightarrow>
                         let ratio = success_ratio successes (length sends) in
                         if f64_le MIN_SUCCESS_RATIO ratio then (Inr (), v2)
                         else (Inl (ShredValidation (''Insufficient propagation: '' @ format_1 (f64_mul_fin ratio 100) @ ''%'')), v2)))))"

end
