(* ===== verification/A9_Shards_Props.thy ===== *)
theory A9_Shards_Props
  imports A9_Shards
begin

text \<open>
  The envelope and the erasure code give back what was sent.  The contract of the Reed-Solomon code
  is the locale \<open>erasure_code\<close>.
\<close>

section \<open>The envelope\<close>

lemma header_take:
  "take (length CODEC_MAGIC) (CODEC_MAGIC @ le_bytes 2 CODEC_VERSION @ p) = CODEC_MAGIC"
  "take 2 (drop (length CODEC_MAGIC) (CODEC_MAGIC @ le_bytes 2 CODEC_VERSION @ p)) = le_bytes 2 CODEC_VERSION"
  "drop HEADER_LEN (CODEC_MAGIC @ le_bytes 2 CODEC_VERSION @ p) = p"
  by (simp_all add: HEADER_LEN_def length_le_bytes)

lemma codec_roundtrip:
  assumes "mp_encode P v = Inr p" "mp_decode P p = Inr (v, length p)"
  shows "\<exists>bs. codec_serialize P v = Inr bs \<and> codec_deserialize P bs = Inr v"
proof -
  have "from_le_bytes (le_bytes 2 CODEC_VERSION) = CODEC_VERSION" by (rule le_bytes_value) (simp add: CODEC_VERSION_def)
  then show ?thesis
    using assms header_take[of p] by (simp add: codec_serialize_def codec_deserialize_def Let_def HEADER_LEN_def length_le_bytes)
qed

section \<open>Shards\<close>

lemma concat_chunks: "0 < n \<Longrightarrow> concat (chunks n xs) = xs"
  by (induction n xs rule: chunks.induct) (subst chunks.simps, auto)

lemma length_chunks: "0 < n \<Longrightarrow> length xs \<le> k * n \<Longrightarrow> length (chunks n xs) \<le> k"
proof (induction n xs arbitrary: k rule: chunks.induct)
  case (1 n xs)
  show ?case
  proof (cases "xs = []")
    case False
    with 1 obtain k' where k: "k = Suc k'" by (cases k) auto
    with 1 False have "length (chunks n (drop n xs)) \<le> k'" by auto
    with k False 1 show ?thesis by (subst chunks.simps) simp
  qed (subst chunks.simps, simp)
qed

lemma padded_chunks:
  "0 < n \<Longrightarrow> \<exists>k. concat (map (\<lambda>chunk. chunk @ zero_shard (n - length chunk)) (chunks n xs)) = xs @ zero_shard k"
proof (induction n xs rule: chunks.induct)
  case (1 n xs)
  show ?case
  proof (cases "xs = []")
    case True
    then show ?thesis by (subst chunks.simps) (auto simp: zero_shard_def intro: exI[of _ 0])
  next
    case ne: False
    show ?thesis
    proof (cases "length xs \<le> n")
      case True
      then have "chunks n (drop n xs) = []" by (subst chunks.simps) simp
      with ne True 1(2) show ?thesis by (subst chunks.simps) (auto intro: exI[of _ "n - length xs"])
    next
      case False
      from 1(1)[OF _ 1(2)] ne 1(2) obtain k where
        "concat (map (\<lambda>chunk. chunk @ zero_shard (n - length chunk)) (chunks n (drop n xs))) = drop n xs @ zero_shard k" by auto
      with ne False 1(2) show ?thesis by (subst chunks.simps) (auto simp: zero_shard_def intro: exI[of _ k])
    qed
  qed
qed

lemma chunk_size: "0 < n \<Longrightarrow> c \<in> set (chunks n xs) \<Longrightarrow> length c \<le> n"
proof (induction n xs rule: chunks.induct)
  case (1 n xs)
  from 1(3) have "xs \<noteq> []" "c = take n xs \<or> c \<in> set (chunks n (drop n xs))"
    by (subst (asm) chunks.simps, auto split: if_splits)+
  with 1(1,2) show ?case by auto
qed

lemma concat_zero: "concat (replicate m (zero_shard n)) = zero_shard (m * n)"
  by (induction m) (auto simp: zero_shard_def replicate_add)

text \<open>Sixteen shards of one size that hold the payload, followed by zeros.\<close>

lemma data_shards_ok:
  defines "n payload \<equiv> max (div_ceil (length payload) ERASURE_SHARD_COUNT) 1"
  shows "length (data_shards payload) = ERASURE_SHARD_COUNT \<and> (\<exists>m > 0. \<forall>d \<in> set (data_shards payload). length d = m)
    \<and> (\<exists>k. concat (data_shards payload) = payload @ zero_shard k)"
proof -
  let ?n = "n payload" and ?cs = "chunks (n payload) payload"
  have pos: "0 < ?n" by (simp add: n_def)
  have ds: "data_shards payload = map (\<lambda>chunk. chunk @ zero_shard (?n - length chunk)) ?cs
      @ replicate (ERASURE_SHARD_COUNT - length ?cs) (zero_shard ?n)"
    by (simp add: data_shards_def Let_def n_def)
  have "length payload \<le> div_ceil (length payload) 16 * 16"
    unfolding div_ceil_def by linarith
  then have "length payload \<le> ERASURE_SHARD_COUNT * ?n" by (simp add: n_def ERASURE_SHARD_COUNT_def max_def)
  then have len: "length ?cs \<le> ERASURE_SHARD_COUNT" by (rule length_chunks[OF pos])
  obtain k where "concat (map (\<lambda>chunk. chunk @ zero_shard (?n - length chunk)) ?cs) = payload @ zero_shard k"
    using padded_chunks[OF pos] by blast
  then have "concat (data_shards payload) = payload @ zero_shard (k + (ERASURE_SHARD_COUNT - length ?cs) * ?n)"
    unfolding ds by (simp add: concat_zero) (simp add: zero_shard_def replicate_add)
  moreover have "length d = ?n" if "d \<in> set (data_shards payload)" for d
    using that unfolding ds by (auto simp: zero_shard_def dest: chunk_size[OF pos])
  moreover have "length (data_shards payload) = ERASURE_SHARD_COUNT" using len unfolding ds by simp
  ultimately show ?thesis using pos by blast
qed

lemma unframe_frame:
  assumes "ERASURE_FRAME_HEADER_LEN + length data \<le> u64_max"
  shows "unframe_payload (frame_payload data @ zs) = Inr data"
proof -
  let ?f = "frame_payload data @ zs"
  have t: "take (length ERASURE_FRAME_MAGIC) ?f = ERASURE_FRAME_MAGIC" "take 8 (drop (length ERASURE_FRAME_MAGIC) ?f) = le_bytes 8 (length data)"
    "drop ERASURE_FRAME_HEADER_LEN ?f = data @ zs"
    by (simp_all add: frame_payload_def ERASURE_FRAME_HEADER_LEN_def length_le_bytes)
  have "from_le_bytes (le_bytes 8 (length data)) = length data"
    using assms by (intro le_bytes_value) (simp add: u64_max_def)
  moreover have "length ?f = ERASURE_FRAME_HEADER_LEN + length data + length zs"
    by (simp add: frame_payload_def ERASURE_FRAME_HEADER_LEN_def length_le_bytes)
  ultimately show ?thesis using assms t by (simp add: unframe_payload_def Let_def checked_add_def)
qed

text \<open>The code: sixteen shards of one size give four parity shards, and any sixteen of the twenty give all
  of them back.\<close>

locale erasure_code =
  fixes R :: reed_solomon
  assumes encode_ok: "length D = ERASURE_SHARD_COUNT \<Longrightarrow> 0 < n \<Longrightarrow> (\<And>d. d \<in> set D \<Longrightarrow> length d = n) \<Longrightarrow>
      \<exists>Pa. encode_sep R D = Inr Pa \<and> length Pa = ERASURE_PARITY_SHARD_COUNT \<and> [] \<notin> set Pa"
    and reconstruct_ok: "length D = ERASURE_SHARD_COUNT \<Longrightarrow> 0 < n \<Longrightarrow> (\<And>d. d \<in> set D \<Longrightarrow> length d = n) \<Longrightarrow>
      encode_sep R D = Inr Pa \<Longrightarrow> length S = ERASURE_TOTAL_SHARD_COUNT \<Longrightarrow>
      (\<And>i. i < ERASURE_TOTAL_SHARD_COUNT \<Longrightarrow> S ! i = None \<or> S ! i = Some ((D @ Pa) ! i)) \<Longrightarrow>
      ERASURE_SHARD_COUNT \<le> length (filter (\<lambda>s. s \<noteq> None) S) \<Longrightarrow> rs_reconstruct R S = Inr (map Some (D @ Pa))"
begin

lemma encode_shape:
  "\<exists>H. erasure_encode R data = Inr H \<and> length H = ERASURE_TOTAL_SHARD_COUNT \<and> [] \<notin> set H"
proof -
  let ?D = "data_shards (frame_payload data)"
  note ok = data_shards_ok[of "frame_payload data"]
  then obtain n where n: "0 < n" "\<And>d. d \<in> set ?D \<Longrightarrow> length d = n" by blast
  obtain Pa where "encode_sep R ?D = Inr Pa" "length Pa = ERASURE_PARITY_SHARD_COUNT" "[] \<notin> set Pa"
    using encode_ok[of ?D n] ok n by auto
  moreover have "[] \<notin> set ?D" using n by fastforce
  ultimately show ?thesis using ok by (simp add: erasure_encode_def Let_def ERASURE_TOTAL_SHARD_COUNT_def)
qed

lemma decode_encoded:
  assumes H: "erasure_encode R data = Inr H" and fit: "ERASURE_FRAME_HEADER_LEN + length data \<le> u64_max"
    and S: "length S = ERASURE_TOTAL_SHARD_COUNT" "\<And>i. i < ERASURE_TOTAL_SHARD_COUNT \<Longrightarrow> S ! i = None \<or> S ! i = Some (H ! i)"
    and enough: "ERASURE_SHARD_COUNT \<le> length (filter (\<lambda>s. s \<noteq> None) S)"
  shows "erasure_decode R S = Inr data"
proof -
  let ?D = "data_shards (frame_payload data)"
  note ok = data_shards_ok[of "frame_payload data"]
  then obtain n where n: "0 < n" "\<And>d. d \<in> set ?D \<Longrightarrow> length d = n" by blast
  from H obtain Pa where Pa: "encode_sep R ?D = Inr Pa" "H = ?D @ Pa"
    by (auto simp: erasure_encode_def Let_def split: sum.splits)
  have "rs_reconstruct R S = Inr (map Some (?D @ Pa))"
    using reconstruct_ok[of ?D n Pa S] ok n Pa S enough by auto
  moreover have "concat (List.map_filter id (take ERASURE_SHARD_COUNT (map Some (?D @ Pa)))) = concat ?D"
    using ok by (simp add: List.map_filter_def o_def)
  moreover obtain k where "concat ?D = frame_payload data @ zero_shard k" using ok by blast
  ultimately show ?thesis using S(1) enough unframe_frame[OF fit] by (simp add: erasure_decode_def Let_def)
qed

end

text \<open>A code with the contract, for concrete inputs: every parity shard carries all the data, each byte
  of it preceded by a mark and the shards closed by another.\<close>

fun pack_shards :: "string list \<Rightarrow> string" where
  "pack_shards [] = []"
| "pack_shards (d # ds) = concat (map (\<lambda>b. [CHR 0x01, b]) d) @ CHR 0x00 # pack_shards ds"

fun unpack_shards :: "string \<Rightarrow> string \<Rightarrow> string list" where
  "unpack_shards acc (x # xs) =
     (if x = CHR 0x00 then acc # unpack_shards [] xs
      else case xs of [] \<Rightarrow> [] | b # ys \<Rightarrow> unpack_shards (acc @ [b]) ys)"
| "unpack_shards acc [] = []"

definition copy_code :: reed_solomon where
  "copy_code = \<lparr>encode_sep = (\<lambda>D. Inr (replicate 4 (pack_shards D))),
     rs_reconstruct = (\<lambda>S.
       case List.map_filter id (drop 16 S) of
         p # _ \<Rightarrow> Inr (map Some (unpack_shards [] p @ replicate 4 p))
       | [] \<Rightarrow> let D = List.map_filter id (take 16 S) in Inr (map Some (D @ replicate 4 (pack_shards D))))\<rparr>"

lemma unpack_one: "unpack_shards acc (concat (map (\<lambda>b. [CHR 0x01, b]) d) @ xs) = unpack_shards (acc @ d) xs"
  by (induction d arbitrary: acc) auto

lemma unpack_pack: "unpack_shards [] (pack_shards D) = D"
  by (induction D) (auto simp: unpack_one)

lemma map_filter_id: "List.map_filter id xs = map the (filter (\<lambda>x. x \<noteq> None) xs)"
  by (simp add: List.map_filter_def)

lemma copy_reconstruct:
  fixes D :: "string list"
  assumes D: "length D = 16" and S: "length S = 20"
    and agree: "\<And>i. i < 20 \<Longrightarrow> S ! i = None \<or> S ! i = Some ((D @ replicate 4 (pack_shards D)) ! i)"
    and enough: "16 \<le> length (filter (\<lambda>s. s \<noteq> None) S)"
  shows "rs_reconstruct copy_code S = Inr (map Some (D @ replicate 4 (pack_shards D)))"
proof -
  let ?p = "pack_shards D" and ?hi = "filter (\<lambda>s. s \<noteq> None) (drop 16 S)" and ?lo = "filter (\<lambda>s. s \<noteq> None) (take 16 S)"
  have hi: "x = Some ?p" if x: "x \<in> set ?hi" for x
  proof -
    from x obtain j where j: "j < 4" "x = S ! (16 + j)" "x \<noteq> None" using S by (auto simp: in_set_conv_nth)
    with agree[of "16 + j"] D show ?thesis by (auto simp: nth_append)
  qed
  show ?thesis
  proof (cases ?hi)
    case (Cons x xs)
    then have "x = Some ?p" using hi by simp
    with Cons show ?thesis by (simp add: copy_code_def map_filter_id unpack_pack)
  next
    case Nil
    have "length ?lo + length ?hi = length (filter (\<lambda>s. s \<noteq> None) S)"
      by (metis append_take_drop_id filter_append length_append)
    with Nil enough have "length (take 16 S) \<le> length ?lo" using S by simp
    then have ne: "x \<noteq> None" if "x \<in> set (take 16 S)" for x
      using length_filter_less[OF that, of "\<lambda>s. s \<noteq> None"] by linarith
    then have all: "?lo = take 16 S" by (simp add: filter_id_conv)
    have "map the (take 16 S) = D"
    proof (rule nth_equalityI)
      fix i assume "i < length (map the (take 16 S))"
      then have i: "i < 16" "i < length (take 16 S)" using S by auto
      have "S ! i \<noteq> None" using ne[OF nth_mem[OF i(2)]] i(1) by simp
      then have "S ! i = Some (D ! i)" using i(1) agree[of i] D by (auto simp: nth_append)
      then show "map the (take 16 S) ! i = D ! i" using i by simp
    qed (use D S in auto)
    with Nil all show ?thesis by (simp add: copy_code_def map_filter_id Let_def)
  qed
qed

interpretation copy_code: erasure_code copy_code
proof
  fix D :: "string list" and n
  assume "length D = ERASURE_SHARD_COUNT"
  then have "pack_shards D \<noteq> []" by (cases D) (auto simp: ERASURE_SHARD_COUNT_def)
  then show "\<exists>Pa. encode_sep copy_code D = Inr Pa \<and> length Pa = ERASURE_PARITY_SHARD_COUNT \<and> [] \<notin> set Pa"
    by (simp add: copy_code_def ERASURE_PARITY_SHARD_COUNT_def)
next
  fix D :: "string list" and n Pa S
  assume "length D = ERASURE_SHARD_COUNT" "encode_sep copy_code D = Inr Pa" "length S = ERASURE_TOTAL_SHARD_COUNT"
    "\<And>i. i < ERASURE_TOTAL_SHARD_COUNT \<Longrightarrow> S ! i = None \<or> S ! i = Some ((D @ Pa) ! i)"
    "ERASURE_SHARD_COUNT \<le> length (filter (\<lambda>s. s \<noteq> None) S)"
  then show "rs_reconstruct copy_code S = Inr (map Some (D @ Pa))"
    using copy_reconstruct[of D S]
    by (simp add: copy_code_def ERASURE_SHARD_COUNT_def ERASURE_TOTAL_SHARD_COUNT_def ERASURE_PARITY_SHARD_COUNT_def)
qed

end
