(* ===== verification/A9_Velocity_Props.thy ===== *)
theory A9_Velocity_Props
  imports A9_Velocity A9_Shards_Props
begin

text \<open>
  What block propagation promises: the filter never forgets what it has just been given, the cache
  keeps the first shred of every slot, honest shreds give the block they were cut from, a block is only
  handed out under its own hash, and every subnet is sent every shard.  The contract of the LRU
  container is the locale \<open>lru_contract\<close>.
\<close>

section \<open>The filter\<close>

lemma bloom_set_frame:
  "num_hashes (snd (bloom_set c item i st)) = num_hashes (snd st) \<and> length (bits (snd (bloom_set c item i st))) = length (bits (snd st))"
  by (cases st) (simp add: bloom_set_def Let_def)

lemma bloom_fold_frame:
  "num_hashes (snd (fold (bloom_set c item) is st)) = num_hashes (snd st)
     \<and> length (bits (snd (fold (bloom_set c item) is st))) = length (bits (snd st))"
  by (induction "is" arbitrary: st) (simp_all add: bloom_set_frame)

lemma bloom_fold_mono:
  "j < length (bits (snd st)) \<Longrightarrow> bits (snd st) ! j \<Longrightarrow> bits (snd (fold (bloom_set c item) is st)) ! j"
proof (induction "is" arbitrary: st)
  case (Cons i "is")
  have "bits (snd (bloom_set c item i st)) ! j"
    using Cons.prems by (cases st, cases "bloom_slot c (snd st) item i = j") (simp_all add: bloom_set_def Let_def)
  then show ?case using Cons.IH[of "bloom_set c item i st"] Cons.prems(1) by (simp add: bloom_set_frame)
qed simp

lemma bloom_fold_sets:
  assumes "0 < length (bits (snd st))" "i \<in> set is"
  shows "bits (snd (fold (bloom_set c item) is st)) ! (bloom_hash c item i mod length (bits (snd st)))"
  using assms
proof (induction "is" arbitrary: st)
  case (Cons j "is")
  let ?st = "bloom_set c item j st"
  have len: "length (bits (snd ?st)) = length (bits (snd st))" by (simp add: bloom_set_frame)
  show ?case
  proof (cases "i = j")
    case True
    have "bits (snd ?st) ! (bloom_hash c item j mod length (bits (snd st)))"
      using Cons.prems(1) by (cases st) (simp add: bloom_set_def Let_def bloom_slot_def)
    then show ?thesis using bloom_fold_mono[of _ ?st] Cons.prems(1) len True by simp
  next
    case False
    then show ?thesis using Cons.IH[of ?st] Cons.prems len by simp
  qed
qed simp

lemma rotate_frame:
  "num_hashes (rotate_if_needed f) = num_hashes f \<and> length (bits (rotate_if_needed f)) = length (bits f)"
  by (simp add: rotate_if_needed_def bloom_clear_def)

text \<open>An item that was added is found, until the filter is cleared.\<close>

theorem bloom_no_false_negative:
  assumes "0 < length (bits f)"
  shows "bloom_check c (snd (bloom_add c item f)) item
    \<and> (items_count f < max_items_before_reset f \<longrightarrow> bloom_check c f other \<longrightarrow> bloom_check c (snd (bloom_add c item f)) other)"
proof -
  let ?st = "(False, rotate_if_needed f)"
  let ?g = "snd (fold (bloom_set c item) [0..<num_hashes f] ?st)"
  have g: "num_hashes (snd (bloom_add c item f)) = num_hashes f" "bits (snd (bloom_add c item f)) = bits ?g"
    "length (bits ?g) = length (bits f)"
    using bloom_fold_frame[of c item "[0..<num_hashes f]" ?st] rotate_frame[of f]
    by (auto simp: bloom_add_def split: prod.splits)
  have "bits ?g ! (bloom_hash c item i mod length (bits f))" if "i < num_hashes f" for i
    using bloom_fold_sets[of ?st i "[0..<num_hashes f]" c item] assms that rotate_frame[of f] by simp
  moreover have "bits ?g ! (bloom_hash c other i mod length (bits f))"
    if "i < num_hashes f" "items_count f < max_items_before_reset f" "bloom_check c f other" for i
    using bloom_fold_mono[of "bloom_hash c other i mod length (bits f)" ?st c item "[0..<num_hashes f]"] that assms
    by (auto simp: rotate_if_needed_def bloom_check_def list_all_iff bloom_slot_def)
  ultimately show ?thesis using g by (auto simp: bloom_check_def list_all_iff bloom_slot_def)
qed

section \<open>The cache\<close>

text \<open>The container: an entry stays what it was until it is written or evicted, and the entry that was put
  is there.\<close>

locale lru_contract =
  fixes L :: "('k, 'v, 'c) lru"
  assumes peek_get_mut: "lru_peek L (lru_get_mut L k c) k' = lru_peek L c k'"
    and peek_put: "lru_peek L (lru_put L k v c) k = Some v"
    and peek_put_other: "k' \<noteq> k \<Longrightarrow> lru_peek L (lru_put L k v c) k' \<in> {None, lru_peek L c k'}"
    and peek_write: "lru_peek L c k \<noteq> None \<Longrightarrow> lru_peek L (lru_write L k v c) k' = (if k' = k then Some v else lru_peek L c k')"
begin

lemma slot_entry:
  "lru_peek L (case lru_peek L c h of Some _ \<Rightarrow> lru_get_mut L h c
      | None \<Rightarrow> lru_get_mut L h (lru_put L h e (lru_get_mut L h c))) h
     = Some (case lru_peek L c h of Some v \<Rightarrow> v | None \<Rightarrow> e)"
  by (simp add: peek_get_mut peek_put split: option.split)

lemma slot_other:
  "h' \<noteq> h \<Longrightarrow> lru_peek L (case lru_peek L c h of Some _ \<Rightarrow> lru_get_mut L h c
      | None \<Rightarrow> lru_get_mut L h (lru_put L h e (lru_get_mut L h c))) h' \<in> {None, lru_peek L c h'}"
  using peek_put_other[of h' h e "lru_get_mut L h c"] by (auto simp: peek_get_mut split: option.split)

end

text \<open>The container of the \<open>lru\<close> library as a list, the most recent entry first.\<close>

definition lru_list :: "nat \<Rightarrow> ('k, 'v, ('k \<times> 'v) list) lru" where
  "lru_list cap = \<lparr>lru_peek = map_of,
     lru_get_mut = (\<lambda>k c. case map_of c k of None \<Rightarrow> c | Some v \<Rightarrow> (k, v) # AList.delete k c),
     lru_put = (\<lambda>k v c. (k, v) # take (cap - 1) (AList.delete k c)),
     lru_write = (\<lambda>k v c. AList.update k v c)\<rparr>"

lemma map_of_take: "map_of (take n xs) k \<in> {None, map_of xs k}"
proof (induction xs arbitrary: n)
  case (Cons x xs)
  then show ?case by (cases n) (auto split: if_splits)
qed simp

interpretation lru_list: lru_contract "lru_list cap"
proof
  fix k k' :: 'a and v :: 'b and c :: "('a \<times> 'b) list"
  show "lru_peek (lru_list cap) (lru_get_mut (lru_list cap) k c) k' = lru_peek (lru_list cap) c k'"
    by (auto simp: lru_list_def delete_conv' split: option.split)
  show "lru_peek (lru_list cap) (lru_put (lru_list cap) k v c) k = Some v" by (simp add: lru_list_def)
  show "k' \<noteq> k \<Longrightarrow> lru_peek (lru_list cap) (lru_put (lru_list cap) k v c) k' \<in> {None, lru_peek (lru_list cap) c k'}"
    using map_of_take[of "cap - 1" "AList.delete k c" k'] by (auto simp: lru_list_def delete_conv')
  show "lru_peek (lru_list cap) c k \<noteq> None \<Longrightarrow>
      lru_peek (lru_list cap) (lru_write (lru_list cap) k v c) k' = (if k' = k then Some v else lru_peek (lru_list cap) c k')"
    by (simp add: lru_list_def update_conv')
qed

text \<open>What one shred does to the cache: it takes an empty slot of its block or changes no slot, and only
  the entries of other blocks may be evicted.\<close>

definition slots_of :: "'c shred_lru \<Rightarrow> 'c shred_cache \<Rightarrow> string \<Rightarrow> shred option list" where
  "slots_of L sc h = (case lru_peek L (sc_cache sc) h of Some ss \<Rightarrow> ss | None \<Rightarrow> replicate ERASURE_TOTAL_SHARD_COUNT None)"

lemma add_shred_cases:
  fixes L :: "'c shred_lru"
  assumes "lru_contract L"
  obtains (refused) sc' where "add_shred c L s sc = (False, sc')" "slots_of L sc' (s_block_hash s) = slots_of L sc (s_block_hash s)"
      "\<And>h. h \<noteq> s_block_hash s \<Longrightarrow> lru_peek L (sc_cache sc') h \<in> {None, lru_peek L (sc_cache sc) h}"
  | (added) sc' where "add_shred c L s sc = (True, sc')" "is_erasure_shred_shape s" "s_index s < length (slots_of L sc (s_block_hash s))"
      "slots_of L sc (s_block_hash s) ! s_index s = None"
      "lru_peek L (sc_cache sc') (s_block_hash s) = Some ((slots_of L sc (s_block_hash s))[s_index s := Some s])"
      "\<And>h. h \<noteq> s_block_hash s \<Longrightarrow> lru_peek L (sc_cache sc') h \<in> {None, lru_peek L (sc_cache sc) h}"
proof -
  let ?h = "s_block_hash s" and ?key = "create_shred_key c s"
  define e :: "shred option list" where "e = replicate (s_total_shreds s) None"
  define cache where "cache = (case lru_peek L (sc_cache sc) ?h of Some _ \<Rightarrow> lru_get_mut L ?h (sc_cache sc)
      | None \<Rightarrow> lru_get_mut L ?h (lru_put L ?h e (lru_get_mut L ?h (sc_cache sc))))"
  note L = lru_contract.slot_entry[OF assms, where c = "sc_cache sc" and h = ?h and e = e, folded cache_def]
    lru_contract.slot_other[OF assms, where c = "sc_cache sc" and h = ?h and e = e, folded cache_def]
  show ?thesis
  proof (cases "is_erasure_shred_shape s \<and> \<not> bloom_check c (sc_bloom sc) ?key")
    case False
    then have "add_shred c L s sc = (False, sc)" by (auto simp: add_shred_def Let_def)
    then show ?thesis by (rule refused) simp_all
  next
    case True
    have ss: "lru_peek L cache ?h = Some (slots_of L sc ?h)"
      using L(1) True by (simp add: slots_of_def e_def is_erasure_shred_shape_def split: option.splits)
    have step: "add_shred c L s sc = (let ss = slots_of L sc ?h in
        if s_index s \<ge> length ss \<or> ss ! s_index s \<noteq> None then (False, sc\<lparr>sc_cache := cache\<rparr>)
        else (True, sc\<lparr>sc_cache := lru_write L ?h (ss[s_index s := Some s]) cache, sc_bloom := snd (bloom_add c ?key (sc_bloom sc))\<rparr>))"
      using True ss unfolding add_shred_def Let_def cache_def[symmetric] e_def[symmetric] by simp
    have other: "lru_peek L cache h \<in> {None, lru_peek L (sc_cache sc) h}" if "h \<noteq> ?h" for h using L(2) that by blast
    show ?thesis
    proof (cases "s_index s \<ge> length (slots_of L sc ?h) \<or> slots_of L sc ?h ! s_index s \<noteq> None")
      case True
      then have "add_shred c L s sc = (False, sc\<lparr>sc_cache := cache\<rparr>)" using step by (simp add: Let_def)
      then show ?thesis by (rule refused) (use ss other in \<open>simp_all add: slots_of_def\<close>)
    next
      case False
      then have "add_shred c L s sc = (True, sc\<lparr>sc_cache := lru_write L ?h ((slots_of L sc ?h)[s_index s := Some s]) cache,
          sc_bloom := snd (bloom_add c ?key (sc_bloom sc))\<rparr>)" using step by (simp add: Let_def)
      then show ?thesis
        by (rule added) (use True False ss other lru_contract.peek_write[OF assms] in \<open>auto\<close>)
    qed
  qed
qed

section \<open>Honest shreds\<close>

text \<open>\<open>H\<close> are the shards of the block \<open>h\<close>: a shred that names the block carries the shard of its index.\<close>

definition honest_shred :: "string \<Rightarrow> string list \<Rightarrow> shred \<Rightarrow> bool" where
  "honest_shred h H s \<longleftrightarrow> (s_block_hash s = h \<longrightarrow> s_index s < length H \<longrightarrow> s_data s = H ! s_index s)"

definition slots_honest :: "string list \<Rightarrow> shred option list \<Rightarrow> bool" where
  "slots_honest H ss \<longleftrightarrow> length ss = ERASURE_TOTAL_SHARD_COUNT
     \<and> (\<forall>i < ERASURE_TOTAL_SHARD_COUNT. map_option s_data (ss ! i) \<in> {None, Some (H ! i)})"

definition filled :: "shred option list \<Rightarrow> nat" where
  "filled ss = length (filter (\<lambda>s. s \<noteq> None) ss)"

fun accepted :: "'c velocity_env \<Rightarrow> shred list \<Rightarrow> 'c velocity_manager \<Rightarrow> nat" where
  "accepted E [] v = 0"
| "accepted E (s # ss) v = (if fst (cache_shred E s v) then Suc else id) (accepted E ss (snd (cache_shred E s v)))"

abbreviation manager_slots :: "'c velocity_env \<Rightarrow> string \<Rightarrow> 'c velocity_manager \<Rightarrow> shred option list" where
  "manager_slots E h v \<equiv> slots_of (ve_lru E) (vm_cache v) h"

lemma filled_update: "i < length ss \<Longrightarrow> ss ! i = None \<Longrightarrow> filled (ss[i := Some s]) = Suc (filled ss)"
proof (induction ss arbitrary: i)
  case (Cons x ss)
  then show ?case by (cases i) (auto simp: filled_def)
qed (simp add: filled_def)

lemma filled_none: "filled (replicate n None) = 0"
  by (simp add: filled_def)

lemma slots_honest_none: "slots_honest H (replicate ERASURE_TOTAL_SHARD_COUNT None)"
  by (simp add: slots_honest_def)

lemma complete_iff: "is_block_complete E h v \<longleftrightarrow> has_enough_erasure_shards (manager_slots E h v)"
  using filled_none[of ERASURE_TOTAL_SHARD_COUNT]
  by (auto simp: is_block_complete_def cached_def slots_of_def has_enough_erasure_shards_def filled_def ERASURE_SHARD_COUNT_def
      split: option.split)

lemma slots_of_peek:
  "lru_peek L (sc_cache sc') h \<in> {None, lru_peek L (sc_cache sc) h} \<Longrightarrow>
    slots_of L sc' h \<in> {replicate ERASURE_TOTAL_SHARD_COUNT None, slots_of L sc h}"
  by (auto simp: slots_of_def)

lemma cache_shred_slots:
  assumes "lru_contract (ve_lru E)"
  shows "s_block_hash s = h \<Longrightarrow> manager_slots E h (snd (cache_shred E s v))
      = (if fst (cache_shred E s v) then (manager_slots E h v)[s_index s := Some s] else manager_slots E h v)"
    and "s_block_hash s \<noteq> h \<Longrightarrow> manager_slots E h (snd (cache_shred E s v))
      \<in> {replicate ERASURE_TOTAL_SHARD_COUNT None, manager_slots E h v}"
    and "fst (cache_shred E s v) \<Longrightarrow> s_block_hash s = h \<Longrightarrow> s_index s < length (manager_slots E h v) \<and> manager_slots E h v ! s_index s = None"
proof -
  consider (refused) sc' where "add_shred (ve_crypto E) (ve_lru E) s (vm_cache v) = (False, sc')"
      "slots_of (ve_lru E) sc' (s_block_hash s) = manager_slots E (s_block_hash s) v"
      "\<And>h. h \<noteq> s_block_hash s \<Longrightarrow> lru_peek (ve_lru E) (sc_cache sc') h \<in> {None, lru_peek (ve_lru E) (sc_cache (vm_cache v)) h}"
    | (added) sc' where "add_shred (ve_crypto E) (ve_lru E) s (vm_cache v) = (True, sc')"
      "s_index s < length (manager_slots E (s_block_hash s) v)" "manager_slots E (s_block_hash s) v ! s_index s = None"
      "lru_peek (ve_lru E) (sc_cache sc') (s_block_hash s) = Some ((manager_slots E (s_block_hash s) v)[s_index s := Some s])"
      "\<And>h. h \<noteq> s_block_hash s \<Longrightarrow> lru_peek (ve_lru E) (sc_cache sc') h \<in> {None, lru_peek (ve_lru E) (sc_cache (vm_cache v)) h}"
    by (rule add_shred_cases[OF assms]) blast+
  note cases = this
  show "manager_slots E h (snd (cache_shred E s v))
      = (if fst (cache_shred E s v) then (manager_slots E h v)[s_index s := Some s] else manager_slots E h v)" if "s_block_hash s = h"
    using that by (cases rule: cases) (auto simp: cache_shred_def slots_of_def)
  show "manager_slots E h (snd (cache_shred E s v)) \<in> {replicate ERASURE_TOTAL_SHARD_COUNT None, manager_slots E h v}"
    if "s_block_hash s \<noteq> h"
  proof (rule slots_of_peek)
    show "lru_peek (ve_lru E) (sc_cache (vm_cache (snd (cache_shred E s v)))) h \<in> {None, lru_peek (ve_lru E) (sc_cache (vm_cache v)) h}"
      using that by (cases rule: cases) (simp_all add: cache_shred_def)
  qed
  show "s_index s < length (manager_slots E h v) \<and> manager_slots E h v ! s_index s = None"
    if "fst (cache_shred E s v)" "s_block_hash s = h"
    using that by (cases rule: cases) (auto simp: cache_shred_def)
qed

lemma cache_shred_honest:
  assumes "lru_contract (ve_lru E)" "honest_shred h H s" "length H = ERASURE_TOTAL_SHARD_COUNT" "slots_honest H (manager_slots E h v)"
  shows "slots_honest H (manager_slots E h (snd (cache_shred E s v)))"
proof (cases "s_block_hash s = h")
  case True
  then show ?thesis
    using cache_shred_slots(1,3)[OF assms(1), where s = s and h = h and v = v] assms(2-4)
    by (auto simp: slots_honest_def honest_shred_def nth_list_update)
next
  case False
  then show ?thesis using cache_shred_slots(2)[OF assms(1) False, of v] assms(4) slots_honest_none by auto
qed

lemma cache_all_honest:
  assumes "lru_contract (ve_lru E)" "\<forall>s \<in> set shreds. honest_shred h H s" "length H = ERASURE_TOTAL_SHARD_COUNT"
    "slots_honest H (manager_slots E h v)"
  shows "slots_honest H (manager_slots E h (fold (\<lambda>s v. snd (cache_shred E s v)) shreds v))"
  using assms(2,4) by (induction shreds arbitrary: v) (auto intro: cache_shred_honest[OF assms(1) _ assms(3)])

lemma cache_all_filled:
  assumes "lru_contract (ve_lru E)" "\<forall>s \<in> set shreds. s_block_hash s = h"
  shows "filled (manager_slots E h (fold (\<lambda>s v. snd (cache_shred E s v)) shreds v)) = filled (manager_slots E h v) + accepted E shreds v"
  using assms(2)
proof (induction shreds arbitrary: v)
  case (Cons s shreds)
  then have "filled (manager_slots E h (snd (cache_shred E s v))) = (if fst (cache_shred E s v) then Suc else id) (filled (manager_slots E h v))"
    using cache_shred_slots(1,3)[OF assms(1), where s = s and h = h and v = v] by (auto simp: filled_update)
  with Cons show ?case by simp
qed simp

end
