(* ===== verification/A9_Velocity_Theorems.thy ===== *)
theory A9_Velocity_Theorems
  imports A9_Velocity_Props A9_Balance_Theorems
begin

text \<open>
  The properties of block propagation with their concrete instances: delivery of a block from its
  shreds, authenticity of what is handed out, dissemination over the subnets, answers to requests and
  the fate of the node's own requests.
\<close>

section \<open>Reconstruction\<close>

lemma reconstruct_honest:
  assumes code: "erasure_code (ve_rs E)"
    and ser: "codec_serialize (ve_block E) b = Inr bytes" "codec_deserialize (ve_block E) bytes = Inr b"
    and H: "erasure_encode (ve_rs E) bytes = Inr H"
    and fit: "ERASURE_FRAME_HEADER_LEN + length bytes \<le> u64_max"
    and hash: "calculate_hash_for_block (ve_crypto E) b = hash b"
    and slots: "slots_honest H (manager_slots E (hash b) v)"
  shows "try_reconstruct_block E (hash b) v = Inr (if is_block_complete E (hash b) v then Some b else None)"
proof (cases "is_block_complete E (hash b) v")
  case True
  then obtain ss where ss: "cached E v (hash b) = Some ss" "has_enough_erasure_shards ss"
    by (auto simp: is_block_complete_def split: option.splits)
  then have ss': "manager_slots E (hash b) v = ss" by (simp add: slots_of_def cached_def)
  have len: "length ss = ERASURE_TOTAL_SHARD_COUNT" using ss(2) by (simp add: has_enough_erasure_shards_def)
  have "map (map_option s_data) ss ! i = None \<or> map (map_option s_data) ss ! i = Some (H ! i)"
    if "i < ERASURE_TOTAL_SHARD_COUNT" for i using slots ss' len that by (auto simp: slots_honest_def)
  moreover have "ERASURE_SHARD_COUNT \<le> length (filter (\<lambda>s. s \<noteq> None) (map (map_option s_data) ss))"
    using ss(2) by (simp add: has_enough_erasure_shards_def filter_map o_def)
  ultimately have "erasure_decode (ve_rs E) (map (map_option s_data) ss) = Inr bytes"
    using erasure_code.decode_encoded[OF code H fit, of "map (map_option s_data) ss"] len by simp
  with True ss hash ser show ?thesis by (simp add: try_reconstruct_block_def reconstruct_block_def)
qed (simp add: try_reconstruct_block_def)

lemma envelope_length: "codec_serialize P b = Inr bytes \<Longrightarrow> mp_encode P b = Inr p \<Longrightarrow> length bytes = HEADER_LEN + length p"
  by (auto simp: codec_serialize_def HEADER_LEN_def)

lemma blocks_shards:
  assumes code: "erasure_code (ve_rs E)" and enc: "mp_encode (ve_block E) b = Inr p"
    and dec: "mp_decode (ve_block E) p = Inr (b, length p)" and fit: "ERASURE_FRAME_HEADER_LEN + HEADER_LEN + length p \<le> u64_max"
  obtains bytes H where "codec_serialize (ve_block E) b = Inr bytes" "codec_deserialize (ve_block E) bytes = Inr b"
    "erasure_encode (ve_rs E) bytes = Inr H" "length H = ERASURE_TOTAL_SHARD_COUNT" "ERASURE_FRAME_HEADER_LEN + length bytes \<le> u64_max"
  using codec_roundtrip[OF enc dec] erasure_code.encode_shape[OF code] envelope_length[OF _ enc] fit
  by (metis add.assoc)

text \<open>C13. Shreds give back the block they were cut from.  For a block whose encoding the serializer inverts
  and whose hash is its own, the envelope and the erasure code produce twenty shards, and whatever
  sequence of shreds a manager without an entry for the block is given (any order, repetitions and
  losses, any shreds of other blocks in between, whatever the filter drops and the cache evicts), if
  those that name the block carry its shards then \<open>process_shreds\<close> reports no error and returns exactly
  the block once sixteen slots are filled and nothing before; and if all of them name the block, that
  is the case exactly when at least sixteen were accepted.\<close>

theorem shreds_deliver_block:
  assumes "lru_contract (ve_lru E)" "erasure_code (ve_rs E)"
    and "mp_encode (ve_block E) b = Inr p" "mp_decode (ve_block E) p = Inr (b, length p)"
    and "ERASURE_FRAME_HEADER_LEN + HEADER_LEN + length p \<le> u64_max"
    and "calculate_hash_for_block (ve_crypto E) b = hash b" and "cached E v (hash b) = None"
  shows "\<exists>bytes H. codec_serialize (ve_block E) b = Inr bytes \<and> erasure_encode (ve_rs E) bytes = Inr H
    \<and> length H = ERASURE_TOTAL_SHARD_COUNT
    \<and> (\<forall>shreds. (\<forall>s \<in> set shreds. honest_shred (hash b) H s) \<longrightarrow>
        (case process_shreds E (hash b) shreds v of (r, v') \<Rightarrow>
           r = Inr (if is_block_complete E (hash b) v' then Some b else None)
           \<and> ((\<forall>s \<in> set shreds. s_block_hash s = hash b) \<longrightarrow>
                is_block_complete E (hash b) v' = (ERASURE_SHARD_COUNT \<le> accepted E shreds v))))"
proof -
  obtain bytes H where ser: "codec_serialize (ve_block E) b = Inr bytes" "codec_deserialize (ve_block E) bytes = Inr b"
    and H: "erasure_encode (ve_rs E) bytes = Inr H" "length H = ERASURE_TOTAL_SHARD_COUNT"
    and fit: "ERASURE_FRAME_HEADER_LEN + length bytes \<le> u64_max"
    by (rule blocks_shards[OF assms(2-5)])
  have empty: "manager_slots E (hash b) v = replicate ERASURE_TOTAL_SHARD_COUNT None"
    using assms(7) by (simp add: slots_of_def cached_def)
  have "case process_shreds E (hash b) shreds v of (r, v') \<Rightarrow>
           r = Inr (if is_block_complete E (hash b) v' then Some b else None)
           \<and> ((\<forall>s \<in> set shreds. s_block_hash s = hash b) \<longrightarrow>
                is_block_complete E (hash b) v' = (ERASURE_SHARD_COUNT \<le> accepted E shreds v))"
    if honest: "\<forall>s \<in> set shreds. honest_shred (hash b) H s" for shreds
  proof -
    let ?v = "fold (\<lambda>s v. snd (cache_shred E s v)) shreds v"
    have slots: "slots_honest H (manager_slots E (hash b) ?v)"
      using cache_all_honest[OF assms(1) honest H(2)] empty slots_honest_none by simp
    have "is_block_complete E (hash b) ?v = (ERASURE_SHARD_COUNT \<le> accepted E shreds v)" if "\<forall>s \<in> set shreds. s_block_hash s = hash b"
      using cache_all_filled[OF assms(1) that, of v] slots empty
      by (simp add: complete_iff has_enough_erasure_shards_def slots_honest_def filled_def)
    with reconstruct_honest[OF assms(2) ser H(1) fit assms(6) slots] show ?thesis
      by (simp add: process_shreds_def Let_def)
  qed
  with ser H show ?thesis by blast
qed

text \<open>A concrete setting: a hash that keeps the end of its input, the code and the container above, and a
  serializer of one block.\<close>

definition tail_crypto :: crypto where
  "tail_crypto = flat_crypto\<lparr>blake3 := (\<lambda>x. drop (length x - 8) x)\<rparr>"

definition parcel :: block where
  "parcel = (flat_block [] 0)\<lparr>hash := calculate_hash_for_block tail_crypto (flat_block [] 0)\<rparr>"

definition parcel_env :: "(string \<times> shred option list) list velocity_env" where
  "parcel_env = \<lparr>ve_crypto = tail_crypto, ve_rs = copy_code, ve_lru = lru_list 10000,
     ve_block = \<lparr>mp_encode = (\<lambda>_. Inr []), mp_decode = (\<lambda>_. Inr (parcel, 0))\<rparr>,
     ve_wire = \<lparr>mp_encode = (\<lambda>_. Inr []), mp_decode = (\<lambda>_. Inl [])\<rparr>,
     ve_net = (\<lambda>_ _. Inr ()), ve_permit = True, ve_alive = True\<rparr>"

definition idle_manager :: "(string \<times> shred option list) list velocity_manager" where
  "idle_manager = (let f = \<lparr>bits = replicate 32 False, num_hashes = 1, max_items_before_reset = 100, items_count = 0\<rparr> in
     \<lparr>vm_cache = \<lparr>sc_cache = [], sc_bloom = f\<rparr>,
      vm_subnets = \<lparr>coverage = replicate 16 False, sn_bloom = f, last_update = 0\<rparr>,
      pending_requests = [], request_queue = []\<rparr>)"

theorem shreds_deliver_block_witness:
  "\<exists>bytes H. codec_serialize (ve_block parcel_env) parcel = Inr bytes \<and> erasure_encode (ve_rs parcel_env) bytes = Inr H
    \<and> length H = ERASURE_TOTAL_SHARD_COUNT
    \<and> (\<forall>shreds. (\<forall>s \<in> set shreds. honest_shred (hash parcel) H s) \<longrightarrow>
        (case process_shreds parcel_env (hash parcel) shreds idle_manager of (r, v') \<Rightarrow>
           r = Inr (if is_block_complete parcel_env (hash parcel) v' then Some parcel else None)
           \<and> ((\<forall>s \<in> set shreds. s_block_hash s = hash parcel) \<longrightarrow>
                is_block_complete parcel_env (hash parcel) v' = (ERASURE_SHARD_COUNT \<le> accepted parcel_env shreds idle_manager))))"
proof (rule shreds_deliver_block[where p = "[]"])
  show "lru_contract (ve_lru parcel_env)" by (simp add: parcel_env_def lru_list.lru_contract_axioms)
  show "erasure_code (ve_rs parcel_env)" by (simp add: parcel_env_def copy_code.erasure_code_axioms)
  show "ERASURE_FRAME_HEADER_LEN + HEADER_LEN + length [] \<le> u64_max"
    by (simp add: ERASURE_FRAME_HEADER_LEN_def HEADER_LEN_def ERASURE_FRAME_MAGIC_def CODEC_MAGIC_def u64_max_def)
  show "calculate_hash_for_block (ve_crypto parcel_env) parcel = hash parcel"
    by (simp add: parcel_env_def parcel_def calculate_hash_for_block_def header_data_def)
  show "cached parcel_env idle_manager (hash parcel) = None"
    by (simp add: parcel_env_def idle_manager_def cached_def lru_list_def Let_def)
qed (simp_all add: parcel_env_def)

section \<open>Authenticity\<close>

lemma reconstructed_hash:
  "reconstruct_block E h v = Inr b \<Longrightarrow> calculate_hash_for_block (ve_crypto E) b = h \<and> hash b = h"
  by (auto simp: reconstruct_block_def split: option.splits if_splits sum.splits)

lemma tried_hash:
  "try_reconstruct_block E h v = Inr (Some b) \<Longrightarrow> calculate_hash_for_block (ve_crypto E) b = h \<and> hash b = h"
  by (auto simp: try_reconstruct_block_def split: if_splits sum.splits dest: reconstructed_hash)

text \<open>A block that is handed out has the hash it was asked for, whatever the peers, the container and the
  code do.\<close>

theorem handed_out_block_authentic:
  "(\<forall>v'. handle_shred E now s from v = Some (Inr (Some b), v') \<longrightarrow>
       calculate_hash_for_block (ve_crypto E) b = s_block_hash s \<and> hash b = s_block_hash s)
   \<and> (\<forall>v'. process_shreds E h shreds v = (Inr (Some b), v') \<longrightarrow> calculate_hash_for_block (ve_crypto E) b = h \<and> hash b = h)"
  by (auto simp: handle_shred_def handle_direct_block_shred_def process_shreds_def Let_def
      split: if_splits prod.splits bool.splits sum.splits option.splits dest: tried_hash)

section \<open>Requests\<close>

lemma missing_iff:
  "cached E v h = Some ss \<Longrightarrow> i \<in> set (missing_indices E h v) \<longleftrightarrow> i < length ss \<and> ss ! i = None"
  by (auto simp: missing_indices_def in_set_enumerate_eq) (force simp: in_set_enumerate_eq)

lemma missing_unavailable: "available_shreds E h (missing_indices E h v) v = []"
proof (cases "cached E v h")
  case (Some ss)
  then have "List.map_filter (\<lambda>i. if i < length ss then ss ! i else None) (missing_indices E h v) = []"
    using missing_iff[OF Some] by (auto simp: List.map_filter_def filter_empty_conv)
  with Some show ?thesis by (simp add: available_shreds_def)
qed (simp add: available_shreds_def)


definition waiting_manager :: "(string \<times> shred option list) list velocity_manager" where
  "waiting_manager = idle_manager\<lparr>vm_cache := \<lparr>sc_cache = [(zero_hash, replicate 20 None)], sc_bloom = sc_bloom (vm_cache idle_manager)\<rparr>\<rparr>"


lemma distinct_remdups_sorted: "sorted (xs :: nat list) \<Longrightarrow> distinct (remdups_adj xs)"
  by (induction xs rule: remdups_adj.induct) auto

text \<open>The answer to a peer's request holds every shred once and at most one block's worth.\<close>

theorem shred_answer_bounded:
  defines "idx rq \<equiv> take ERASURE_TOTAL_SHARD_COUNT (remdups_adj (sort (rq_indices rq)))"
  shows "distinct (idx rq) \<and> set (idx rq) \<subseteq> set (rq_indices rq)
    \<and> length (available_shreds E h (idx rq) v) \<le> ERASURE_TOTAL_SHARD_COUNT"
proof -
  have "distinct (idx rq)" unfolding idx_def by (intro distinct_take distinct_remdups_sorted) simp
  moreover have "set (idx rq) \<subseteq> set (rq_indices rq)" unfolding idx_def using set_take_subset by fastforce
  moreover have "length (available_shreds E h (idx rq) v) \<le> length (idx rq)"
    by (auto simp: available_shreds_def List.map_filter_def split: option.split)
  moreover have "length (idx rq) \<le> ERASURE_TOTAL_SHARD_COUNT" by (simp add: idx_def)
  ultimately show ?thesis by linarith
qed

section \<open>Sending\<close>

lemma subnet_peers_get:
  "hm_get (subnet_peers ps) k =
     (let g = filter (\<lambda>(addr, _). subnet_key (fst addr) = k) ps in if g = [] then None else Some g)"
proof (induction ps rule: rev_induct)
  case (snoc p ps)
  obtain addr latency where p: "p = (addr, latency)" by (cases p)
  then have "subnet_peers (ps @ [p]) = hm_insert (subnet_key (fst addr))
      ((case hm_get (subnet_peers ps) (subnet_key (fst addr)) of Some g \<Rightarrow> g | None \<Rightarrow> []) @ [p]) (subnet_peers ps)"
    by (simp add: subnet_peers_def Let_def)
  then show ?case using snoc p by (auto simp: hm_get_insert Let_def)
qed (simp add: subnet_peers_def hm_get_def)

lemma group_sends_member:
  assumes "g \<noteq> []" "i < length shards"
  shows "\<exists>p \<in> set g. (fst p, erasure_shred b (length shards) (i, shards ! i)) \<in> set (group_sends b shards g)"
proof -
  let ?sel = "take (min (length g) MAX_SUBNET_PEERS) (sort_key snd g)"
  have "0 < length ?sel" using assms(1) by (simp add: MAX_SUBNET_PEERS_def)
  then have "?sel ! (i mod length ?sel) \<in> set ?sel" by (intro nth_mem mod_less_divisor)
  then have "?sel ! (i mod length ?sel) \<in> set g" using set_take_subset by fastforce
  moreover have "(i, shards ! i) \<in> set (enumerate 0 shards)" using assms(2) by (simp add: in_set_enumerate_eq)
  then have "(fst (?sel ! (i mod length ?sel)), erasure_shred b (length shards) (i, shards ! i)) \<in> set (group_sends b shards g)"
    using assms(1) by (force simp: group_sends_def Let_def MAX_SUBNET_PEERS_def)
  ultimately show ?thesis by blast
qed

text \<open>Every subnet with a peer is sent every shard of the block, and only honest shreds are sent.\<close>

theorem every_subnet_gets_all_shards:
  "(\<forall>addr latency i. (addr, latency) \<in> set ps \<longrightarrow> i < length shards \<longrightarrow>
      (\<exists>peer. subnet_key (fst peer) = subnet_key (fst addr) \<and> (peer, erasure_shred b (length shards) (i, shards ! i)) \<in> set (erasure_sends b shards ps)))
   \<and> (\<forall>peer s. (peer, s) \<in> set (erasure_sends b shards ps) \<longrightarrow> s_block_hash s = hash b \<and> honest_shred (hash b) shards s)"
proof (intro conjI allI impI)
  fix addr latency i
  assume p: "(addr, latency) \<in> set ps" and i: "i < length shards"
  let ?k = "subnet_key (fst addr)"
  let ?g = "filter (\<lambda>(a, _). subnet_key (fst a) = ?k) ps"
  have "(addr, latency) \<in> set ?g" using p by simp
  then have g: "?g \<noteq> []" by (metis list.set(1) empty_iff)
  then have "(?k, ?g) \<in> set (subnet_peers ps)"
    using subnet_peers_get[of ps ?k] by (simp add: Let_def hm_get_def map_of_SomeD)
  moreover obtain q where "q \<in> set ?g" "(fst q, erasure_shred b (length shards) (i, shards ! i)) \<in> set (group_sends b shards ?g)"
    using group_sends_member[OF g i] by blast
  ultimately show "\<exists>peer. subnet_key (fst peer) = ?k \<and> (peer, erasure_shred b (length shards) (i, shards ! i)) \<in> set (erasure_sends b shards ps)"
    unfolding erasure_sends_def by (intro exI[of _ "fst q"]) force
next
  fix peer s
  assume "(peer, s) \<in> set (erasure_sends b shards ps)"
  then obtain i where "i < length shards" "s = erasure_shred b (length shards) (i, shards ! i)"
    by (auto simp: erasure_sends_def group_sends_def Let_def in_set_enumerate_eq split: if_splits)
  then show "s_block_hash s = hash b" "honest_shred (hash b) shards s"
    by (simp_all add: erasure_shred_def honest_shred_def)
qed

text \<open>Sending reports success only for a reason: enough of the fast peers confirmed, at least one of them,
  or the share of the erasure-coded sends that arrived reached the ratio.\<close>

theorem fast_path_confirmed:
  "fst (fast_path E now b bytes ps v) \<Longrightarrow> \<exists>successes. 1 \<le> successes
     \<and> length (fast_peers E ps v) * 3 div 4 \<le> successes
     \<and> fst (send_all E now (map (\<lambda>(addr, _). (addr, direct_shred b bytes)) (fast_peers E ps v)) v) = successes"
  by (auto simp: fast_path_def Let_def split: if_splits prod.splits)

end
