(* ===== verification/Spec2Isabelle.thy ===== *)
theory Spec2Isabelle
  imports A9_Ledger_Props A9_Ledger_Capacity A9_Ledger_Codec A9_Mempool_Props A9_Balance_Theorems A9_Rules_Theorems A9_Fee_Estimate A9_Apply_Window_Theorems A9_Store_Theorems A9_Admission_Theorems A9_Reorg_Theorems A9_Velocity_Theorems
begin

text \<open>
  Verification of the Alphanumeric wallet and node (\<^verbatim>\<open>src/\<close>).

  \<^bold>\<open>The program.\<close>  A node keeps a proof-of-work chain of signed payments between addresses, and
  a desktop wallet sends payments through it.  A payment is built and signed by the wallet
  (\<^verbatim>\<open>gui/src/tx.rs\<close>), recorded in a local ledger so that a retry is not a second payment
  (\<^verbatim>\<open>src/a9/ledger.rs\<close>), admitted to the mempool (\<^verbatim>\<open>src/a9/mempool.rs\<close>), selected into a
  block template, mined, validated and applied to the confirmed balances, and finally remembered in
  a registry that stops it from being mined again (\<^verbatim>\<open>src/a9/blockchain.rs\<close>).  Competing
  branches are compared by work.  Everything durable lives in the trees of an embedded ordered store
  (\<^verbatim>\<open>src/a9/store.rs\<close>); a marker that is durable before every change of the chain lets a
  restart rebuild what a crash left half done.

  \<^bold>\<open>Theories and sources.\<close>

  \<^item> \<^verbatim>\<open>A9_Prelude\<close>: fixed-width arithmetic (\<open>u64\<close>, \<open>u32\<close> and \<open>usize\<close> as \<open>nat\<close>, \<open>i128\<close> as \<open>int\<close>, with
    saturation, checks and wrap-around written out), \<open>Result\<close> as a sum, \<open>HashMap\<close> as an
    association list, and the locales \<open>keyed_map\<close>, \<open>fallible_step\<close> and \<open>additive_undo\<close>.
  \<^item> \<^verbatim>\<open>A9_Ledger\<close> and its companions: the ledger of sent payments.  State: \<open>inner\<close> (entries,
    index by transaction, last timestamps, reservations, log file); operations: \<open>open_ledger\<close>,
    \<open>allocate_timestamp\<close>, \<open>check_submission\<close>, \<open>record_payment\<close>, \<open>release_reservation\<close>,
    \<open>update_state\<close>, \<open>prune\<close>, the log with its compaction and its reading.  \<^verbatim>\<open>_Inv\<close> has the
    invariant, \<^verbatim>\<open>_Spec\<close> the answer a submission check promises and the step relation,
    \<^verbatim>\<open>_Durable\<close> the refinement from memory to log, \<^verbatim>\<open>_Capacity\<close> the limits, \<^verbatim>\<open>_Codec\<close> a
    concrete line format that meets the assumptions on the JSON library, \<^verbatim>\<open>_Props\<close> the
    theorems.
  \<^item> \<^verbatim>\<open>A9_Money\<close>, \<^verbatim>\<open>A9_Transaction\<close>: amounts as \<open>f64\<close> (as rationals with the rounding of IEEE 754
    written out) and as integer units, transactions, their ids, the text that is signed.
  \<^item> \<^verbatim>\<open>A9_Block\<close>: header hash, targets, retarget, Merkle root, system transactions and the
    sliding-window rate limiter.
  \<^item> \<^verbatim>\<open>A9_Mempool\<close>, \<^verbatim>\<open>A9_Selection\<close>, \<^verbatim>\<open>A9_Mempool_Inv\<close>, \<^verbatim>\<open>A9_Mempool_Props\<close>: admission, eviction,
    expiry, lookup and selection by fee rate with nonce order per sender.
  \<^item> \<^verbatim>\<open>A9_Balances\<close>, \<^verbatim>\<open>A9_Balances_Props\<close>, \<^verbatim>\<open>A9_Balance_Index\<close>, \<^verbatim>\<open>A9_Balance_Theorems\<close>: replaying and
    reverting blocks, the balances index (rebuild, catch-up, ensure), the fork state of a
    reorganisation, the maturity overlays.
  \<^item> \<^verbatim>\<open>A9_Reward\<close> and companions: the reward curves, the coinbase rule and the fee totals of the
    template packer.
  \<^item> \<^verbatim>\<open>A9_Rules\<close> and companions: block validation in both signature modes, the rules for a mined
    block, the signature cache, the stored form of a block.
  \<^item> \<^verbatim>\<open>A9_Fee_Estimate\<close>: the walk that prices the next block.
  \<^item> \<^verbatim>\<open>A9_Registry\<close> and companions: the registry of confirmed transactions and its two guards.
  \<^item> \<^verbatim>\<open>A9_Fork_Choice\<close>, \<^verbatim>\<open>A9_Fork_Choice_Props\<close>: work of branches, the verdict on an outside branch, the
    branches of the orphan pool and the order in which they are tried.
  \<^item> \<^verbatim>\<open>A9_Store\<close>, \<^verbatim>\<open>A9_Store_Props\<close>, \<^verbatim>\<open>A9_Store_Theorems\<close>: trees, batches, durability and the lazy
    scans; the engine is a record of functions with the locale \<open>redb_contract\<close> as its documented
    behaviour, interpreted on the association lists that model a tree elsewhere.
  \<^item> \<^verbatim>\<open>A9_Apply_Window\<close>, \<^verbatim>\<open>A9_Apply_Window_Props\<close>, \<^verbatim>\<open>A9_Apply_Window_Theorems\<close>: the dirty marker, the
    catch-up windows and their cancellation, reconcile, recovery and restart, as a step relation
    over the visible and the durable image of the store.
  \<^item> \<^verbatim>\<open>A9_Shards\<close>, \<^verbatim>\<open>A9_Shards_Props\<close>: the envelope of encoded values (\<^verbatim>\<open>src/a9/codec.rs\<close>) and the
    erasure coding of blocks; the Reed-Solomon code is a record of functions with the locale
    \<open>erasure_code\<close>.
  \<^item> \<^verbatim>\<open>A9_Velocity\<close>, \<^verbatim>\<open>A9_Velocity_Props\<close>, \<^verbatim>\<open>A9_Velocity_Theorems\<close>: block propagation by shreds
    (\<^verbatim>\<open>src/a9/velocity.rs\<close>): filter, subnet coverage, cache, reconstruction, requests and sending; the
    container of the cache is a record of functions with the locale \<open>lru_contract\<close>.  A call that never
    returns is \<open>None\<close>.
  \<^item> \<^verbatim>\<open>A9_Node\<close>: the state of \<open>Blockchain\<close> that the operations below share (\<open>node_state\<close>: chain content,
    pending trees, mempool, witnesses, orphans, sentinel, checkpoint), its environment \<open>node_env\<close>, the
    pending payments with their reservations and the reading of balances.
  \<^item> \<^verbatim>\<open>A9_Admission\<close>, \<^verbatim>\<open>A9_Admission_Props\<close>, \<^verbatim>\<open>A9_Admission_Theorems\<close>: \<open>admit_transaction\<close> before and under
    the state lock, as a step relation in which admissions interleave.
  \<^item> \<^verbatim>\<open>A9_Witness\<close>: the full signatures kept for confirmed payments, the trusted checkpoint and the back-off
    of branches that lack witnesses.
  \<^item> \<^verbatim>\<open>A9_Apply\<close>, \<^verbatim>\<open>A9_Apply_Props\<close>, \<^verbatim>\<open>A9_Tip_Props\<close>: orphan pool, chain sentinel, ledger writer, and the
    two ways a block becomes the tip with the promotion of orphans after it.
  \<^item> \<^verbatim>\<open>A9_Reorg\<close>, \<^verbatim>\<open>A9_Reorg_Props\<close>: the gates and the writes of an adoption, its attempts, and the entry
    points \<open>save_block\<close>, \<open>save_receipt_verified_block\<close> and \<open>adopt_external_branch\<close>.
  \<^item> \<^verbatim>\<open>A9_Sample_Chain\<close>, \<^verbatim>\<open>A9_Tip_Theorems\<close>, \<^verbatim>\<open>A9_Reorg_Theorems\<close>: a node that stands on the launch block, blocks
    that extend it and compete, and the theorems on the ledger writer, tip extension and reorganisation.

  \<^bold>\<open>What is shown.\<close>  The ledger keeps its indexes in step along every run, answers a retry with the
  payment it already has, never hands out a timestamp twice for one payment text, never drops an
  unsettled payment and recovers its state from the log after a crash (C1, C2, C5 to C8).  Amounts,
  ids and messages are faithful, and the wallet signs what the node verifies (C9 to C11).  Headers,
  retargeting and Merkle roots are what they commit to (C14, C16).  The mempool's
  counters and indexes agree, admission is all or nothing and templates respect every limit (C18,
  C19, C21).  Replaying is solvent and conserves the supply, reverting is its inverse, and the
  index gives the values of the replay (C22 to C24).  Rewards stay
  within the schedule (C28, C30).  A mined block applies, the signature cache is
  transparent where addresses are canonical and the stored form revalidates (C33 to C36).  Fee
  estimates stay within their bounds (C37).  No payment is confirmed twice along a chain of
  extensions, and the reorganisation guard is weaker than that (C38, C39).  Fork choice is a strict
  order and the orphan scan agrees with it (C40, C20).  The store refines a family of maps with a
  visible and a durable copy, and its scans are exact on a table that stands still (C3, C12).  A store without a dirty marker has a derived state that belongs
  to its chain, in memory and on disk, and a restart heals (C17, C4).
  Shreds give back the block they were cut from, whatever is lost, repeated or mixed in (C13), while the
  shreds a node is missing are never asked for (C31).
  However admissions interleave, pending payments stay covered by their senders' balances (C27), until a
  block confirms a payment that was not pending here (C29).
  The ledger writer decides and writes what the replay does (C26); a block that becomes the tip, with the
  orphans it promotes (C15), and a reorganisation that ends no earlier than the old tip (C25) leave tip,
  balances and registry in step with the stored chain.  A reorganisation to an earlier time can reopen a
  replay, because what the abandoned tip pruned is not restored (C32).

  \<^bold>\<open>Bounds and fuel.\<close>  No definition uses fuel: loops are structural recursion or \<open>function\<close>s
  with a measure (the Merkle climb by the number of hashes, the branch collection by a
  weighted stack, the selection by the entries left, the prefix bound by its length).  Amounts are
  exact up to \<open>2 ^ 50\<close> units in \<open>f64\<close>; heights are below \<open>2 ^ 32\<close>, times below \<open>2 ^ 64\<close>, money fits \<open>i128\<close>.
  Where a theorem needs such a bound it is a premise.

  \<^bold>\<open>Parameters.\<close>  SHA-256, BLAKE3, hex and the ML-DSA check are fields of a record of functions; what
  a theorem relies on (no collision among the inputs at hand, hex is faithful) is a premise or
  an explicit alternative of the conclusion.  The JSON library of the ledger, the storage engine and
  the outcome of every write, flush and read are parameters too.

  \<^bold>\<open>Not modelled.\<close>  Network transport and its tasks (\<^verbatim>\<open>src/a9/node.rs\<close>, \<^verbatim>\<open>webrtc.rs\<close>), the command
  line, the HTTP handlers and the console, GPU and CPU search loops, the bindings of the cryptographic
  libraries, and the desktop views: they do I/O around the components above or call libraries whose
  code is not part of the repository.  Locks are not modelled where the code holds one lock across an
  operation; where it does not (the cancellation of a window) the interleaving is part of the model.
\<close>

end
